(* ===== verification/Paths.thy ===== *)
theory Paths
  imports Prelude
begin

text \<open>
  Paths. The first part models the Unix \<open>std::path\<close> functions the crate uses on raw path
  strings: \<open>components\<close>, \<open>PathBuf::join\<close>, \<open>parent\<close>, \<open>starts_with\<close>, \<open>strip_prefix\<close>. Two
  \<open>PathBuf\<close>s are equal when their components are. The second part is \<open>files/paths.rs\<close>: the typed
  \<open>Path<FilePath>\<close> and \<open>Path<FolderPath>\<close> with their constructors and navigation, and the
  adapters of \<open>files/adapters/file_paths.rs\<close>.
\<close>

named_theorems path_simps \<open>components of the results of path operations\<close>

section \<open>The standard library's paths\<close>

datatype path_component = RootDir | CurDir | ParentDir | Normal string

abbreviation sep :: char where "sep \<equiv> CHR ''/''"

definition has_root :: "string \<Rightarrow> bool" where
  "has_root p = (case p of [] \<Rightarrow> False | c # _ \<Rightarrow> c = sep)"

text \<open>A leading \<open>.\<close> of a relative path is a component of its own (\<open>include_cur_dir\<close>).\<close>

definition lead_cur :: "string \<Rightarrow> bool" where
  "lead_cur p = (hd (split_on sep p) = ''.'')"

text \<open>Empty pieces (repeated separators) and any other \<open>.\<close> are no components.\<close>

definition skip_piece :: "string \<Rightarrow> bool" where
  "skip_piece q \<longleftrightarrow> q = [] \<or> q = ''.''"

definition piece_component :: "string \<Rightarrow> path_component" where
  "piece_component q = (if q = ''..'' then ParentDir else Normal q)"

definition real_pieces :: "string \<Rightarrow> string list" where
  "real_pieces p = filter (\<lambda>q. \<not> skip_piece q) (split_on sep p)"

definition head_components :: "string \<Rightarrow> path_component list" where
  "head_components p =
     (if has_root p then [RootDir] else if lead_cur p then [CurDir] else [])"

definition components :: "string \<Rightarrow> path_component list" where
  "components p = head_components p @ map piece_component (real_pieces p)"

text \<open>\<open>PathBuf::join\<close> (\<open>push\<close> on a copy): an absolute argument replaces, a separator is
  inserted only when the left side does not end in one.\<close>

definition push :: "string \<Rightarrow> string \<Rightarrow> string" where
  "push a b =
     (if has_root b then b
      else if a = [] \<or> last a = sep then a @ b
      else a @ sep # b)"

text \<open>\<open>Path::starts_with\<close>: whole components only.\<close>

definition starts_with :: "string \<Rightarrow> string \<Rightarrow> bool" where
  "starts_with p base = prefix (components base) (components p)"

text \<open>
  \<open>Components::as_path\<close> trims skipped pieces at the ends that have been consumed. The first
  byte (the root, or the leading dot) is kept apart from the body.
\<close>

definition lead_len :: "string \<Rightarrow> nat" where
  "lead_len p = (if has_root p \<or> lead_cur p then 1 else 0)"

definition body_pieces :: "string \<Rightarrow> string list" where
  "body_pieces p = split_on sep (drop (lead_len p) p)"

definition trim_right :: "string list \<Rightarrow> string list" where
  "trim_right ps = rev (dropWhile skip_piece (rev ps))"

definition trim_left :: "string list \<Rightarrow> string list" where
  "trim_left = dropWhile skip_piece"

text \<open>\<open>Path::parent\<close>: all but the last component, if that is not the root.\<close>

definition parent :: "string \<Rightarrow> string option" where
  "parent p =
     (let ps = trim_right (body_pieces p) in
      if ps \<noteq> [] then Some (take (lead_len p) p @ join_on sep (trim_right (butlast ps)))
      else if lead_cur p then Some []
      else None)"

fun drop_real :: "nat \<Rightarrow> string list \<Rightarrow> string list" where
  "drop_real 0 ps = ps"
| "drop_real (Suc n) [] = []"
| "drop_real (Suc n) (q # ps) = (if skip_piece q then drop_real (Suc n) ps else drop_real n ps)"

text \<open>What is left of the raw string after its first \<open>n\<close> components.\<close>

definition after_components :: "nat \<Rightarrow> string \<Rightarrow> string" where
  "after_components n p =
     (if n = 0 then take (lead_len p) p @ join_on sep (trim_right (body_pieces p))
      else join_on sep (trim_right (trim_left (drop_real (n - lead_len p) (body_pieces p)))))"

definition strip_prefix :: "string \<Rightarrow> string \<Rightarrow> string option" where
  "strip_prefix p base =
     (if starts_with p base then Some (after_components (length (components base)) p) else None)"

subsection \<open>Pieces\<close>

lemma has_root_simps [simp]:
  "\<not> has_root []"
  "has_root (c # s) = (c = sep)"
  by (simp_all add: has_root_def)

lemma has_rootE: "has_root p \<Longrightarrow> (\<And>b. p = sep # b \<Longrightarrow> thesis) \<Longrightarrow> thesis"
  by (cases p) auto

lemma skip_piece_simps [simp]:
  "skip_piece []"
  "skip_piece ''.''"
  "\<not> skip_piece ''..''"
  by (simp_all add: skip_piece_def)

lemma has_root_not_lead_cur: "has_root p \<Longrightarrow> \<not> lead_cur p"
  by (auto elim!: has_rootE simp: lead_cur_def)

lemma hd_split_append: "a \<noteq> [] \<Longrightarrow> last a = sep \<Longrightarrow> hd (split_on sep (a @ b)) = hd (split_on sep a)"
proof -
  assume "a \<noteq> []" and "last a = sep"
  then obtain a' where "a = a' @ [sep]" by (metis append_butlast_last_id)
  then show ?thesis by (simp add: split_on_append)
qed

lemma real_pieces_Cons_sep [simp]: "real_pieces (sep # b) = real_pieces b"
  by (simp add: real_pieces_def)

lemma real_pieces_append: "real_pieces (a @ sep # b) = real_pieces a @ real_pieces b"
  by (simp add: real_pieces_def split_on_append)

lemma real_pieces_Nil [simp]: "real_pieces [] = []"
  by (simp add: real_pieces_def)

lemma lead_cur_Nil [simp]: "\<not> lead_cur []"
  by (simp add: lead_cur_def)

lemma components_Nil [simp, path_simps]: "components [] = []"
  by (simp add: components_def head_components_def)

lemma lead_curE:
  assumes "lead_cur p"
  obtains "p = ''.''" | b where "p = CHR ''.'' # sep # b"
proof -
  from assms have "\<exists>ps. split_on sep p = ''.'' # ps"
    by (cases "split_on sep p") (auto simp: lead_cur_def)
  then obtain ps where "split_on sep p = ''.'' # ps" ..
  then have "p = join_on sep (''.'' # ps)" by (metis join_split)
  with that show thesis by (cases ps) auto
qed

subsection \<open>Joining\<close>

lemma length_head_components: "length (head_components p) = lead_len p"
  by (auto simp: head_components_def lead_len_def)

lemma components_relative:
  "\<not> has_root b \<Longrightarrow> \<not> lead_cur b \<Longrightarrow> components b = map piece_component (real_pieces b)"
  by (simp add: components_def head_components_def)

lemma push_cases:
  obtains (abs) "has_root b" "push a b = b"
  | (empty) "\<not> has_root b" "a = []" "push a b = b"
  | (slash) a' where "\<not> has_root b" "a = a' @ [sep]" "push a b = a' @ sep # b"
  | (join) "\<not> has_root b" "a \<noteq> []" "push a b = a @ sep # b"
proof (cases "has_root b")
  case True
  then show ?thesis by (intro abs) (simp_all add: push_def)
next
  case False
  show ?thesis
  proof (cases "a = []")
    case True
    with False show ?thesis by (intro empty) (simp_all add: push_def)
  next
    case ne: False
    show ?thesis
    proof (cases "last a = sep")
      case True
      with ne have "a = butlast a @ [sep]" by (metis append_butlast_last_id)
      with False ne True show ?thesis
        by (intro slash [of "butlast a"]) (auto simp: push_def)
    next
      case last: False
      with False ne show ?thesis by (intro join) (simp_all add: push_def)
    qed
  qed
qed

lemma real_pieces_snoc_sep: "real_pieces (a @ [sep]) = real_pieces a"
  by (simp add: real_pieces_append)

lemma has_root_append: "a \<noteq> [] \<Longrightarrow> has_root (a @ b) = has_root a"
  by (cases a) auto

lemma head_components_append:
  "a \<noteq> [] \<Longrightarrow> head_components (a @ sep # b) = head_components a"
  by (simp add: head_components_def has_root_append lead_cur_def split_on_append)

lemma head_components_snoc_sep: "a \<noteq> [] \<Longrightarrow> head_components (a @ [sep]) = head_components a"
  using head_components_append [of a "[]"] by simp

lemma components_push [path_simps]:
  "components (push a b) =
     (if has_root b \<or> a = [] then components b
      else components a @ map piece_component (real_pieces b))"
proof (cases rule: push_cases [of b a])
  case (slash a')
  show ?thesis
  proof (cases "a' = []")
    case True
    with slash show ?thesis by (simp add: components_def head_components_def)
  next
    case False
    with slash show ?thesis
      by (simp add: components_def real_pieces_append head_components_append)
  qed
qed (auto simp: components_def real_pieces_append head_components_append)

lemma components_push_rel [path_simps]:
  assumes "\<not> has_root b" and "\<not> lead_cur b"
  shows "components (push a b) = components a @ components b"
  using assms by (simp add: components_push components_relative)

lemma push_Nil [simp]: "push [] b = b"
  by (simp add: push_def)

text \<open>Joining is associative on the raw strings, absolute arguments included.\<close>

lemma push_assoc: "push (push a b) c = push a (push b c)"
proof (cases "has_root b")
  case True
  then show ?thesis by (auto simp: push_def elim!: has_rootE)
next
  case False
  then show ?thesis by (cases "b = []") (auto simp: push_def has_root_append)
qed

subsection \<open>Dropping components at the ends\<close>

lemma filter_trim_right [simp]:
  "filter (\<lambda>q. \<not> skip_piece q) (trim_right ps) = filter (\<lambda>q. \<not> skip_piece q) ps"
  by (simp add: trim_right_def rev_filter [symmetric] filter_dropWhile)

lemma filter_trim_left [simp]:
  "filter (\<lambda>q. \<not> skip_piece q) (trim_left ps) = filter (\<lambda>q. \<not> skip_piece q) ps"
  by (simp add: trim_left_def filter_dropWhile)

lemma filter_drop_real:
  "filter (\<lambda>q. \<not> skip_piece q) (drop_real n ps) = drop n (filter (\<lambda>q. \<not> skip_piece q) ps)"
  by (induction n ps rule: drop_real.induct) auto

lemma trim_right_prefix: "prefix (trim_right ps) ps"
  unfolding trim_right_def prefix_def
  by (metis rev_append rev_rev_ident takeWhile_dropWhile_id)

lemma trim_right_last: "trim_right ps \<noteq> [] \<Longrightarrow> \<not> skip_piece (last (trim_right ps))"
  using hd_dropWhile [of skip_piece "rev ps"] by (auto simp: trim_right_def last_rev)

lemma trim_right_Nil_iff: "trim_right ps = [] \<longleftrightarrow> filter (\<lambda>q. \<not> skip_piece q) ps = []"
  by (auto simp: trim_right_def filter_empty_conv)

lemma trim_left_hd: "trim_left ps \<noteq> [] \<Longrightarrow> \<not> skip_piece (hd (trim_left ps))"
  unfolding trim_left_def by (rule hd_dropWhile)

lemma set_drop_real: "set (drop_real n ps) \<subseteq> set ps"
  by (induction n ps rule: drop_real.induct) auto

lemma body_pieces_free: "q \<in> set (body_pieces p) \<Longrightarrow> sep \<notin> set q"
  by (auto simp: body_pieces_def dest: split_on_pieces_free)

lemma filter_body_pieces:
  "filter (\<lambda>q. \<not> skip_piece q) (body_pieces p) = real_pieces p"
proof (cases "has_root p \<or> lead_cur p")
  case True
  then show ?thesis
    by (auto simp: body_pieces_def real_pieces_def lead_len_def elim!: has_rootE lead_curE)
next
  case False
  then show ?thesis by (simp add: body_pieces_def real_pieces_def lead_len_def)
qed

lemma join_on_plain:
  assumes "\<forall>q \<in> set ps. sep \<notin> set q" and "ps = [] \<or> \<not> skip_piece (hd ps)"
  shows "\<not> has_root (join_on sep ps) \<and> \<not> lead_cur (join_on sep ps)"
proof (cases "ps = []")
  case False
  with assms(1) have sp: "split_on sep (join_on sep ps) = ps" by (simp add: split_join)
  with False assms(2) have "\<not> lead_cur (join_on sep ps)" by (auto simp: lead_cur_def)
  moreover have "\<not> has_root (join_on sep ps)"
    using sp False assms(2) by (auto elim!: has_rootE)
  ultimately show ?thesis by simp
qed simp

lemma components_join_on:
  assumes "\<forall>q \<in> set ps. sep \<notin> set q" and "ps = [] \<or> \<not> skip_piece (hd ps)"
  shows "components (join_on sep ps) = map piece_component (filter (\<lambda>q. \<not> skip_piece q) ps)"
  using join_on_plain [OF assms] split_join [OF _ assms(1)]
  by (cases "ps = []") (simp_all add: components_relative real_pieces_def)

lemma body_pieces_empty_head:
  "body_pieces p = [] # ps \<Longrightarrow> p = [] \<or> has_root p \<or> lead_cur p"
  by (cases p) (auto simp: body_pieces_def lead_len_def split: list.splits if_splits)

lemma components_keep_head:
  assumes "prefix ps (body_pieces p)" and "ps \<noteq> [[]]"
  shows "components (take (lead_len p) p @ join_on sep ps) =
    head_components p @ map piece_component (filter (\<lambda>q. \<not> skip_piece q) ps)"
proof -
  from assms(1) have free: "\<forall>q \<in> set ps. sep \<notin> set q"
    using set_mono_prefix body_pieces_free by blast
  have pieces: "real_pieces (join_on sep ps) = filter (\<lambda>q. \<not> skip_piece q) ps"
    using split_join [OF _ free] by (cases "ps = []") (simp_all add: real_pieces_def)
  consider "has_root p" | "\<not> has_root p" "lead_cur p" | "\<not> has_root p" "\<not> lead_cur p" by blast
  then show ?thesis
  proof cases
    case 1
    then obtain b where "p = sep # b" by (rule has_rootE)
    then show ?thesis
      using pieces by (simp add: components_def head_components_def lead_len_def)
  next
    case 2
    have "\<exists>qs. body_pieces p = [] # qs"
      using 2 by (auto elim!: lead_curE simp: body_pieces_def lead_len_def)
    with assms have cases: "ps = [] \<or> (\<exists>qs. qs \<noteq> [] \<and> ps = [] # qs)"
      by (cases ps) (auto simp: prefix_def)
    have one: "take (lead_len p) p = ''.''"
      using 2 by (auto elim!: lead_curE simp: lead_len_def)
    have "lead_cur (''.'' @ join_on sep ps)"
      using cases by (auto simp: lead_cur_def join_on_Nil_Cons)
    moreover have "real_pieces (''.'' @ join_on sep ps) = real_pieces (join_on sep ps)"
      using cases by (auto simp: join_on_Nil_Cons real_pieces_def)
    ultimately show ?thesis
      using pieces one 2 by (simp add: components_def head_components_def)
  next
    case 3
    have "ps = [] \<or> \<not> skip_piece (hd ps)"
    proof (rule ccontr)
      assume "\<not> ?thesis"
      then obtain q qs where q: "ps = q # qs" "skip_piece q" by (cases ps) auto
      then obtain bs where bs: "body_pieces p = q # bs" using assms(1) by (auto simp: prefix_def)
      with 3 have "q \<noteq> ''.''" by (auto simp: body_pieces_def lead_len_def lead_cur_def)
      with q(2) have "q = []" by (simp add: skip_piece_def)
      with bs 3 have "p = []" using body_pieces_empty_head by auto
      with bs q(1) assms show False
        by (auto simp: body_pieces_def lead_len_def prefix_def)
    qed
    with free have "components (join_on sep ps) =
        map piece_component (filter (\<lambda>q. \<not> skip_piece q) ps)"
      by (rule components_join_on)
    with 3 show ?thesis by (simp add: lead_len_def head_components_def)
  qed
qed

lemma trim_right_not_blank: "trim_right ps \<noteq> [[]]"
  using trim_right_last [of ps] by fastforce

text \<open>The parent has all components but the last; only the root and the empty path have none.\<close>

lemma components_parent:
  assumes "parent p = Some q"
  shows "components q = butlast (components p)" and "components p \<noteq> []"
proof -
  let ?ps = "trim_right (body_pieces p)"
  let ?f = "filter (\<lambda>q. \<not> skip_piece q)"
  have "components q = butlast (components p) \<and> components p \<noteq> []"
  proof (cases "?ps = []")
    case False
    with assms have q: "q = take (lead_len p) p @ join_on sep (trim_right (butlast ?ps))"
      by (simp add: parent_def Let_def)
    have "prefix (trim_right (butlast ?ps)) (body_pieces p)"
      by (meson trim_right_prefix prefixeq_butlast prefix_order.trans)
    then have "components q = head_components p @ map piece_component (?f (butlast ?ps))"
      unfolding q by (subst components_keep_head) (simp_all add: trim_right_not_blank)
    moreover have "real_pieces p = ?f (butlast ?ps) @ [last ?ps]"
    proof -
      have "real_pieces p = ?f (butlast ?ps @ [last ?ps])"
        using False by (simp add: filter_body_pieces)
      also have "\<dots> = ?f (butlast ?ps) @ [last ?ps]"
        unfolding filter_append using trim_right_last [OF False] by simp
      finally show ?thesis .
    qed
    ultimately show ?thesis by (simp add: components_def butlast_append)
  next
    case True
    with assms have "lead_cur p" and "q = []"
      by (auto simp: parent_def Let_def split: if_splits)
    moreover from True have "real_pieces p = []"
      by (simp add: trim_right_Nil_iff filter_body_pieces)
    moreover have "\<not> has_root p" using \<open>lead_cur p\<close> has_root_not_lead_cur by blast
    ultimately show ?thesis by (simp add: components_def head_components_def)
  qed
  then show "components q = butlast (components p)" and "components p \<noteq> []" by auto
qed

lemma parent_None: "parent p = None \<longleftrightarrow> components p = [] \<or> components p = [RootDir]"
proof (cases "trim_right (body_pieces p) = []")
  case True
  then have "real_pieces p = []" by (simp add: trim_right_Nil_iff filter_body_pieces)
  with True show ?thesis
    using has_root_not_lead_cur [of p]
    by (auto simp: parent_def components_def head_components_def)
next
  case False
  then have "real_pieces p \<noteq> []" by (simp add: trim_right_Nil_iff filter_body_pieces)
  with False show ?thesis
    by (auto simp: parent_def Let_def components_def head_components_def
        piece_component_def Cons_eq_append_conv split: if_splits)
qed

lemma set_trim_left: "set (trim_left ps) \<subseteq> set ps"
  by (auto simp: trim_left_def dest: set_dropWhileD)

definition kept_pieces :: "nat \<Rightarrow> string \<Rightarrow> string list" where
  "kept_pieces n p = trim_right (trim_left (drop_real (n - lead_len p) (body_pieces p)))"

lemma kept_pieces_free: "\<forall>q \<in> set (kept_pieces n p). sep \<notin> set q"
proof -
  have "set (kept_pieces n p) \<subseteq> set (body_pieces p)"
    unfolding kept_pieces_def
    using set_mono_prefix [OF trim_right_prefix] set_trim_left set_drop_real by fast
  then show ?thesis using body_pieces_free by blast
qed

lemma kept_pieces_hd: "kept_pieces n p = [] \<or> \<not> skip_piece (hd (kept_pieces n p))"
  unfolding kept_pieces_def
  using trim_left_hd trim_right_prefix by (metis hd_append2 prefix_Nil prefix_def)

lemma after_components_plain:
  assumes "0 < n"
  shows "\<not> has_root (after_components n p) \<and> \<not> lead_cur (after_components n p)"
  using join_on_plain [OF kept_pieces_free kept_pieces_hd] assms
  by (simp add: after_components_def kept_pieces_def)

lemma components_after:
  assumes "0 < n"
  shows "components (after_components n p) = drop n (components p)"
proof -
  have "components (after_components n p) =
      map piece_component (drop (n - lead_len p) (real_pieces p))"
    using components_join_on [OF kept_pieces_free kept_pieces_hd] assms
    by (simp add: after_components_def kept_pieces_def filter_drop_real filter_body_pieces)
  moreover have "lead_len p \<le> n" using assms by (simp add: lead_len_def)
  ultimately show ?thesis by (simp add: components_def length_head_components drop_map)
qed

lemma components_after_0: "components (after_components 0 p) = components p"
  unfolding after_components_def
  using components_keep_head [OF trim_right_prefix trim_right_not_blank]
  by (simp add: components_def filter_body_pieces)

lemma components_swap:
  assumes "starts_with p from" and "components from \<noteq> []" and "strip_prefix p from = Some r"
  shows "components (push to r) = components to @ drop (length (components from)) (components p)"
proof -
  from assms have r: "r = after_components (length (components from)) p"
    by (simp add: strip_prefix_def)
  have pos: "0 < length (components from)" using assms(2) by simp
  show ?thesis
    using after_components_plain [OF pos, of p]
    by (simp add: r components_push_rel components_after [OF pos])
qed

lemma starts_with_refl [simp]: "starts_with p p"
  by (simp add: starts_with_def)

lemma starts_with_trans: "starts_with p q \<Longrightarrow> starts_with q r \<Longrightarrow> starts_with p r"
  unfolding starts_with_def by (rule prefix_order.trans)

section \<open>Errors of the file layer\<close>

text \<open>\<open>FileError\<close> of \<open>errors/file.rs\<close>.\<close>

datatype file_error =
    Io string string
  | PathError string string
  | MemFileError string string
  | GraphError string

section \<open>Typed paths\<close>

text \<open>The marker types of the typestate, and the phantom field that carries them.\<close>

datatype FilePath = FilePath
datatype FolderPath = FolderPath
datatype 'k phantom = PhantomData

record 'k typed_path =
  rel_path :: string
  root_path :: string
  full_path :: string
  path_type :: "'k phantom"

type_synonym file_path = "FilePath typed_path"
type_synonym folder_path = "FolderPath typed_path"

text \<open>\<open>PartialEq\<close> (and \<open>Hash\<close>) of a file path: the full path alone, as a \<open>PathBuf\<close>.\<close>

definition path_eq :: "file_path \<Rightarrow> file_path \<Rightarrow> bool" where
  "path_eq p q = (components (full_path p) = components (full_path q))"

definition path_hash :: "(path_component list \<Rightarrow> 'h) \<Rightarrow> file_path \<Rightarrow> 'h" where
  "path_hash h p = h (components (full_path p))"

text \<open>The depth counter of \<open>escapes_root\<close>.\<close>

fun escapes_from :: "int \<Rightarrow> path_component list \<Rightarrow> bool" where
  "escapes_from depth [] = False"
| "escapes_from depth (Normal _ # cs) = escapes_from (depth + 1) cs"
| "escapes_from depth (ParentDir # cs) =
     (if depth - 1 < 0 then True else escapes_from (depth - 1) cs)"
| "escapes_from depth (CurDir # cs) = escapes_from depth cs"
| "escapes_from depth (RootDir # cs) = True"

definition escapes_root :: "string \<Rightarrow> bool" where
  "escapes_root rel = escapes_from 0 (components rel)"

definition build_file :: "string \<Rightarrow> string \<Rightarrow> file_error + file_path" where
  "build_file root rel =
     Inr \<lparr>rel_path = rel, root_path = root, full_path = push root rel, path_type = PhantomData\<rparr>"

definition build_folder :: "string \<Rightarrow> string \<Rightarrow> file_error + folder_path" where
  "build_folder root rel =
     Inr \<lparr>rel_path = rel, root_path = root, full_path = push root rel, path_type = PhantomData\<rparr>"

definition new_file :: "string \<Rightarrow> file_error + file_path" where
  "new_file path = build_file [] path"

definition new_folder :: "string \<Rightarrow> file_error + folder_path" where
  "new_folder path = build_folder [] path"

abbreviation escape_error :: "file_path \<Rightarrow> file_error" where
  "escape_error p \<equiv> PathError (full_path p) ''parent folder escapes the root path''"

definition into_parent_folder :: "file_path \<Rightarrow> file_error + folder_path" where
  "into_parent_folder p =
     (case parent (rel_path p) of
        None \<Rightarrow> Inl (escape_error p)
      | Some rel_parent \<Rightarrow>
          if escapes_root rel_parent then Inl (escape_error p)
          else Inr \<lparr>rel_path = rel_parent, root_path = root_path p,
            full_path = push (root_path p) rel_parent, path_type = PhantomData\<rparr>)"

definition into_child_file :: "folder_path \<Rightarrow> string \<Rightarrow> file_error + file_path" where
  "into_child_file p file =
     Inr \<lparr>rel_path = push (rel_path p) file, root_path = root_path p,
       full_path = push (full_path p) file, path_type = PhantomData\<rparr>"

definition into_child_folder :: "folder_path \<Rightarrow> string \<Rightarrow> file_error + folder_path" where
  "into_child_folder p folder =
     Inr \<lparr>rel_path = push (rel_path p) folder, root_path = root_path p,
       full_path = push (full_path p) folder, path_type = PhantomData\<rparr>"

text \<open>
  \<open>extension\<close> and \<open>set_extension\<close> act on the last piece of the full path: what follows its last
  dot, unless the piece is \<open>..\<close> or the dot is its first character. Setting truncates the raw path
  after the stem; a new extension holding a separator panics (\<open>None\<close>).
\<close>

definition rsplit_dot :: "string \<Rightarrow> string \<times> string option" where
  "rsplit_dot name =
     (case split_once (CHR ''.'') (rev name) of
        None \<Rightarrow> (name, None)
      | Some (e, stem) \<Rightarrow> if stem = [] then (name, None) else (rev stem, Some (rev e)))"

definition file_name :: "string \<Rightarrow> string option" where
  "file_name p =
     (let ps = trim_right (body_pieces p) in
      if ps = [] \<or> last ps = ''..'' then None else Some (last ps))"

definition extension :: "file_path \<Rightarrow> string option" where
  "extension p = (case file_name (full_path p) of None \<Rightarrow> None | Some n \<Rightarrow> snd (rsplit_dot n))"

definition set_extension :: "file_path \<Rightarrow> string \<Rightarrow> file_path option" where
  "set_extension p ext =
     (if sep \<in> set ext then None
      else (case file_name (full_path p) of
          None \<Rightarrow> Some p
        | Some n \<Rightarrow>
            (let ps = trim_right (body_pieces (full_path p));
                 stem = fst (rsplit_dot n) in
             Some (p\<lparr>full_path := take (lead_len (full_path p)) (full_path p) @
               join_on sep (butlast ps @ [stem @ (if ext = [] then [] else CHR ''.'' # ext)])\<rparr>))))"

text \<open>\<open>relative\<close>, \<open>relative_string\<close>, \<open>root_string\<close> and the borrowed full path.\<close>

definition relative_string :: "'k typed_path \<Rightarrow> string" where
  "relative_string p = rel_path p"

definition root_string :: "'k typed_path \<Rightarrow> string" where
  "root_string p = root_path p"

text \<open>The four adapters of \<open>adapters/file_paths.rs\<close>; a \<open>&Path\<close> root is its lossy string.\<close>

definition file_path_str :: "string \<Rightarrow> string \<Rightarrow> file_error + file_path" where
  "file_path_str root rel = build_file root rel"

definition folder_path_str :: "string \<Rightarrow> string \<Rightarrow> file_error + folder_path" where
  "folder_path_str root rel = build_folder root rel"

subsection \<open>The full path is the root joined with the relative path\<close>

definition path_inv :: "'k typed_path \<Rightarrow> bool" where
  "path_inv p \<longleftrightarrow> full_path p = push (root_path p) (rel_path p)"

lemma build_file_inv: "build_file root rel = Inr p \<Longrightarrow> path_inv p"
  by (auto simp: build_file_def path_inv_def)

lemma build_folder_inv: "build_folder root rel = Inr p \<Longrightarrow> path_inv p"
  by (auto simp: build_folder_def path_inv_def)

lemma into_child_file_inv: "path_inv p \<Longrightarrow> into_child_file p f = Inr q \<Longrightarrow> path_inv q"
  by (auto simp: into_child_file_def path_inv_def push_assoc)

lemma into_child_folder_inv: "path_inv p \<Longrightarrow> into_child_folder p f = Inr q \<Longrightarrow> path_inv q"
  by (auto simp: into_child_folder_def path_inv_def push_assoc)

lemma into_parent_folder_inv: "into_parent_folder p = Inr q \<Longrightarrow> path_inv q"
  by (auto simp: into_parent_folder_def path_inv_def split: option.splits if_splits)

subsection \<open>Staying below the root\<close>

text \<open>
  Where a path leads when the file system resolves it, on a stack of names (a parent of the
  top level stays there): the abstract meaning of \<open>escapes_root\<close>.
\<close>

fun resolve :: "string list \<Rightarrow> path_component list \<Rightarrow> string list" where
  "resolve st [] = st"
| "resolve st (Normal n # cs) = resolve (n # st) cs"
| "resolve st (ParentDir # cs) = resolve (tl st) cs"
| "resolve st (CurDir # cs) = resolve st cs"
| "resolve st (RootDir # cs) = resolve [] cs"

lemma resolve_append: "resolve st (cs @ ds) = resolve (resolve st cs) ds"
  by (induction st cs rule: resolve.induct) auto

lemma escapes_from_resolve:
  "\<not> escapes_from (int (length up)) cs \<Longrightarrow> \<exists>xs. resolve (up @ st) cs = xs @ st"
proof (induction "int (length up)" cs arbitrary: up rule: escapes_from.induct)
  case (2 n cs)
  from "2"(1) [of "n # up"] "2"(2) show ?case by (simp add: add.commute)
next
  case (3 cs)
  then obtain n up' where up: "up = n # up'" by (cases up) auto
  with "3"(1) [of up'] "3"(2) show ?case by simp
qed auto

lemma escapes_from_no_root: "\<not> escapes_from d cs \<Longrightarrow> RootDir \<notin> set cs"
  by (induction d cs rule: escapes_from.induct) (auto split: if_splits)

lemma not_escapes_plain: "\<not> escapes_root rel \<Longrightarrow> \<not> has_root rel"
  by (auto simp: escapes_root_def components_def head_components_def)

lemma resolve_pieces:
  "\<not> has_root b \<Longrightarrow> resolve st (map piece_component (real_pieces b)) = resolve st (components b)"
  by (simp add: components_def head_components_def)

lemma resolve_push:
  "\<not> has_root b \<Longrightarrow> resolve st (components (push a b)) = resolve (resolve st (components a)) (components b)"
  by (cases "a = []") (simp_all add: components_push resolve_append resolve_pieces)

lemma not_escapes_below:
  assumes "\<not> escapes_root rel"
  shows "\<exists>xs. resolve [] (components (push root rel)) = xs @ resolve [] (components root)"
  using assms escapes_from_resolve [of "[]" "components rel" "resolve [] (components root)"]
  by (simp add: resolve_push not_escapes_plain escapes_root_def)


section \<open>Properties\<close>

text \<open>C33: Walking up from a file never leaves the root: when \<open>into_parent_folder\<close> answers, the
  folder it names lies at or below the root once the file system has resolved every \<open>..\<close>, the
  root is unchanged and the full path is the root joined with the relative path; it fails, with
  the escape error, exactly when the relative path has no parent or that parent climbs out.\<close>

theorem into_parent_folder_confined:
  "(\<forall>q. into_parent_folder p = Inr q \<longrightarrow>
      root_path q = root_path p \<and> full_path q = push (root_path q) (rel_path q)
      \<and> (\<exists>xs. resolve [] (components (full_path q)) = xs @ resolve [] (components (root_path p))))
   \<and> (\<forall>e. into_parent_folder p = Inl e \<longleftrightarrow> e = escape_error p \<and>
      (case parent (rel_path p) of None \<Rightarrow> True | Some r \<Rightarrow> escapes_root r))"
proof -
  have "\<exists>xs. resolve [] (components (full_path q)) = xs @ resolve [] (components (root_path p))"
    if "into_parent_folder p = Inr q" for q
    using that not_escapes_below
    by (auto simp: into_parent_folder_def split: option.splits if_splits)
  moreover have "root_path q = root_path p \<and> full_path q = push (root_path q) (rel_path q)"
    if "into_parent_folder p = Inr q" for q
    using that by (auto simp: into_parent_folder_def split: option.splits if_splits)
  ultimately show ?thesis
    by (auto simp: into_parent_folder_def split: option.splits)
qed

definition demo_file :: "string \<Rightarrow> string \<Rightarrow> file_path" where
  "demo_file root rel =
     \<lparr>rel_path = rel, root_path = root, full_path = push root rel, path_type = PhantomData\<rparr>"

lemma into_parent_folder_confined_witness:
  "\<exists>q. into_parent_folder (demo_file ''proj'' ''src/a.rs'') = Inr q \<and> rel_path q = ''src'' \<and>
     (\<exists>xs. resolve [] (components (full_path q)) = xs @ resolve [] (components ''proj''))"
proof -
  let ?p = "demo_file ''proj'' ''src/a.rs''"
  have "\<exists>q. into_parent_folder ?p = Inr q \<and> rel_path q = ''src''"
    by (simp add: into_parent_folder_def demo_file_def parent_def body_pieces_def lead_len_def
        lead_cur_def trim_right_def skip_piece_def escapes_root_def components_def
        head_components_def real_pieces_def piece_component_def)
  then show ?thesis
    using into_parent_folder_confined [of ?p] by (auto simp: demo_file_def)
qed

text \<open>Navigation keeps the three parts of a path consistent: whatever is built or reached by
  child and parent steps has its full path equal to the root joined with the relative path,
  absolute arguments included; and stepping into a file of a folder and back up gives the same
  folder (equal components) whenever the folder itself does not climb out of the root.\<close>

theorem navigation_round_trip:
  assumes "path_inv p" and "components f = [Normal n]" and "\<not> escapes_root (rel_path p)"
  shows "\<exists>c q. into_child_file p f = Inr c \<and> path_inv c
    \<and> components (full_path c) = components (full_path p) @ [Normal n]
    \<and> into_parent_folder c = Inr q \<and> path_inv q \<and> root_path q = root_path p
    \<and> components (rel_path q) = components (rel_path p)
    \<and> components (full_path q) = components (full_path p)"
proof -
  have f: "\<not> has_root f" "\<not> lead_cur f"
    using assms(2) by (auto simp: components_def head_components_def split: if_splits)
  obtain c where c: "into_child_file p f = Inr c" by (simp add: into_child_file_def)
  then have rel: "components (rel_path c) = components (rel_path p) @ [Normal n]"
    and full: "components (full_path c) = components (full_path p) @ [Normal n]"
    and root: "root_path c = root_path p"
    using f assms(2) by (auto simp: into_child_file_def components_push_rel)
  have "parent (rel_path c) \<noteq> None" unfolding parent_None rel by auto
  then obtain r where r: "parent (rel_path c) = Some r" by auto
  then have cr: "components r = components (rel_path p)"
    using components_parent(1) [OF r] rel by simp
  then have "\<not> escapes_root r" using assms(3) by (simp add: escapes_root_def)
  with r obtain q where q: "into_parent_folder c = Inr q" "rel_path q = r" "root_path q = root_path c"
    "full_path q = push (root_path c) r"
    by (auto simp: into_parent_folder_def)
  have plain: "\<not> has_root r" "\<not> has_root (rel_path p)"
    using not_escapes_plain \<open>\<not> escapes_root r\<close> assms(3) by auto
  have "components (full_path q) = components (full_path p)"
  proof (cases "root_path p = []")
    case False
    have "map piece_component (real_pieces r) = map piece_component (real_pieces (rel_path p))"
      if "lead_cur r = lead_cur (rel_path p)"
      using cr plain that by (simp add: components_def head_components_def split: if_splits)
    moreover have "lead_cur r = lead_cur (rel_path p)"
      using cr plain by (auto simp: components_def head_components_def piece_component_def
          Cons_eq_map_conv map_eq_Cons_conv split: if_splits)
    ultimately show ?thesis
      using q plain root assms(1) False by (simp add: path_inv_def components_push)
  qed (use q root cr assms(1) in \<open>simp add: path_inv_def\<close>)
  then show ?thesis
    using c q cr root full into_child_file_inv [OF assms(1) c] into_parent_folder_inv [OF q(1)]
    by auto
qed

definition demo_dir :: folder_path where
  "demo_dir = \<lparr>rel_path = ''src'', root_path = ''proj'', full_path = ''proj/src'', path_type = PhantomData\<rparr>"

lemma navigation_round_trip_witness:
  "\<exists>c q. into_child_file demo_dir ''a.rs'' = Inr c \<and> into_parent_folder c = Inr q \<and>
    components (full_path q) = components (full_path demo_dir)"
proof -
  have "path_inv demo_dir" and "components ''a.rs'' = [Normal ''a.rs'']"
    and "\<not> escapes_root (rel_path demo_dir)"
    by (simp_all add: demo_dir_def path_inv_def push_def escapes_root_def components_def
        head_components_def lead_cur_def real_pieces_def skip_piece_def piece_component_def)
  from navigation_round_trip [OF this] show ?thesis by blast
qed

text \<open>\<open>set_extension\<close> changes the full path only, so the parts of the path no longer agree.\<close>

lemma set_extension_breaks_path_inv:
  "path_inv (demo_file ''proj'' ''a.txt'') \<and>
   (\<exists>q. set_extension (demo_file ''proj'' ''a.txt'') ''rs'' = Some q \<and> full_path q = ''proj/a.rs'' \<and>
     rel_path q = ''a.txt'' \<and> \<not> path_inv q)"
  by (simp add: demo_file_def path_inv_def set_extension_def file_name_def body_pieces_def
      lead_len_def lead_cur_def trim_right_def skip_piece_def push_def rsplit_dot_def Let_def)

text \<open>A child step with \<open>..\<close> does leave the root.\<close>

lemma into_child_folder_can_leave:
  "\<exists>q r. into_child_folder demo_dir ''../..'' = Inr q \<and> into_child_folder q ''etc'' = Inr r \<and>
     resolve [] (components (full_path r)) = [''etc'']"
  by (simp add: into_child_folder_def demo_dir_def push_def components_def head_components_def
      lead_cur_def real_pieces_def skip_piece_def piece_component_def)

text \<open>Equality is that of the full paths: the split into root and relative path does not matter, and two
  roots make two files of one relative path.\<close>

lemma path_eq_is_full_path:
  "path_eq (demo_file ''a'' ''b/c'') (demo_file ''a/b'' ''c'')"
  "\<not> path_eq (demo_file ''a'' ''c'') (demo_file ''b'' ''c'')"
  by (simp_all add: path_eq_def demo_file_def push_def components_def head_components_def
      lead_cur_def real_pieces_def skip_piece_def piece_component_def)

end
