(* ===== verification/Stores.thy ===== *)
theory Stores
  imports Paths
begin

text \<open>
  The store interfaces. The traits \<open>FileIo\<close>, \<open>AsyncFileIo\<close>, \<open>FolderIo\<close> and \<open>AsyncFolderIo\<close> of
  \<open>files/io\<close> are records of operations; \<open>Result\<close> is a sum, the mutated store is returned, and
  \<open>None\<close> of a folder operation is a panic. The locale \<open>file_store\<close> states what a client of a
  file engine may rely on. \<open>std::collections::HashMap\<close> is an association list in iteration
  order (any order: every statement is for all lists), with keys compared through a
  normal form: the components for a \<open>PathBuf\<close> key. The locale \<open>keyed_table\<close> is the interface
  between a flat table and the folder loops over it, whose effect is proved here once.
\<close>

section \<open>File contents\<close>

text \<open>The text of a file, as the list of its Unicode scalar values.\<close>

type_synonym ustring = "nat list"

section \<open>The IO traits\<close>

record 's file_io =
  fio_read :: "'s \<Rightarrow> file_path \<Rightarrow> file_error + ustring"
  fio_exists :: "'s \<Rightarrow> file_path \<Rightarrow> bool"
  fio_write :: "'s \<Rightarrow> file_path \<Rightarrow> ustring \<Rightarrow> (file_error + unit) \<times> 's"
  fio_delete :: "'s \<Rightarrow> file_path \<Rightarrow> (file_error + unit) \<times> 's"
  fio_move :: "'s \<Rightarrow> file_path \<Rightarrow> file_path \<Rightarrow> (file_error + unit) \<times> 's"
  fio_copy :: "'s \<Rightarrow> file_path \<Rightarrow> file_path \<Rightarrow> (file_error + unit) \<times> 's"

record 's folder_io =
  dio_child_files :: "'s \<Rightarrow> folder_path \<Rightarrow> file_error + file_path list"
  dio_all_child_files :: "'s \<Rightarrow> folder_path \<Rightarrow> file_error + file_path list"
  dio_child_folders :: "'s \<Rightarrow> folder_path \<Rightarrow> file_error + folder_path list"
  dio_create :: "'s \<Rightarrow> folder_path \<Rightarrow> (file_error + unit) \<times> 's"
  dio_exists :: "'s \<Rightarrow> folder_path \<Rightarrow> bool"
  dio_delete :: "'s \<Rightarrow> folder_path \<Rightarrow> ((file_error + unit) \<times> 's) option"
  dio_move :: "'s \<Rightarrow> folder_path \<Rightarrow> folder_path \<Rightarrow> ((file_error + unit) \<times> 's) option"
  dio_copy :: "'s \<Rightarrow> folder_path \<Rightarrow> folder_path \<Rightarrow> ((file_error + unit) \<times> 's) option"

text \<open>
  The contract of a file engine: an abstract map from the keys that paths name to contents.
  A successful operation has its effect on the map, a failed one has none. Moving a file onto
  itself is left open: the engines differ there.
\<close>

locale file_store =
  fixes io :: "'s file_io"
    and key :: "string \<Rightarrow> 'n"
    and content :: "'s \<Rightarrow> 'n \<Rightarrow> ustring option"
    and ok :: "'s \<Rightarrow> bool"
  assumes read_ok: "ok s \<Longrightarrow> fio_read io s p = Inr c \<Longrightarrow> content s (key (full_path p)) = Some c"
    and exists_ok: "ok s \<Longrightarrow> fio_exists io s p \<Longrightarrow> content s (key (full_path p)) \<noteq> None"
    and write_ok: "ok s \<Longrightarrow> fio_write io s p c = (Inr u, s') \<Longrightarrow>
      content s' = (content s)(key (full_path p) \<mapsto> c)"
    and write_err: "ok s \<Longrightarrow> fio_write io s p c = (Inl e, s') \<Longrightarrow> content s' = content s"
    and write_inv: "ok s \<Longrightarrow> ok (snd (fio_write io s p c))"
    and delete_ok: "ok s \<Longrightarrow> fio_delete io s p = (Inr u, s') \<Longrightarrow>
      content s (key (full_path p)) \<noteq> None \<and> content s' = (content s)(key (full_path p) := None)"
    and delete_err: "ok s \<Longrightarrow> fio_delete io s p = (Inl e, s') \<Longrightarrow> content s' = content s"
    and delete_inv: "ok s \<Longrightarrow> ok (snd (fio_delete io s p))"
    and move_ok: "ok s \<Longrightarrow> key (full_path p) \<noteq> key (full_path q) \<Longrightarrow>
      fio_move io s p q = (Inr u, s') \<Longrightarrow> content s (key (full_path p)) \<noteq> None \<and>
      content s' = (content s)(key (full_path q) := content s (key (full_path p)),
        key (full_path p) := None)"
    and move_err: "ok s \<Longrightarrow> fio_move io s p q = (Inl e, s') \<Longrightarrow> content s' = content s"
    and move_inv: "ok s \<Longrightarrow> ok (snd (fio_move io s p q))"
    and copy_ok: "ok s \<Longrightarrow> fio_copy io s p q = (Inr u, s') \<Longrightarrow>
      content s (key (full_path p)) \<noteq> None \<and>
      content s' = (content s)(key (full_path q) := content s (key (full_path p)))"
    and copy_err: "ok s \<Longrightarrow> fio_copy io s p q = (Inl e, s') \<Longrightarrow> content s' = content s"
    and copy_inv: "ok s \<Longrightarrow> ok (snd (fio_copy io s p q))"

text \<open>An engine that only fails on a missing source, as the in-memory ones do.\<close>

locale total_store = file_store +
  assumes read_total: "ok s \<Longrightarrow> content s (key (full_path p)) = Some c \<Longrightarrow> fio_read io s p = Inr c"
    and exists_total: "ok s \<Longrightarrow> content s (key (full_path p)) \<noteq> None \<Longrightarrow> fio_exists io s p"
    and write_total: "ok s \<Longrightarrow> fst (fio_write io s p c) = Inr ()"
    and delete_total: "ok s \<Longrightarrow> content s (key (full_path p)) \<noteq> None \<Longrightarrow>
      fst (fio_delete io s p) = Inr ()"
    and move_total: "ok s \<Longrightarrow> content s (key (full_path p)) \<noteq> None \<Longrightarrow>
      fst (fio_move io s p q) = Inr ()"
    and copy_total: "ok s \<Longrightarrow> content s (key (full_path p)) \<noteq> None \<Longrightarrow>
      fst (fio_copy io s p q) = Inr ()"
begin

lemma exists_iff: "ok s \<Longrightarrow> fio_exists io s p \<longleftrightarrow> content s (key (full_path p)) \<noteq> None"
  using exists_ok exists_total by blast

lemma write_total_pair:
  assumes "ok s"
  obtains s' where "fio_write io s p c = (Inr (), s')"
    and "content s' = (content s)(key (full_path p) \<mapsto> c)" and "ok s'"
  using write_total [OF assms] write_ok [OF assms] write_inv [OF assms] that
  by (metis prod.collapse)

lemma write_then_read:
  "ok s \<Longrightarrow> fio_read io (snd (fio_write io s p c)) p = Inr c"
  using write_total_pair [of s p c] read_total by (metis fun_upd_same snd_conv)

end

section \<open>Hash maps\<close>

type_synonym ('k, 'v) hash_map = "('k \<times> 'v) list"

definition hm_abs :: "('k \<Rightarrow> 'n) \<Rightarrow> ('k, 'v) hash_map \<Rightarrow> 'n \<Rightarrow> 'v option" where
  "hm_abs nk m = map_of (map (\<lambda>e. (nk (fst e), snd e)) m)"

definition hm_get :: "('k \<Rightarrow> 'n) \<Rightarrow> ('k, 'v) hash_map \<Rightarrow> 'k \<Rightarrow> 'v option" where
  "hm_get nk m k = hm_abs nk m (nk k)"

text \<open>Inserting at a present key keeps the stored key and replaces the value.\<close>

fun hm_insert :: "('k \<Rightarrow> 'n) \<Rightarrow> 'k \<Rightarrow> 'v \<Rightarrow> ('k, 'v) hash_map \<Rightarrow> ('k, 'v) hash_map" where
  "hm_insert nk k v [] = [(k, v)]"
| "hm_insert nk k v (e # m) =
     (if nk (fst e) = nk k then (fst e, v) # m else e # hm_insert nk k v m)"

definition hm_remove :: "('k \<Rightarrow> 'n) \<Rightarrow> 'k \<Rightarrow> ('k, 'v) hash_map \<Rightarrow> ('k, 'v) hash_map" where
  "hm_remove nk k m = filter (\<lambda>e. nk (fst e) \<noteq> nk k) m"

definition hm_keys :: "('k, 'v) hash_map \<Rightarrow> 'k list" where
  "hm_keys m = map fst m"

definition hm_inv :: "('k \<Rightarrow> 'n) \<Rightarrow> ('k, 'v) hash_map \<Rightarrow> bool" where
  "hm_inv nk m \<longleftrightarrow> distinct (map nk (hm_keys m))"

lemma hm_abs_Nil [simp]: "hm_abs nk [] = Map.empty"
  by (simp add: hm_abs_def)

lemma hm_abs_Cons: "hm_abs nk (e # m) = (hm_abs nk m)(nk (fst e) \<mapsto> snd e)"
  by (simp add: hm_abs_def)

lemma hm_abs_insert [simp]: "hm_abs nk (hm_insert nk k v m) = (hm_abs nk m)(nk k \<mapsto> v)"
  by (induction m) (auto simp: hm_abs_Cons)

lemma hm_abs_remove [simp]: "hm_abs nk (hm_remove nk k m) = (hm_abs nk m)(nk k := None)"
  by (induction m) (auto simp: hm_abs_Cons hm_remove_def)

lemma hm_abs_filter:
  "hm_abs nk (filter (\<lambda>e. P (nk (fst e))) m) = (\<lambda>n. if P n then hm_abs nk m n else None)"
  by (induction m) (auto simp: hm_abs_Cons)

lemma dom_hm_abs: "dom (hm_abs nk m) = nk ` set (hm_keys m)"
  unfolding hm_abs_def hm_keys_def by (simp add: dom_map_of_conv_image_fst image_image)

lemma keys_insert: "nk ` set (hm_keys (hm_insert nk k v m)) = insert (nk k) (nk ` set (hm_keys m))"
  by (induction m) (auto simp: hm_keys_def)

lemma hm_inv_Nil [simp]: "hm_inv nk []"
  by (simp add: hm_inv_def hm_keys_def)

lemma hm_inv_Cons:
  "hm_inv nk (e # m) \<longleftrightarrow> nk (fst e) \<notin> nk ` set (hm_keys m) \<and> hm_inv nk m"
  by (auto simp: hm_inv_def hm_keys_def)

lemma hm_inv_insert [simp]: "hm_inv nk m \<Longrightarrow> hm_inv nk (hm_insert nk k v m)"
proof (induction m)
  case (Cons e m)
  then show ?case by (auto simp: hm_inv_Cons keys_insert)
qed (simp add: hm_inv_Cons hm_keys_def)

lemma hm_inv_filter: "hm_inv nk m \<Longrightarrow> hm_inv nk (filter P m)"
  by (induction m) (auto simp: hm_inv_def hm_keys_def)

lemma hm_inv_remove [simp]: "hm_inv nk m \<Longrightarrow> hm_inv nk (hm_remove nk k m)"
  by (simp add: hm_remove_def hm_inv_filter)

lemma hm_inv_distinct_keys: "hm_inv nk m \<Longrightarrow> distinct (map nk (filter P (hm_keys m)))"
  by (induction m) (auto simp: hm_inv_def hm_keys_def)

lemma hm_get_Some_iff: "hm_get nk m k \<noteq> None \<longleftrightarrow> nk k \<in> nk ` set (hm_keys m)"
  by (metis dom_hm_abs domIff hm_get_def)

section \<open>Loops over the keys of a flat table\<close>

text \<open>
  What re-keying by \<open>g\<close> does to a map: the keys of \<open>N\<close> have gone, their images carry what
  the keys had, the rest is as before. Copying leaves the keys of \<open>N\<close> in place.
\<close>

definition rekeyed :: "('n \<Rightarrow> 'n) \<Rightarrow> 'n set \<Rightarrow> ('n \<Rightarrow> 'v option) \<Rightarrow> ('n \<Rightarrow> 'v option) \<Rightarrow> bool" where
  "rekeyed g N M M' \<longleftrightarrow> (\<forall>n \<in> N. M' (g n) = M n) \<and> (\<forall>n \<in> N - g ` N. M' n = None) \<and>
     (\<forall>q. q \<notin> N \<longrightarrow> q \<notin> g ` N \<longrightarrow> M' q = M q)"

definition copied :: "('n \<Rightarrow> 'n) \<Rightarrow> 'n set \<Rightarrow> ('n \<Rightarrow> 'v option) \<Rightarrow> ('n \<Rightarrow> 'v option) \<Rightarrow> bool" where
  "copied g N M M' \<longleftrightarrow> (\<forall>n \<in> N. M' (g n) = M n) \<and> (\<forall>q. q \<notin> g ` N \<longrightarrow> M' q = M q)"

lemma rekeyed_step:
  assumes "M1 n = None" and "M1 (g n) = M n" and "\<And>q. q \<noteq> n \<Longrightarrow> q \<noteq> g n \<Longrightarrow> M1 q = M q"
    and "g n \<notin> N" and "g n \<noteq> n" and "n \<notin> N" and "g n \<notin> g ` N" and "n \<notin> g ` N"
    and "rekeyed g N M1 M'"
  shows "rekeyed g (insert n N) M M'"
proof -
  have same: "M1 q = M q" if "q \<in> N" for q
    using assms(3) [of q] assms(4,6) that by metis
  show ?thesis
    unfolding rekeyed_def
  proof (intro conjI ballI allI impI)
    fix q assume "q \<in> insert n N"
    then show "M' (g q) = M q"
      using assms(2,4,7,9) same unfolding rekeyed_def by (metis insertE)
  next
    fix q assume "q \<in> insert n N - g ` insert n N"
    then show "M' q = None"
      using assms(1,6,8,9) unfolding rekeyed_def by (metis DiffD1 DiffD2 DiffI image_insert insert_iff)
  next
    fix q assume "q \<notin> insert n N" and "q \<notin> g ` insert n N"
    then show "M' q = M q"
      using assms(3,9) unfolding rekeyed_def by (metis image_insert insert_iff)
  qed
qed

text \<open>
  A table with keys of type \<open>'k\<close>, its content a map from their normal forms. The second
  part runs the loop bodies the engines have: take the value out and put it under the new key;
  put it under the new key and then delete the old one; put a copy; delete.
\<close>

locale keyed_table =
  fixes get :: "'m \<Rightarrow> 'k \<Rightarrow> 'v option"
    and put :: "'k \<Rightarrow> 'v \<Rightarrow> 'm \<Rightarrow> 'm"
    and del :: "'k \<Rightarrow> 'm \<Rightarrow> 'm"
    and nk :: "'k \<Rightarrow> 'n"
    and abs :: "'m \<Rightarrow> 'n \<Rightarrow> 'v option"
  assumes get_abs: "get m k = abs m (nk k)"
    and abs_put: "abs (put k v m) = (abs m)(nk k \<mapsto> v)"
    and abs_del: "abs (del k m) = (abs m)(nk k := None)"
begin

lemma delete_loop:
  "abs (foldl (\<lambda>m k. del k m) m ks) = (\<lambda>n. if n \<in> nk ` set ks then None else abs m n)"
  by (induction ks arbitrary: m) (auto simp: abs_del)

lemma move_loop:
  assumes "distinct (map nk ks)" and "\<forall>k \<in> set ks. abs m (nk k) \<noteq> None"
    and "\<forall>k \<in> set ks. nk (f k) = g (nk k)"
    and "inj_on g (nk ` set ks)" and "g ` nk ` set ks \<inter> nk ` set ks = {}"
  shows "rekeyed g (nk ` set ks) (abs m)
    (abs (foldl (\<lambda>m k. case get m k of None \<Rightarrow> m | Some v \<Rightarrow> put (f k) v (del k m)) m ks))"
  using assms
proof (induction ks arbitrary: m)
  case (Cons k ks)
  let ?n = "nk k" and ?N = "nk ` set ks"
  from Cons.prems(2) obtain v where v: "abs m ?n = Some v" by auto
  define m1 where "m1 = put (f k) v (del k m)"
  have m1: "abs m1 = (abs m)(?n := None, g ?n \<mapsto> v)"
    using Cons.prems(3) by (simp add: m1_def abs_put abs_del)
  have gn: "g ?n \<notin> ?N" "g ?n \<noteq> ?n" "?n \<notin> ?N" "g ?n \<notin> g ` ?N"
    using Cons.prems(1,4,5) by (auto simp: inj_on_def)
  have same: "abs m1 n = abs m n" if "n \<in> ?N" for n
  proof -
    from that gn have "n \<noteq> ?n" and "n \<noteq> g ?n" by metis+
    then show ?thesis by (simp add: m1)
  qed
  have IH: "rekeyed g ?N (abs m1)
    (abs (foldl (\<lambda>m k. case get m k of None \<Rightarrow> m | Some v \<Rightarrow> put (f k) v (del k m)) m1 ks))"
    using Cons.prems by (intro Cons.IH) (auto simp: same inj_on_def)
  have "?n \<notin> g ` ?N" using Cons.prems(5) by auto
  then have "rekeyed g (insert ?n ?N) (abs m)
    (abs (foldl (\<lambda>m k. case get m k of None \<Rightarrow> m | Some v \<Rightarrow> put (f k) v (del k m)) m1 ks))"
    using gn by (intro rekeyed_step [OF _ _ _ _ _ _ _ _ IH]) (simp_all add: m1 v)
  then show ?case using v by (simp add: get_abs m1_def)
qed (simp add: rekeyed_def)

lemma put_delete_loop:
  assumes "distinct (map (nk \<circ> fst) es)" and "\<forall>e \<in> set es. abs m (nk (fst e)) = Some (snd e)"
    and "\<forall>e \<in> set es. nk (f (fst e)) = g (nk (fst e))"
    and "inj_on g (nk ` fst ` set es)" and "g ` nk ` fst ` set es \<inter> nk ` fst ` set es = {}"
  shows "rekeyed g (nk ` fst ` set es) (abs m)
    (abs (foldl (\<lambda>m e. del (fst e) (put (f (fst e)) (snd e) m)) m es))"
  using assms
proof (induction es arbitrary: m)
  case (Cons e es)
  let ?n = "nk (fst e)" and ?N = "nk ` fst ` set es"
  define m1 where "m1 = del (fst e) (put (f (fst e)) (snd e) m)"
  have m1: "abs m1 = (abs m)(g ?n \<mapsto> snd e, ?n := None)"
    using Cons.prems(3) by (simp add: m1_def abs_put abs_del)
  have gn: "g ?n \<notin> ?N" "g ?n \<noteq> ?n" "?n \<notin> ?N" "g ?n \<notin> g ` ?N"
    using Cons.prems(1,4,5) by (auto simp: inj_on_def image_image)
  have same: "abs m1 n = abs m n" if "n \<in> ?N" for n
  proof -
    from that gn have "n \<noteq> ?n" and "n \<noteq> g ?n" by metis+
    then show ?thesis by (simp add: m1)
  qed
  have IH: "rekeyed g ?N (abs m1)
    (abs (foldl (\<lambda>m e. del (fst e) (put (f (fst e)) (snd e) m)) m1 es))"
    using Cons.prems by (intro Cons.IH) (auto simp: same inj_on_def)
  have "?n \<notin> g ` ?N" using Cons.prems(5) by auto
  moreover have "abs m ?n = Some (snd e)" using Cons.prems(2) by simp
  ultimately have "rekeyed g (insert ?n ?N) (abs m)
    (abs (foldl (\<lambda>m e. del (fst e) (put (f (fst e)) (snd e) m)) m1 es))"
    using gn by (intro rekeyed_step [OF _ _ _ _ _ _ _ _ IH]) (simp_all add: m1)
  then show ?case by (simp add: m1_def)
qed (simp add: rekeyed_def)

lemma copy_loop:
  assumes "\<forall>k \<in> set ks. abs m (nk k) \<noteq> None" and "\<forall>k \<in> set ks. nk (f k) = g (nk k)"
    and "inj_on g (nk ` set ks)" and "g ` nk ` set ks \<inter> nk ` set ks = {}"
  shows "copied g (nk ` set ks) (abs m)
    (abs (foldl (\<lambda>m k. case get m k of None \<Rightarrow> m | Some v \<Rightarrow> put (f k) v m) m ks))"
  using assms
proof (induction ks arbitrary: m)
  case (Cons k ks)
  let ?n = "nk k" and ?N = "nk ` set ks"
  from Cons.prems(1) obtain v where v: "abs m ?n = Some v" by auto
  define m1 where "m1 = put (f k) v m"
  have m1: "abs m1 = (abs m)(g ?n \<mapsto> v)"
    using Cons.prems(2) by (simp add: m1_def abs_put)
  have gn: "g ?n \<notin> ?N" "g ?n \<noteq> ?n" using Cons.prems(4) by auto
  have same: "abs m1 n = abs m n" if "n \<in> ?N" for n
  proof -
    from that gn have "n \<noteq> g ?n" by metis
    then show ?thesis by (simp add: m1)
  qed
  have IH: "copied g ?N (abs m1)
    (abs (foldl (\<lambda>m k. case get m k of None \<Rightarrow> m | Some v \<Rightarrow> put (f k) v m) m1 ks))"
    using Cons.prems by (intro Cons.IH) (auto simp: same inj_on_def)
  have inj: "n = ?n \<or> n \<notin> ?N \<or> g n \<noteq> g ?n" for n
    using Cons.prems(3) by (auto simp: inj_on_def)
  show ?case
  proof (cases "g ?n \<in> g ` ?N")
    case True
    then obtain n where n: "n \<in> ?N" "g n = g ?n" by (metis imageE)
    with inj have "?n \<in> ?N" by metis
    with IH same m1 v gn show ?thesis
      unfolding copied_def by (auto simp: get_abs m1_def [symmetric])
  next
    case False
    with IH same m1 v gn show ?thesis
      unfolding copied_def by (auto simp: get_abs m1_def [symmetric])
  qed
qed (simp add: copied_def)

end

text \<open>The hash map is such a table.\<close>

interpretation hm: keyed_table "hm_get nk" "hm_insert nk" "hm_remove nk" nk "hm_abs nk"
  for nk :: "'k \<Rightarrow> 'n"
  by unfold_locales (simp_all add: hm_get_def)

section \<open>What the folder operations promise\<close>

text \<open>
  On the map from component lists to contents: moving a folder carries every file beneath it to
  the same relative place beneath the destination, replacing what is there, and leaves the rest.
\<close>

definition unrelated :: "path_component list \<Rightarrow> path_component list \<Rightarrow> bool" where
  "unrelated F T \<longleftrightarrow> \<not> prefix F T \<and> \<not> prefix T F"

definition under :: "path_component list \<Rightarrow> (path_component list \<Rightarrow> 'v option) \<Rightarrow> path_component list set" where
  "under F M = {n. prefix F n \<and> M n \<noteq> None}"

definition transplant :: "path_component list \<Rightarrow> path_component list \<Rightarrow> path_component list \<Rightarrow> path_component list" where
  "transplant F T n = T @ drop (length F) n"

definition move_spec :: "path_component list \<Rightarrow> path_component list \<Rightarrow>
    (path_component list \<Rightarrow> 'v option) \<Rightarrow> path_component list \<Rightarrow> 'v option" where
  "move_spec F T M q =
     (if prefix T q \<and> M (transplant T F q) \<noteq> None then M (transplant T F q)
      else if prefix F q then None else M q)"

definition copy_spec :: "path_component list \<Rightarrow> path_component list \<Rightarrow>
    (path_component list \<Rightarrow> 'v option) \<Rightarrow> path_component list \<Rightarrow> 'v option" where
  "copy_spec F T M q =
     (if prefix T q \<and> M (transplant T F q) \<noteq> None then M (transplant T F q) else M q)"

definition delete_spec :: "path_component list \<Rightarrow>
    (path_component list \<Rightarrow> 'v option) \<Rightarrow> path_component list \<Rightarrow> 'v option" where
  "delete_spec F M q = (if prefix F q then None else M q)"

lemma transplant_inverse: "prefix F n \<Longrightarrow> transplant T F (transplant F T n) = n"
  by (auto simp: transplant_def prefix_def)

lemma prefix_transplant: "prefix T (transplant F T n)"
  by (simp add: transplant_def)

lemma inj_on_transplant: "N \<subseteq> {n. prefix F n} \<Longrightarrow> inj_on (transplant F T) N"
  by (rule inj_on_inverseI [where g = "transplant T F"]) (auto simp: transplant_inverse)

lemma transplant_disjoint:
  "unrelated F T \<Longrightarrow> N \<subseteq> {n. prefix F n} \<Longrightarrow> transplant F T ` N \<inter> N = {}"
  by (auto simp: unrelated_def dest: prefix_same_cases [OF prefix_transplant])

lemma transplant_image_under:
  "q \<in> transplant F T ` under F M \<longleftrightarrow> prefix T q \<and> M (transplant T F q) \<noteq> None"
proof
  assume "prefix T q \<and> M (transplant T F q) \<noteq> None"
  then have "transplant T F q \<in> under F M" and "q = transplant F T (transplant T F q)"
    by (auto simp: under_def prefix_transplant transplant_inverse)
  then show "q \<in> transplant F T ` under F M" by blast
qed (auto simp: under_def prefix_transplant transplant_inverse)

lemma rekeyed_move_spec:
  assumes "rekeyed (transplant F T) (under F M) M M'" and "unrelated F T"
  shows "M' = move_spec F T M"
proof
  fix q
  have img: "M' q = M (transplant T F q)" if "q \<in> transplant F T ` under F M"
    using that assms(1) by (auto simp: rekeyed_def under_def transplant_inverse)
  have disj: "q \<notin> transplant F T ` under F M" if "prefix F q"
    using transplant_disjoint [OF assms(2), of "insert q (under F M)"] that
    by (auto simp: under_def)
  show "M' q = move_spec F T M q"
  proof (cases "q \<in> transplant F T ` under F M")
    case True
    with img show ?thesis
      using transplant_image_under [of q F T M] by (simp add: move_spec_def)
  next
    case False
    then have "M' q = (if q \<in> under F M then None else M q)"
      using assms(1) unfolding rekeyed_def by auto
    also have "\<dots> = (if prefix F q then None else M q)" by (auto simp: under_def)
    finally show ?thesis
      using False transplant_image_under [of q F T M] by (auto simp: move_spec_def)
  qed
qed

lemma copied_copy_spec:
  assumes "copied (transplant F T) (under F M) M M'"
  shows "M' = copy_spec F T M"
proof
  fix q
  show "M' q = copy_spec F T M q"
    using assms transplant_image_under [of q F T M]
    by (cases "q \<in> transplant F T ` under F M")
      (auto simp: copied_def copy_spec_def under_def transplant_inverse)
qed

end
