(* ===== verification/Text_Edit.thy ===== *)
theory Text_Edit
  imports Stores "HOL-Library.Word"
begin

text \<open>
  Text edits. \<open>kernel/transaction.rs\<close> (positions, operations, transactions) and
  \<open>full_descriptors/tx_utils.rs\<close> (offset arithmetic, the edits on a \<open>yrs\<close> document, the
  collaboration calls). Offsets are byte offsets into UTF-8 text, truncated to 32 bits as the
  code does; slicing at a position that is no character boundary panics (\<open>None\<close>). The CRDT
  library is a parameter with the laws of \<open>yrs_laws\<close>.
\<close>

section \<open>Transactions\<close>

record cursor_index =
  col :: nat
  line :: nat

definition cursor_new :: "nat \<Rightarrow> nat \<Rightarrow> cursor_index" where
  "cursor_new l c = \<lparr>col = c, line = l\<rparr>"

record insert_slice =
  ins_position :: cursor_index
  ins_content :: ustring

record delete_slice =
  del_position :: cursor_index
  del_length :: nat

record swap_slice =
  swap_position :: cursor_index
  swap_length :: nat
  swap_content :: ustring

datatype operation = Insert insert_slice | Delete delete_slice | Swap swap_slice

datatype transaction = Transaction "operation list"

definition transaction_new :: "operation list \<Rightarrow> transaction" where
  "transaction_new ops = Transaction ops"

fun operations :: "transaction \<Rightarrow> operation list" where
  "operations (Transaction ops) = ops"

section \<open>Offsets\<close>

definition len_utf8 :: "nat \<Rightarrow> nat" where
  "len_utf8 c = (if c < 0x80 then 1 else if c < 0x800 then 2 else if c < 0x10000 then 3 else 4)"

definition byte_len :: "ustring \<Rightarrow> nat" where
  "byte_len s = sum_list (map len_utf8 s)"

text \<open>The slice \<open>text[n..]\<close>.\<close>

fun drop_bytes :: "nat \<Rightarrow> ustring \<Rightarrow> ustring option" where
  "drop_bytes n [] = (if n = 0 then Some [] else None)"
| "drop_bytes n (c # s) =
     (if n = 0 then Some (c # s) else if len_utf8 c \<le> n then drop_bytes (n - len_utf8 c) s else None)"

abbreviation newline :: nat where "newline \<equiv> 10"

fun line_start_loop :: "nat \<Rightarrow> nat \<Rightarrow> nat \<Rightarrow> ustring \<Rightarrow> nat option" where
  "line_start_loop index newlines_seen ln [] = None"
| "line_start_loop index newlines_seen ln (c # s) =
     (if c = newline then
        (if newlines_seen + 1 = ln then Some (index + len_utf8 c)
         else line_start_loop (index + len_utf8 c) (newlines_seen + 1) ln s)
      else line_start_loop (index + len_utf8 c) newlines_seen ln s)"

definition line_start_byte :: "ustring \<Rightarrow> nat \<Rightarrow> nat" where
  "line_start_byte text ln =
     (if ln = 0 then 0
      else (case line_start_loop 0 0 ln text of Some i \<Rightarrow> i | None \<Rightarrow> byte_len text))"

definition line_col_to_byte :: "ustring \<Rightarrow> cursor_index \<Rightarrow> 32 word option" where
  "line_col_to_byte text position =
     (let line_start = line_start_byte text (line position) in
      map_option
        (\<lambda>rest. word_of_nat (min (line_start + byte_len (take (col position) rest)) (byte_len text)))
        (drop_bytes line_start text))"

definition byte_span :: "ustring \<Rightarrow> cursor_index \<Rightarrow> nat \<Rightarrow> (32 word \<times> 32 word) option" where
  "byte_span text position char_length =
     (case line_col_to_byte text position of
        None \<Rightarrow> None
      | Some offset \<Rightarrow>
          (let start = unat offset in
           map_option
             (\<lambda>rest. (word_of_nat start,
                word_of_nat (start + byte_len (take char_length rest) - start)))
             (drop_bytes start text)))"

subsection \<open>What the offsets mean\<close>

text \<open>The character index a position stands for: a column past the end of its line runs on into
  the following lines, and everything past the end of the text is its end.\<close>

fun line_start_char :: "nat \<Rightarrow> ustring \<Rightarrow> nat" where
  "line_start_char 0 s = 0"
| "line_start_char (Suc n) [] = 0"
| "line_start_char (Suc n) (c # s) = Suc (line_start_char (if c = newline then n else Suc n) s)"

definition char_pos :: "ustring \<Rightarrow> cursor_index \<Rightarrow> nat" where
  "char_pos text position = min (line_start_char (line position) text + col position) (length text)"

lemma len_utf8_pos [simp]: "0 < len_utf8 c" "len_utf8 c \<noteq> 0"
  by (simp_all add: len_utf8_def)

lemma byte_len_simps [simp]:
  "byte_len [] = 0"
  "byte_len (c # s) = len_utf8 c + byte_len s"
  "byte_len (s @ t) = byte_len s + byte_len t"
  by (simp_all add: byte_len_def)

lemma byte_len_take_drop: "byte_len (take n s) + byte_len (drop n s) = byte_len s"
  by (metis append_take_drop_id byte_len_simps(3))

lemma byte_len_take_le: "byte_len (take n s) \<le> byte_len s"
  using byte_len_take_drop [of n s] by simp

lemma drop_bytes_0 [simp]: "drop_bytes 0 s = Some s"
  by (cases s) simp_all

lemma drop_bytes_take: "drop_bytes (byte_len (take n s)) s = Some (drop n s)"
proof (induction s arbitrary: n)
  case (Cons c s)
  then show ?case by (cases n) simp_all
qed simp

lemma line_start_char_le: "line_start_char n s \<le> length s"
  by (induction n s rule: line_start_char.induct) simp_all

lemma line_start_loop_char:
  "seen < ln \<Longrightarrow> (case line_start_loop i seen ln s of Some b \<Rightarrow> b | None \<Rightarrow> i + byte_len s) =
     i + byte_len (take (line_start_char (ln - seen) s) s)"
proof (induction s arbitrary: i seen)
  case (Cons c s)
  obtain k where k: "ln - seen = Suc k" using Cons.prems by (metis Suc_diff_Suc)
  show ?case
  proof (cases "c = newline")
    case nl: True
    show ?thesis
    proof (cases "seen + 1 = ln")
      case True
      with k have "k = 0" by simp
      with True k nl show ?thesis by simp
    next
      case False
      with Cons.prems have "seen + 1 < ln" by simp
      moreover have "ln - (seen + 1) = k" using k by simp
      ultimately show ?thesis using Cons.IH [of "seen + 1" "i + len_utf8 c"] nl False k
        by (cases "line_start_loop (i + len_utf8 c) (seen + 1) ln s")
          simp_all
    qed
  next
    case False
    from Cons.IH [OF Cons.prems, of "i + len_utf8 c"] False k show ?thesis
      by (cases "line_start_loop (i + len_utf8 c) seen ln s") simp_all
  qed
qed simp

lemma line_start_byte_char: "line_start_byte s ln = byte_len (take (line_start_char ln s) s)"
  using line_start_loop_char [of 0 ln 0 s]
  by (cases "line_start_loop 0 0 ln s") (auto simp: line_start_byte_def)

lemma line_col_to_byte_char:
  "line_col_to_byte s p = Some (word_of_nat (byte_len (take (char_pos s p) s)))"
proof -
  let ?n = "line_start_char (line p) s"
  have "byte_len (take ?n s) + byte_len (take (col p) (drop ?n s)) = byte_len (take (?n + col p) s)"
    by (simp add: take_add)
  moreover have "take (char_pos s p) s = take (?n + col p) s"
    by (simp add: char_pos_def min_def)
  ultimately show ?thesis
    using byte_len_take_le [of "?n + col p" s]
    by (simp add: line_col_to_byte_def Let_def line_start_byte_char drop_bytes_take)
qed

lemma char_pos_le: "char_pos s p \<le> length s"
  by (simp add: char_pos_def)

text \<open>The bound below which the casts to \<open>u32\<close> lose nothing.\<close>

definition fits :: "ustring \<Rightarrow> bool" where
  "fits s \<longleftrightarrow> byte_len s < 2 ^ 32"

lemma unat_byte_len:
  "fits s \<Longrightarrow> unat (word_of_nat (byte_len (take n s)) :: 32 word) = byte_len (take n s)"
  using byte_len_take_le [of n s] by (simp add: fits_def unat_of_nat)

lemma byte_span_char:
  assumes "fits s"
  shows "byte_span s p k = Some (word_of_nat (byte_len (take (char_pos s p) s)),
    word_of_nat (byte_len (take k (drop (char_pos s p) s))))"
  by (simp add: byte_span_def line_col_to_byte_char Let_def unat_byte_len [OF assms] drop_bytes_take)

lemma unat_span:
  assumes "fits s"
  shows "unat (word_of_nat (byte_len (take k (drop n s))) :: 32 word) = byte_len (take k (drop n s))"
proof -
  have "byte_len (take k (drop n s)) \<le> byte_len s"
    using byte_len_take_le [of k "drop n s"] byte_len_take_drop [of n s] by simp
  with assms show ?thesis by (simp add: fits_def unat_of_nat)
qed

section \<open>The CRDT library\<close>

text \<open>
  \<open>'doc\<close> is a document with its root text. \<open>y_insert\<close> and \<open>y_remove\<close> are \<open>None\<close> when the library
  panics (a position outside the text). An update that fails to apply may have changed the
  document.
\<close>

record ('doc, 'update, 'sv) yrs =
  y_new :: 'doc
  y_string :: "'doc \<Rightarrow> ustring"
  y_insert :: "'doc \<Rightarrow> 32 word \<Rightarrow> ustring \<Rightarrow> 'doc option"
  y_remove :: "'doc \<Rightarrow> 32 word \<Rightarrow> 32 word \<Rightarrow> 'doc option"
  y_encode_state :: "'doc \<Rightarrow> nat list"
  y_state_vector :: "'doc \<Rightarrow> nat list"
  y_decode_vector :: "nat list \<Rightarrow> string + 'sv"
  y_encode_diff :: "'doc \<Rightarrow> 'sv \<Rightarrow> nat list"
  y_decode_update :: "nat list \<Rightarrow> string + 'update"
  y_apply_update :: "'doc \<Rightarrow> 'update \<Rightarrow> (string + unit) \<times> 'doc"

text \<open>
  What yrs documents, with byte offsets: inserting at and removing between character boundaries
  splice the text; state and state vectors decode; a full state loaded into a fresh document and a
  diff loaded into the document it was taken against give the text of the sender. \<open>ext d d'\<close>: the
  document \<open>d'\<close> has come out of \<open>d\<close> by local edits.
\<close>

definition yrs_laws :: "('doc, 'update, 'sv) yrs \<Rightarrow> ('doc \<Rightarrow> 'doc \<Rightarrow> bool) \<Rightarrow> bool" where
  "yrs_laws Y ext \<longleftrightarrow>
     y_string Y (y_new Y) = [] \<and>
     (\<forall>d n off t. n \<le> length (y_string Y d) \<longrightarrow> unat off = byte_len (take n (y_string Y d)) \<longrightarrow>
        (\<exists>d'. y_insert Y d off t = Some d' \<and> ext d d' \<and>
          y_string Y d' = take n (y_string Y d) @ t @ drop n (y_string Y d))) \<and>
     (\<forall>d n m off len. n \<le> length (y_string Y d) \<longrightarrow> unat off = byte_len (take n (y_string Y d)) \<longrightarrow>
        unat len = byte_len (take m (drop n (y_string Y d))) \<longrightarrow>
        (\<exists>d'. y_remove Y d off len = Some d' \<and> ext d d' \<and>
          y_string Y d' = take n (y_string Y d) @ drop (n + m) (y_string Y d))) \<and>
     (\<forall>d. ext d d) \<and> (\<forall>a b c. ext a b \<longrightarrow> ext b c \<longrightarrow> ext a c) \<and>
     (\<forall>d. \<exists>v. y_decode_vector Y (y_state_vector Y d) = Inr v) \<and>
     (\<forall>d. \<exists>u d'. y_decode_update Y (y_encode_state Y d) = Inr u \<and>
        y_apply_update Y (y_new Y) u = (Inr (), d') \<and> y_string Y d' = y_string Y d) \<and>
     (\<forall>d d' v. ext d d' \<longrightarrow> y_decode_vector Y (y_state_vector Y d) = Inr v \<longrightarrow>
        (\<exists>u d''. y_decode_update Y (y_encode_diff Y d' v) = Inr u \<and>
           y_apply_update Y d u = (Inr (), d'') \<and> y_string Y d'' = y_string Y d'))"

section \<open>Edits on a document\<close>

definition tx_insert_text ::
    "('doc, 'update, 'sv) yrs \<Rightarrow> ustring \<Rightarrow> 'doc \<Rightarrow> cursor_index \<Rightarrow> ustring \<Rightarrow> 'doc option" where
  "tx_insert_text Y contents doc position data =
     (case line_col_to_byte contents position of
        None \<Rightarrow> None
      | Some offset \<Rightarrow> y_insert Y doc offset data)"

definition tx_insert_char ::
    "('doc, 'update, 'sv) yrs \<Rightarrow> ustring \<Rightarrow> 'doc \<Rightarrow> cursor_index \<Rightarrow> nat \<Rightarrow> 'doc option" where
  "tx_insert_char Y contents doc position character =
     (case line_col_to_byte contents position of
        None \<Rightarrow> None
      | Some offset \<Rightarrow> y_insert Y doc offset [character])"

definition tx_delete_range ::
    "('doc, 'update, 'sv) yrs \<Rightarrow> ustring \<Rightarrow> 'doc \<Rightarrow> cursor_index \<Rightarrow> nat \<Rightarrow> 'doc option" where
  "tx_delete_range Y contents doc position delta =
     (case byte_span contents position delta of
        None \<Rightarrow> None
      | Some (offset, removable) \<Rightarrow>
          if removable > 0 then y_remove Y doc offset removable else Some doc)"

definition tx_delete_char ::
    "('doc, 'update, 'sv) yrs \<Rightarrow> ustring \<Rightarrow> 'doc \<Rightarrow> cursor_index \<Rightarrow> 'doc option" where
  "tx_delete_char Y contents doc position =
     (case byte_span contents position 1 of
        None \<Rightarrow> None
      | Some (offset, len) \<Rightarrow> if len > 0 then y_remove Y doc offset len else Some doc)"

definition tx_encode_diff ::
    "('doc, 'update, 'sv) yrs \<Rightarrow> 'doc \<Rightarrow> string \<Rightarrow> nat list \<Rightarrow> file_error + nat list" where
  "tx_encode_diff Y doc path state_vector =
     res_bind (map_err (MemFileError path) (y_decode_vector Y state_vector)) (\<lambda>remote.
       Inr (y_encode_diff Y doc remote))"

definition tx_apply_update ::
    "('doc, 'update, 'sv) yrs \<Rightarrow> 'doc \<Rightarrow> string \<Rightarrow> nat list \<Rightarrow> (file_error + unit) \<times> 'doc" where
  "tx_apply_update Y doc path update =
     (case y_decode_update Y update of
        Inl e \<Rightarrow> (Inl (MemFileError path e), doc)
      | Inr u \<Rightarrow> (case y_apply_update Y doc u of (r, doc') \<Rightarrow> (map_err (MemFileError path) r, doc')))"

section \<open>What the edits do to the text\<close>

definition insert_at :: "cursor_index \<Rightarrow> ustring \<Rightarrow> ustring \<Rightarrow> ustring" where
  "insert_at p t s = take (char_pos s p) s @ t @ drop (char_pos s p) s"

definition delete_at :: "cursor_index \<Rightarrow> nat \<Rightarrow> ustring \<Rightarrow> ustring" where
  "delete_at p k s = take (char_pos s p) s @ drop (char_pos s p + k) s"

lemma yrs_lawsD:
  assumes "yrs_laws Y ext"
  shows "y_string Y (y_new Y) = []"
    and "n \<le> length (y_string Y d) \<Longrightarrow> unat off = byte_len (take n (y_string Y d)) \<Longrightarrow>
      \<exists>d'. y_insert Y d off t = Some d' \<and> ext d d' \<and>
        y_string Y d' = take n (y_string Y d) @ t @ drop n (y_string Y d)"
    and "n \<le> length (y_string Y d) \<Longrightarrow> unat off = byte_len (take n (y_string Y d)) \<Longrightarrow>
      unat len = byte_len (take m (drop n (y_string Y d))) \<Longrightarrow>
      \<exists>d'. y_remove Y d off len = Some d' \<and> ext d d' \<and>
        y_string Y d' = take n (y_string Y d) @ drop (n + m) (y_string Y d)"
    and "ext d d"
    and "ext a b \<Longrightarrow> ext b c \<Longrightarrow> ext a c"
    and "\<exists>v. y_decode_vector Y (y_state_vector Y d) = Inr v"
    and "\<exists>u d'. y_decode_update Y (y_encode_state Y d) = Inr u \<and>
      y_apply_update Y (y_new Y) u = (Inr (), d') \<and> y_string Y d' = y_string Y d"
    and "ext d d' \<Longrightarrow> y_decode_vector Y (y_state_vector Y d) = Inr v \<Longrightarrow>
      \<exists>u d''. y_decode_update Y (y_encode_diff Y d' v) = Inr u \<and>
        y_apply_update Y d u = (Inr (), d'') \<and> y_string Y d'' = y_string Y d'"
proof -
  note L = assms [unfolded yrs_laws_def]
  show "y_string Y (y_new Y) = []" by (rule conjunct1 [OF L])
  note L = conjunct2 [OF L]
  show "n \<le> length (y_string Y d) \<Longrightarrow> unat off = byte_len (take n (y_string Y d)) \<Longrightarrow>
      \<exists>d'. y_insert Y d off t = Some d' \<and> ext d d' \<and>
        y_string Y d' = take n (y_string Y d) @ t @ drop n (y_string Y d)"
    using conjunct1 [OF L] by iprover
  note L = conjunct2 [OF L]
  show "n \<le> length (y_string Y d) \<Longrightarrow> unat off = byte_len (take n (y_string Y d)) \<Longrightarrow>
      unat len = byte_len (take m (drop n (y_string Y d))) \<Longrightarrow>
      \<exists>d'. y_remove Y d off len = Some d' \<and> ext d d' \<and>
        y_string Y d' = take n (y_string Y d) @ drop (n + m) (y_string Y d)"
    using conjunct1 [OF L] by iprover
  note L = conjunct2 [OF L]
  show "ext d d" using conjunct1 [OF L] by iprover
  note L = conjunct2 [OF L]
  show "ext a b \<Longrightarrow> ext b c \<Longrightarrow> ext a c" using conjunct1 [OF L] by iprover
  note L = conjunct2 [OF L]
  show "\<exists>v. y_decode_vector Y (y_state_vector Y d) = Inr v" using conjunct1 [OF L] by iprover
  note L = conjunct2 [OF L]
  show "\<exists>u d'. y_decode_update Y (y_encode_state Y d) = Inr u \<and>
      y_apply_update Y (y_new Y) u = (Inr (), d') \<and> y_string Y d' = y_string Y d"
    using conjunct1 [OF L] by iprover
  note L = conjunct2 [OF L]
  show "ext d d' \<Longrightarrow> y_decode_vector Y (y_state_vector Y d) = Inr v \<Longrightarrow>
      \<exists>u d''. y_decode_update Y (y_encode_diff Y d' v) = Inr u \<and>
        y_apply_update Y d u = (Inr (), d'') \<and> y_string Y d'' = y_string Y d'"
    using L by iprover
qed

lemma tx_insert_text_spec:
  assumes laws: "yrs_laws Y ext" and fits: "fits (y_string Y d)"
  shows "\<exists>d'. tx_insert_text Y (y_string Y d) d p t = Some d' \<and> ext d d' \<and>
    y_string Y d' = insert_at p t (y_string Y d)"
  using yrs_lawsD(2) [OF laws char_pos_le unat_byte_len [OF fits], of p t]
  by (simp add: tx_insert_text_def line_col_to_byte_char insert_at_def)

lemma tx_insert_char_text: "tx_insert_char Y s d p c = tx_insert_text Y s d p [c]"
  by (simp add: tx_insert_char_def tx_insert_text_def)

lemma byte_len_zero [simp]: "byte_len s = 0 \<longleftrightarrow> s = []"
  by (cases s) simp_all

lemma tx_delete_range_spec:
  assumes laws: "yrs_laws Y ext" and fits: "fits (y_string Y d)"
  shows "\<exists>d'. tx_delete_range Y (y_string Y d) d p k = Some d' \<and> ext d d' \<and>
    y_string Y d' = delete_at p k (y_string Y d)"
proof -
  let ?s = "y_string Y d" and ?n = "char_pos (y_string Y d) p"
  let ?len = "word_of_nat (byte_len (take k (drop ?n ?s))) :: 32 word"
  have "?len > 0 \<longleftrightarrow> take k (drop ?n ?s) \<noteq> []"
    using unat_span [OF fits, of k ?n] by (metis byte_len_zero unat_eq_zero word_gt_0)
  moreover have "delete_at p k ?s = ?s" if "take k (drop ?n ?s) = []"
    using that by (cases "k = 0") (simp_all add: delete_at_def)
  ultimately show ?thesis
    using yrs_lawsD(3) [OF laws char_pos_le unat_byte_len [OF fits] unat_span [OF fits], of p k]
      yrs_lawsD(4) [OF laws, of d]
    by (auto simp: tx_delete_range_def byte_span_char [OF fits] delete_at_def)
qed

lemma tx_delete_char_range: "tx_delete_char Y s d p = tx_delete_range Y s d p 1"
  by (simp add: tx_delete_char_def tx_delete_range_def)

section \<open>A concrete library\<close>

text \<open>A document that is its text, an update that is the whole text: the laws can hold.\<close>

definition list_yrs :: "(ustring, ustring, unit) yrs" where
  "list_yrs = \<lparr>y_new = [], y_string = (\<lambda>d. d),
     y_insert = (\<lambda>d off t. map_option (\<lambda>r. take (length d - length r) d @ t @ r)
       (drop_bytes (unat off) d)),
     y_remove = (\<lambda>d off len. case drop_bytes (unat off) d of None \<Rightarrow> None
       | Some r \<Rightarrow> map_option (\<lambda>q. take (length d - length r) d @ q) (drop_bytes (unat len) r)),
     y_encode_state = (\<lambda>d. d), y_state_vector = (\<lambda>_. []), y_decode_vector = (\<lambda>_. Inr ()),
     y_encode_diff = (\<lambda>d _. d), y_decode_update = Inr, y_apply_update = (\<lambda>_ u. (Inr (), u))\<rparr>"

lemma y_string_list [simp]: "y_string list_yrs d = d"
  by (simp add: list_yrs_def)

lemma list_yrs_laws: "yrs_laws list_yrs (\<lambda>_ _. True)"
  by (simp add: yrs_laws_def list_yrs_def drop_bytes_take add.commute)

section \<open>Properties\<close>

text \<open>C20: The byte offset computed for a cursor is the UTF-8 length of the text before the
  character the cursor names (the column counted in characters from the start of its line, run
  on across line ends and cut off at the end of the text), so the slices the code takes are
  always on character boundaries; below 4 GiB the cast to 32 bits loses nothing and the span of
  a deletion covers exactly the characters after it.\<close>

theorem offsets_are_boundaries:
  "line_col_to_byte s p = Some (word_of_nat (byte_len (take (char_pos s p) s)))
   \<and> (byte_len s < 2 ^ 32 \<longrightarrow>
      (\<exists>off len. line_col_to_byte s p = Some off \<and> unat off = byte_len (take (char_pos s p) s)
        \<and> byte_span s p k = Some (off, len)
        \<and> unat len = byte_len (take k (drop (char_pos s p) s))))"
  using unat_byte_len [of s "char_pos s p"] unat_span [of s k "char_pos s p"]
  by (simp add: line_col_to_byte_char byte_span_char fits_def)

definition demo_text :: ustring where
  "demo_text = [104, 233, 10, 8364, 120]"

lemma offsets_are_boundaries_witness:
  "byte_len demo_text < 2 ^ 32 \<and>
   (\<exists>off len. line_col_to_byte demo_text \<lparr>col = 1, line = 1\<rparr> = Some off \<and> unat off = 7 \<and>
     byte_span demo_text \<lparr>col = 1, line = 1\<rparr> 9 = Some (off, len) \<and> unat len = 1)"
proof -
  have b: "byte_len demo_text < 2 ^ 32" by (simp add: demo_text_def len_utf8_def)
  moreover have "char_pos demo_text \<lparr>col = 1, line = 1\<rparr> = 4"
    by (simp add: char_pos_def demo_text_def)
  moreover have "byte_len (take 4 demo_text) = 7" "byte_len (take 9 (drop 4 demo_text)) = 1"
    by (simp_all add: demo_text_def len_utf8_def)
  ultimately show ?thesis
    using offsets_are_boundaries [of demo_text "\<lparr>col = 1, line = 1\<rparr>" 9] by auto
qed

text \<open>The four edits splice the document's text at the cursor and never panic, for every
  cursor and length, while the text is below 4 GiB: an insertion puts the new characters before
  the character the cursor names, a deletion removes at most the requested number of characters
  from there on, across line ends and clamped at the end of the text.\<close>

theorem edits_splice:
  assumes "yrs_laws Y ext" and "fits (y_string Y d)"
  shows "(\<exists>d'. tx_insert_text Y (y_string Y d) d p t = Some d' \<and> y_string Y d' = insert_at p t (y_string Y d))
    \<and> (\<exists>d'. tx_insert_char Y (y_string Y d) d p c = Some d' \<and> y_string Y d' = insert_at p [c] (y_string Y d))
    \<and> (\<exists>d'. tx_delete_range Y (y_string Y d) d p k = Some d' \<and> y_string Y d' = delete_at p k (y_string Y d))
    \<and> (\<exists>d'. tx_delete_char Y (y_string Y d) d p = Some d' \<and> y_string Y d' = delete_at p 1 (y_string Y d))"
  using tx_insert_text_spec [OF assms] tx_delete_range_spec [OF assms]
  unfolding tx_insert_char_text tx_delete_char_range by meson

lemma edits_splice_witness:
  "\<exists>d'. tx_delete_range list_yrs demo_text demo_text \<lparr>col = 1, line = 0\<rparr> 3 = Some d' \<and>
     d' = [104, 120]"
proof -
  have "fits (y_string list_yrs demo_text)"
    by (simp add: fits_def demo_text_def len_utf8_def)
  note edits_splice [OF list_yrs_laws this, of "\<lparr>col = 1, line = 0\<rparr>" "[]" 0 3]
  then have "\<exists>d'. tx_delete_range list_yrs demo_text demo_text \<lparr>col = 1, line = 0\<rparr> 3 = Some d' \<and>
      d' = delete_at \<lparr>col = 1, line = 0\<rparr> 3 demo_text"
    unfolding y_string_list by (elim conjE)
  moreover have "delete_at \<lparr>col = 1, line = 0\<rparr> 3 demo_text = [104, 120]"
    by (simp add: delete_at_def char_pos_def demo_text_def)
  ultimately show ?thesis by simp
qed

end
