(* ===== verification/Mem_Engine.thy ===== *)
theory Mem_Engine
  imports Stores
begin

text \<open>
  The in-memory engines: \<open>BlockingMemIo\<close> (\<open>engines/blocking_io/mem.rs\<close>, with its file operations
  in \<open>files/blocking_io/mem.rs\<close> and its folder operations in \<open>folders/blocking_io/mem.rs\<close>) and
  \<open>AsyncMemIo\<close> (\<open>engines/async_io/mem.rs\<close>, \<open>files/async_io/mem.rs\<close>). Each is a hash map from
  \<open>PathBuf\<close> to contents. An \<open>unwrap\<close> that fails is \<open>None\<close>; the lemmas show that none does.
\<close>

section \<open>The blocking engine: files\<close>

record mem_io =
  mem_files :: "(string, ustring) hash_map"

definition mem_new :: mem_io where
  "mem_new = \<lparr>mem_files = []\<rparr>"

definition file_not_found :: "string \<Rightarrow> file_error" where
  "file_not_found path = Io path ''file not found''"

definition mem_read_file :: "mem_io \<Rightarrow> file_path \<Rightarrow> file_error + ustring" where
  "mem_read_file m path =
     ok_or (file_not_found (full_path path)) (hm_get components (mem_files m) (full_path path))"

definition mem_exists :: "mem_io \<Rightarrow> file_path \<Rightarrow> bool" where
  "mem_exists m path = (hm_get components (mem_files m) (full_path path) \<noteq> None)"

definition mem_write_file :: "mem_io \<Rightarrow> file_path \<Rightarrow> ustring \<Rightarrow> (file_error + unit) \<times> mem_io" where
  "mem_write_file m path data =
     (Inr (), m\<lparr>mem_files := hm_insert components (full_path path) data (mem_files m)\<rparr>)"

definition mem_delete_file :: "mem_io \<Rightarrow> file_path \<Rightarrow> (file_error + unit) \<times> mem_io" where
  "mem_delete_file m path =
     (ok_or (file_not_found (full_path path))
        (map_option (\<lambda>_. ()) (hm_get components (mem_files m) (full_path path))),
      m\<lparr>mem_files := hm_remove components (full_path path) (mem_files m)\<rparr>)"

definition mem_move_file :: "mem_io \<Rightarrow> file_path \<Rightarrow> file_path \<Rightarrow> (file_error + unit) \<times> mem_io" where
  "mem_move_file m from to =
     (case hm_get components (mem_files m) (full_path from) of
        None \<Rightarrow> (Inl (file_not_found (full_path from)), m)
      | Some contents \<Rightarrow>
          (Inr (), m\<lparr>mem_files := hm_insert components (full_path to) contents
             (hm_remove components (full_path from) (mem_files m))\<rparr>))"

definition mem_copy_file :: "mem_io \<Rightarrow> file_path \<Rightarrow> file_path \<Rightarrow> (file_error + unit) \<times> mem_io" where
  "mem_copy_file m from to =
     (case hm_get components (mem_files m) (full_path from) of
        None \<Rightarrow> (Inl (file_not_found (full_path from)), m)
      | Some contents \<Rightarrow>
          (Inr (), m\<lparr>mem_files := hm_insert components (full_path to) contents (mem_files m)\<rparr>))"

definition mem_file_io :: "mem_io file_io" where
  "mem_file_io = \<lparr>fio_read = mem_read_file, fio_exists = mem_exists, fio_write = mem_write_file,
     fio_delete = mem_delete_file, fio_move = mem_move_file, fio_copy = mem_copy_file\<rparr>"

subsection \<open>The store contract\<close>

definition mem_content :: "mem_io \<Rightarrow> path_component list \<Rightarrow> ustring option" where
  "mem_content m = hm_abs components (mem_files m)"

definition mem_ok :: "mem_io \<Rightarrow> bool" where
  "mem_ok m = hm_inv components (mem_files m)"

lemma mem_ok_new [simp]: "mem_ok mem_new"
  by (simp add: mem_ok_def mem_new_def)

lemma mem_content_new [simp]: "mem_content mem_new = Map.empty"
  by (simp add: mem_content_def mem_new_def)

lemmas mem_file_defs = mem_file_io_def mem_read_file_def mem_exists_def mem_write_file_def
  mem_delete_file_def mem_move_file_def mem_copy_file_def mem_content_def mem_ok_def hm_get_def

interpretation mem: total_store mem_file_io components mem_content mem_ok
  by unfold_locales
    (auto simp: mem_file_defs ok_or_def fun_upd_twist split: option.splits)

section \<open>The blocking engine: folders\<close>

definition folder_not_found :: "string \<Rightarrow> file_error" where
  "folder_not_found path = Io path ''folder not found''"

definition typed_file :: "string \<Rightarrow> file_error + file_path" where
  "typed_file path = new_file path"

text \<open>The listing loop: \<open>push(typed_file(key)?)\<close> for every key that passes the test.\<close>

fun collect_typed :: "(string \<Rightarrow> bool) \<Rightarrow> string list \<Rightarrow> file_error + file_path list" where
  "collect_typed P [] = Inr []"
| "collect_typed P (k # ks) =
     (if P k then res_bind (typed_file k) (\<lambda>f. res_bind (collect_typed P ks) (\<lambda>fs. Inr (f # fs)))
      else collect_typed P ks)"

definition is_child_of :: "string \<Rightarrow> string \<Rightarrow> bool" where
  "is_child_of folder key =
     (case parent key of None \<Rightarrow> False | Some q \<Rightarrow> components q = components folder)"

definition mem_child_files :: "mem_io \<Rightarrow> folder_path \<Rightarrow> file_error + file_path list" where
  "mem_child_files m path = collect_typed (is_child_of (full_path path)) (hm_keys (mem_files m))"

definition mem_all_child_files :: "mem_io \<Rightarrow> folder_path \<Rightarrow> file_error + file_path list" where
  "mem_all_child_files m path =
     collect_typed (\<lambda>key. starts_with key (full_path path)) (hm_keys (mem_files m))"

definition mem_child_folders :: "mem_io \<Rightarrow> folder_path \<Rightarrow> file_error + folder_path list" where
  "mem_child_folders m path = Inr []"

definition mem_create_folder :: "mem_io \<Rightarrow> folder_path \<Rightarrow> (file_error + unit) \<times> mem_io" where
  "mem_create_folder m path = (Inr (), m)"

definition mem_folder_exists :: "mem_io \<Rightarrow> folder_path \<Rightarrow> bool" where
  "mem_folder_exists m path =
     list_ex (\<lambda>key. starts_with key (full_path path)) (hm_keys (mem_files m))"

definition mem_keys_under :: "mem_io \<Rightarrow> string \<Rightarrow> string list" where
  "mem_keys_under m folder = filter (\<lambda>key. starts_with key folder) (hm_keys (mem_files m))"

definition mem_delete_folder ::
    "mem_io \<Rightarrow> folder_path \<Rightarrow> ((file_error + unit) \<times> mem_io) option" where
  "mem_delete_folder m path =
     (let keys = mem_keys_under m (full_path path) in
      if keys = [] then Some (Inl (folder_not_found (full_path path)), m)
      else Some (Inr (),
        m\<lparr>mem_files := foldl (\<lambda>fs key. hm_remove components key fs) (mem_files m) keys\<rparr>))"

text \<open>The body of \<open>move_folder\<close>'s loop, with its two \<open>unwrap\<close>s.\<close>

fun mem_move_keys :: "string \<Rightarrow> string \<Rightarrow> string list \<Rightarrow> (string, ustring) hash_map \<Rightarrow>
    (string, ustring) hash_map option" where
  "mem_move_keys from to [] files = Some files"
| "mem_move_keys from to (key # keys) files =
     (case strip_prefix key from of
        None \<Rightarrow> None
      | Some relative \<Rightarrow>
          (case hm_get components files key of
             None \<Rightarrow> None
           | Some contents \<Rightarrow>
               mem_move_keys from to keys
                 (hm_insert components (push to relative) contents
                    (hm_remove components key files))))"

definition mem_move_folder ::
    "mem_io \<Rightarrow> folder_path \<Rightarrow> folder_path \<Rightarrow> ((file_error + unit) \<times> mem_io) option" where
  "mem_move_folder m from to =
     (let keys = mem_keys_under m (full_path from) in
      if keys = [] then Some (Inl (folder_not_found (full_path from)), m)
      else map_option (\<lambda>fs. (Inr (), m\<lparr>mem_files := fs\<rparr>))
        (mem_move_keys (full_path from) (full_path to) keys (mem_files m)))"

fun mem_copy_keys :: "string \<Rightarrow> string \<Rightarrow> string list \<Rightarrow> (string, ustring) hash_map \<Rightarrow>
    (string, ustring) hash_map option" where
  "mem_copy_keys from to [] files = Some files"
| "mem_copy_keys from to (key # keys) files =
     (case strip_prefix key from of
        None \<Rightarrow> None
      | Some relative \<Rightarrow>
          (case hm_get components files key of
             None \<Rightarrow> None
           | Some contents \<Rightarrow>
               mem_copy_keys from to keys
                 (hm_insert components (push to relative) contents files)))"

definition mem_copy_folder ::
    "mem_io \<Rightarrow> folder_path \<Rightarrow> folder_path \<Rightarrow> ((file_error + unit) \<times> mem_io) option" where
  "mem_copy_folder m from to =
     (let keys = mem_keys_under m (full_path from) in
      if keys = [] then Some (Inl (folder_not_found (full_path from)), m)
      else map_option (\<lambda>fs. (Inr (), m\<lparr>mem_files := fs\<rparr>))
        (mem_copy_keys (full_path from) (full_path to) keys (mem_files m)))"

definition mem_folder_io :: "mem_io folder_io" where
  "mem_folder_io = \<lparr>dio_child_files = mem_child_files, dio_all_child_files = mem_all_child_files,
     dio_child_folders = mem_child_folders, dio_create = mem_create_folder,
     dio_exists = mem_folder_exists, dio_delete = mem_delete_folder,
     dio_move = mem_move_folder, dio_copy = mem_copy_folder\<rparr>"

subsection \<open>Listings\<close>

definition plain_file :: "string \<Rightarrow> file_path" where
  "plain_file k = \<lparr>rel_path = k, root_path = [], full_path = k, path_type = PhantomData\<rparr>"

lemma typed_file_plain: "typed_file k = Inr (plain_file k)"
  by (simp add: typed_file_def new_file_def build_file_def plain_file_def)

lemma full_path_plain [simp]: "full_path (plain_file k) = k"
  by (simp add: plain_file_def)

lemma collect_typed_filter: "collect_typed P ks = Inr (map plain_file (filter P ks))"
  by (induction ks) (auto simp: typed_file_plain)

lemma is_child_of_iff:
  "is_child_of folder k \<longleftrightarrow>
     components k \<noteq> [] \<and> components k \<noteq> [RootDir] \<and> butlast (components k) = components folder"
proof (cases "parent k")
  case None
  then have "components k = [] \<or> components k = [RootDir]" using parent_None [of k] by blast
  with None show ?thesis by (auto simp: is_child_of_def)
next
  case (Some q)
  then have "components k \<noteq> [RootDir]" using parent_None [of k] by auto
  with Some components_parent [OF Some] show ?thesis by (simp add: is_child_of_def)
qed

subsection \<open>The loops never panic\<close>

abbreviation moved_key :: "string \<Rightarrow> string \<Rightarrow> string \<Rightarrow> string" where
  "moved_key from to key \<equiv> push to (after_components (length (components from)) key)"

lemma components_moved_key:
  "starts_with key from \<Longrightarrow> components from \<noteq> [] \<Longrightarrow>
     components (moved_key from to key) = transplant (components from) (components to) (components key)"
  using components_swap [of key "from"] by (simp add: strip_prefix_def transplant_def)

lemma mem_move_keys_loop:
  assumes "distinct (map components ks)"
    and "\<forall>k \<in> set ks. starts_with k from \<and> hm_abs components fs (components k) \<noteq> None"
  shows "mem_move_keys from to ks fs =
    Some (foldl (\<lambda>m k. case hm_get components m k of None \<Rightarrow> m
      | Some v \<Rightarrow> hm_insert components (moved_key from to k) v (hm_remove components k m)) fs ks)"
  using assms
proof (induction ks arbitrary: fs)
  case (Cons k ks)
  from Cons.prems(2) obtain v where v: "hm_get components fs k = Some v"
    by (auto simp: hm_get_def)
  have "strip_prefix k from = Some (after_components (length (components from)) k)"
    using Cons.prems(2) by (simp add: strip_prefix_def)
  moreover have "\<forall>ka \<in> set ks. components ka \<noteq> components k"
    using Cons.prems(1) by (auto simp: image_iff)
  ultimately show ?case using v Cons.prems by (auto intro!: Cons.IH)
qed simp

lemma mem_copy_keys_loop:
  assumes "\<forall>k \<in> set ks. starts_with k from \<and> hm_abs components fs (components k) \<noteq> None"
  shows "mem_copy_keys from to ks fs =
    Some (foldl (\<lambda>m k. case hm_get components m k of None \<Rightarrow> m
      | Some v \<Rightarrow> hm_insert components (moved_key from to k) v m) fs ks)"
  using assms
proof (induction ks arbitrary: fs)
  case (Cons k ks)
  from Cons.prems obtain v where v: "hm_get components fs k = Some v"
    by (auto simp: hm_get_def)
  have "strip_prefix k from = Some (after_components (length (components from)) k)"
    using Cons.prems by (simp add: strip_prefix_def)
  with v Cons.prems show ?case by (auto intro!: Cons.IH)
qed simp

lemma keys_under_components:
  "components ` set (mem_keys_under m folder) = under (components folder) (mem_content m)"
proof -
  have "components ` set (hm_keys (mem_files m)) = dom (mem_content m)"
    by (simp add: mem_content_def dom_hm_abs)
  then show ?thesis
    by (auto simp: mem_keys_under_def under_def starts_with_def domI image_iff)
qed

lemma keys_under_present:
  "k \<in> set (mem_keys_under m folder) \<Longrightarrow>
     starts_with k folder \<and> hm_abs components (mem_files m) (components k) \<noteq> None"
  using keys_under_components [of m folder]
  by (auto simp: mem_keys_under_def under_def mem_content_def)

lemma keys_under_distinct: "mem_ok m \<Longrightarrow> distinct (map components (mem_keys_under m folder))"
  unfolding mem_ok_def mem_keys_under_def by (rule hm_inv_distinct_keys)

lemma keys_under_Nil_iff:
  "mem_keys_under m folder = [] \<longleftrightarrow> under (components folder) (mem_content m) = {}"
  by (metis image_is_empty keys_under_components set_empty)

lemma hm_inv_move_loop:
  "hm_inv nk fs \<Longrightarrow> hm_inv nk (foldl (\<lambda>m k. case hm_get nk m k of None \<Rightarrow> m
      | Some v \<Rightarrow> hm_insert nk (f k) v (hm_remove nk k m)) fs ks)"
  by (rule foldl_inv) (auto split: option.splits)

lemma hm_inv_copy_loop:
  "hm_inv nk fs \<Longrightarrow> hm_inv nk (foldl (\<lambda>m k. case hm_get nk m k of None \<Rightarrow> m
      | Some v \<Rightarrow> hm_insert nk (f k) v m) fs ks)"
  by (rule foldl_inv) (auto split: option.splits)

subsection \<open>The folder operations meet their specifications\<close>

lemma mem_move_folder_eq:
  assumes "mem_ok m" and "under (components (full_path from)) (mem_content m) \<noteq> {}"
  shows "mem_move_folder m from to = Some (Inr (), m\<lparr>mem_files :=
    foldl (\<lambda>fs k. case hm_get components fs k of None \<Rightarrow> fs
      | Some v \<Rightarrow> hm_insert components (moved_key (full_path from) (full_path to) k) v
          (hm_remove components k fs)) (mem_files m) (mem_keys_under m (full_path from))\<rparr>)"
  using assms keys_under_present [of _ m "full_path from"]
  by (simp add: mem_move_folder_def Let_def keys_under_Nil_iff mem_move_keys_loop
      keys_under_distinct)

lemma mem_copy_folder_eq:
  assumes "under (components (full_path from)) (mem_content m) \<noteq> {}"
  shows "mem_copy_folder m from to = Some (Inr (), m\<lparr>mem_files :=
    foldl (\<lambda>fs k. case hm_get components fs k of None \<Rightarrow> fs
      | Some v \<Rightarrow> hm_insert components (moved_key (full_path from) (full_path to) k) v fs)
      (mem_files m) (mem_keys_under m (full_path from))\<rparr>)"
  using assms keys_under_present [of _ m "full_path from"]
  by (simp add: mem_copy_folder_def Let_def keys_under_Nil_iff mem_copy_keys_loop)

lemma mem_move_folder_meets:
  assumes ok: "mem_ok m" and ne: "components (full_path from) \<noteq> []"
    and un: "unrelated (components (full_path from)) (components (full_path to))"
    and some: "under (components (full_path from)) (mem_content m) \<noteq> {}"
  shows "\<exists>m'. mem_move_folder m from to = Some (Inr (), m') \<and> mem_ok m' \<and>
    mem_content m' = move_spec (components (full_path from)) (components (full_path to)) (mem_content m)"
proof -
  let ?F = "components (full_path from)" and ?T = "components (full_path to)"
  let ?ks = "mem_keys_under m (full_path from)"
  let ?fs = "foldl (\<lambda>fs k. case hm_get components fs k of None \<Rightarrow> fs
      | Some v \<Rightarrow> hm_insert components (moved_key (full_path from) (full_path to) k) v
          (hm_remove components k fs)) (mem_files m) ?ks"
  have N: "components ` set ?ks = under ?F (mem_content m)" by (rule keys_under_components)
  have "rekeyed (transplant ?F ?T) (components ` set ?ks) (hm_abs components (mem_files m))
      (hm_abs components ?fs)"
  proof (rule hm.move_loop)
    show "distinct (map components ?ks)" by (rule keys_under_distinct [OF ok])
    show "\<forall>k \<in> set ?ks. hm_abs components (mem_files m) (components k) \<noteq> None"
      using keys_under_present by blast
    show "\<forall>k \<in> set ?ks. components (moved_key (full_path from) (full_path to) k) =
        transplant ?F ?T (components k)"
      using keys_under_present components_moved_key [OF _ ne] by blast
    show "inj_on (transplant ?F ?T) (components ` set ?ks)"
      unfolding N by (rule inj_on_transplant) (auto simp: under_def)
    show "transplant ?F ?T ` components ` set ?ks \<inter> components ` set ?ks = {}"
      unfolding N by (rule transplant_disjoint [OF un]) (auto simp: under_def)
  qed
  then have "hm_abs components ?fs = move_spec ?F ?T (mem_content m)"
    unfolding N by (intro rekeyed_move_spec [OF _ un]) (simp add: mem_content_def)
  then show ?thesis
    using ok mem_move_folder_eq [OF ok some, of to]
    by (auto simp: mem_content_def mem_ok_def hm_inv_move_loop)
qed

lemma mem_copy_folder_meets:
  assumes ok: "mem_ok m" and ne: "components (full_path from) \<noteq> []"
    and un: "unrelated (components (full_path from)) (components (full_path to))"
    and some: "under (components (full_path from)) (mem_content m) \<noteq> {}"
  shows "\<exists>m'. mem_copy_folder m from to = Some (Inr (), m') \<and> mem_ok m' \<and>
    mem_content m' = copy_spec (components (full_path from)) (components (full_path to)) (mem_content m)"
proof -
  let ?F = "components (full_path from)" and ?T = "components (full_path to)"
  let ?ks = "mem_keys_under m (full_path from)"
  let ?fs = "foldl (\<lambda>fs k. case hm_get components fs k of None \<Rightarrow> fs
      | Some v \<Rightarrow> hm_insert components (moved_key (full_path from) (full_path to) k) v fs)
      (mem_files m) ?ks"
  have N: "components ` set ?ks = under ?F (mem_content m)" by (rule keys_under_components)
  have "copied (transplant ?F ?T) (components ` set ?ks) (hm_abs components (mem_files m))
      (hm_abs components ?fs)"
  proof (rule hm.copy_loop)
    show "\<forall>k \<in> set ?ks. hm_abs components (mem_files m) (components k) \<noteq> None"
      using keys_under_present by blast
    show "\<forall>k \<in> set ?ks. components (moved_key (full_path from) (full_path to) k) =
        transplant ?F ?T (components k)"
      using keys_under_present components_moved_key [OF _ ne] by blast
    show "inj_on (transplant ?F ?T) (components ` set ?ks)"
      unfolding N by (rule inj_on_transplant) (auto simp: under_def)
    show "transplant ?F ?T ` components ` set ?ks \<inter> components ` set ?ks = {}"
      unfolding N by (rule transplant_disjoint [OF un]) (auto simp: under_def)
  qed
  then have "hm_abs components ?fs = copy_spec ?F ?T (mem_content m)"
    unfolding N by (intro copied_copy_spec) (simp add: mem_content_def)
  then show ?thesis
    using ok mem_copy_folder_eq [OF some, of to]
    by (auto simp: mem_content_def mem_ok_def hm_inv_copy_loop)
qed

lemma mem_delete_folder_meets:
  assumes ok: "mem_ok m" and some: "under (components (full_path p)) (mem_content m) \<noteq> {}"
  shows "\<exists>m'. mem_delete_folder m p = Some (Inr (), m') \<and> mem_ok m' \<and>
    mem_content m' = delete_spec (components (full_path p)) (mem_content m)"
proof -
  let ?fs = "foldl (\<lambda>fs k. hm_remove components k fs) (mem_files m) (mem_keys_under m (full_path p))"
  have "hm_abs components ?fs = delete_spec (components (full_path p)) (mem_content m)"
    by (auto simp: hm.delete_loop keys_under_components delete_spec_def under_def mem_content_def)
  moreover have "hm_inv components ?fs"
    using ok unfolding mem_ok_def by (rule foldl_inv) simp
  ultimately show ?thesis
    using some by (simp add: mem_delete_folder_def Let_def keys_under_Nil_iff mem_content_def mem_ok_def)
qed


subsection \<open>Witnesses\<close>

definition demo_folder :: "string \<Rightarrow> folder_path" where
  "demo_folder s = \<lparr>rel_path = s, root_path = [], full_path = s, path_type = PhantomData\<rparr>"

lemma full_path_demo [simp]: "full_path (demo_folder s) = s"
  by (simp add: demo_folder_def)

definition demo_mem :: mem_io where
  "demo_mem = \<lparr>mem_files = [(''a/x'', [1]), (''a/n/y'', [2]), (''b/x'', [3]), (''ab/z'', [4])]\<rparr>"

lemmas demo_defs = demo_mem_def demo_folder_def mem_ok_def mem_content_def under_def unrelated_def
  components_def head_components_def real_pieces_def skip_piece_def lead_cur_def
  piece_component_def hm_inv_def hm_keys_def hm_abs_def

lemma demo_mem_facts:
  "mem_ok demo_mem"
  "components (full_path (demo_folder ''a'')) \<noteq> []"
  "unrelated (components (full_path (demo_folder ''a''))) (components (full_path (demo_folder ''b'')))"
  "under (components (full_path (demo_folder ''a''))) (mem_content demo_mem) \<noteq> {}"
proof -
  show "mem_ok demo_mem" "components (full_path (demo_folder ''a'')) \<noteq> []"
    "unrelated (components (full_path (demo_folder ''a''))) (components (full_path (demo_folder ''b'')))"
    by (simp_all add: demo_defs)
  have "components ''a/x'' \<in> under (components (full_path (demo_folder ''a''))) (mem_content demo_mem)"
    by (simp add: demo_defs)
  then show "under (components (full_path (demo_folder ''a''))) (mem_content demo_mem) \<noteq> {}" by blast
qed

text \<open>On a folder of the in-memory store with files beneath it, no operation panics or fails.
  A move to a place that is neither above nor below the folder carries every file beneath it to the
  same relative place beneath the destination, replacing what was there, and leaves nothing beneath
  the source; a copy duplicates the subtree and keeps every source file; a deletion removes exactly
  the files whose path starts with the folder, whole components compared. No other file changes.\<close>

theorem mem_folder_ops_rebase:
  assumes ok: "mem_ok m" and ne: "components (full_path from) \<noteq> []"
    and un: "unrelated (components (full_path from)) (components (full_path to))"
    and some: "under (components (full_path from)) (mem_content m) \<noteq> {}"
  shows "(\<exists>m'. mem_move_folder m from to = Some (Inr (), m') \<and> mem_ok m' \<and>
      mem_content m' = move_spec (components (full_path from)) (components (full_path to)) (mem_content m))
    \<and> (\<exists>m'. mem_copy_folder m from to = Some (Inr (), m') \<and> mem_ok m' \<and>
      mem_content m' = copy_spec (components (full_path from)) (components (full_path to)) (mem_content m))
    \<and> (\<exists>m'. mem_delete_folder m from = Some (Inr (), m') \<and> mem_ok m' \<and>
      mem_content m' = delete_spec (components (full_path from)) (mem_content m))"
  using mem_move_folder_meets [OF assms] mem_copy_folder_meets [OF assms] mem_delete_folder_meets [OF ok some]
  by blast

lemma mem_folder_ops_rebase_witness:
  "(\<exists>m'. mem_move_folder demo_mem (demo_folder ''a'') (demo_folder ''b'') = Some (Inr (), m') \<and>
      mem_content m' = move_spec (components (full_path (demo_folder ''a'')))
        (components (full_path (demo_folder ''b''))) (mem_content demo_mem))
    \<and> (\<exists>m'. mem_delete_folder demo_mem (demo_folder ''a'') = Some (Inr (), m') \<and>
      mem_content m' = delete_spec (components (full_path (demo_folder ''a''))) (mem_content demo_mem))"
  using mem_folder_ops_rebase [OF demo_mem_facts] by blast

subsection \<open>What holds of every call\<close>

lemma mem_loops_total:
  assumes "mem_ok m"
  shows "mem_move_keys (full_path from) to (mem_keys_under m (full_path from)) (mem_files m) \<noteq> None"
    and "mem_copy_keys (full_path from) to (mem_keys_under m (full_path from)) (mem_files m) \<noteq> None"
  using keys_under_present [of _ m "full_path from"] keys_under_distinct [OF assms]
  by (simp_all add: mem_move_keys_loop mem_copy_keys_loop)

lemma mem_folder_missing:
  assumes "under (components (full_path p)) (mem_content m) = {}"
  shows "mem_delete_folder m p = Some (Inl (folder_not_found (full_path p)), m)"
    and "mem_move_folder m p q = Some (Inl (folder_not_found (full_path p)), m)"
    and "mem_copy_folder m p q = Some (Inl (folder_not_found (full_path p)), m)"
  using assms by (simp_all add: mem_delete_folder_def mem_move_folder_def mem_copy_folder_def
      Let_def keys_under_Nil_iff)

lemma mem_folder_inv:
  assumes "mem_ok m"
  shows "mem_delete_folder m p = Some (r, m') \<Longrightarrow> mem_ok m'"
    and "mem_move_folder m p q = Some (r, m') \<Longrightarrow> mem_ok m'"
    and "mem_copy_folder m p q = Some (r, m') \<Longrightarrow> mem_ok m'"
proof -
  show "mem_delete_folder m p = Some (r, m') \<Longrightarrow> mem_ok m'"
    using assms foldl_inv [of "hm_inv components" "mem_files m" "mem_keys_under m (full_path p)"
        "\<lambda>fs key. hm_remove components key fs"]
    by (auto simp: mem_delete_folder_def Let_def mem_ok_def split: if_splits)
next
  show "mem_move_folder m p q = Some (r, m') \<Longrightarrow> mem_ok m'"
  proof (cases "under (components (full_path p)) (mem_content m) = {}")
    case False
    then show "mem_move_folder m p q = Some (r, m') \<Longrightarrow> mem_ok m'"
      using assms by (auto simp: mem_move_folder_eq mem_ok_def hm_inv_move_loop)
  qed (use assms in \<open>simp add: mem_folder_missing\<close>)
next
  show "mem_copy_folder m p q = Some (r, m') \<Longrightarrow> mem_ok m'"
  proof (cases "under (components (full_path p)) (mem_content m) = {}")
    case False
    then show "mem_copy_folder m p q = Some (r, m') \<Longrightarrow> mem_ok m'"
      using assms by (auto simp: mem_copy_folder_eq mem_ok_def hm_inv_copy_loop)
  qed (use assms in \<open>simp add: mem_folder_missing\<close>)
qed

text \<open>None of the \<open>unwrap\<close>s in the folder operations of the in-memory store can fail,
  whatever the folders are (nested, equal, empty or missing): each call returns, keeps the table
  well formed, and an error leaves the store as it was.\<close>

theorem mem_folder_ops_never_panic:
  assumes "mem_ok m"
  shows "(\<exists>r m'. mem_delete_folder m p = Some (r, m') \<and> mem_ok m' \<and> (is_ok r \<or> m' = m))
    \<and> (\<exists>r m'. mem_move_folder m p q = Some (r, m') \<and> mem_ok m' \<and> (is_ok r \<or> m' = m))
    \<and> (\<exists>r m'. mem_copy_folder m p q = Some (r, m') \<and> mem_ok m' \<and> (is_ok r \<or> m' = m))"
proof (cases "under (components (full_path p)) (mem_content m) = {}")
  case True
  then show ?thesis using assms by (simp add: mem_folder_missing)
next
  case False
  then have "\<exists>m'. mem_delete_folder m p = Some (Inr (), m')"
    by (simp add: mem_delete_folder_def Let_def keys_under_Nil_iff)
  moreover have "\<exists>m'. mem_move_folder m p q = Some (Inr (), m')"
    using False assms by (simp add: mem_move_folder_eq)
  moreover have "\<exists>m'. mem_copy_folder m p q = Some (Inr (), m')"
    using False by (simp add: mem_copy_folder_eq)
  ultimately show ?thesis using mem_folder_inv [OF assms] by (meson is_ok_simps(2))
qed

lemma mem_folder_ops_never_panic_witness:
  "\<exists>r m'. mem_move_folder demo_mem (demo_folder ''a'') (demo_folder ''a/n'') = Some (r, m') \<and>
     mem_ok m' \<and> (is_ok r \<or> m' = demo_mem)"
  using mem_folder_ops_never_panic [OF demo_mem_facts(1), of "demo_folder ''a''" "demo_folder ''a/n''"]
  by blast

text \<open>Listing never fails and lists exactly the stored files: the immediate children are the
  keys whose component list is the folder's and one more component, the recursive listing has
  the keys that start with the folder's components, and the folder exists just when that
  listing is not empty.\<close>

theorem mem_listings:
  "mem_child_files m p =
     Inr (map plain_file (filter (\<lambda>k. components k \<noteq> [] \<and> components k \<noteq> [RootDir] \<and>
       butlast (components k) = components (full_path p)) (hm_keys (mem_files m))))
   \<and> mem_all_child_files m p = Inr (map plain_file
       (filter (\<lambda>k. prefix (components (full_path p)) (components k)) (hm_keys (mem_files m))))
   \<and> (mem_folder_exists m p \<longleftrightarrow> mem_all_child_files m p \<noteq> Inr [])
   \<and> (mem_folder_exists m p \<longleftrightarrow> under (components (full_path p)) (mem_content m) \<noteq> {})"
proof -
  have ex: "mem_folder_exists m p \<longleftrightarrow> mem_keys_under m (full_path p) \<noteq> []"
    by (auto simp: mem_folder_exists_def mem_keys_under_def list_ex_iff filter_empty_conv)
  have child: "is_child_of (full_path p) = (\<lambda>k. components k \<noteq> [] \<and> components k \<noteq> [RootDir] \<and>
      butlast (components k) = components (full_path p))"
    by (simp add: fun_eq_iff is_child_of_iff)
  show ?thesis
    using ex keys_under_Nil_iff [of m "full_path p"]
    by (simp add: mem_child_files_def mem_all_child_files_def collect_typed_filter child
        mem_keys_under_def starts_with_def)
qed

text \<open>
  Moving a folder into one of its own subfolders: the loop walks the keys it collected before,
  in hash order, and what it does depends on that order. In both orders files remain beneath
  the source; in the first the file at \<open>a/b/x\<close> is lost.
\<close>

definition nested_first :: mem_io where
  "nested_first = \<lparr>mem_files = [(''a/x'', [1]), (''a/b/x'', [2])]\<rparr>"

definition nested_second :: mem_io where
  "nested_second = \<lparr>mem_files = [(''a/b/x'', [2]), (''a/x'', [1])]\<rparr>"

lemma mem_move_folder_nested_loses:
  "map_option (mem_files \<circ> snd) (mem_move_folder nested_first (demo_folder ''a'') (demo_folder ''a/b''))
     = Some [(''a/b/b/x'', [1])]"
  "map_option (mem_files \<circ> snd) (mem_move_folder nested_second (demo_folder ''a'') (demo_folder ''a/b''))
     = Some [(''a/b/b/x'', [2]), (''a/b/x'', [1])]"
  by (simp_all add: nested_first_def nested_second_def demo_folder_def mem_move_folder_def
      mem_keys_under_def hm_keys_def starts_with_def strip_prefix_def after_components_def
      hm_get_def hm_abs_def hm_remove_def body_pieces_def lead_len_def lead_cur_def trim_right_def
      trim_left_def components_def head_components_def real_pieces_def skip_piece_def
      piece_component_def push_def)

section \<open>The async engine\<close>

record amem_io =
  amem_files :: "(string, ustring) hash_map"

definition amem_new :: amem_io where
  "amem_new = \<lparr>amem_files = []\<rparr>"

definition amem_read_file :: "amem_io \<Rightarrow> file_path \<Rightarrow> file_error + ustring" where
  "amem_read_file m path =
     ok_or (file_not_found (full_path path)) (hm_get components (amem_files m) (full_path path))"

definition amem_exists :: "amem_io \<Rightarrow> file_path \<Rightarrow> bool" where
  "amem_exists m path = (hm_get components (amem_files m) (full_path path) \<noteq> None)"

definition amem_write_file :: "amem_io \<Rightarrow> file_path \<Rightarrow> ustring \<Rightarrow> (file_error + unit) \<times> amem_io" where
  "amem_write_file m path data =
     (Inr (), m\<lparr>amem_files := hm_insert components (full_path path) data (amem_files m)\<rparr>)"

definition amem_delete_file :: "amem_io \<Rightarrow> file_path \<Rightarrow> (file_error + unit) \<times> amem_io" where
  "amem_delete_file m path =
     (ok_or (file_not_found (full_path path))
        (map_option (\<lambda>_. ()) (hm_get components (amem_files m) (full_path path))),
      m\<lparr>amem_files := hm_remove components (full_path path) (amem_files m)\<rparr>)"

definition amem_move_file :: "amem_io \<Rightarrow> file_path \<Rightarrow> file_path \<Rightarrow> (file_error + unit) \<times> amem_io" where
  "amem_move_file m from to =
     (case hm_get components (amem_files m) (full_path from) of
        None \<Rightarrow> (Inl (file_not_found (full_path from)), m)
      | Some contents \<Rightarrow>
          (Inr (), m\<lparr>amem_files := hm_insert components (full_path to) contents
             (hm_remove components (full_path from) (amem_files m))\<rparr>))"

definition amem_copy_file :: "amem_io \<Rightarrow> file_path \<Rightarrow> file_path \<Rightarrow> (file_error + unit) \<times> amem_io" where
  "amem_copy_file m from to =
     (case hm_get components (amem_files m) (full_path from) of
        None \<Rightarrow> (Inl (file_not_found (full_path from)), m)
      | Some contents \<Rightarrow>
          (Inr (), m\<lparr>amem_files := hm_insert components (full_path to) contents (amem_files m)\<rparr>))"

definition amem_file_io :: "amem_io file_io" where
  "amem_file_io = \<lparr>fio_read = amem_read_file, fio_exists = amem_exists, fio_write = amem_write_file,
     fio_delete = amem_delete_file, fio_move = amem_move_file, fio_copy = amem_copy_file\<rparr>"

definition amem_content :: "amem_io \<Rightarrow> path_component list \<Rightarrow> ustring option" where
  "amem_content m = hm_abs components (amem_files m)"

definition amem_ok :: "amem_io \<Rightarrow> bool" where
  "amem_ok m = hm_inv components (amem_files m)"

lemmas amem_defs = amem_file_io_def amem_read_file_def amem_exists_def amem_write_file_def
  amem_delete_file_def amem_move_file_def amem_copy_file_def amem_content_def amem_ok_def hm_get_def

interpretation amem: total_store amem_file_io components amem_content amem_ok
  by unfold_locales
    (auto simp: amem_defs ok_or_def fun_upd_twist split: option.splits)

section \<open>Properties of the file operations\<close>

definition as_blocking :: "amem_io \<Rightarrow> mem_io" where
  "as_blocking a = \<lparr>mem_files = amem_files a\<rparr>"

text \<open>The async in-memory engine is the blocking one: every operation returns the same
  result and leaves the same table behind.\<close>

theorem amem_refines_mem:
  "amem_read_file a p = mem_read_file (as_blocking a) p
   \<and> amem_exists a p = mem_exists (as_blocking a) p
   \<and> map_prod id as_blocking (amem_write_file a p c) = mem_write_file (as_blocking a) p c
   \<and> map_prod id as_blocking (amem_delete_file a p) = mem_delete_file (as_blocking a) p
   \<and> map_prod id as_blocking (amem_move_file a p q) = mem_move_file (as_blocking a) p q
   \<and> map_prod id as_blocking (amem_copy_file a p q) = mem_copy_file (as_blocking a) p q"
  by (auto simp: as_blocking_def amem_read_file_def mem_read_file_def amem_exists_def mem_exists_def
      amem_write_file_def mem_write_file_def amem_delete_file_def mem_delete_file_def
      amem_move_file_def mem_move_file_def amem_copy_file_def mem_copy_file_def split: option.splits)

text \<open>The in-memory file operations as functions of the stored map: a read returns the last
  contents written under an equal path (components compared) and fails with \<open>file not found\<close>
  otherwise; write, delete, move and copy succeed exactly when they have to and change exactly
  the paths they name; moving a file onto itself keeps it.\<close>

theorem mem_file_ops_functional:
  "mem_read_file m p = ok_or (file_not_found (full_path p)) (mem_content m (components (full_path p)))
   \<and> mem_content (snd (mem_write_file m p c)) = (mem_content m)(components (full_path p) \<mapsto> c)
   \<and> (is_ok (fst (mem_delete_file m p)) \<longleftrightarrow> mem_exists m p)
   \<and> mem_content (snd (mem_delete_file m p)) = (mem_content m)(components (full_path p) := None)
   \<and> (is_ok (fst (mem_move_file m p q)) \<longleftrightarrow> mem_exists m p)
   \<and> (mem_exists m p \<longrightarrow> mem_content (snd (mem_move_file m p q)) =
        (mem_content m)(components (full_path p) := None,
          components (full_path q) := mem_content m (components (full_path p))))
   \<and> (is_ok (fst (mem_copy_file m p q)) \<longleftrightarrow> mem_exists m p)
   \<and> (mem_exists m p \<longrightarrow> mem_content (snd (mem_copy_file m p q)) =
        (mem_content m)(components (full_path q) := mem_content m (components (full_path p))))"
  by (auto simp: mem_file_defs ok_or_def split: option.splits)

lemma mem_file_ops_functional_witness:
  "mem_exists demo_mem (plain_file ''a//x'') \<and>
   mem_content (snd (mem_move_file demo_mem (plain_file ''a//x'') (plain_file ''c''))) =
     (mem_content demo_mem)(components ''a//x'' := None, components ''c'' := mem_content demo_mem (components ''a//x''))"
proof -
  have "mem_exists demo_mem (plain_file ''a//x'')"
    by (simp add: mem_exists_def hm_get_def demo_defs)
  then show ?thesis
    using mem_file_ops_functional [of demo_mem "plain_file ''a//x''" "[]" "plain_file ''c''"] by simp
qed

end
