(* ===== verification/Mem_File.thy ===== *)
theory Mem_File
  imports Text_Edit Mem_Engine
begin

text \<open>
  One in-memory file buffer: \<open>full_mem_file.rs\<close> (the record, \<open>save\<close>, the flush on drop) and the
  files of \<open>full_descriptors\<close> (constructors, collaboration state, the edits of \<open>tx_blocking.rs\<close>
  and \<open>tx_async.rs\<close> with their save policy). A step returns its result, the buffer and the
  store; \<open>None\<close> is a panic. An awaited call is the call. What the buffers promise is proved
  against the interface \<open>file_store\<close>.
\<close>

section \<open>The buffer\<close>

datatype backend = Blocking | Async

record 'doc mem_file =
  mf_doc :: 'doc
  mf_path :: file_path
  ops_since_save :: nat
  flush_on_drop :: bool
  mf_backend :: backend

definition save_threshold :: nat where
  "save_threshold = 5"

definition mf_new :: "'doc \<Rightarrow> file_path \<Rightarrow> backend \<Rightarrow> 'doc mem_file" where
  "mf_new doc path b =
     \<lparr>mf_doc = doc, mf_path = path, ops_since_save = 0, flush_on_drop = True, mf_backend = b\<rparr>"

definition from_string ::
    "('doc, 'u, 'v) yrs \<Rightarrow> file_path \<Rightarrow> backend \<Rightarrow> ustring \<Rightarrow> 'doc mem_file option" where
  "from_string Y path b contents =
     (if contents = [] then Some (mf_new (y_new Y) path b)
      else map_option (\<lambda>doc. mf_new doc path b) (y_insert Y (y_new Y) 0 contents))"

definition mf_empty :: "('doc, 'u, 'v) yrs \<Rightarrow> file_path \<Rightarrow> backend \<Rightarrow> 'doc mem_file option" where
  "mf_empty Y path b = from_string Y path b []"

definition from_state ::
    "('doc, 'u, 'v) yrs \<Rightarrow> file_path \<Rightarrow> nat list \<Rightarrow> backend \<Rightarrow> file_error + 'doc mem_file" where
  "from_state Y path state_update b =
     res_bind (map_err (MemFileError (full_path path)) (y_decode_update Y state_update)) (\<lambda>update.
       (case y_apply_update Y (y_new Y) update of
          (Inl e, _) \<Rightarrow> Inl (MemFileError (full_path path) e)
        | (Inr _, doc) \<Rightarrow> Inr (mf_new doc path b)))"

definition set_flush_on_drop :: "'doc mem_file \<Rightarrow> bool \<Rightarrow> 'doc mem_file" where
  "set_flush_on_drop f enabled = f\<lparr>flush_on_drop := enabled\<rparr>"

definition from_file :: "('doc, 'u, 'v) yrs \<Rightarrow> 's file_io \<Rightarrow> 's \<Rightarrow> file_path \<Rightarrow> backend \<Rightarrow>
    (file_error + 'doc mem_file) option" where
  "from_file Y io s path b =
     (case fio_read io s path of
        Inl e \<Rightarrow> Some (Inl e)
      | Inr contents \<Rightarrow> map_option Inr (from_string Y path b contents))"

section \<open>Its state\<close>

definition mf_contents :: "('doc, 'u, 'v) yrs \<Rightarrow> 'doc mem_file \<Rightarrow> ustring" where
  "mf_contents Y f = y_string Y (mf_doc f)"

definition mf_encode_state :: "('doc, 'u, 'v) yrs \<Rightarrow> 'doc mem_file \<Rightarrow> nat list" where
  "mf_encode_state Y f = y_encode_state Y (mf_doc f)"

definition mf_state_vector :: "('doc, 'u, 'v) yrs \<Rightarrow> 'doc mem_file \<Rightarrow> nat list" where
  "mf_state_vector Y f = y_state_vector Y (mf_doc f)"

definition mf_encode_diff ::
    "('doc, 'u, 'v) yrs \<Rightarrow> 'doc mem_file \<Rightarrow> nat list \<Rightarrow> file_error + nat list" where
  "mf_encode_diff Y f state_vector =
     res_bind (map_err (MemFileError (relative_string (mf_path f))) (y_decode_vector Y state_vector))
       (\<lambda>remote. Inr (y_encode_diff Y (mf_doc f) remote))"

section \<open>Saving and dropping\<close>

definition mf_save :: "('doc, 'u, 'v) yrs \<Rightarrow> 's file_io \<Rightarrow> 'doc mem_file \<Rightarrow> 's \<Rightarrow>
    (file_error + unit) \<times> 'doc mem_file \<times> 's" where
  "mf_save Y io f s =
     (case fio_write io s (mf_path f) (mf_contents Y f) of
        (Inl e, s') \<Rightarrow> (Inl e, f, s')
      | (Inr _, s') \<Rightarrow> (Inr (), f\<lparr>ops_since_save := 0\<rparr>, s'))"

definition drop_flush :: "'s file_io \<Rightarrow> backend \<Rightarrow> file_path \<Rightarrow> ustring \<Rightarrow> 's \<Rightarrow> 's" where
  "drop_flush io b path contents s =
     (case b of Blocking \<Rightarrow> snd (fio_write io s path contents) | Async \<Rightarrow> s)"

definition mf_drop :: "('doc, 'u, 'v) yrs \<Rightarrow> 's file_io \<Rightarrow> 'doc mem_file \<Rightarrow> 's \<Rightarrow> 's" where
  "mf_drop Y io f s =
     (if flush_on_drop f then drop_flush io (mf_backend f) (mf_path f) (mf_contents Y f) s else s)"

section \<open>Edits\<close>

type_synonym ('doc, 's) edit_result = "((file_error + unit) \<times> 'doc mem_file \<times> 's) option"

definition record_single_edit :: "('doc, 'u, 'v) yrs \<Rightarrow> 's file_io \<Rightarrow> 'doc mem_file \<Rightarrow> 's \<Rightarrow>
    (file_error + unit) \<times> 'doc mem_file \<times> 's" where
  "record_single_edit Y io f s =
     (let f = f\<lparr>ops_since_save := ops_since_save f + 1\<rparr> in
      if ops_since_save f \<ge> save_threshold then mf_save Y io f s else (Inr (), f, s))"

definition mf_insert_char :: "('doc, 'u, 'v) yrs \<Rightarrow> 's file_io \<Rightarrow> 'doc mem_file \<Rightarrow> 's \<Rightarrow>
    cursor_index \<Rightarrow> nat \<Rightarrow> ('doc, 's) edit_result" where
  "mf_insert_char Y io f s position character =
     map_option (\<lambda>doc. record_single_edit Y io (f\<lparr>mf_doc := doc\<rparr>) s)
       (tx_insert_char Y (mf_contents Y f) (mf_doc f) position character)"

definition mf_delete_char :: "('doc, 'u, 'v) yrs \<Rightarrow> 's file_io \<Rightarrow> 'doc mem_file \<Rightarrow> 's \<Rightarrow>
    cursor_index \<Rightarrow> ('doc, 's) edit_result" where
  "mf_delete_char Y io f s position =
     map_option (\<lambda>doc. record_single_edit Y io (f\<lparr>mf_doc := doc\<rparr>) s)
       (tx_delete_char Y (mf_contents Y f) (mf_doc f) position)"

definition mf_delete_range :: "('doc, 'u, 'v) yrs \<Rightarrow> 's file_io \<Rightarrow> 'doc mem_file \<Rightarrow> 's \<Rightarrow>
    cursor_index \<Rightarrow> nat \<Rightarrow> ('doc, 's) edit_result" where
  "mf_delete_range Y io f s position delta =
     map_option (\<lambda>doc. mf_save Y io (f\<lparr>mf_doc := doc\<rparr>) s)
       (tx_delete_range Y (mf_contents Y f) (mf_doc f) position delta)"

definition mf_insert_text :: "('doc, 'u, 'v) yrs \<Rightarrow> 's file_io \<Rightarrow> 'doc mem_file \<Rightarrow> 's \<Rightarrow>
    cursor_index \<Rightarrow> ustring \<Rightarrow> ('doc, 's) edit_result" where
  "mf_insert_text Y io f s position data =
     map_option (\<lambda>doc. mf_save Y io (f\<lparr>mf_doc := doc\<rparr>) s)
       (tx_insert_text Y (mf_contents Y f) (mf_doc f) position data)"

text \<open>A merged update neither counts nor saves.\<close>

definition mf_apply_update :: "('doc, 'u, 'v) yrs \<Rightarrow> 'doc mem_file \<Rightarrow> nat list \<Rightarrow>
    (file_error + unit) \<times> 'doc mem_file" where
  "mf_apply_update Y f update =
     (case tx_apply_update Y (mf_doc f) (full_path (mf_path f)) update of
        (r, doc) \<Rightarrow> (r, f\<lparr>mf_doc := doc\<rparr>))"

section \<open>Saving against the store contract\<close>

lemma mf_contents_simps [simp]:
  "mf_contents Y (f\<lparr>ops_since_save := n\<rparr>) = mf_contents Y f"
  "mf_contents Y (f\<lparr>flush_on_drop := b\<rparr>) = mf_contents Y f"
  "mf_contents Y (f\<lparr>mf_doc := d\<rparr>) = y_string Y d"
  "mf_contents Y (mf_new d p bk) = y_string Y d"
  by (simp_all add: mf_contents_def mf_new_def)

text \<open>What a step may have done to the store: nothing, or written the buffer's contents under the
  buffer's path.\<close>

definition store_step :: "(string \<Rightarrow> 'n) \<Rightarrow> ('s \<Rightarrow> 'n \<Rightarrow> ustring option) \<Rightarrow> ('s \<Rightarrow> bool) \<Rightarrow>
    file_path \<Rightarrow> ustring \<Rightarrow> 's \<Rightarrow> 's \<Rightarrow> bool" where
  "store_step key content ok p c s s' \<longleftrightarrow>
     ok s' \<and> (content s' = content s \<or> content s' = (content s)(key (full_path p) \<mapsto> c))"

text \<open>A buffer with no edits since its last save is what the store has.\<close>

definition synced :: "('doc, 'u, 'v) yrs \<Rightarrow> (string \<Rightarrow> 'n) \<Rightarrow> ('s \<Rightarrow> 'n \<Rightarrow> ustring option) \<Rightarrow>
    'doc mem_file \<Rightarrow> 's \<Rightarrow> bool" where
  "synced Y key content f s \<longleftrightarrow>
     (ops_since_save f = 0 \<longrightarrow> content s (key (full_path (mf_path f))) = Some (mf_contents Y f))"

text \<open>
  What every edit promises, whatever the store does: the text is the edited text even when the
  save fails, nothing but this buffer's path is written, and after a success fewer than
  \<open>SAVE_THRESHOLD\<close> edits are missing from the store, none when the counter is zero.
\<close>

definition edit_outcome :: "('doc, 'u, 'v) yrs \<Rightarrow> (string \<Rightarrow> 'n) \<Rightarrow> ('s \<Rightarrow> 'n \<Rightarrow> ustring option) \<Rightarrow>
    ('s \<Rightarrow> bool) \<Rightarrow> ('doc \<Rightarrow> 'doc \<Rightarrow> bool) \<Rightarrow> 'doc mem_file \<Rightarrow> 's \<Rightarrow> ustring \<Rightarrow>
    (file_error + unit) \<times> 'doc mem_file \<times> 's \<Rightarrow> bool" where
  "edit_outcome Y key content ok ext f s t out \<longleftrightarrow>
     (case out of (r, f', s') \<Rightarrow>
        mf_contents Y f' = t \<and> ext (mf_doc f) (mf_doc f')
        \<and> mf_path f' = mf_path f \<and> mf_backend f' = mf_backend f \<and> flush_on_drop f' = flush_on_drop f
        \<and> store_step key content ok (mf_path f) t s s'
        \<and> (is_ok r \<longrightarrow> ops_since_save f' < save_threshold \<and> synced Y key content f' s')
        \<and> (\<not> is_ok r \<longrightarrow> content s' = content s))"

context file_store
begin

lemma save_ok:
  assumes "ok s" and "mf_save Y io f s = (Inr u, f', s')"
  shows "content s' = (content s)(key (full_path (mf_path f)) \<mapsto> mf_contents Y f)"
    and "ok s'" and "f' = f\<lparr>ops_since_save := 0\<rparr>"
proof -
  obtain r t where w: "fio_write io s (mf_path f) (mf_contents Y f) = (r, t)" by fastforce
  with assms(2) obtain v where r: "r = Inr v" and t: "t = s'" and f: "f' = f\<lparr>ops_since_save := 0\<rparr>"
    by (cases r) (auto simp: mf_save_def)
  from write_ok [OF assms(1) w [unfolded r]] t
  show "content s' = (content s)(key (full_path (mf_path f)) \<mapsto> mf_contents Y f)" by simp
  from write_inv [OF assms(1), of "mf_path f" "mf_contents Y f"] w t show "ok s'" by simp
  from f show "f' = f\<lparr>ops_since_save := 0\<rparr>" .
qed

lemma save_err:
  assumes "ok s" and "mf_save Y io f s = (Inl e, f', s')"
  shows "content s' = content s" and "ok s'" and "f' = f"
proof -
  obtain r t where w: "fio_write io s (mf_path f) (mf_contents Y f) = (r, t)" by fastforce
  with assms(2) obtain e where r: "r = Inl e" and t: "t = s'" and f: "f' = f"
    by (cases r) (auto simp: mf_save_def)
  from write_err [OF assms(1) w [unfolded r]] t show "content s' = content s" by simp
  from write_inv [OF assms(1), of "mf_path f" "mf_contents Y f"] w t show "ok s'" by simp
  from f show "f' = f" .
qed

lemma save_step:
  assumes "ok s" and "mf_save Y io f s = (r, f', s')"
  shows "store_step key content ok (mf_path f) (mf_contents Y f) s s'"
    and "mf_contents Y f' = mf_contents Y f" and "mf_doc f' = mf_doc f"
    and "mf_path f' = mf_path f" and "mf_backend f' = mf_backend f" and "flush_on_drop f' = flush_on_drop f"
    and "is_ok r \<Longrightarrow> ops_since_save f' = 0 \<and> synced Y key content f' s'"
    and "\<not> is_ok r \<Longrightarrow> ops_since_save f' = ops_since_save f \<and> content s' = content s"
proof -
  show "store_step key content ok (mf_path f) (mf_contents Y f) s s'"
    using save_ok [OF assms(1)] save_err [OF assms(1)] assms(2)
    by (cases r) (auto simp: store_step_def)
  show "mf_contents Y f' = mf_contents Y f" "mf_doc f' = mf_doc f" "mf_path f' = mf_path f"
    "mf_backend f' = mf_backend f" "flush_on_drop f' = flush_on_drop f"
    using save_ok(3) [OF assms(1)] save_err(3) [OF assms(1)] assms(2)
    by (cases r; fastforce)+
  show "is_ok r \<Longrightarrow> ops_since_save f' = 0 \<and> synced Y key content f' s'"
  proof -
    assume "is_ok r"
    then obtain u where "r = Inr u" by (auto simp: is_ok_iff)
    with assms(2) have "mf_save Y io f s = (Inr u, f', s')" by simp
    from save_ok [OF assms(1) this] show ?thesis by (simp add: synced_def)
  qed
  show "\<not> is_ok r \<Longrightarrow> ops_since_save f' = ops_since_save f \<and> content s' = content s"
  proof -
    assume "\<not> is_ok r"
    then obtain e where "r = Inl e" by (cases r) simp_all
    with assms(2) have "mf_save Y io f s = (Inl e, f', s')" by simp
    from save_err [OF assms(1) this] show ?thesis by simp
  qed
qed

lemma drop_step:
  assumes "ok s"
  shows "store_step key content ok (mf_path f) (mf_contents Y f) s (mf_drop Y io f s)"
proof (cases "flush_on_drop f \<and> mf_backend f = Blocking")
  case True
  obtain r t where w: "fio_write io s (mf_path f) (mf_contents Y f) = (r, t)" by fastforce
  then have "mf_drop Y io f s = t" using True by (simp add: mf_drop_def drop_flush_def)
  then show ?thesis
    using write_ok [OF assms] write_err [OF assms] write_inv [OF assms, of "mf_path f" "mf_contents Y f"] w
    by (cases r) (auto simp: store_step_def)
next
  case False
  then have "mf_drop Y io f s = s"
    by (cases "mf_backend f") (simp_all add: mf_drop_def drop_flush_def)
  then show ?thesis using assms by (simp add: store_step_def)
qed

lemma save_outcome:
  assumes "ok s" and "ext (mf_doc f) d"
  shows "edit_outcome Y key content ok ext f s (y_string Y d) (mf_save Y io (f\<lparr>mf_doc := d\<rparr>) s)"
proof -
  obtain r f' s' where sv: "mf_save Y io (f\<lparr>mf_doc := d\<rparr>) s = (r, f', s')" by (metis prod_cases3)
  from save_step [OF assms(1) this] assms(2) show ?thesis
    unfolding sv edit_outcome_def by (simp add: save_threshold_def)
qed

lemma record_outcome:
  assumes "ok s" and "ext (mf_doc f) d"
  shows "edit_outcome Y key content ok ext f s (y_string Y d)
    (record_single_edit Y io (f\<lparr>mf_doc := d\<rparr>) s)"
proof (cases "ops_since_save f + 1 \<ge> save_threshold")
  case True
  let ?f = "f\<lparr>ops_since_save := ops_since_save f + 1\<rparr>"
  have "edit_outcome Y key content ok ext ?f s (y_string Y d) (mf_save Y io (?f\<lparr>mf_doc := d\<rparr>) s)"
    using assms by (intro save_outcome) simp_all
  moreover have "?f\<lparr>mf_doc := d\<rparr> = f\<lparr>mf_doc := d, ops_since_save := ops_since_save f + 1\<rparr>" by simp
  ultimately have "edit_outcome Y key content ok ext ?f s (y_string Y d)
      (mf_save Y io (f\<lparr>mf_doc := d, ops_since_save := ops_since_save f + 1\<rparr>) s)" by (simp only:)
  then show ?thesis
    using True by (simp add: record_single_edit_def edit_outcome_def Let_def)
next
  case False
  with assms show ?thesis
    by (simp add: record_single_edit_def edit_outcome_def Let_def store_step_def synced_def)
qed

end

section \<open>Properties\<close>

lemma map_option_outcome:
  assumes "\<exists>d'. x = Some d' \<and> ext (mf_doc f) d' \<and> y_string Y d' = t"
    and "\<And>d'. ext (mf_doc f) d' \<Longrightarrow> edit_outcome Y key content ok ext f s (y_string Y d') (g d')"
  shows "\<exists>out. map_option g x = Some out \<and> edit_outcome Y key content ok ext f s t out"
proof -
  from assms(1) obtain d' where "x = Some d'" "ext (mf_doc f) d'" "y_string Y d' = t" by blast
  with assms(2) [of d'] show ?thesis by simp
qed

lemma mf_insert_text_outcome:
  assumes store: "file_store io key content ok" and laws: "yrs_laws Y ext"
    and fits: "fits (mf_contents Y f)" and ok: "ok s"
  shows "\<exists>out. mf_insert_text Y io f s p t = Some out \<and>
    edit_outcome Y key content ok ext f s (insert_at p t (mf_contents Y f)) out"
  unfolding mf_insert_text_def mf_contents_def
  by (rule map_option_outcome, rule tx_insert_text_spec [OF laws fits [unfolded mf_contents_def]],
    rule file_store.save_outcome [OF store ok])

lemma mf_insert_char_outcome:
  assumes store: "file_store io key content ok" and laws: "yrs_laws Y ext"
    and fits: "fits (mf_contents Y f)" and ok: "ok s"
  shows "\<exists>out. mf_insert_char Y io f s p c = Some out \<and>
    edit_outcome Y key content ok ext f s (insert_at p [c] (mf_contents Y f)) out"
  unfolding mf_insert_char_def mf_contents_def tx_insert_char_text
  by (rule map_option_outcome, rule tx_insert_text_spec [OF laws fits [unfolded mf_contents_def]],
    rule file_store.record_outcome [OF store ok])

lemma mf_delete_range_outcome:
  assumes store: "file_store io key content ok" and laws: "yrs_laws Y ext"
    and fits: "fits (mf_contents Y f)" and ok: "ok s"
  shows "\<exists>out. mf_delete_range Y io f s p k = Some out \<and>
    edit_outcome Y key content ok ext f s (delete_at p k (mf_contents Y f)) out"
  unfolding mf_delete_range_def mf_contents_def
  by (rule map_option_outcome, rule tx_delete_range_spec [OF laws fits [unfolded mf_contents_def]],
    rule file_store.save_outcome [OF store ok])

lemma mf_delete_char_outcome:
  assumes store: "file_store io key content ok" and laws: "yrs_laws Y ext"
    and fits: "fits (mf_contents Y f)" and ok: "ok s"
  shows "\<exists>out. mf_delete_char Y io f s p = Some out \<and>
    edit_outcome Y key content ok ext f s (delete_at p 1 (mf_contents Y f)) out"
  unfolding mf_delete_char_def mf_contents_def tx_delete_char_range
  by (rule map_option_outcome, rule tx_delete_range_spec [OF laws fits [unfolded mf_contents_def]],
    rule file_store.record_outcome [OF store ok])

lemmas mf_edit_outcomes = mf_insert_text_outcome mf_insert_char_outcome mf_delete_range_outcome
  mf_delete_char_outcome

text \<open>Whatever the engine: an edit's text, and that its only effect on the store is at most one write of that
  text under the buffer's path, whose result is the edit's.\<close>

definition edit_writes :: "('doc, 'u, 'v) yrs \<Rightarrow> 's file_io \<Rightarrow> 'doc mem_file \<Rightarrow> 's \<Rightarrow> ustring \<Rightarrow>
    (file_error + unit) \<times> 'doc mem_file \<times> 's \<Rightarrow> bool" where
  "edit_writes Y io f s t out \<longleftrightarrow>
     (case out of (r, f', s') \<Rightarrow> mf_contents Y f' = t \<and> mf_path f' = mf_path f \<and> mf_backend f' = mf_backend f \<and>
        (r = Inr () \<and> s' = s \<or> fio_write io s (mf_path f) t = (r, s')))"

lemma save_writes: "edit_writes Y io f s (y_string Y d) (mf_save Y io (f\<lparr>mf_doc := d\<rparr>) s)"
  by (simp add: edit_writes_def mf_save_def split: prod.split sum.split)

lemma record_writes: "edit_writes Y io f s (y_string Y d) (record_single_edit Y io (f\<lparr>mf_doc := d\<rparr>) s)"
  by (simp add: edit_writes_def record_single_edit_def mf_save_def Let_def split: prod.split sum.split)

lemma map_option_writes:
  assumes "\<exists>d'. x = Some d' \<and> ext (mf_doc f) d' \<and> y_string Y d' = t"
    and "\<And>d'. edit_writes Y io f s (y_string Y d') (g d')"
  shows "\<exists>out. map_option g x = Some out \<and> edit_writes Y io f s t out"
  using assms by fastforce

lemma mf_edit_writes:
  assumes laws: "yrs_laws Y ext" and fits: "fits (mf_contents Y f)"
  shows "\<exists>out. mf_insert_text Y io f s p t = Some out \<and> edit_writes Y io f s (insert_at p t (mf_contents Y f)) out"
    and "\<exists>out. mf_insert_char Y io f s p c = Some out \<and> edit_writes Y io f s (insert_at p [c] (mf_contents Y f)) out"
    and "\<exists>out. mf_delete_range Y io f s p k = Some out \<and> edit_writes Y io f s (delete_at p k (mf_contents Y f)) out"
    and "\<exists>out. mf_delete_char Y io f s p = Some out \<and> edit_writes Y io f s (delete_at p 1 (mf_contents Y f)) out"
  unfolding mf_insert_text_def mf_insert_char_def mf_delete_range_def mf_delete_char_def mf_contents_def
    tx_insert_char_text tx_delete_char_range
  by (rule map_option_writes, rule tx_insert_text_spec [OF laws fits [unfolded mf_contents_def]]
      tx_delete_range_spec [OF laws fits [unfolded mf_contents_def]], rule save_writes record_writes)+

lemma from_string_ok:
  assumes "yrs_laws Y ext"
  shows "\<exists>f. from_string Y p b c = Some f \<and> mf_contents Y f = c \<and> mf_path f = p \<and>
    mf_backend f = b \<and> ops_since_save f = 0 \<and> flush_on_drop f"
proof (cases "c = []")
  case True
  then show ?thesis using yrs_lawsD(1) [OF assms] by (simp add: from_string_def mf_new_def mf_contents_def)
next
  case False
  from yrs_lawsD(2) [OF assms, of 0 "y_new Y" 0 c] obtain d where
    "y_insert Y (y_new Y) 0 c = Some d" and "y_string Y d = c"
    by (auto simp: yrs_lawsD(1) [OF assms])
  with False show ?thesis by (simp add: from_string_def mf_new_def mf_contents_def)
qed

lemma from_state_ok:
  assumes "yrs_laws Y ext"
  shows "\<exists>f. from_state Y p (mf_encode_state Y g) b = Inr f \<and> mf_contents Y f = mf_contents Y g \<and>
    mf_path f = p \<and> mf_backend f = b \<and> ops_since_save f = 0 \<and> flush_on_drop f"
  using yrs_lawsD(7) [OF assms, of "mf_doc g"]
  by (auto simp: from_state_def mf_encode_state_def mf_contents_def mf_new_def)

text \<open>C5: Every edit of a buffer over any engine that meets the store contract returns, with
  the text edited as asked even when the write behind it fails; it never touches another
  path; an error leaves the stored files as they were; and a success leaves fewer than five
  edits unsaved, with the store holding exactly the buffer's text whenever the counter is zero.\<close>

theorem edits_keep_store_close:
  assumes "file_store io key content ok" and "yrs_laws Y ext"
    and "fits (mf_contents Y f)" and "ok s"
  shows "(\<exists>out. mf_insert_char Y io f s p c = Some out \<and>
      edit_outcome Y key content ok ext f s (insert_at p [c] (mf_contents Y f)) out)
    \<and> (\<exists>out. mf_delete_char Y io f s p = Some out \<and>
      edit_outcome Y key content ok ext f s (delete_at p 1 (mf_contents Y f)) out)
    \<and> (\<exists>out. mf_insert_text Y io f s p t = Some out \<and>
      edit_outcome Y key content ok ext f s (insert_at p t (mf_contents Y f)) out)
    \<and> (\<exists>out. mf_delete_range Y io f s p k = Some out \<and>
      edit_outcome Y key content ok ext f s (delete_at p k (mf_contents Y f)) out)"
  using mf_edit_outcomes [OF assms] by blast

definition demo_buffer :: "ustring mem_file" where
  "demo_buffer = mf_new [104, 105] (plain_file ''a.txt'') Blocking"

lemma edits_keep_store_close_witness:
  "\<exists>out. mf_insert_char list_yrs mem_file_io demo_buffer mem_new \<lparr>col = 1, line = 0\<rparr> 33 = Some out \<and>
     edit_outcome list_yrs components mem_content mem_ok (\<lambda>_ _. True) demo_buffer mem_new [104, 33, 105] out"
proof -
  have "fits (mf_contents list_yrs demo_buffer)"
    by (simp add: fits_def demo_buffer_def len_utf8_def)
  moreover have "insert_at \<lparr>col = 1, line = 0\<rparr> [33] (mf_contents list_yrs demo_buffer) = [104, 33, 105]"
    by (simp add: insert_at_def char_pos_def demo_buffer_def)
  ultimately show ?thesis
    using edits_keep_store_close [OF mem.file_store_axioms list_yrs_laws, of demo_buffer mem_new
        "\<lparr>col = 1, line = 0\<rparr>" 33]
    by simp
qed

text \<open>Loading and saving are inverse: a buffer loaded from a store has the stored text and
  saving it writes that text back; a buffer rebuilt from the encoded state of another has its
  text; and a new buffer starts with no unsaved edits and flushing on drop enabled.\<close>

theorem buffer_round_trips:
  assumes "file_store io key content ok" and "yrs_laws Y ext" and "ok s"
  shows "(\<forall>c. fio_read io s p = Inr c \<longrightarrow> (\<exists>f. from_file Y io s p b = Some (Inr f) \<and>
        mf_contents Y f = c \<and> content s (key (full_path p)) = Some c \<and> ops_since_save f = 0 \<and> flush_on_drop f
        \<and> (\<forall>u f' s'. mf_save Y io f s = (Inr u, f', s') \<longrightarrow> content s' = content s)))
    \<and> (\<exists>f. from_state Y p (mf_encode_state Y g) b = Inr f \<and> mf_contents Y f = mf_contents Y g
        \<and> ops_since_save f = 0 \<and> flush_on_drop f)"
proof -
  have "\<exists>f. from_file Y io s p b = Some (Inr f) \<and>
        mf_contents Y f = c \<and> content s (key (full_path p)) = Some c \<and> ops_since_save f = 0 \<and> flush_on_drop f
        \<and> (\<forall>u f' s'. mf_save Y io f s = (Inr u, f', s') \<longrightarrow> content s' = content s)"
    if "fio_read io s p = Inr c" for c
  proof -
    obtain f where f: "from_string Y p b c = Some f" "mf_contents Y f = c" "mf_path f = p"
      "ops_since_save f = 0" "flush_on_drop f"
      using from_string_ok [OF assms(2)] by metis
    have "content s (key (full_path p)) = Some c"
      by (rule file_store.read_ok [OF assms(1,3) that])
    moreover have "content s' = content s" if "mf_save Y io f s = (Inr u, f', s')" for u f' s'
      using file_store.save_ok(1) [OF assms(1,3) that] f calculation by (simp add: fun_upd_idem)
    ultimately show ?thesis using f that by (auto simp: from_file_def)
  qed
  moreover have "\<exists>f. from_state Y p (mf_encode_state Y g) b = Inr f \<and> mf_contents Y f = mf_contents Y g
        \<and> ops_since_save f = 0 \<and> flush_on_drop f"
    using from_state_ok [OF assms(2)] by blast
  ultimately show ?thesis by blast
qed

lemma buffer_round_trips_witness:
  "\<exists>f. from_file list_yrs mem_file_io demo_mem (plain_file ''a/x'') Blocking = Some (Inr f) \<and>
     mf_contents list_yrs f = [1]"
proof -
  have "fio_read mem_file_io demo_mem (plain_file ''a/x'') = Inr [1]"
    by (simp add: mem_file_io_def mem_read_file_def hm_get_def demo_defs)
  then show ?thesis
    using buffer_round_trips [OF mem.file_store_axioms list_yrs_laws demo_mem_facts(1)] by blast
qed

end
