(* ===== verification/Guard.thy ===== *)
theory Guard
  imports Mem_File
begin

text \<open>
  The buffer tables \<open>MemFileGuard\<close> (\<open>mem_files/guard.rs\<close>) and \<open>AsyncMemFileGuard\<close>
  (\<open>mem_files/async_guard.rs\<close>): a hash map from full paths to buffers over one store. A step
  takes and returns the table and the store; \<open>None\<close> is a panic. The typestate of the buffers
  is the argument \<open>b\<close>; the operations in which the two guards differ are defined for each. The
  abstraction is the \<open>overlay\<close>: what a path holds is its resident buffer's text, else the store's.
\<close>

type_synonym 'doc file_map = "(string, 'doc mem_file) hash_map"
type_synonym ('doc, 's, 'a) guard_result = "((file_error + 'a) \<times> 'doc file_map \<times> 's) option"

section \<open>The table\<close>

definition map_key :: "file_path \<Rightarrow> string" where
  "map_key path = full_path path"

definition guard_new :: "'doc file_map" where
  "guard_new = []"

definition is_resident :: "'doc file_map \<Rightarrow> file_path \<Rightarrow> bool" where
  "is_resident g path = (hm_get components g (map_key path) \<noteq> None)"

text \<open>\<open>HashMap::insert\<close>: the buffer it replaces is dropped.\<close>

definition insert_dropping :: "('doc, 'u, 'v) yrs \<Rightarrow> 's file_io \<Rightarrow> string \<Rightarrow> 'doc mem_file \<Rightarrow>
    'doc file_map \<Rightarrow> 's \<Rightarrow> 'doc file_map \<times> 's" where
  "insert_dropping Y io key file g s =
     (hm_insert components key file g,
      (case hm_get components g key of None \<Rightarrow> s | Some old \<Rightarrow> mf_drop Y io old s))"

definition add_file :: "backend \<Rightarrow> ('doc, 'u, 'v) yrs \<Rightarrow> 's file_io \<Rightarrow> 'doc file_map \<Rightarrow> 's \<Rightarrow>
    file_path \<Rightarrow> ('doc, 's, unit) guard_result" where
  "add_file b Y io g s path =
     (case from_file Y io s path b of
        None \<Rightarrow> None
      | Some (Inl e) \<Rightarrow> Some (Inl e, g, s)
      | Some (Inr file) \<Rightarrow> Some (Inr (), insert_dropping Y io (map_key path) file g s))"

text \<open>The buffer itself stands for the mutable reference; \<open>put_back\<close> writes it back in place.\<close>

definition get_file :: "backend \<Rightarrow> ('doc, 'u, 'v) yrs \<Rightarrow> 's file_io \<Rightarrow> 'doc file_map \<Rightarrow> 's \<Rightarrow>
    file_path \<Rightarrow> ('doc, 's, 'doc mem_file) guard_result" where
  "get_file b Y io g s path =
     (let key = map_key path in
      (case (if hm_get components g key = None then add_file b Y io g s path else Some (Inr (), g, s)) of
         None \<Rightarrow> None
       | Some (Inl e, g, s) \<Rightarrow> Some (Inl e, g, s)
       | Some (Inr _, g, s) \<Rightarrow>
           (case hm_get components g key of
              None \<Rightarrow> None
            | Some file \<Rightarrow> Some (Inr file, g, s))))"

definition put_back :: "file_path \<Rightarrow> 'doc mem_file \<Rightarrow> 'doc file_map \<Rightarrow> 'doc file_map" where
  "put_back path file g = hm_insert components (map_key path) file g"

fun load_all :: "backend \<Rightarrow> ('doc, 'u, 'v) yrs \<Rightarrow> 's file_io \<Rightarrow> 'doc file_map \<Rightarrow> 's \<Rightarrow>
    file_path list \<Rightarrow> ('doc file_map \<times> 's) option" where
  "load_all b Y io g s [] = Some (g, s)"
| "load_all b Y io g s (path # paths) =
     (case add_file b Y io g s path of
        None \<Rightarrow> None
      | Some (_, g, s) \<Rightarrow> load_all b Y io g s paths)"

text \<open>The blocking guard takes the old buffer out with its flush disabled.\<close>

definition reset_file :: "('doc, 'u, 'v) yrs \<Rightarrow> 's file_io \<Rightarrow> 'doc file_map \<Rightarrow> 's \<Rightarrow>
    file_path \<Rightarrow> ustring \<Rightarrow> ('doc file_map \<times> 's) option" where
  "reset_file Y io g s path contents =
     (let key = map_key path;
          s' = (case hm_get components g key of
                  None \<Rightarrow> s
                | Some old \<Rightarrow> mf_drop Y io (set_flush_on_drop old False) s);
          g' = hm_remove components key g in
      map_option (\<lambda>file. insert_dropping Y io key file g' s') (from_string Y path Blocking contents))"

definition drop_file :: "('doc, 'u, 'v) yrs \<Rightarrow> 's file_io \<Rightarrow> 'doc file_map \<Rightarrow> 's \<Rightarrow>
    file_path \<Rightarrow> 'doc file_map \<times> 's" where
  "drop_file Y io g s path =
     (hm_remove components (map_key path) g,
      (case hm_get components g (map_key path) of None \<Rightarrow> s | Some file \<Rightarrow> mf_drop Y io file s))"

text \<open>\<open>retain\<close> drops what it removes, in table order.\<close>

fun drop_dir :: "('doc, 'u, 'v) yrs \<Rightarrow> 's file_io \<Rightarrow> 'doc file_map \<Rightarrow> 's \<Rightarrow>
    folder_path \<Rightarrow> 'doc file_map \<times> 's" where
  "drop_dir Y io [] s dir = ([], s)"
| "drop_dir Y io ((key, file) # g) s dir =
     (if starts_with key (full_path dir) then drop_dir Y io g (mf_drop Y io file s) dir
      else (case drop_dir Y io g s dir of (g', s') \<Rightarrow> ((key, file) # g', s')))"

text \<open>What the end of the guard's life does: every buffer is dropped.\<close>

fun guard_drop :: "('doc, 'u, 'v) yrs \<Rightarrow> 's file_io \<Rightarrow> 'doc file_map \<Rightarrow> 's \<Rightarrow> 's" where
  "guard_drop Y io [] s = s"
| "guard_drop Y io ((key, file) # g) s = guard_drop Y io g (mf_drop Y io file s)"

fun snapshot :: "('doc, 'u, 'v) yrs \<Rightarrow> 's file_io \<Rightarrow> 'doc file_map \<Rightarrow> 's \<Rightarrow>
    (file_error + unit) \<times> 'doc file_map \<times> 's" where
  "snapshot Y io [] s = (Inr (), [], s)"
| "snapshot Y io ((key, file) # g) s =
     (case mf_save Y io file s of
        (Inl e, file', s') \<Rightarrow> (Inl e, (key, file') # g, s')
      | (Inr _, file', s') \<Rightarrow>
          (case snapshot Y io g s' of (r, g', s'') \<Rightarrow> (r, (key, file') # g', s'')))"

section \<open>Transactions\<close>

definition apply_insert :: "('doc, 'u, 'v) yrs \<Rightarrow> 's file_io \<Rightarrow> 'doc mem_file \<Rightarrow> 's \<Rightarrow>
    cursor_index \<Rightarrow> ustring \<Rightarrow> ('doc, 's) edit_result" where
  "apply_insert Y io file s position content =
     (case content of
        [] \<Rightarrow> Some (Inr (), file, s)
      | [character] \<Rightarrow> mf_insert_char Y io file s position character
      | _ \<Rightarrow> mf_insert_text Y io file s position content)"

definition apply_delete :: "('doc, 'u, 'v) yrs \<Rightarrow> 's file_io \<Rightarrow> 'doc mem_file \<Rightarrow> 's \<Rightarrow>
    cursor_index \<Rightarrow> nat \<Rightarrow> ('doc, 's) edit_result" where
  "apply_delete Y io file s position len =
     (if len = 0 then Some (Inr (), file, s)
      else if len = 1 then mf_delete_char Y io file s position
      else mf_delete_range Y io file s position len)"

text \<open>The question mark after an edit.\<close>

definition and_then :: "('doc, 's) edit_result \<Rightarrow> ('doc mem_file \<Rightarrow> 's \<Rightarrow> ('doc, 's) edit_result) \<Rightarrow>
    ('doc, 's) edit_result" where
  "and_then r k =
     (case r of
        None \<Rightarrow> None
      | Some (Inl e, file, s) \<Rightarrow> Some (Inl e, file, s)
      | Some (Inr _, file, s) \<Rightarrow> k file s)"

fun apply_operation :: "('doc, 'u, 'v) yrs \<Rightarrow> 's file_io \<Rightarrow> 'doc mem_file \<Rightarrow> 's \<Rightarrow> operation \<Rightarrow>
    ('doc, 's) edit_result" where
  "apply_operation Y io file s (Insert i) = apply_insert Y io file s (ins_position i) (ins_content i)"
| "apply_operation Y io file s (Delete d) = apply_delete Y io file s (del_position d) (del_length d)"
| "apply_operation Y io file s (Swap w) =
     and_then (apply_delete Y io file s (swap_position w) (swap_length w)) (\<lambda>file s.
       apply_insert Y io file s (swap_position w) (swap_content w))"

fun apply_ops :: "('doc, 'u, 'v) yrs \<Rightarrow> 's file_io \<Rightarrow> 'doc mem_file \<Rightarrow> 's \<Rightarrow> operation list \<Rightarrow>
    ('doc, 's) edit_result" where
  "apply_ops Y io file s [] = Some (Inr (), file, s)"
| "apply_ops Y io file s (operation # ops) =
     and_then (apply_operation Y io file s operation) (\<lambda>file s. apply_ops Y io file s ops)"

definition apply_transaction_ops :: "('doc, 'u, 'v) yrs \<Rightarrow> 's file_io \<Rightarrow> 'doc mem_file \<Rightarrow> 's \<Rightarrow>
    transaction \<Rightarrow> ('doc, 's) edit_result" where
  "apply_transaction_ops Y io file s transaction = apply_ops Y io file s (operations transaction)"

definition apply_transaction :: "backend \<Rightarrow> ('doc, 'u, 'v) yrs \<Rightarrow> 's file_io \<Rightarrow> 'doc file_map \<Rightarrow> 's \<Rightarrow>
    file_path \<Rightarrow> transaction \<Rightarrow> ('doc, 's, nat list) guard_result" where
  "apply_transaction b Y io g s path transaction =
     (case get_file b Y io g s path of
        None \<Rightarrow> None
      | Some (Inl e, g, s) \<Rightarrow> Some (Inl e, g, s)
      | Some (Inr file, g, s) \<Rightarrow>
          (let before = mf_state_vector Y file in
           (case apply_transaction_ops Y io file s transaction of
              None \<Rightarrow> None
            | Some (Inl e, file, s) \<Rightarrow> Some (Inl e, put_back path file g, s)
            | Some (Inr _, file, s) \<Rightarrow>
                Some (mf_encode_diff Y file before, put_back path file g, s))))"

fun apply_transactions :: "backend \<Rightarrow> ('doc, 'u, 'v) yrs \<Rightarrow> 's file_io \<Rightarrow> 'doc file_map \<Rightarrow> 's \<Rightarrow>
    file_path \<Rightarrow> transaction list \<Rightarrow> ('doc, 's, unit) guard_result" where
  "apply_transactions b Y io g s path [] = Some (Inr (), g, s)"
| "apply_transactions b Y io g s path (t # ts) =
     (case apply_transaction b Y io g s path t of
        None \<Rightarrow> None
      | Some (Inl e, g, s) \<Rightarrow> Some (Inl e, g, s)
      | Some (Inr _, g, s) \<Rightarrow> apply_transactions b Y io g s path ts)"

section \<open>Where the async guard differs\<close>

text \<open>Its buffers do nothing when dropped, so it saves before letting one go.\<close>

definition async_reset_file :: "('doc, 'u, 'v) yrs \<Rightarrow> 's file_io \<Rightarrow> 'doc file_map \<Rightarrow> 's \<Rightarrow>
    file_path \<Rightarrow> ustring \<Rightarrow> ('doc file_map \<times> 's) option" where
  "async_reset_file Y io g s path contents =
     map_option (\<lambda>file. insert_dropping Y io (map_key path) file g s)
       (from_string Y path Async contents)"

definition save_and_drop :: "('doc, 'u, 'v) yrs \<Rightarrow> 's file_io \<Rightarrow> 'doc mem_file \<Rightarrow> 's \<Rightarrow> 's" where
  "save_and_drop Y io file s =
     (case mf_save Y io file s of (_, file', s') \<Rightarrow> mf_drop Y io file' s')"

definition async_drop_file :: "('doc, 'u, 'v) yrs \<Rightarrow> 's file_io \<Rightarrow> 'doc file_map \<Rightarrow> 's \<Rightarrow>
    file_path \<Rightarrow> 'doc file_map \<times> 's" where
  "async_drop_file Y io g s path =
     (hm_remove components (map_key path) g,
      (case hm_get components g (map_key path) of
         None \<Rightarrow> s
       | Some file \<Rightarrow> save_and_drop Y io file s))"

text \<open>The keys are collected first, then removed one by one.\<close>

fun async_drop_keys :: "('doc, 'u, 'v) yrs \<Rightarrow> 's file_io \<Rightarrow> string list \<Rightarrow> 'doc file_map \<Rightarrow> 's \<Rightarrow>
    'doc file_map \<times> 's" where
  "async_drop_keys Y io [] g s = (g, s)"
| "async_drop_keys Y io (key # keys) g s =
     (case hm_get components g key of
        None \<Rightarrow> async_drop_keys Y io keys g s
      | Some file \<Rightarrow>
          async_drop_keys Y io keys (hm_remove components key g) (save_and_drop Y io file s))"

definition async_drop_dir :: "('doc, 'u, 'v) yrs \<Rightarrow> 's file_io \<Rightarrow> 'doc file_map \<Rightarrow> 's \<Rightarrow>
    folder_path \<Rightarrow> 'doc file_map \<times> 's" where
  "async_drop_dir Y io g s dir =
     async_drop_keys Y io (filter (\<lambda>key. starts_with key (full_path dir)) (hm_keys g)) g s"

text \<open>The methods of \<open>AsyncMemFileGuard\<close> whose bodies are the blocking ones, awaited.\<close>

definition async_add_file :: "('doc, 'u, 'v) yrs \<Rightarrow> 's file_io \<Rightarrow> 'doc file_map \<Rightarrow> 's \<Rightarrow>
    file_path \<Rightarrow> ('doc, 's, unit) guard_result" where
  "async_add_file = add_file Async"

definition async_get_file :: "('doc, 'u, 'v) yrs \<Rightarrow> 's file_io \<Rightarrow> 'doc file_map \<Rightarrow> 's \<Rightarrow>
    file_path \<Rightarrow> ('doc, 's, 'doc mem_file) guard_result" where
  "async_get_file = get_file Async"

definition async_load_all :: "('doc, 'u, 'v) yrs \<Rightarrow> 's file_io \<Rightarrow> 'doc file_map \<Rightarrow> 's \<Rightarrow>
    file_path list \<Rightarrow> ('doc file_map \<times> 's) option" where
  "async_load_all = load_all Async"

definition async_apply_transaction :: "('doc, 'u, 'v) yrs \<Rightarrow> 's file_io \<Rightarrow> 'doc file_map \<Rightarrow> 's \<Rightarrow>
    file_path \<Rightarrow> transaction \<Rightarrow> ('doc, 's, nat list) guard_result" where
  "async_apply_transaction = apply_transaction Async"

definition async_apply_transactions :: "('doc, 'u, 'v) yrs \<Rightarrow> 's file_io \<Rightarrow> 'doc file_map \<Rightarrow> 's \<Rightarrow>
    file_path \<Rightarrow> transaction list \<Rightarrow> ('doc, 's, unit) guard_result" where
  "async_apply_transactions = apply_transactions Async"

section \<open>The abstraction\<close>

definition overlay :: "('doc, 'u, 'v) yrs \<Rightarrow> ('s \<Rightarrow> path_component list \<Rightarrow> ustring option) \<Rightarrow>
    'doc file_map \<Rightarrow> 's \<Rightarrow> path_component list \<Rightarrow> ustring option" where
  "overlay Y content g s n =
     (case hm_abs components g n of Some file \<Rightarrow> Some (mf_contents Y file) | None \<Rightarrow> content s n)"

definition guard_inv :: "backend \<Rightarrow> 'doc file_map \<Rightarrow> bool" where
  "guard_inv b g \<longleftrightarrow> hm_inv components g \<and>
     (\<forall>n file. hm_abs components g n = Some file \<longrightarrow>
        components (full_path (mf_path file)) = n \<and> flush_on_drop file \<and> mf_backend file = b)"

definition op_spec :: "operation \<Rightarrow> ustring \<Rightarrow> ustring" where
  "op_spec operation t =
     (case operation of
        Insert i \<Rightarrow> insert_at (ins_position i) (ins_content i) t
      | Delete d \<Rightarrow> delete_at (del_position d) (del_length d) t
      | Swap w \<Rightarrow> insert_at (swap_position w) (swap_content w)
          (delete_at (swap_position w) (swap_length w) t))"

definition text_spec :: "operation list \<Rightarrow> ustring \<Rightarrow> ustring" where
  "text_spec ops t = foldl (\<lambda>t operation. op_spec operation t) t ops"

text \<open>A swap is a deletion followed by an insertion, each with its own save.\<close>

fun elementary :: "operation \<Rightarrow> operation list" where
  "elementary (Insert i) = [Insert i]"
| "elementary (Delete x) = [Delete x]"
| "elementary (Swap w) =
     [Delete \<lparr>del_position = swap_position w, del_length = swap_length w\<rparr>,
      Insert \<lparr>ins_position = swap_position w, ins_content = swap_content w\<rparr>]"

definition edit_steps :: "operation list \<Rightarrow> operation list" where
  "edit_steps ops = concat (map elementary ops)"

fun added_bytes :: "operation \<Rightarrow> nat" where
  "added_bytes (Insert i) = byte_len (ins_content i)"
| "added_bytes (Delete d) = 0"
| "added_bytes (Swap w) = byte_len (swap_content w)"

text \<open>The bound under which no offset of the run is truncated.\<close>

definition tx_fits :: "operation list \<Rightarrow> ustring \<Rightarrow> bool" where
  "tx_fits ops t \<longleftrightarrow> byte_len t + sum_list (map added_bytes ops) < 2 ^ 32"

lemma guard_inv_new [simp]: "guard_inv b []"
  by (simp add: guard_inv_def)

lemma guard_inv_insert:
  "guard_inv b g \<Longrightarrow> components k = components (full_path (mf_path f)) \<Longrightarrow> flush_on_drop f \<Longrightarrow>
     mf_backend f = b \<Longrightarrow> guard_inv b (hm_insert components k f g)"
  by (auto simp: guard_inv_def)

lemma guard_inv_remove: "guard_inv b g \<Longrightarrow> guard_inv b (hm_remove components k g)"
  by (auto simp: guard_inv_def)

lemma guard_inv_Cons:
  "guard_inv b (e # g) \<longleftrightarrow> guard_inv b g \<and> hm_abs components g (components (fst e)) = None \<and>
     components (full_path (mf_path (snd e))) = components (fst e) \<and> flush_on_drop (snd e) \<and>
     mf_backend (snd e) = b" (is "?L \<longleftrightarrow> ?R")
proof -
  have none: "components (fst e) \<notin> components ` set (hm_keys g) \<longleftrightarrow>
      hm_abs components g (components (fst e)) = None"
    by (metis dom_hm_abs domIff)
  show ?thesis
  proof
    assume L: ?L
    then have n: "hm_abs components g (components (fst e)) = None"
      by (simp add: guard_inv_def hm_inv_Cons none)
    have "components (full_path (mf_path f)) = n \<and> flush_on_drop f \<and> mf_backend f = b"
      if "hm_abs components g n = Some f" for n f
      using L that n unfolding guard_inv_def hm_abs_Cons by (metis fun_upd_other option.distinct(1))
    moreover have "hm_abs components (e # g) (components (fst e)) = Some (snd e)"
      by (simp add: hm_abs_Cons)
    ultimately show ?R using L n unfolding guard_inv_def hm_inv_Cons by blast
  next
    assume ?R
    then show ?L by (auto simp: guard_inv_def hm_inv_Cons hm_abs_Cons none split: if_splits)
  qed
qed

lemma overlay_insert:
  "overlay Y content (hm_insert components k f g) s = (overlay Y content g s)(components k \<mapsto> mf_contents Y f)"
  by (auto simp: overlay_def fun_eq_iff)

lemma byte_len_insert_at [simp]: "byte_len (insert_at p t s) = byte_len s + byte_len t"
  using byte_len_take_drop [of "char_pos s p" s] by (simp add: insert_at_def)

lemma byte_len_delete_at: "byte_len (delete_at p k s) \<le> byte_len s"
proof -
  have "byte_len (drop (char_pos s p + k) s) \<le> byte_len (drop (char_pos s p) s)"
    using byte_len_take_drop [of k "drop (char_pos s p) s"] by (simp add: add.commute)
  then show ?thesis
    using byte_len_take_drop [of "char_pos s p" s] by (simp add: delete_at_def)
qed

lemma delete_at_0 [simp]: "delete_at p 0 s = s"
  by (simp add: delete_at_def)

lemma insert_at_Nil [simp]: "insert_at p [] s = s"
  by (simp add: insert_at_def)

lemma op_spec_bytes: "byte_len (op_spec op t) \<le> byte_len t + added_bytes op"
  using byte_len_delete_at [of _ _ t]
  by (cases op) (simp_all add: op_spec_def)

lemma text_spec_steps: "text_spec (edit_steps ops) t = text_spec ops t"
proof (induction ops arbitrary: t)
  case (Cons op ops)
  then show ?case by (cases op) (simp_all add: edit_steps_def text_spec_def op_spec_def)
qed (simp add: edit_steps_def)

text \<open>What letting go of a folder's buffers does to the table.\<close>

definition dropped_under :: "('doc, 'u, 'v) yrs \<Rightarrow> ('s \<Rightarrow> path_component list \<Rightarrow> ustring option) \<Rightarrow>
    ('s \<Rightarrow> bool) \<Rightarrow> backend \<Rightarrow> path_component list \<Rightarrow> 'doc file_map \<Rightarrow> 's \<Rightarrow>
    'doc file_map \<Rightarrow> 's \<Rightarrow> bool" where
  "dropped_under Y content ok b D g s g' s' \<longleftrightarrow>
     guard_inv b g' \<and> ok s' \<and> overlay Y content g' s' = overlay Y content g s \<and>
     (\<forall>n. hm_abs components g' n = (if prefix D n then None else hm_abs components g n)) \<and>
     (\<forall>n. \<not> prefix D n \<longrightarrow> content s' n = content s n)"

lemma overlay_Cons:
  "overlay Y content (e # g) s = (overlay Y content g s)(components (fst e) \<mapsto> mf_contents Y (snd e))"
  by (auto simp: overlay_def hm_abs_Cons fun_eq_iff)

lemma overlay_store_upd:
  "hm_abs components g n = None \<Longrightarrow> content s' = (content s)(n \<mapsto> c) \<Longrightarrow>
     overlay Y content g s' = (overlay Y content g s)(n \<mapsto> c)"
  by (auto simp: overlay_def fun_eq_iff split: option.split)

text \<open>A run of edits on one buffer: what may change besides the text, also when it is cut short.\<close>

definition own_path :: "('s \<Rightarrow> path_component list \<Rightarrow> ustring option) \<Rightarrow> ('s \<Rightarrow> bool) \<Rightarrow>
    ('doc \<Rightarrow> 'doc \<Rightarrow> bool) \<Rightarrow> 'doc mem_file \<Rightarrow> 's \<Rightarrow> 'doc mem_file \<Rightarrow> 's \<Rightarrow> bool" where
  "own_path content ok ext f s f' s' \<longleftrightarrow>
     ext (mf_doc f) (mf_doc f') \<and> mf_path f' = mf_path f \<and> mf_backend f' = mf_backend f \<and>
     flush_on_drop f' = flush_on_drop f \<and> ok s' \<and>
     (\<forall>n. n \<noteq> components (full_path (mf_path f)) \<longrightarrow> content s' n = content s n)"

definition edited :: "('doc, 'u, 'v) yrs \<Rightarrow> ('s \<Rightarrow> path_component list \<Rightarrow> ustring option) \<Rightarrow>
    ('s \<Rightarrow> bool) \<Rightarrow> ('doc \<Rightarrow> 'doc \<Rightarrow> bool) \<Rightarrow> 'doc mem_file \<Rightarrow> 's \<Rightarrow> 'doc mem_file \<Rightarrow> 's \<Rightarrow> bool" where
  "edited Y content ok ext f s f' s' \<longleftrightarrow> own_path content ok ext f s f' s' \<and>
     (ops_since_save f < save_threshold \<and> synced Y components content f s \<longrightarrow>
        ops_since_save f' < save_threshold \<and> synced Y components content f' s')"

lemma own_path_refl: "yrs_laws Y ext \<Longrightarrow> ok s \<Longrightarrow> own_path content ok ext f s f s"
  by (simp add: own_path_def yrs_lawsD(4))

lemma own_path_trans:
  "yrs_laws Y ext \<Longrightarrow> own_path content ok ext f s f1 s1 \<Longrightarrow> own_path content ok ext f1 s1 f2 s2 \<Longrightarrow>
     own_path content ok ext f s f2 s2"
  unfolding own_path_def using yrs_lawsD(5) [of Y ext] by auto

lemma edited_refl: "yrs_laws Y ext \<Longrightarrow> ok s \<Longrightarrow> edited Y content ok ext f s f s"
  by (simp add: edited_def own_path_refl)

lemma edited_trans:
  "yrs_laws Y ext \<Longrightarrow> edited Y content ok ext f s f1 s1 \<Longrightarrow> edited Y content ok ext f1 s1 f2 s2 \<Longrightarrow>
     edited Y content ok ext f s f2 s2"
  unfolding edited_def using own_path_trans [of Y ext content ok f s f1 s1 f2 s2] by blast

lemma edited_own_path: "edited Y content ok ext f s f' s' \<Longrightarrow> own_path content ok ext f s f' s'"
  by (simp add: edited_def)

lemma outcome_edited:
  assumes "edit_outcome Y components content ok ext f s t (r, f', s')" and "is_ok r"
  shows "edited Y content ok ext f s f' s'" and "mf_contents Y f' = t"
  using assms by (auto simp: edit_outcome_def edited_def own_path_def store_step_def)

section \<open>Over a total store\<close>

text \<open>Stores that fail only on a missing file and tell paths apart by their components.\<close>

locale path_store = total_store io components content ok
  for io :: "'s file_io"
    and content :: "'s \<Rightarrow> path_component list \<Rightarrow> ustring option"
    and ok :: "'s \<Rightarrow> bool"
begin

lemma store: "file_store io components content ok"
  by (rule file_store_axioms)

lemma save_total:
  assumes "ok s"
  shows "\<exists>s'. mf_save Y io f s = (Inr (), f\<lparr>ops_since_save := 0\<rparr>, s') \<and> ok s' \<and>
    content s' = (content s)(components (full_path (mf_path f)) \<mapsto> mf_contents Y f)"
proof -
  obtain s' where "fio_write io s (mf_path f) (mf_contents Y f) = (Inr (), s')" and "ok s'"
    "content s' = (content s)(components (full_path (mf_path f)) \<mapsto> mf_contents Y f)"
    using write_total_pair [OF assms] by metis
  then show ?thesis by (simp add: mf_save_def)
qed

lemma drop_total:
  assumes "ok s" and "flush_on_drop f" and "mf_backend f = Blocking"
  shows "ok (mf_drop Y io f s)" and "content (mf_drop Y io f s) =
    (content s)(components (full_path (mf_path f)) \<mapsto> mf_contents Y f)"
proof -
  obtain s' where "fio_write io s (mf_path f) (mf_contents Y f) = (Inr (), s')" and "ok s'"
    "content s' = (content s)(components (full_path (mf_path f)) \<mapsto> mf_contents Y f)"
    using write_total_pair [OF assms(1)] by metis
  moreover from this have "mf_drop Y io f s = s'" using assms by (simp add: mf_drop_def drop_flush_def)
  ultimately show "ok (mf_drop Y io f s)" and "content (mf_drop Y io f s) =
    (content s)(components (full_path (mf_path f)) \<mapsto> mf_contents Y f)" by simp_all
qed

lemma save_and_drop_total:
  assumes "ok s" and "mf_backend f = Async"
  shows "ok (save_and_drop Y io f s)" and "content (save_and_drop Y io f s) =
    (content s)(components (full_path (mf_path f)) \<mapsto> mf_contents Y f)"
proof -
  obtain s' where "mf_save Y io f s = (Inr (), f\<lparr>ops_since_save := 0\<rparr>, s')" and "ok s'"
    "content s' = (content s)(components (full_path (mf_path f)) \<mapsto> mf_contents Y f)"
    using save_total [OF assms(1)] by metis
  moreover from this have "save_and_drop Y io f s = s'"
    using assms(2) by (simp add: save_and_drop_def mf_drop_def drop_flush_def)
  ultimately show "ok (save_and_drop Y io f s)" and "content (save_and_drop Y io f s) =
    (content s)(components (full_path (mf_path f)) \<mapsto> mf_contents Y f)" by simp_all
qed

lemma overlay_flushed:
  assumes "guard_inv b g" and "hm_get components g k = Some f"
    and "content s' = (content s)(components (full_path (mf_path f)) \<mapsto> mf_contents Y f)"
  shows "overlay Y content (hm_remove components k g) s' = overlay Y content g s"
    and "overlay Y content g s' = overlay Y content g s"
  using assms by (auto simp: overlay_def guard_inv_def fun_eq_iff hm_get_def split: option.split)

lemma overlay_absent:
  "hm_get components g k = None \<Longrightarrow> overlay Y content (hm_remove components k g) s = overlay Y content g s"
  by (auto simp: overlay_def fun_eq_iff hm_get_def)

lemma drop_file_overlay:
  assumes "guard_inv Blocking g" and "ok s" and "drop_file Y io g s p = (g', s')"
  shows "overlay Y content g' s' = overlay Y content g s" and "guard_inv Blocking g'" and "ok s'"
    and "hm_abs components g' = (hm_abs components g)(components (full_path p) := None)"
    and "\<And>n. n \<noteq> components (full_path p) \<Longrightarrow> content s' n = content s n"
proof -
  have inv: "flush_on_drop f" "mf_backend f = Blocking" if "hm_get components g (map_key p) = Some f" for f
    using assms(1) that by (auto simp: guard_inv_def hm_get_def)
  have "overlay Y content g' s' = overlay Y content g s \<and> ok s' \<and>
      (\<forall>n. n \<noteq> components (full_path p) \<longrightarrow> content s' n = content s n)"
  proof (cases "hm_get components g (map_key p)")
    case None
    with assms(2,3) overlay_absent [OF None] show ?thesis by (simp add: drop_file_def)
  next
    case (Some f)
    note d = drop_total [OF assms(2) inv [OF Some], of Y]
    have "components (full_path (mf_path f)) = components (full_path p)"
      using Some assms(1) by (auto simp: guard_inv_def hm_get_def map_key_def)
    with overlay_flushed(1) [OF assms(1) Some d(2)] d assms(3) Some show ?thesis
      by (simp add: drop_file_def)
  qed
  then show "overlay Y content g' s' = overlay Y content g s" and "ok s'"
    and "\<And>n. n \<noteq> components (full_path p) \<Longrightarrow> content s' n = content s n" by simp_all
  show "guard_inv Blocking g'" "hm_abs components g' = (hm_abs components g)(components (full_path p) := None)"
    using assms guard_inv_remove by (auto simp: drop_file_def hm_get_def map_key_def)
qed

lemma async_drop_file_overlay:
  assumes "guard_inv Async g" and "ok s" and "async_drop_file Y io g s p = (g', s')"
  shows "overlay Y content g' s' = overlay Y content g s" and "guard_inv Async g'" and "ok s'"
    and "hm_abs components g' = (hm_abs components g)(components (full_path p) := None)"
    and "\<And>n. n \<noteq> components (full_path p) \<Longrightarrow> content s' n = content s n"
proof -
  have inv: "mf_backend f = Async" if "hm_get components g (map_key p) = Some f" for f
    using assms(1) that by (auto simp: guard_inv_def hm_get_def)
  have "overlay Y content g' s' = overlay Y content g s \<and> ok s' \<and>
      (\<forall>n. n \<noteq> components (full_path p) \<longrightarrow> content s' n = content s n)"
  proof (cases "hm_get components g (map_key p)")
    case None
    with assms(2,3) overlay_absent [OF None] show ?thesis by (simp add: async_drop_file_def)
  next
    case (Some f)
    note d = save_and_drop_total [OF assms(2) inv [OF Some], of Y]
    have "components (full_path (mf_path f)) = components (full_path p)"
      using Some assms(1) by (auto simp: guard_inv_def hm_get_def map_key_def)
    with overlay_flushed(1) [OF assms(1) Some d(2)] d assms(3) Some show ?thesis
      by (simp add: async_drop_file_def)
  qed
  then show "overlay Y content g' s' = overlay Y content g s" and "ok s'"
    and "\<And>n. n \<noteq> components (full_path p) \<Longrightarrow> content s' n = content s n" by simp_all
  show "guard_inv Async g'" "hm_abs components g' = (hm_abs components g)(components (full_path p) := None)"
    using assms guard_inv_remove by (auto simp: async_drop_file_def hm_get_def map_key_def)
qed

lemma drop_dir_overlay:
  "guard_inv Blocking g \<Longrightarrow> ok s \<Longrightarrow> drop_dir Y io g s dir = (g', s') \<Longrightarrow>
     dropped_under Y content ok Blocking (components (full_path dir)) g s g' s'"
proof (induction g arbitrary: s g')
  case Nil
  then show ?case by (simp add: dropped_under_def)
next
  case (Cons e g)
  obtain k f where e: "e = (k, f)" by (cases e)
  note inv = Cons.prems(1) [unfolded guard_inv_Cons e, simplified]
  let ?D = "components (full_path dir)"
  show ?case
  proof (cases "starts_with k (full_path dir)")
    case True
    note d = drop_total [OF Cons.prems(2), of f Y]
    have rest: "drop_dir Y io g (mf_drop Y io f s) dir = (g', s')" using Cons.prems(3) True e by simp
    have "dropped_under Y content ok Blocking ?D g (mf_drop Y io f s) g' s'"
      using inv by (intro Cons.IH [OF _ d(1) rest]) simp_all
    moreover have "overlay Y content g (mf_drop Y io f s) = overlay Y content (e # g) s"
      using overlay_store_upd [of g "components k" content] d(2) inv by (simp add: overlay_Cons e)
    moreover have "content (mf_drop Y io f s) n = content s n" if "\<not> prefix ?D n" for n
      using d(2) inv True that by (auto simp: starts_with_def)
    ultimately show ?thesis
      using True inv by (auto simp: dropped_under_def hm_abs_Cons e starts_with_def)
  next
    case False
    then obtain g1 where rest: "drop_dir Y io g s dir = (g1, s')" and g': "g' = (k, f) # g1"
      using Cons.prems(3) e by (auto split: prod.splits)
    have "dropped_under Y content ok Blocking ?D g s g1 s'"
      using inv Cons.prems(2) by (intro Cons.IH [OF _ _ rest]) simp_all
    with False inv show ?thesis
      by (auto simp: dropped_under_def g' e guard_inv_Cons overlay_Cons hm_abs_Cons starts_with_def)
  qed
qed

lemma async_drop_keys_overlay:
  "guard_inv Async g \<Longrightarrow> ok s \<Longrightarrow> async_drop_keys Y io keys g s = (g', s') \<Longrightarrow>
     guard_inv Async g' \<and> ok s' \<and> overlay Y content g' s' = overlay Y content g s \<and>
     (\<forall>n. hm_abs components g' n = (if n \<in> components ` set keys then None else hm_abs components g n)) \<and>
     (\<forall>n. n \<notin> components ` set keys \<longrightarrow> content s' n = content s n)"
proof (induction keys arbitrary: g s)
  case (Cons k keys)
  show ?case
  proof (cases "hm_get components g k")
    case None
    with Cons show ?thesis by (auto simp: hm_get_def)
  next
    case (Some f)
    then have "mf_backend f = Async" using Cons.prems(1) by (auto simp: guard_inv_def hm_get_def)
    note d = save_and_drop_total [OF Cons.prems(2) this, of Y]
    have "async_drop_keys Y io keys (hm_remove components k g) (save_and_drop Y io f s) = (g', s')"
      using Cons.prems(3) Some by simp
    from Cons.IH [OF guard_inv_remove [OF Cons.prems(1)] d(1) this]
    show ?thesis
      using overlay_flushed(1) [OF Cons.prems(1) Some d(2)] d(2) Cons.prems(1) Some
      by (auto simp: guard_inv_def hm_get_def)
  qed
qed simp

lemma async_drop_dir_overlay:
  assumes "guard_inv Async g" and "ok s" and "async_drop_dir Y io g s dir = (g', s')"
  shows "dropped_under Y content ok Async (components (full_path dir)) g s g' s'"
proof -
  let ?keys = "filter (\<lambda>key. starts_with key (full_path dir)) (hm_keys g)"
  have "hm_abs components g n \<noteq> None \<longleftrightarrow> n \<in> components ` set (hm_keys g)" for n
    by (metis dom_hm_abs domIff)
  then have "n \<in> components ` set ?keys \<longleftrightarrow>
      prefix (components (full_path dir)) n \<and> hm_abs components g n \<noteq> None" for n
    by (auto simp: starts_with_def)
  then show ?thesis
    using async_drop_keys_overlay [OF assms(1,2) assms(3) [unfolded async_drop_dir_def]]
    by (auto simp: dropped_under_def)
qed

lemma snapshot_overlay:
  "guard_inv b g \<Longrightarrow> ok s \<Longrightarrow> \<exists>g' s'. snapshot Y io g s = (Inr (), g', s') \<and> guard_inv b g' \<and> ok s' \<and>
     content s' = overlay Y content g s \<and>
     (\<forall>n. map_option (mf_contents Y) (hm_abs components g' n) =
        map_option (mf_contents Y) (hm_abs components g n)) \<and>
     (\<forall>n f. hm_abs components g' n = Some f \<longrightarrow> ops_since_save f = 0)"
proof (induction g arbitrary: s)
  case Nil
  then show ?case by (simp add: overlay_def fun_eq_iff)
next
  case (Cons e g)
  obtain k f where e: "e = (k, f)" by (cases e)
  note inv = Cons.prems(1) [unfolded guard_inv_Cons e, simplified]
  obtain s1 where sv: "mf_save Y io f s = (Inr (), f\<lparr>ops_since_save := 0\<rparr>, s1)" and ok1: "ok s1"
    and c1: "content s1 = (content s)(components k \<mapsto> mf_contents Y f)"
    using save_total [OF Cons.prems(2), of Y f] inv by auto
  from Cons.IH [OF _ ok1] inv obtain g' s' where sn: "snapshot Y io g s1 = (Inr (), g', s')"
    and g': "guard_inv b g'" "ok s'" "content s' = overlay Y content g s1"
    and m: "\<forall>n. map_option (mf_contents Y) (hm_abs components g' n) =
        map_option (mf_contents Y) (hm_abs components g n)"
    and z: "\<forall>n f. hm_abs components g' n = Some f \<longrightarrow> ops_since_save f = 0"
    by auto
  have none: "hm_abs components g' (components k) = None" using m inv by (metis map_option_is_None)
  have "content s' = overlay Y content (e # g) s"
    using g'(3) overlay_store_upd [of g "components k" content] c1 inv by (simp add: overlay_Cons e)
  moreover have "snapshot Y io (e # g) s = (Inr (), (k, f\<lparr>ops_since_save := 0\<rparr>) # g', s')"
    using sv sn by (simp add: e)
  ultimately show ?case
    using g' m z inv none by (auto simp: e guard_inv_Cons hm_abs_Cons)
qed

lemma add_file_overlay:
  assumes laws: "yrs_laws Y ext" and inv: "guard_inv b g" and ok: "ok s"
    and absent: "hm_get components g (full_path p) = None"
  shows "case content s (components (full_path p)) of
      None \<Rightarrow> (\<exists>e. add_file b Y io g s p = Some (Inl e, g, s))
    | Some c \<Rightarrow> (\<exists>f. add_file b Y io g s p = Some (Inr (), hm_insert components (full_path p) f g, s)
        \<and> mf_contents Y f = c \<and> guard_inv b (hm_insert components (full_path p) f g)
        \<and> overlay Y content (hm_insert components (full_path p) f g) s = overlay Y content g s)"
proof (cases "content s (components (full_path p))")
  case None
  then obtain e where "fio_read io s p = Inl e"
    using read_ok [OF ok, of p] by (cases "fio_read io s p") auto
  with None show ?thesis by (simp add: add_file_def from_file_def)
next
  case (Some c)
  obtain f where f: "from_string Y p b c = Some f" "mf_contents Y f = c" "mf_path f = p"
    "mf_backend f = b" "flush_on_drop f"
    using from_string_ok [OF laws] by metis
  have "overlay Y content (hm_insert components (full_path p) f g) s = overlay Y content g s"
    using absent f(2) Some by (auto simp: overlay_insert overlay_def hm_get_def fun_eq_iff)
  with Some f read_total [OF ok Some] absent inv show ?thesis
    by (auto simp: add_file_def from_file_def insert_dropping_def map_key_def guard_inv_insert)
qed

lemma get_file_overlay:
  assumes laws: "yrs_laws Y ext" and inv: "guard_inv b g" and ok: "ok s"
  shows "case overlay Y content g s (components (full_path p)) of
      None \<Rightarrow> (\<exists>e. get_file b Y io g s p = Some (Inl e, g, s))
    | Some c \<Rightarrow> (\<exists>f g'. get_file b Y io g s p = Some (Inr f, g', s) \<and> mf_contents Y f = c
        \<and> hm_get components g' (full_path p) = Some f \<and> guard_inv b g'
        \<and> overlay Y content g' s = overlay Y content g s)"
proof (cases "hm_get components g (full_path p)")
  case (Some f)
  then show ?thesis using inv
    by (auto simp: get_file_def Let_def map_key_def overlay_def hm_get_def)
next
  case None
  then have o: "overlay Y content g s (components (full_path p)) = content s (components (full_path p))"
    by (simp add: overlay_def hm_get_def)
  show ?thesis
    using add_file_overlay [OF assms None] None unfolding o
    by (auto simp: get_file_def Let_def map_key_def hm_get_def split: option.splits)
qed

lemma save_is_ok: "ok s \<Longrightarrow> is_ok (fst (mf_save Y io f s))"
  using save_total [of s Y f] by auto

lemma record_is_ok: "ok s \<Longrightarrow> is_ok (fst (record_single_edit Y io f s))"
  by (simp add: record_single_edit_def Let_def save_is_ok)

lemma edit_results_ok:
  assumes "ok s"
  shows "mf_insert_char Y io f s p c = Some out \<Longrightarrow> is_ok (fst out)"
    and "mf_insert_text Y io f s p t = Some out \<Longrightarrow> is_ok (fst out)"
    and "mf_delete_char Y io f s p = Some out \<Longrightarrow> is_ok (fst out)"
    and "mf_delete_range Y io f s p k = Some out \<Longrightarrow> is_ok (fst out)"
  by (auto simp: mf_insert_char_def mf_insert_text_def mf_delete_char_def mf_delete_range_def
      save_is_ok [OF assms] record_is_ok [OF assms])

lemma outcome_some:
  assumes "\<exists>out. r = Some out \<and> edit_outcome Y components content ok ext f s t out"
    and "\<And>out. r = Some out \<Longrightarrow> is_ok (fst out)"
  shows "\<exists>f' s'. r = Some (Inr (), f', s') \<and> edited Y content ok ext f s f' s' \<and> mf_contents Y f' = t"
proof -
  from assms obtain r' f' s' where r: "r = Some (r', f', s')" and ok: "is_ok r'"
    and o: "edit_outcome Y components content ok ext f s t (r', f', s')" by fastforce
  from ok obtain u :: unit where "r' = Inr u" by (auto simp: is_ok_iff)
  with r outcome_edited [OF o ok] show ?thesis by auto
qed

lemma apply_insert_total:
  assumes laws: "yrs_laws Y ext" and fits: "fits (mf_contents Y f)" and ok: "ok s"
  shows "\<exists>f' s'. apply_insert Y io f s p t = Some (Inr (), f', s') \<and> edited Y content ok ext f s f' s' \<and>
    mf_contents Y f' = insert_at p t (mf_contents Y f)"
proof -
  consider "t = []" | c where "t = [c]" | a b u where "t = a # b # u"
    by (metis neq_Nil_conv)
  then show ?thesis
  proof cases
    case 1
    then show ?thesis using edited_refl [OF laws, of ok s content f] ok by (simp add: apply_insert_def)
  next
    case 2
    then show ?thesis
      using outcome_some [OF mf_insert_char_outcome [OF store laws fits ok] edit_results_ok(1) [OF ok]]
      by (simp add: apply_insert_def)
  next
    case 3
    then show ?thesis
      using outcome_some [OF mf_insert_text_outcome [OF store laws fits ok] edit_results_ok(2) [OF ok]]
      by (simp add: apply_insert_def)
  qed
qed

lemma apply_delete_total:
  assumes laws: "yrs_laws Y ext" and fits: "fits (mf_contents Y f)" and ok: "ok s"
  shows "\<exists>f' s'. apply_delete Y io f s p k = Some (Inr (), f', s') \<and> edited Y content ok ext f s f' s' \<and>
    mf_contents Y f' = delete_at p k (mf_contents Y f)"
proof (cases "k = 0")
  case True
  then show ?thesis using edited_refl [OF laws, of ok s content f] ok by (simp add: apply_delete_def)
next
  case False
  have "\<exists>f' s'. mf_delete_char Y io f s p = Some (Inr (), f', s') \<and> edited Y content ok ext f s f' s' \<and>
      mf_contents Y f' = delete_at p 1 (mf_contents Y f)"
    by (rule outcome_some, rule mf_delete_char_outcome [OF store laws fits ok], rule edit_results_ok(3) [OF ok])
  moreover have "\<exists>f' s'. mf_delete_range Y io f s p k = Some (Inr (), f', s') \<and>
      edited Y content ok ext f s f' s' \<and> mf_contents Y f' = delete_at p k (mf_contents Y f)"
    by (rule outcome_some, rule mf_delete_range_outcome [OF store laws fits ok], rule edit_results_ok(4) [OF ok])
  ultimately show ?thesis using False by (simp add: apply_delete_def)
qed

lemma edited_ok: "edited Y content ok ext f s f' s' \<Longrightarrow> ok s'"
  by (simp add: edited_def own_path_def)

lemma apply_operation_total:
  assumes laws: "yrs_laws Y ext" and fits: "tx_fits [op] (mf_contents Y f)" and ok: "ok s"
  shows "\<exists>f' s'. apply_operation Y io f s op = Some (Inr (), f', s') \<and> edited Y content ok ext f s f' s' \<and>
    mf_contents Y f' = op_spec op (mf_contents Y f)"
proof (cases op)
  case (Insert i)
  with fits have "fits (mf_contents Y f)" by (simp add: tx_fits_def fits_def)
  from apply_insert_total [OF laws this ok] show ?thesis by (simp add: Insert op_spec_def)
next
  case (Delete d)
  with fits have "fits (mf_contents Y f)" by (simp add: tx_fits_def fits_def)
  from apply_delete_total [OF laws this ok] show ?thesis by (simp add: Delete op_spec_def)
next
  case (Swap w)
  with fits have "fits (mf_contents Y f)" by (simp add: tx_fits_def fits_def)
  from apply_delete_total [OF laws this ok, of "swap_position w" "swap_length w"] obtain f1 s1 where
    one: "apply_delete Y io f s (swap_position w) (swap_length w) = Some (Inr (), f1, s1)"
    and e1: "edited Y content ok ext f s f1 s1"
    and t1: "mf_contents Y f1 = delete_at (swap_position w) (swap_length w) (mf_contents Y f)" by blast
  have "fits (mf_contents Y f1)"
    using \<open>fits (mf_contents Y f)\<close> byte_len_delete_at [of "swap_position w" "swap_length w" "mf_contents Y f"]
    by (simp add: t1 fits_def)
  from apply_insert_total [OF laws this edited_ok [OF e1], of "swap_position w" "swap_content w"]
  obtain f2 s2 where
    two: "apply_insert Y io f1 s1 (swap_position w) (swap_content w) = Some (Inr (), f2, s2)"
    and e2: "edited Y content ok ext f1 s1 f2 s2"
    and t2: "mf_contents Y f2 = insert_at (swap_position w) (swap_content w) (mf_contents Y f1)" by blast
  from one two edited_trans [OF laws e1 e2] t1 t2 show ?thesis
    by (simp add: Swap and_then_def op_spec_def)
qed

lemma apply_ops_total:
  assumes laws: "yrs_laws Y ext"
  shows "tx_fits ops (mf_contents Y f) \<Longrightarrow> ok s \<Longrightarrow>
    \<exists>f' s'. apply_ops Y io f s ops = Some (Inr (), f', s') \<and> edited Y content ok ext f s f' s' \<and>
      mf_contents Y f' = text_spec ops (mf_contents Y f)"
proof (induction ops arbitrary: f s)
  case Nil
  then show ?case using edited_refl [OF laws, of ok s content f] by (simp add: text_spec_def)
next
  case (Cons op ops)
  then have "tx_fits [op] (mf_contents Y f)" by (simp add: tx_fits_def)
  from apply_operation_total [OF laws this Cons.prems(2)] obtain f1 s1 where
    one: "apply_operation Y io f s op = Some (Inr (), f1, s1)"
    and e1: "edited Y content ok ext f s f1 s1"
    and t1: "mf_contents Y f1 = op_spec op (mf_contents Y f)" by blast
  have "tx_fits ops (mf_contents Y f1)"
    using Cons.prems(1) op_spec_bytes [of op "mf_contents Y f"] by (simp add: tx_fits_def t1)
  from Cons.IH [OF this edited_ok [OF e1]] obtain f2 s2 where
    two: "apply_ops Y io f1 s1 ops = Some (Inr (), f2, s2)"
    and e2: "edited Y content ok ext f1 s1 f2 s2"
    and t2: "mf_contents Y f2 = text_spec ops (mf_contents Y f1)" by blast
  from one two edited_trans [OF laws e1 e2] t1 t2 show ?case
    by (simp add: and_then_def text_spec_def)
qed

lemma put_back_overlay:
  assumes inv: "guard_inv b g" and f: "hm_get components g (full_path p) = Some f"
    and ed: "own_path content ok ext f s f' s'"
  shows "overlay Y content (put_back p f' g) s' =
      (overlay Y content g s)(components (full_path p) \<mapsto> mf_contents Y f')"
    and "guard_inv b (put_back p f' g)" and "ok s'"
proof -
  have p: "components (full_path (mf_path f)) = components (full_path p)" "flush_on_drop f" "mf_backend f = b"
    using inv f by (auto simp: guard_inv_def hm_get_def)
  show "guard_inv b (put_back p f' g)"
    using inv p ed unfolding put_back_def map_key_def by (intro guard_inv_insert) (auto simp: own_path_def)
  show "overlay Y content (put_back p f' g) s' =
      (overlay Y content g s)(components (full_path p) \<mapsto> mf_contents Y f')"
    using ed p by (auto simp: put_back_def map_key_def overlay_insert fun_eq_iff own_path_def overlay_def
        split: option.split)
  show "ok s'" using ed by (simp add: own_path_def)
qed

lemma apply_transaction_overlay:
  assumes laws: "yrs_laws Y ext" and inv: "guard_inv b g" and ok: "ok s"
    and t: "overlay Y content g s (components (full_path p)) = Some t"
    and fits: "tx_fits (operations tx) t"
  shows "\<exists>update g' s'. apply_transaction b Y io g s p tx = Some (Inr update, g', s') \<and>
    guard_inv b g' \<and> ok s' \<and>
    overlay Y content g' s' = (overlay Y content g s)(components (full_path p) \<mapsto> text_spec (operations tx) t) \<and>
    (\<exists>f v d. mf_contents Y f = t \<and> y_decode_update Y update = Inr v \<and>
       y_apply_update Y (mf_doc f) v = (Inr (), d) \<and> y_string Y d = text_spec (operations tx) t)"
proof -
  from get_file_overlay [OF laws inv ok, of p] t obtain f g1 where
    get: "get_file b Y io g s p = Some (Inr f, g1, s)" and ft: "mf_contents Y f = t"
    and res: "hm_get components g1 (full_path p) = Some f" and inv1: "guard_inv b g1"
    and o1: "overlay Y content g1 s = overlay Y content g s" by auto
  from apply_ops_total [OF laws _ ok, of "operations tx" f] fits ft obtain f' s' where
    run: "apply_ops Y io f s (operations tx) = Some (Inr (), f', s')"
    and ed: "edited Y content ok ext f s f' s'" and t': "mf_contents Y f' = text_spec (operations tx) t"
    by auto
  obtain v where v: "y_decode_vector Y (y_state_vector Y (mf_doc f)) = Inr v"
    using yrs_lawsD(6) [OF laws] by blast
  have "ext (mf_doc f) (mf_doc f')" using ed by (simp add: edited_def own_path_def)
  from yrs_lawsD(8) [OF laws this v] obtain u d where
    "y_decode_update Y (y_encode_diff Y (mf_doc f') v) = Inr u"
    "y_apply_update Y (mf_doc f) u = (Inr (), d)" "y_string Y d = mf_contents Y f'"
    by (auto simp: mf_contents_def)
  moreover have "apply_transaction b Y io g s p tx =
      Some (Inr (y_encode_diff Y (mf_doc f') v), put_back p f' g1, s')"
    by (simp add: apply_transaction_def get apply_transaction_ops_def run Let_def mf_encode_diff_def
        mf_state_vector_def v)
  ultimately show ?thesis
    using put_back_overlay(1) [OF inv1 res edited_own_path [OF ed], of Y]
      put_back_overlay(2,3) [OF inv1 res edited_own_path [OF ed]] o1 t' ft by auto
qed

lemma reset_file_overlay:
  assumes laws: "yrs_laws Y ext" and inv: "guard_inv Blocking g" and ok: "ok s"
  shows "\<exists>g'. reset_file Y io g s p c = Some (g', s) \<and> guard_inv Blocking g' \<and>
    overlay Y content g' s = (overlay Y content g s)(components (full_path p) \<mapsto> c) \<and>
    hm_get components g' (full_path p) \<noteq> None"
proof -
  obtain f where f: "from_string Y p Blocking c = Some f" "mf_contents Y f = c" "mf_path f = p"
    "mf_backend f = Blocking" "flush_on_drop f"
    using from_string_ok [OF laws] by metis
  let ?g = "hm_remove components (full_path p) g"
  have "reset_file Y io g s p c = Some (hm_insert components (full_path p) f ?g, s)"
    using f by (auto simp: reset_file_def Let_def map_key_def insert_dropping_def hm_get_def
        set_flush_on_drop_def mf_drop_def split: option.split)
  moreover have "guard_inv Blocking (hm_insert components (full_path p) f ?g)"
    using guard_inv_remove [OF inv] f by (intro guard_inv_insert) simp_all
  ultimately show ?thesis
    using f(2) by (auto simp: overlay_insert overlay_def hm_get_def fun_eq_iff)
qed

lemma async_reset_file_overlay:
  assumes laws: "yrs_laws Y ext" and inv: "guard_inv Async g" and ok: "ok s"
  shows "\<exists>g'. async_reset_file Y io g s p c = Some (g', s) \<and> guard_inv Async g' \<and>
    overlay Y content g' s = (overlay Y content g s)(components (full_path p) \<mapsto> c) \<and>
    hm_get components g' (full_path p) \<noteq> None"
proof -
  obtain f where f: "from_string Y p Async c = Some f" "mf_contents Y f = c" "mf_path f = p"
    "mf_backend f = Async" "flush_on_drop f"
    using from_string_ok [OF laws] by metis
  have "mf_drop Y io old s = s" if "hm_get components g (full_path p) = Some old" for old
  proof -
    from that inv have "mf_backend old = Async" by (auto simp: guard_inv_def hm_get_def)
    then show ?thesis by (simp add: mf_drop_def drop_flush_def)
  qed
  then have "async_reset_file Y io g s p c = Some (hm_insert components (full_path p) f g, s)"
    using f by (auto simp: async_reset_file_def map_key_def insert_dropping_def split: option.split)
  moreover have "guard_inv Async (hm_insert components (full_path p) f g)"
    using inv f by (intro guard_inv_insert) simp_all
  ultimately show ?thesis
    using f(2) by (auto simp: overlay_insert hm_get_def)
qed

lemma guard_drop_overlay:
  "guard_inv Blocking g \<Longrightarrow> ok s \<Longrightarrow>
     ok (guard_drop Y io g s) \<and> content (guard_drop Y io g s) = overlay Y content g s"
proof (induction g arbitrary: s)
  case Nil
  then show ?case by (simp add: overlay_def fun_eq_iff)
next
  case (Cons e g)
  obtain k f where e: "e = (k, f)" by (cases e)
  note inv = Cons.prems(1) [unfolded guard_inv_Cons e, simplified]
  note d = drop_total [OF Cons.prems(2), of f Y]
  from inv d have "ok (mf_drop Y io f s)"
    and c: "content (mf_drop Y io f s) = (content s)(components k \<mapsto> mf_contents Y f)" by simp_all
  from inv overlay_store_upd [OF _ c, of g Y]
  have "overlay Y content g (mf_drop Y io f s) = overlay Y content (e # g) s"
    by (simp add: e overlay_Cons)
  with Cons.IH [OF _ \<open>ok (mf_drop Y io f s)\<close>] inv show ?case by (simp add: e)
qed

end

interpretation mem_paths: path_store mem_file_io mem_content mem_ok
  by unfold_locales

interpretation amem_paths: path_store amem_file_io amem_content amem_ok
  by unfold_locales

section \<open>Properties\<close>

text \<open>C2: Applying a transaction to a file that exists, resident or not, in either guard: the
  file now holds the text that the listed operations give one after the other, no other path
  has changed, and the update that is returned, applied to a document in the state before the
  transaction, gives the new text.\<close>

theorem transaction_refines:
  assumes "path_store io content ok" and "yrs_laws Y ext" and "guard_inv b g" and "ok s"
    and "overlay Y content g s (components (full_path p)) = Some t"
    and "tx_fits (operations tx) t"
  shows "\<exists>update g' s'. apply_transaction b Y io g s p tx = Some (Inr update, g', s')
    \<and> guard_inv b g' \<and> ok s'
    \<and> overlay Y content g' s' = (overlay Y content g s)(components (full_path p) \<mapsto> text_spec (operations tx) t)
    \<and> (\<exists>f v d. mf_contents Y f = t \<and> y_decode_update Y update = Inr v
        \<and> y_apply_update Y (mf_doc f) v = (Inr (), d) \<and> y_string Y d = text_spec (operations tx) t)"
  using assms(2-) by (rule path_store.apply_transaction_overlay [OF assms(1)])

definition demo_tx :: transaction where
  "demo_tx = Transaction [Insert \<lparr>ins_position = \<lparr>col = 0, line = 0\<rparr>, ins_content = [7, 8]\<rparr>,
     Swap \<lparr>swap_position = \<lparr>col = 1, line = 0\<rparr>, swap_length = 1, swap_content = [9]\<rparr>]"

lemma demo_overlay: "overlay list_yrs mem_content [] demo_mem (components ''a/x'') = Some [1]"
  by (simp add: overlay_def demo_defs)

lemma transaction_refines_witness:
  "\<exists>update g' s'. apply_transaction Blocking list_yrs mem_file_io [] demo_mem (plain_file ''a/x'') demo_tx =
       Some (Inr update, g', s') \<and>
     overlay list_yrs mem_content g' s' =
       (overlay list_yrs mem_content [] demo_mem)(components ''a/x'' \<mapsto> [7, 9, 1])"
proof -
  have "tx_fits (operations demo_tx) [1]"
    by (simp add: tx_fits_def demo_tx_def len_utf8_def)
  moreover have "text_spec (operations demo_tx) [1] = [7, 9, 1]"
    by (simp add: text_spec_def demo_tx_def op_spec_def insert_at_def delete_at_def char_pos_def)
  ultimately show ?thesis
    using transaction_refines [OF mem_paths.path_store_axioms list_yrs_laws guard_inv_new
        demo_mem_facts(1), of "plain_file ''a/x''" "[1]" demo_tx Blocking] demo_overlay
    by auto
qed

text \<open>C15: A snapshot writes the text of every resident buffer: afterwards the store alone holds
  what store and buffers held together, no buffer has unsaved edits, and every buffer is still
  resident with its text. Dropping the blocking guard does the same to the store.\<close>

theorem snapshot_flushes:
  assumes "path_store io content ok" and "guard_inv b g" and "ok s"
  shows "(\<exists>g' s'. snapshot Y io g s = (Inr (), g', s') \<and> guard_inv b g' \<and> ok s'
      \<and> content s' = overlay Y content g s
      \<and> (\<forall>n. map_option (mf_contents Y) (hm_abs components g' n) =
          map_option (mf_contents Y) (hm_abs components g n))
      \<and> (\<forall>n f. hm_abs components g' n = Some f \<longrightarrow> ops_since_save f = 0))
    \<and> (b = Blocking \<longrightarrow> content (guard_drop Y io g s) = overlay Y content g s)"
  using path_store.snapshot_overlay [OF assms] path_store.guard_drop_overlay [OF assms(1) _ assms(3)]
    assms(2) by blast

definition demo_guard :: "ustring file_map" where
  "demo_guard = [(''a/x'', (mf_new [5] (plain_file ''a/x'') Blocking)\<lparr>ops_since_save := 2\<rparr>)]"

lemma demo_guard_inv: "guard_inv Blocking demo_guard"
  by (simp add: demo_guard_def guard_inv_Cons mf_new_def)

lemma snapshot_flushes_witness:
  "mem_content (guard_drop list_yrs mem_file_io demo_guard demo_mem) =
     overlay list_yrs mem_content demo_guard demo_mem \<and>
   overlay list_yrs mem_content demo_guard demo_mem (components ''a/x'') = Some [5]"
proof -
  have "overlay list_yrs mem_content demo_guard demo_mem (components ''a/x'') = Some [5]"
    by (simp add: overlay_def demo_guard_def hm_abs_Cons)
  then show ?thesis
    using snapshot_flushes [OF mem_paths.path_store_axioms demo_guard_inv demo_mem_facts(1), of list_yrs]
    by simp
qed

text \<open>
  Loading a file that is resident already: the replaced buffer is flushed after the store has been
  read, so the new buffer is older than the store.
\<close>

lemma add_file_over_resident_is_stale:
  "\<exists>g s f. add_file Blocking list_yrs mem_file_io demo_guard demo_mem (plain_file ''a/x'') = Some (Inr (), g, s) \<and>
     hm_get components g ''a/x'' = Some f \<and> mf_contents list_yrs f = [1] \<and>
     mem_content s (components ''a/x'') = Some [5]"
proof -
  let ?old = "(mf_new [5] (plain_file ''a/x'') Blocking)\<lparr>ops_since_save := 2\<rparr>"
  have read: "fio_read mem_file_io demo_mem (plain_file ''a/x'') = Inr [Suc 0]"
    by (simp add: mem_file_io_def mem_read_file_def hm_get_def demo_defs)
  have old: "hm_get components demo_guard ''a/x'' = Some ?old"
    by (simp add: demo_guard_def hm_get_def hm_abs_Cons)
  have new: "from_string list_yrs (plain_file ''a/x'') Blocking [Suc 0] =
      Some (mf_new [Suc 0] (plain_file ''a/x'') Blocking)"
    by (simp add: from_string_def list_yrs_def)
  have "mem_content (mf_drop list_yrs mem_file_io ?old demo_mem) (components ''a/x'') = Some [5]"
    using mem_paths.drop_total(2) [OF demo_mem_facts(1), of ?old list_yrs] by (simp add: mf_new_def mf_contents_def)
  then show ?thesis
    by (simp add: add_file_def from_file_def read new insert_dropping_def map_key_def
        old [unfolded hm_get_def] hm_get_def)
qed

end
