(* ===== verification/Kv_Engine.thy ===== *)
theory Kv_Engine
  imports Stores Mem_Engine "HOL-Library.AList"
begin

text \<open>
  The redb engine \<open>KvBlockingIo\<close>: \<open>engines/blocking_io/kv.rs\<close>, its file operations in
  \<open>files/blocking_io/kv.rs\<close> and its folder operations in \<open>folders/blocking_io/kv.rs\<close>. The database
  crate is a parameter: a record of the calls the engine makes, each of which may fail, with the
  laws of \<open>redb_laws\<close>. Keys are the raw path strings. A transaction that is dropped
  without a commit leaves the database value as it was.
\<close>

section \<open>The database crate\<close>

record ('d, 't) redb =
  db_create :: "string \<Rightarrow> string + 'd"
  db_begin_read :: "'d \<Rightarrow> string + 't"
  db_begin_write :: "'d \<Rightarrow> string + 't"
  db_open_table :: "'t \<Rightarrow> string + 't"
  db_get :: "'t \<Rightarrow> string \<Rightarrow> string + ustring option"
  db_insert :: "'t \<Rightarrow> string \<Rightarrow> ustring \<Rightarrow> string + 't"
  db_remove :: "'t \<Rightarrow> string \<Rightarrow> string + (ustring option \<times> 't)"
  db_iter :: "'t \<Rightarrow> string + (string + string \<times> ustring) list"
  db_commit :: "'t \<Rightarrow> 'd \<Rightarrow> (string + unit) \<times> 'd"

text \<open>
  What redb documents: a transaction starts from the committed table and sees its own changes;
  iteration yields every entry once; a commit publishes the transaction's table, a failed one
  publishes nothing. Nothing is said about when a call succeeds.
\<close>

definition redb_laws ::
    "('d, 't) redb \<Rightarrow> ('d \<Rightarrow> string \<Rightarrow> ustring option) \<Rightarrow> ('t \<Rightarrow> string \<Rightarrow> ustring option) \<Rightarrow> bool" where
  "redb_laws R committed view \<longleftrightarrow>
     (\<forall>d t. db_begin_read R d = Inr t \<longrightarrow> view t = committed d) \<and>
     (\<forall>d t. db_begin_write R d = Inr t \<longrightarrow> view t = committed d) \<and>
     (\<forall>t t'. db_open_table R t = Inr t' \<longrightarrow> view t' = view t) \<and>
     (\<forall>t k x. db_get R t k = Inr x \<longrightarrow> x = view t k) \<and>
     (\<forall>t k v t'. db_insert R t k v = Inr t' \<longrightarrow> view t' = (view t)(k \<mapsto> v)) \<and>
     (\<forall>t k x t'. db_remove R t k = Inr (x, t') \<longrightarrow> x = view t k \<and> view t' = (view t)(k := None)) \<and>
     (\<forall>t rows. db_iter R t = Inr rows \<longrightarrow> (\<forall>k v. Inr (k, v) \<in> set rows \<longrightarrow> view t k = Some v) \<and>
        (\<forall>es. rows = map Inr es \<longrightarrow> distinct (map fst es) \<and> map_of es = view t)) \<and>
     (\<forall>t d u d'. db_commit R t d = (Inr u, d') \<longrightarrow> committed d' = view t) \<and>
     (\<forall>t d e d'. db_commit R t d = (Inl e, d') \<longrightarrow> committed d' = committed d)"

section \<open>The engine\<close>

definition kv_error :: "string \<Rightarrow> string \<Rightarrow> file_error" where
  "kv_error context error = Io context error"

definition kv_commit ::
    "('d, 't) redb \<Rightarrow> string \<Rightarrow> 'd \<Rightarrow> file_error + 't \<Rightarrow> (file_error + unit) \<times> 'd" where
  "kv_commit R key db prepared =
     (case prepared of
        Inl e \<Rightarrow> (Inl e, db)
      | Inr txn \<Rightarrow> (case db_commit R txn db of (r, db') \<Rightarrow> (map_err (kv_error key) r, db')))"

definition kv_new :: "('d, 't) redb \<Rightarrow> string \<Rightarrow> file_error + 'd" where
  "kv_new R path =
     res_bind (map_err (kv_error path) (db_create R path)) (\<lambda>db.
       (case kv_commit R path db
           (res_bind (map_err (kv_error path) (db_begin_write R db)) (\<lambda>write_txn.
             map_err (kv_error path) (db_open_table R write_txn))) of
          (Inl e, _) \<Rightarrow> Inl e
        | (Inr _, db') \<Rightarrow> Inr db'))"

definition kv_read_table :: "('d, 't) redb \<Rightarrow> string \<Rightarrow> 'd \<Rightarrow> file_error + 't" where
  "kv_read_table R key db =
     res_bind (map_err (kv_error key) (db_begin_read R db)) (\<lambda>read_txn.
       map_err (kv_error key) (db_open_table R read_txn))"

definition kv_write_table :: "('d, 't) redb \<Rightarrow> string \<Rightarrow> 'd \<Rightarrow> file_error + 't" where
  "kv_write_table R key db =
     res_bind (map_err (kv_error key) (db_begin_write R db)) (\<lambda>write_txn.
       map_err (kv_error key) (db_open_table R write_txn))"

section \<open>Files\<close>

definition kv_read_file :: "('d, 't) redb \<Rightarrow> 'd \<Rightarrow> file_path \<Rightarrow> file_error + ustring" where
  "kv_read_file R db path =
     (let key = full_path path in
      res_bind (kv_read_table R key db) (\<lambda>table.
      res_bind (map_err (kv_error key) (db_get R table key)) (\<lambda>value.
        (case value of Some contents \<Rightarrow> Inr contents | None \<Rightarrow> Inl (file_not_found key)))))"

definition kv_exists :: "('d, 't) redb \<Rightarrow> 'd \<Rightarrow> file_path \<Rightarrow> bool" where
  "kv_exists R db path =
     (let key = full_path path in
      (case res_bind (kv_read_table R key db) (\<lambda>table.
          res_bind (map_err (kv_error key) (db_get R table key)) (\<lambda>value. Inr (value \<noteq> None))) of
         Inl _ \<Rightarrow> False
       | Inr b \<Rightarrow> b))"

definition kv_write_file ::
    "('d, 't) redb \<Rightarrow> 'd \<Rightarrow> file_path \<Rightarrow> ustring \<Rightarrow> (file_error + unit) \<times> 'd" where
  "kv_write_file R db path data =
     (let key = full_path path in
      kv_commit R key db
        (res_bind (kv_write_table R key db) (\<lambda>table.
          map_err (kv_error key) (db_insert R table key data))))"

definition kv_delete_file :: "('d, 't) redb \<Rightarrow> 'd \<Rightarrow> file_path \<Rightarrow> (file_error + unit) \<times> 'd" where
  "kv_delete_file R db path =
     (let key = full_path path in
      kv_commit R key db
        (res_bind (kv_write_table R key db) (\<lambda>table.
         res_bind (map_err (kv_error key) (db_remove R table key)) (\<lambda>(removed, table).
           if removed = None then Inl (file_not_found key) else Inr table))))"

definition kv_move_file ::
    "('d, 't) redb \<Rightarrow> 'd \<Rightarrow> file_path \<Rightarrow> file_path \<Rightarrow> (file_error + unit) \<times> 'd" where
  "kv_move_file R db from to =
     (let from_key = full_path from; to_key = full_path to in
      kv_commit R from_key db
        (res_bind (kv_write_table R from_key db) (\<lambda>table.
         res_bind (map_err (kv_error from_key) (db_get R table from_key)) (\<lambda>value.
          (case value of
             None \<Rightarrow> Inl (file_not_found from_key)
           | Some contents \<Rightarrow>
               res_bind (map_err (kv_error from_key) (db_remove R table from_key)) (\<lambda>(_, table).
                 map_err (kv_error to_key) (db_insert R table to_key contents)))))))"

definition kv_copy_file ::
    "('d, 't) redb \<Rightarrow> 'd \<Rightarrow> file_path \<Rightarrow> file_path \<Rightarrow> (file_error + unit) \<times> 'd" where
  "kv_copy_file R db from to =
     (let from_key = full_path from; to_key = full_path to in
      kv_commit R from_key db
        (res_bind (kv_write_table R from_key db) (\<lambda>table.
         res_bind (map_err (kv_error from_key) (db_get R table from_key)) (\<lambda>value.
          (case value of
             None \<Rightarrow> Inl (file_not_found from_key)
           | Some contents \<Rightarrow> map_err (kv_error to_key) (db_insert R table to_key contents))))))"

definition kv_file_io :: "('d, 't) redb \<Rightarrow> 'd file_io" where
  "kv_file_io R = \<lparr>fio_read = kv_read_file R, fio_exists = kv_exists R, fio_write = kv_write_file R,
     fio_delete = kv_delete_file R, fio_move = kv_move_file R, fio_copy = kv_copy_file R\<rparr>"

section \<open>Folders\<close>

text \<open>The loop over the rows: a failed row ends it, a key that passes the test is kept.\<close>

fun kv_scan :: "string \<Rightarrow> (string \<Rightarrow> bool) \<Rightarrow> (string + string \<times> ustring) list \<Rightarrow>
    file_error + string list" where
  "kv_scan context P [] = Inr []"
| "kv_scan context P (row # rows) =
     res_bind (map_err (kv_error context) row) (\<lambda>(key, _).
     res_bind (kv_scan context P rows) (\<lambda>keys. Inr (if P key then key # keys else keys)))"

definition kv_listing ::
    "('d, 't) redb \<Rightarrow> 'd \<Rightarrow> string \<Rightarrow> (string \<Rightarrow> bool) \<Rightarrow> file_error + file_path list" where
  "kv_listing R db context P =
     res_bind (kv_read_table R context db) (\<lambda>table.
     res_bind (map_err (kv_error context) (db_iter R table)) (\<lambda>rows.
     res_bind (kv_scan context P rows) (\<lambda>keys. collect_typed (\<lambda>_. True) keys)))"

definition kv_child_files :: "('d, 't) redb \<Rightarrow> 'd \<Rightarrow> folder_path \<Rightarrow> file_error + file_path list" where
  "kv_child_files R db path = kv_listing R db (full_path path) (is_child_of (full_path path))"

definition kv_all_child_files ::
    "('d, 't) redb \<Rightarrow> 'd \<Rightarrow> folder_path \<Rightarrow> file_error + file_path list" where
  "kv_all_child_files R db path =
     kv_listing R db (full_path path) (\<lambda>key. starts_with key (full_path path))"

definition kv_child_folders ::
    "('d, 't) redb \<Rightarrow> 'd \<Rightarrow> folder_path \<Rightarrow> file_error + folder_path list" where
  "kv_child_folders R db path = Inr []"

definition kv_create_folder :: "('d, 't) redb \<Rightarrow> 'd \<Rightarrow> folder_path \<Rightarrow> (file_error + unit) \<times> 'd" where
  "kv_create_folder R db path = (Inr (), db)"

text \<open>The existence scan stops at the first hit, before a later row can fail.\<close>

fun kv_any_row :: "string \<Rightarrow> string \<Rightarrow> (string + string \<times> ustring) list \<Rightarrow> file_error + bool" where
  "kv_any_row context folder [] = Inr False"
| "kv_any_row context folder (row # rows) =
     res_bind (map_err (kv_error context) row) (\<lambda>(key, _).
       if starts_with key folder then Inr True else kv_any_row context folder rows)"

definition kv_folder_exists :: "('d, 't) redb \<Rightarrow> 'd \<Rightarrow> folder_path \<Rightarrow> bool" where
  "kv_folder_exists R db path =
     (let context = full_path path in
      (case res_bind (kv_read_table R context db) (\<lambda>table.
          res_bind (map_err (kv_error context) (db_iter R table)) (\<lambda>rows.
            kv_any_row context (full_path path) rows)) of
         Inl _ \<Rightarrow> False
       | Inr b \<Rightarrow> b))"

definition kv_matching_keys ::
    "('d, 't) redb \<Rightarrow> 't \<Rightarrow> string \<Rightarrow> string \<Rightarrow> file_error + string list" where
  "kv_matching_keys R table folder context =
     res_bind (map_err (kv_error context) (db_iter R table)) (\<lambda>rows.
       kv_scan context (\<lambda>key. starts_with key folder) rows)"

text \<open>\<open>None\<close>: the \<open>unwrap\<close> of \<open>strip_prefix\<close> panics.\<close>

definition swap_prefix :: "string \<Rightarrow> string \<Rightarrow> string \<Rightarrow> string option" where
  "swap_prefix key from to = map_option (push to) (strip_prefix key from)"

fun kv_remove_keys :: "('d, 't) redb \<Rightarrow> string \<Rightarrow> string list \<Rightarrow> 't \<Rightarrow> file_error + 't" where
  "kv_remove_keys R context [] table = Inr table"
| "kv_remove_keys R context (key # keys) table =
     res_bind (map_err (kv_error context) (db_remove R table key)) (\<lambda>(_, table).
       kv_remove_keys R context keys table)"

definition kv_delete_folder ::
    "('d, 't) redb \<Rightarrow> 'd \<Rightarrow> folder_path \<Rightarrow> ((file_error + unit) \<times> 'd) option" where
  "kv_delete_folder R db path =
     (let context = full_path path in
      Some (kv_commit R context db
        (res_bind (kv_write_table R context db) (\<lambda>table.
         res_bind (kv_matching_keys R table (full_path path) context) (\<lambda>keys.
         res_bind (kv_remove_keys R context keys table) (\<lambda>table.
           if length keys = 0 then Inl (folder_not_found context) else Inr table))))))"

definition kv_re_key :: "('d, 't) redb \<Rightarrow> 't \<Rightarrow> string \<Rightarrow> string \<Rightarrow> string \<Rightarrow> string \<Rightarrow>
    (file_error + 't) option" where
  "kv_re_key R table key from to context =
     (case map_err (kv_error context) (db_get R table key) of
        Inl e \<Rightarrow> Some (Inl e)
      | Inr None \<Rightarrow> Some (Inr table)
      | Inr (Some contents) \<Rightarrow>
          (case map_err (kv_error context) (db_remove R table key) of
             Inl e \<Rightarrow> Some (Inl e)
           | Inr (_, table) \<Rightarrow>
               (case swap_prefix key from to of
                  None \<Rightarrow> None
                | Some new_key \<Rightarrow>
                    Some (map_err (kv_error context) (db_insert R table new_key contents)))))"

fun kv_re_keys :: "('d, 't) redb \<Rightarrow> string \<Rightarrow> string \<Rightarrow> string \<Rightarrow> string list \<Rightarrow> 't \<Rightarrow>
    (file_error + 't) option" where
  "kv_re_keys R from to context [] table = Some (Inr table)"
| "kv_re_keys R from to context (key # keys) table =
     (case kv_re_key R table key from to context of
        None \<Rightarrow> None
      | Some (Inl e) \<Rightarrow> Some (Inl e)
      | Some (Inr table) \<Rightarrow> kv_re_keys R from to context keys table)"

fun kv_copy_keys :: "('d, 't) redb \<Rightarrow> string \<Rightarrow> string \<Rightarrow> string \<Rightarrow> string list \<Rightarrow> 't \<Rightarrow>
    (file_error + 't) option" where
  "kv_copy_keys R from to context [] table = Some (Inr table)"
| "kv_copy_keys R from to context (key # keys) table =
     (case map_err (kv_error context) (db_get R table key) of
        Inl e \<Rightarrow> Some (Inl e)
      | Inr None \<Rightarrow> kv_copy_keys R from to context keys table
      | Inr (Some contents) \<Rightarrow>
          (case swap_prefix key from to of
             None \<Rightarrow> None
           | Some new_key \<Rightarrow>
               (case map_err (kv_error context) (db_insert R table new_key contents) of
                  Inl e \<Rightarrow> Some (Inl e)
                | Inr table \<Rightarrow> kv_copy_keys R from to context keys table)))"

text \<open>The frame of \<open>move_folder\<close> and \<open>copy_folder\<close>: collect the keys, run the loop, refuse an
  empty folder without a commit.\<close>

definition kv_folder_txn :: "('d, 't) redb \<Rightarrow> 'd \<Rightarrow> string \<Rightarrow>
    (string list \<Rightarrow> 't \<Rightarrow> (file_error + 't) option) \<Rightarrow> ((file_error + unit) \<times> 'd) option" where
  "kv_folder_txn R db folder loop =
     (case res_bind (kv_write_table R folder db) (\<lambda>table.
         res_bind (kv_matching_keys R table folder folder) (\<lambda>keys. Inr (keys, table))) of
        Inl e \<Rightarrow> Some (Inl e, db)
      | Inr (keys, table) \<Rightarrow>
          (case loop keys table of
             None \<Rightarrow> None
           | Some prepared \<Rightarrow>
               Some (kv_commit R folder db
                 (res_bind prepared (\<lambda>table.
                   if length keys = 0 then Inl (folder_not_found folder) else Inr table)))))"

definition kv_move_folder ::
    "('d, 't) redb \<Rightarrow> 'd \<Rightarrow> folder_path \<Rightarrow> folder_path \<Rightarrow> ((file_error + unit) \<times> 'd) option" where
  "kv_move_folder R db from to =
     kv_folder_txn R db (full_path from) (kv_re_keys R (full_path from) (full_path to) (full_path from))"

definition kv_copy_folder ::
    "('d, 't) redb \<Rightarrow> 'd \<Rightarrow> folder_path \<Rightarrow> folder_path \<Rightarrow> ((file_error + unit) \<times> 'd) option" where
  "kv_copy_folder R db from to =
     kv_folder_txn R db (full_path from) (kv_copy_keys R (full_path from) (full_path to) (full_path from))"

definition kv_folder_io :: "('d, 't) redb \<Rightarrow> 'd folder_io" where
  "kv_folder_io R = \<lparr>dio_child_files = kv_child_files R, dio_all_child_files = kv_all_child_files R,
     dio_child_folders = kv_child_folders R, dio_create = kv_create_folder R,
     dio_exists = kv_folder_exists R, dio_delete = kv_delete_folder R,
     dio_move = kv_move_folder R, dio_copy = kv_copy_folder R\<rparr>"

section \<open>The transaction frame\<close>

lemma redb_lawsD:
  assumes "redb_laws R committed view"
  shows "db_begin_read R d = Inr t \<Longrightarrow> view t = committed d"
    and "db_begin_write R d = Inr t \<Longrightarrow> view t = committed d"
    and "db_open_table R t = Inr t' \<Longrightarrow> view t' = view t"
    and "db_get R t k = Inr x \<Longrightarrow> view t k = x"
    and "db_insert R t k v = Inr t' \<Longrightarrow> view t' = (view t)(k \<mapsto> v)"
    and "db_remove R t k = Inr (x, t') \<Longrightarrow> view t k = x \<and> view t' = (view t)(k := None)"
    and "db_iter R t = Inr rows \<Longrightarrow> Inr (k, v) \<in> set rows \<Longrightarrow> view t k = Some v"
    and "db_iter R t = Inr (map Inr es) \<Longrightarrow> distinct (map fst es) \<and> map_of es = view t"
    and "db_commit R t d = (Inr u, d') \<Longrightarrow> committed d' = view t"
    and "db_commit R t d = (Inl e, d') \<Longrightarrow> committed d' = committed d"
proof -
  from assms have laws: "\<forall>d t. db_begin_read R d = Inr t \<longrightarrow> view t = committed d"
    "\<forall>d t. db_begin_write R d = Inr t \<longrightarrow> view t = committed d"
    "\<forall>t t'. db_open_table R t = Inr t' \<longrightarrow> view t' = view t"
    "\<forall>t k x. db_get R t k = Inr x \<longrightarrow> x = view t k"
    "\<forall>t k v t'. db_insert R t k v = Inr t' \<longrightarrow> view t' = (view t)(k \<mapsto> v)"
    "\<forall>t k x t'. db_remove R t k = Inr (x, t') \<longrightarrow> x = view t k \<and> view t' = (view t)(k := None)"
    "\<forall>t rows. db_iter R t = Inr rows \<longrightarrow> (\<forall>k v. Inr (k, v) \<in> set rows \<longrightarrow> view t k = Some v) \<and>
        (\<forall>es. rows = map Inr es \<longrightarrow> distinct (map fst es) \<and> map_of es = view t)"
    "\<forall>t d u d'. db_commit R t d = (Inr u, d') \<longrightarrow> committed d' = view t"
    "\<forall>t d e d'. db_commit R t d = (Inl e, d') \<longrightarrow> committed d' = committed d"
    unfolding redb_laws_def by - (elim conjE, assumption)+
  show "db_begin_read R d = Inr t \<Longrightarrow> view t = committed d" using laws(1) by iprover
  show "db_begin_write R d = Inr t \<Longrightarrow> view t = committed d" using laws(2) by iprover
  show "db_open_table R t = Inr t' \<Longrightarrow> view t' = view t" using laws(3) by iprover
  show "db_get R t k = Inr x \<Longrightarrow> view t k = x" using laws(4) by metis
  show "db_insert R t k v = Inr t' \<Longrightarrow> view t' = (view t)(k \<mapsto> v)" using laws(5) by iprover
  show "db_remove R t k = Inr (x, t') \<Longrightarrow> view t k = x \<and> view t' = (view t)(k := None)"
    using laws(6) by metis
  show "db_iter R t = Inr rows \<Longrightarrow> Inr (k, v) \<in> set rows \<Longrightarrow> view t k = Some v"
    using laws(7) by iprover
  show "db_iter R t = Inr (map Inr es) \<Longrightarrow> distinct (map fst es) \<and> map_of es = view t"
    using laws(7) by iprover
  show "db_commit R t d = (Inr u, d') \<Longrightarrow> committed d' = view t" using laws(8) by iprover
  show "db_commit R t d = (Inl e, d') \<Longrightarrow> committed d' = committed d" using laws(9) by iprover
qed

lemma kv_read_table_view:
  assumes laws: "redb_laws R committed view"
  shows "kv_read_table R key db = Inr t \<Longrightarrow> view t = committed db"
  by (auto simp: kv_read_table_def res_bind_Inr_iff map_err_Inr_iff dest!: redb_lawsD [OF laws])

lemma kv_write_table_view:
  assumes laws: "redb_laws R committed view"
  shows "kv_write_table R key db = Inr t \<Longrightarrow> view t = committed db"
  by (auto simp: kv_write_table_def res_bind_Inr_iff map_err_Inr_iff dest!: redb_lawsD [OF laws])

lemma kv_commit_ok:
  assumes laws: "redb_laws R committed view" and "kv_commit R key db prepared = (Inr u, db')"
  obtains t where "prepared = Inr t" and "committed db' = view t"
  using assms by (auto simp: kv_commit_def map_err_Inr_iff split: sum.splits prod.splits
      dest!: redb_lawsD(9,10) [OF laws])

lemma kv_commit_err:
  assumes laws: "redb_laws R committed view" and err: "kv_commit R key db prepared = (Inl e, db')"
  shows "committed db' = committed db"
proof (cases prepared)
  case (Inr t)
  obtain r d where c: "db_commit R t db = (r, d)" by fastforce
  with err Inr obtain e' where "r = Inl e'" and "d = db'"
    by (cases r) (simp_all add: kv_commit_def)
  with c show ?thesis using redb_lawsD(10) [OF laws] by simp
qed (use err in \<open>simp add: kv_commit_def\<close>)

section \<open>The engine meets the store contract\<close>

lemma kv_read_file_ok:
  assumes laws: "redb_laws R committed view" and read: "kv_read_file R db p = Inr c"
  shows "committed db (full_path p) = Some c"
proof -
  from read obtain t x where t: "kv_read_table R (full_path p) db = Inr t"
    and x: "db_get R t (full_path p) = Inr x" and "x = Some c"
    by (auto simp: kv_read_file_def Let_def res_bind_Inr_iff map_err_Inr_iff split: option.splits)
  with redb_lawsD(4) [OF laws x] kv_read_table_view [OF laws t] show ?thesis by simp
qed

lemma kv_exists_ok:
  assumes laws: "redb_laws R committed view"
  shows "kv_exists R db p \<Longrightarrow> committed db (full_path p) \<noteq> None"
  by (auto simp: kv_exists_def Let_def res_bind_Inr_iff map_err_Inr_iff split: sum.splits
      dest!: kv_read_table_view [OF laws] redb_lawsD(4) [OF laws])

lemma kv_write_file_ok:
  assumes laws: "redb_laws R committed view"
  shows "kv_write_file R db p c = (Inr u, db') \<Longrightarrow>
     committed db' = (committed db)(full_path p \<mapsto> c)"
  by (auto simp: kv_write_file_def Let_def res_bind_Inr_iff map_err_Inr_iff
      elim!: kv_commit_ok [OF laws] dest!: kv_write_table_view [OF laws] redb_lawsD(5) [OF laws])

lemma kv_delete_file_ok:
  assumes laws: "redb_laws R committed view"
  shows "kv_delete_file R db p = (Inr u, db') \<Longrightarrow>
     committed db (full_path p) \<noteq> None \<and> committed db' = (committed db)(full_path p := None)"
  by (auto simp: kv_delete_file_def Let_def res_bind_Inr_iff map_err_Inr_iff split: if_splits
      elim!: kv_commit_ok [OF laws] dest!: kv_write_table_view [OF laws] redb_lawsD(6) [OF laws])

lemma kv_move_file_ok:
  assumes laws: "redb_laws R committed view"
  shows "kv_move_file R db p q = (Inr u, db') \<Longrightarrow>
     committed db (full_path p) \<noteq> None \<and>
     committed db' = (committed db)(full_path p := None, full_path q := committed db (full_path p))"
  by (auto simp: kv_move_file_def Let_def res_bind_Inr_iff map_err_Inr_iff split: option.splits
      elim!: kv_commit_ok [OF laws] dest!: kv_write_table_view [OF laws] redb_lawsD(4,5,6) [OF laws])

lemma kv_copy_file_ok:
  assumes laws: "redb_laws R committed view"
  shows "kv_copy_file R db p q = (Inr u, db') \<Longrightarrow>
     committed db (full_path p) \<noteq> None \<and>
     committed db' = (committed db)(full_path q := committed db (full_path p))"
  by (auto simp: kv_copy_file_def Let_def res_bind_Inr_iff map_err_Inr_iff split: option.splits
      elim!: kv_commit_ok [OF laws] dest!: kv_write_table_view [OF laws] redb_lawsD(4,5) [OF laws])

lemma kv_file_ops_err:
  assumes laws: "redb_laws R committed view"
  shows "kv_write_file R db p c = (Inl e, db') \<Longrightarrow> committed db' = committed db"
    and "kv_delete_file R db p = (Inl e, db') \<Longrightarrow> committed db' = committed db"
    and "kv_move_file R db p q = (Inl e, db') \<Longrightarrow> committed db' = committed db"
    and "kv_copy_file R db p q = (Inl e, db') \<Longrightarrow> committed db' = committed db"
  unfolding kv_write_file_def kv_delete_file_def kv_move_file_def kv_copy_file_def Let_def
  by (erule kv_commit_err [OF laws])+

lemma kv_file_store:
  assumes laws: "redb_laws R committed view"
  shows "file_store (kv_file_io R) (\<lambda>k. k) committed (\<lambda>_. True)"
  by unfold_locales
    (auto simp: kv_file_io_def fun_upd_twist dest: kv_read_file_ok [OF laws] kv_exists_ok [OF laws]
      kv_write_file_ok [OF laws] kv_delete_file_ok [OF laws] kv_move_file_ok [OF laws]
      kv_copy_file_ok [OF laws] kv_file_ops_err [OF laws])

section \<open>The folder loops\<close>

interpretation raw: keyed_table "\<lambda>m k. m k" "\<lambda>k v m. m(k \<mapsto> v)" "\<lambda>k m. m(k := None)"
    "\<lambda>k. k" "\<lambda>m. m"
  by unfold_locales simp_all

definition kv_under :: "('d \<Rightarrow> string \<Rightarrow> ustring option) \<Rightarrow> 'd \<Rightarrow> string \<Rightarrow> string set" where
  "kv_under committed db folder = {k. starts_with k folder \<and> committed db k \<noteq> None}"

lemma kv_scan_ok:
  "kv_scan context P rows = Inr keys \<Longrightarrow> \<exists>es. rows = map Inr es \<and> keys = filter P (map fst es)"
proof (induction rows arbitrary: keys)
  case (Cons row rows)
  then obtain k v ks where row: "row = Inr (k, v)" and ks: "kv_scan context P rows = Inr ks"
    and keys: "keys = (if P k then k # ks else ks)"
    by (auto simp: res_bind_Inr_iff map_err_Inr_iff)
  from Cons.IH [OF ks] obtain es where "rows = map Inr es" "ks = filter P (map fst es)" by blast
  with row keys have "row # rows = map Inr ((k, v) # es) \<and> keys = filter P (map fst ((k, v) # es))"
    by simp
  then show ?case by (rule exI)
qed simp

lemma kv_matching_keys_ok:
  assumes laws: "redb_laws R committed view" and keys: "kv_matching_keys R t folder context = Inr ks"
  shows "distinct ks" and "set ks = {k. starts_with k folder \<and> view t k \<noteq> None}"
proof -
  from keys obtain rows where it: "db_iter R t = Inr rows"
    and sc: "kv_scan context (\<lambda>key. starts_with key folder) rows = Inr ks"
    by (auto simp: kv_matching_keys_def res_bind_Inr_iff map_err_Inr_iff)
  from kv_scan_ok [OF sc] obtain es where es: "rows = map Inr es"
    and ks: "ks = filter (\<lambda>key. starts_with key folder) (map fst es)" by blast
  with it have law: "distinct (map fst es)" "map_of es = view t"
    using redb_lawsD(8) [OF laws, of t es] by auto
  then show "distinct ks" by (simp add: ks)
  have "dom (view t) = fst ` set es" using law(2) dom_map_of_conv_image_fst by metis
  then show "set ks = {k. starts_with k folder \<and> view t k \<noteq> None}"
    by (auto simp: ks dom_def)
qed

lemma kv_remove_keys_ok:
  assumes laws: "redb_laws R committed view"
  shows "kv_remove_keys R context ks t = Inr t' \<Longrightarrow>
    view t' = foldl (\<lambda>m k. m(k := None)) (view t) ks"
proof (induction ks arbitrary: t)
  case (Cons k ks)
  then obtain x t1 where r: "db_remove R t k = Inr (x, t1)" and "kv_remove_keys R context ks t1 = Inr t'"
    by (auto simp: res_bind_Inr_iff map_err_Inr_iff)
  with Cons.IH have "view t' = foldl (\<lambda>m k. m(k := None)) (view t1) ks" by blast
  then show ?case using redb_lawsD(6) [OF laws r] by (simp add: fun_upd_def)
qed simp

lemma swap_prefix_starts:
  "starts_with k from \<Longrightarrow> swap_prefix k from to = Some (moved_key from to k)"
  by (simp add: swap_prefix_def strip_prefix_def)

lemma kv_re_key_some:
  "starts_with k from \<Longrightarrow> kv_re_key R t k from to context \<noteq> None"
  by (auto simp: kv_re_key_def swap_prefix_starts split: sum.splits option.splits)

lemma kv_re_key_ok:
  assumes laws: "redb_laws R committed view" and start: "starts_with k from"
    and re: "kv_re_key R t k from to context = Some (Inr t')"
  shows "view t' = (case view t k of None \<Rightarrow> view t
    | Some v \<Rightarrow> ((view t)(k := None))(moved_key from to k \<mapsto> v))"
proof -
  from re obtain x where g: "db_get R t k = Inr x"
    by (cases "db_get R t k") (simp_all add: kv_re_key_def)
  note x = redb_lawsD(4) [OF laws g]
  show ?thesis
  proof (cases x)
    case None
    then show ?thesis using re g x by (simp add: kv_re_key_def)
  next
    case (Some v)
    with re g obtain y t1 where rm: "db_remove R t k = Inr (y, t1)"
      by (cases "db_remove R t k") (auto simp: kv_re_key_def)
    with re g Some have ins: "db_insert R t1 (moved_key from to k) v = Inr t'"
      by (simp add: kv_re_key_def swap_prefix_starts [OF start] map_err_Inr_iff)
    have "view t1 = (view t)(k := None)" using redb_lawsD(6) [OF laws rm] by blast
    then show ?thesis using redb_lawsD(5) [OF laws ins] Some x by simp
  qed
qed

lemma kv_re_keys_some:
  "\<forall>k \<in> set ks. starts_with k from \<Longrightarrow> kv_re_keys R from to context ks t \<noteq> None"
proof (induction ks arbitrary: t)
  case (Cons k ks)
  then show ?case using kv_re_key_some [of k "from"] by (auto split: option.splits sum.splits)
qed simp

lemma kv_re_keys_ok:
  assumes laws: "redb_laws R committed view"
  shows "\<forall>k \<in> set ks. starts_with k from \<Longrightarrow> kv_re_keys R from to context ks t = Some (Inr t') \<Longrightarrow>
    view t' = foldl (\<lambda>m k. case m k of None \<Rightarrow> m | Some v \<Rightarrow> (m(k := None))(moved_key from to k \<mapsto> v))
      (view t) ks"
proof (induction ks arbitrary: t)
  case (Cons k ks)
  from Cons.prems(2) obtain t1 where one: "kv_re_key R t k from to context = Some (Inr t1)"
    and rest: "kv_re_keys R from to context ks t1 = Some (Inr t')"
    by (auto split: option.splits sum.splits)
  have "starts_with k from" using Cons.prems(1) by simp
  note step = kv_re_key_ok [OF laws this one]
  from Cons.IH [OF _ rest] Cons.prems(1) step show ?case by simp
qed simp

lemma kv_copy_keys_some:
  "\<forall>k \<in> set ks. starts_with k from \<Longrightarrow> kv_copy_keys R from to context ks t \<noteq> None"
proof (induction ks arbitrary: t)
  case (Cons k ks)
  then show ?case by (auto simp: swap_prefix_starts split: option.splits sum.splits)
qed simp

lemma kv_copy_keys_ok:
  assumes laws: "redb_laws R committed view"
  shows "\<forall>k \<in> set ks. starts_with k from \<Longrightarrow> kv_copy_keys R from to context ks t = Some (Inr t') \<Longrightarrow>
    view t' = foldl (\<lambda>m k. case m k of None \<Rightarrow> m | Some v \<Rightarrow> m(moved_key from to k \<mapsto> v)) (view t) ks"
proof (induction ks arbitrary: t)
  case (Cons k ks)
  from Cons.prems(2) obtain x where g: "db_get R t k = Inr x"
    by (cases "db_get R t k") simp_all
  note x = redb_lawsD(4) [OF laws g]
  show ?case
  proof (cases x)
    case None
    with Cons.prems g have "kv_copy_keys R from to context ks t = Some (Inr t')" by simp
    from Cons.IH [OF _ this] Cons.prems(1) None x show ?thesis by simp
  next
    case (Some v)
    have sw: "swap_prefix k from to = Some (moved_key from to k)"
      using Cons.prems(1) by (simp add: swap_prefix_starts)
    with Cons.prems(2) g Some obtain t1 where ins: "db_insert R t (moved_key from to k) v = Inr t1"
      by (cases "db_insert R t (moved_key from to k) v") simp_all
    with Cons.prems(2) g Some sw have "kv_copy_keys R from to context ks t1 = Some (Inr t')" by simp
    from Cons.IH [OF _ this] Cons.prems(1)
    have "view t' = foldl (\<lambda>m k. case m k of None \<Rightarrow> m | Some v \<Rightarrow> m(moved_key from to k \<mapsto> v)) (view t1) ks"
      by simp
    then show ?thesis unfolding redb_lawsD(5) [OF laws ins] using Some x by simp
  qed
qed simp

section \<open>The folder operations\<close>

lemma kv_folder_txn_some:
  assumes laws: "redb_laws R committed view"
    and "\<And>ks t. \<forall>k \<in> set ks. starts_with k folder \<Longrightarrow> loop ks t \<noteq> None"
  shows "kv_folder_txn R db folder loop \<noteq> None"
proof (cases "res_bind (kv_write_table R folder db) (\<lambda>table.
    res_bind (kv_matching_keys R table folder folder) (\<lambda>keys. Inr (keys, table)))")
  case (Inr kt)
  then obtain ks t where kt: "kt = (ks, t)" and m: "kv_matching_keys R t folder folder = Inr ks"
    by (auto simp: res_bind_Inr_iff)
  have "\<forall>k \<in> set ks. starts_with k folder"
    using kv_matching_keys_ok(2) [OF laws m] by simp
  with assms(2) [of ks t] obtain prepared where "loop ks t = Some prepared" by blast
  then show ?thesis unfolding kv_folder_txn_def Inr kt by simp
qed (simp add: kv_folder_txn_def)

lemma kv_folder_txn_ok:
  assumes laws: "redb_laws R committed view" and r: "kv_folder_txn R db folder loop = Some (Inr u, db')"
  obtains ks t t' where "distinct ks" and "set ks = kv_under committed db folder" and "ks \<noteq> []"
    and "view t = committed db" and "loop ks t = Some (Inr t')" and "committed db' = view t'"
proof (cases "res_bind (kv_write_table R folder db) (\<lambda>table.
    res_bind (kv_matching_keys R table folder folder) (\<lambda>keys. Inr (keys, table)))")
  case (Inr kt)
  then obtain ks t where kt: "kt = (ks, t)" and m: "kv_matching_keys R t folder folder = Inr ks"
    and w: "kv_write_table R folder db = Inr t"
    by (auto simp: res_bind_Inr_iff)
  from r obtain prepared where l: "loop ks t = Some prepared"
    and c: "kv_commit R folder db (res_bind prepared (\<lambda>table.
      if length ks = 0 then Inl (folder_not_found folder) else Inr table)) = (Inr u, db')"
    unfolding kv_folder_txn_def Inr kt by (auto split: option.splits)
  from c obtain t' where "prepared = Inr t'" and "ks \<noteq> []" and "committed db' = view t'"
    by (rule kv_commit_ok [OF laws]) (auto simp: res_bind_Inr_iff split: if_splits)
  moreover have "view t = committed db" by (rule kv_write_table_view [OF laws w])
  moreover note kv_matching_keys_ok [OF laws m]
  ultimately show ?thesis using l by (intro that [of ks t t']) (simp_all add: kv_under_def)
qed (use r in \<open>simp add: kv_folder_txn_def\<close>)

lemma kv_folder_txn_err:
  assumes laws: "redb_laws R committed view" and r: "kv_folder_txn R db folder loop = Some (Inl e, db')"
  shows "committed db' = committed db"
proof (cases "res_bind (kv_write_table R folder db) (\<lambda>table.
    res_bind (kv_matching_keys R table folder folder) (\<lambda>keys. Inr (keys, table)))")
  case (Inr kt)
  obtain ks t where kt: "kt = (ks, t)" by (cases kt)
  from r obtain prepared where "kv_commit R folder db (res_bind prepared (\<lambda>table.
      if length ks = 0 then Inl (folder_not_found folder) else Inr table)) = (Inl e, db')"
    unfolding kv_folder_txn_def Inr kt by (auto split: option.splits)
  then show ?thesis by (rule kv_commit_err [OF laws])
qed (use r in \<open>simp add: kv_folder_txn_def\<close>)

lemma moved_key_inj:
  assumes "inj_on components (dom M)" and "components from \<noteq> []"
    and "N \<subseteq> {k. starts_with k from \<and> M k \<noteq> None}"
  shows "inj_on (moved_key from to) N"
proof (rule inj_onI)
  fix a b assume ab: "a \<in> N" "b \<in> N" and eq: "moved_key from to a = moved_key from to b"
  with assms(3) have s: "starts_with a from" "starts_with b from" "a \<in> dom M" "b \<in> dom M" by auto
  from eq have "transplant (components from) (components to) (components a) =
      transplant (components from) (components to) (components b)"
    using components_moved_key [OF _ assms(2)] s by metis
  with s have "components a = components b"
    by (auto simp: transplant_def starts_with_def prefix_def)
  with s assms(1) show "a = b" by (simp add: inj_on_def)
qed

lemma moved_key_disjoint:
  assumes "unrelated (components from) (components to)" and "components from \<noteq> []"
    and "N \<subseteq> {k. starts_with k from}"
  shows "moved_key from to ` N \<inter> N = {}"
proof -
  have "components (moved_key from to k) \<noteq> components k'" if "k \<in> N" "k' \<in> N" for k k'
  proof -
    from that assms(3) have "starts_with k from" "prefix (components from) (components k')"
      by (auto simp: starts_with_def)
    then show ?thesis
      using components_moved_key [OF _ assms(2), of k to] assms(1)
        prefix_same_cases [OF prefix_transplant] unfolding unrelated_def by metis
  qed
  then show ?thesis by blast
qed

lemma kv_under_sub: "kv_under committed db folder \<subseteq> {k. starts_with k folder \<and> committed db k \<noteq> None}"
  "kv_under committed db folder \<subseteq> {k. starts_with k folder}"
  by (auto simp: kv_under_def)

lemma returns_atomic:
  assumes "\<And>e db'. x = (Inl e, db') \<Longrightarrow> committed db' = committed db"
  shows "\<exists>r db'. x = (r, db') \<and> (is_ok r \<or> committed db' = committed db)"
proof -
  obtain r db' where x: "x = (r, db')" by (cases x)
  then show ?thesis using assms by (cases r) auto
qed

lemma some_atomic:
  assumes "x \<noteq> None" and "\<And>e db'. x = Some (Inl e, db') \<Longrightarrow> committed db' = committed db"
  shows "\<exists>r db'. x = Some (r, db') \<and> (is_ok r \<or> committed db' = committed db)"
proof -
  from assms(1) obtain y where y: "x = Some y" by blast
  from returns_atomic [of y committed db] assms(2) y show ?thesis by simp
qed

text \<open>C9: Every folder operation of the redb engine returns (its \<open>unwrap\<close> cannot fail) and is
  atomic: whichever call of the database fails, at whatever point of the loop, and also
  when the folder is empty, an error leaves the committed files exactly as they were.\<close>

theorem kv_folder_ops_atomic:
  assumes "redb_laws R committed view"
  shows "(\<exists>r db'. kv_delete_folder R db p = Some (r, db') \<and> (is_ok r \<or> committed db' = committed db))
    \<and> (\<exists>r db'. kv_move_folder R db p q = Some (r, db') \<and> (is_ok r \<or> committed db' = committed db))
    \<and> (\<exists>r db'. kv_copy_folder R db p q = Some (r, db') \<and> (is_ok r \<or> committed db' = committed db))"
proof (intro conjI)
  show "\<exists>r db'. kv_delete_folder R db p = Some (r, db') \<and> (is_ok r \<or> committed db' = committed db)"
    using returns_atomic [OF kv_commit_err [OF assms]] unfolding kv_delete_folder_def Let_def by simp
  have "kv_move_folder R db p q \<noteq> None"
    unfolding kv_move_folder_def by (intro kv_folder_txn_some [OF assms] kv_re_keys_some)
  then show "\<exists>r db'. kv_move_folder R db p q = Some (r, db') \<and> (is_ok r \<or> committed db' = committed db)"
    using kv_folder_txn_err [OF assms] unfolding kv_move_folder_def
    by (intro some_atomic)
  have "kv_copy_folder R db p q \<noteq> None"
    unfolding kv_copy_folder_def by (intro kv_folder_txn_some [OF assms] kv_copy_keys_some)
  then show "\<exists>r db'. kv_copy_folder R db p q = Some (r, db') \<and> (is_ok r \<or> committed db' = committed db)"
    using kv_folder_txn_err [OF assms] unfolding kv_copy_folder_def
    by (intro some_atomic)
qed

text \<open>A successful move and a successful copy, from the keys that were found beneath the folder.\<close>

lemma kv_move_folder_effect:
  assumes "redb_laws R committed view" and "inj_on components (dom (committed db))"
    and "components (full_path p) \<noteq> []"
    and "unrelated (components (full_path p)) (components (full_path q))"
    and "kv_move_folder R db p q = Some (Inr u, db')"
  shows "kv_under committed db (full_path p) \<noteq> {}
    \<and> rekeyed (moved_key (full_path p) (full_path q)) (kv_under committed db (full_path p))
        (committed db) (committed db')"
proof -
  from kv_folder_txn_ok [OF assms(1) assms(5) [unfolded kv_move_folder_def]]
  obtain ks t t' where ks: "distinct ks" "set ks = kv_under committed db (full_path p)" "ks \<noteq> []"
    and t: "view t = committed db" "committed db' = view t'"
    and l: "kv_re_keys R (full_path p) (full_path q) (full_path p) ks t = Some (Inr t')" .
  from ks(2) have s: "\<forall>k \<in> set ks. starts_with k (full_path p)" by (simp add: kv_under_def)
  let ?g = "moved_key (full_path p) (full_path q)"
  have "rekeyed ?g ((\<lambda>k. k) ` set ks) (committed db)
    (foldl (\<lambda>m k. case m k of None \<Rightarrow> m | Some v \<Rightarrow> (m(k := None))(?g k \<mapsto> v)) (committed db) ks)"
  proof (rule raw.move_loop)
    show "\<forall>k \<in> set ks. committed db k \<noteq> None" using ks(2) by (simp add: kv_under_def)
    show "inj_on ?g ((\<lambda>k. k) ` set ks)"
      using moved_key_inj [OF assms(2,3) kv_under_sub(1) [of committed db "full_path p"]] ks(2) by simp
    show "?g ` (\<lambda>k. k) ` set ks \<inter> (\<lambda>k. k) ` set ks = {}"
      using moved_key_disjoint [OF assms(4,3) kv_under_sub(2) [of committed db "full_path p"]] ks(2) by simp
  qed (use ks(1) in simp_all)
  moreover have "kv_under committed db (full_path p) \<noteq> {}" unfolding ks(2) [symmetric] using ks(3) by simp
  ultimately show ?thesis
    using kv_re_keys_ok [OF assms(1) s l] t ks by simp
qed

lemma kv_copy_folder_effect:
  assumes "redb_laws R committed view" and "inj_on components (dom (committed db))"
    and "components (full_path p) \<noteq> []"
    and "unrelated (components (full_path p)) (components (full_path q))"
    and "kv_copy_folder R db p q = Some (Inr u, db')"
  shows "kv_under committed db (full_path p) \<noteq> {}
    \<and> copied (moved_key (full_path p) (full_path q)) (kv_under committed db (full_path p))
        (committed db) (committed db')"
proof -
  from kv_folder_txn_ok [OF assms(1) assms(5) [unfolded kv_copy_folder_def]]
  obtain ks t t' where ks: "distinct ks" "set ks = kv_under committed db (full_path p)" "ks \<noteq> []"
    and t: "view t = committed db" "committed db' = view t'"
    and l: "kv_copy_keys R (full_path p) (full_path q) (full_path p) ks t = Some (Inr t')" .
  from ks(2) have s: "\<forall>k \<in> set ks. starts_with k (full_path p)" by (simp add: kv_under_def)
  let ?g = "moved_key (full_path p) (full_path q)"
  have "copied ?g ((\<lambda>k. k) ` set ks) (committed db)
    (foldl (\<lambda>m k. case m k of None \<Rightarrow> m | Some v \<Rightarrow> m(?g k \<mapsto> v)) (committed db) ks)"
  proof (rule raw.copy_loop)
    show "\<forall>k \<in> set ks. committed db k \<noteq> None" using ks(2) by (simp add: kv_under_def)
    show "inj_on ?g ((\<lambda>k. k) ` set ks)"
      using moved_key_inj [OF assms(2,3) kv_under_sub(1) [of committed db "full_path p"]] ks(2) by simp
    show "?g ` (\<lambda>k. k) ` set ks \<inter> (\<lambda>k. k) ` set ks = {}"
      using moved_key_disjoint [OF assms(4,3) kv_under_sub(2) [of committed db "full_path p"]] ks(2) by simp
  qed simp
  moreover have "kv_under committed db (full_path p) \<noteq> {}" unfolding ks(2) [symmetric] using ks(3) by simp
  ultimately show ?thesis
    using kv_copy_keys_ok [OF assms(1) s l] t ks by simp
qed

text \<open>A successful folder move in the redb engine, to a place neither above nor below the
  folder, re-keys exactly the entries beneath it: each is found under the destination joined
  with what followed the folder in its key, none remains under its old key, and every other
  entry is as before. A successful copy adds the entries under those keys and changes nothing else.
  In both cases the folder was not empty. Stored keys are taken to name distinct paths
  (two spellings of one path would collide beneath the destination).\<close>

theorem kv_folder_ops_rekey:
  assumes "redb_laws R committed view" and "inj_on components (dom (committed db))"
    and "components (full_path p) \<noteq> []"
    and "unrelated (components (full_path p)) (components (full_path q))"
    and "N = kv_under committed db (full_path p)"
    and "g = moved_key (full_path p) (full_path q)"
  shows "(kv_move_folder R db p q = Some (Inr u, db1) \<longrightarrow>
      N \<noteq> {} \<and> rekeyed g N (committed db) (committed db1))
    \<and> (kv_copy_folder R db p q = Some (Inr u, db2) \<longrightarrow>
      N \<noteq> {} \<and> copied g N (committed db) (committed db2))"
  using kv_move_folder_effect [OF assms(1-4)] kv_copy_folder_effect [OF assms(1-4)]
  unfolding assms(5,6) by blast

section \<open>A concrete database, and the file operations\<close>

text \<open>An in-memory table as an association list: the laws can hold.\<close>

definition list_redb :: "((string \<times> ustring) list, (string \<times> ustring) list) redb" where
  "list_redb = \<lparr>db_create = (\<lambda>_. Inr []), db_begin_read = Inr, db_begin_write = Inr,
     db_open_table = Inr, db_get = (\<lambda>t k. Inr (map_of t k)),
     db_insert = (\<lambda>t k v. Inr ((k, v) # t)),
     db_remove = (\<lambda>t k. Inr (map_of t k, filter (\<lambda>e. fst e \<noteq> k) t)),
     db_iter = (\<lambda>t. Inr (map Inr (AList.clearjunk t))), db_commit = (\<lambda>t _. (Inr (), t))\<rparr>"

lemma inj_map_Inr: "map Inr xs = map Inr ys \<longleftrightarrow> xs = ys"
  by (auto simp: inj_map_eq_map)

lemma map_of_removed: "map_of (filter (\<lambda>e. fst e \<noteq> k) t) = (map_of t)(k := None)"
  by (induction t) auto

lemma list_redb_laws: "redb_laws list_redb map_of map_of"
  by (auto simp: redb_laws_def list_redb_def map_of_removed inj_map_Inr
      distinct_clearjunk map_of_clearjunk map_of_eq_Some_iff [symmetric]
      simp del: map_of_eq_Some_iff dest: map_of_is_SomeI [OF distinct_clearjunk])

interpretation kv_list: file_store "kv_file_io list_redb" "\<lambda>k. k" map_of "\<lambda>_. True"
  by (rule kv_file_store [OF list_redb_laws])

text \<open>The redb file operations against the committed table: a successful read returns the
  stored contents; a successful write, delete, move or copy changes exactly the entries it
  names (deleting, moving or copying only what was there); and when any database call fails,
  the commit included, the committed table is unchanged.\<close>

theorem kv_file_ops_functional:
  assumes "redb_laws R committed view"
  shows "(\<forall>c. kv_read_file R db p = Inr c \<longrightarrow> committed db (full_path p) = Some c)
    \<and> (\<forall>r db'. kv_write_file R db p c = (r, db') \<longrightarrow> committed db' =
        (if is_ok r then (committed db)(full_path p \<mapsto> c) else committed db))
    \<and> (\<forall>r db'. kv_delete_file R db p = (r, db') \<longrightarrow> (is_ok r \<longrightarrow> committed db (full_path p) \<noteq> None)
        \<and> committed db' = (if is_ok r then (committed db)(full_path p := None) else committed db))
    \<and> (\<forall>r db'. kv_move_file R db p q = (r, db') \<longrightarrow> (is_ok r \<longrightarrow> committed db (full_path p) \<noteq> None)
        \<and> committed db' = (if is_ok r then (committed db)(full_path p := None,
            full_path q := committed db (full_path p)) else committed db))
    \<and> (\<forall>r db'. kv_copy_file R db p q = (r, db') \<longrightarrow> (is_ok r \<longrightarrow> committed db (full_path p) \<noteq> None)
        \<and> committed db' = (if is_ok r then (committed db)(full_path q := committed db (full_path p))
            else committed db))"
proof (intro conjI allI impI)
  note ok = kv_read_file_ok [OF assms] kv_write_file_ok [OF assms] kv_delete_file_ok [OF assms]
    kv_move_file_ok [OF assms] kv_copy_file_ok [OF assms]
  note err = kv_file_ops_err [OF assms]
  show "kv_read_file R db p = Inr c \<Longrightarrow> committed db (full_path p) = Some c" for c by (rule ok(1))
  show "kv_write_file R db p c = (r, db') \<Longrightarrow> committed db' =
    (if is_ok r then (committed db)(full_path p \<mapsto> c) else committed db)" for r db'
    by (cases r) (simp_all add: ok(2) err(1))
  show "kv_delete_file R db p = (r, db') \<Longrightarrow> is_ok r \<Longrightarrow> committed db (full_path p) \<noteq> None" for r db'
    by (cases r) (simp_all add: ok(3))
  show "kv_delete_file R db p = (r, db') \<Longrightarrow> committed db' =
    (if is_ok r then (committed db)(full_path p := None) else committed db)" for r db'
    by (cases r) (simp_all add: ok(3) err(2))
  show "kv_move_file R db p q = (r, db') \<Longrightarrow> is_ok r \<Longrightarrow> committed db (full_path p) \<noteq> None" for r db'
    by (cases r) (simp_all add: ok(4))
  show "kv_move_file R db p q = (r, db') \<Longrightarrow> committed db' = (if is_ok r then (committed db)
    (full_path p := None, full_path q := committed db (full_path p)) else committed db)" for r db'
    by (cases r) (simp_all add: ok(4) err(3))
  show "kv_copy_file R db p q = (r, db') \<Longrightarrow> is_ok r \<Longrightarrow> committed db (full_path p) \<noteq> None" for r db'
    by (cases r) (simp_all add: ok(5))
  show "kv_copy_file R db p q = (r, db') \<Longrightarrow> committed db' = (if is_ok r then (committed db)
    (full_path q := committed db (full_path p)) else committed db)" for r db'
    by (cases r) (simp_all add: ok(5) err(4))
qed

section \<open>Witnesses\<close>

definition demo_db :: "(string \<times> ustring) list" where
  "demo_db = [(''a/x'', [1]), (''c'', [2])]"

lemma kv_file_ops_functional_witness:
  "kv_move_file list_redb demo_db (plain_file ''c'') (plain_file ''d'') =
     (Inr (), [(''d'', [2]), (''a/x'', [1])]) \<and>
   map_of [(''d'', [2]), (''a/x'', [1])] =
     (map_of demo_db)(''c'' := None, ''d'' := map_of demo_db ''c'')"
proof -
  have step: "kv_move_file list_redb demo_db (plain_file ''c'') (plain_file ''d'') =
     (Inr (), [(''d'', [2]), (''a/x'', [1])])"
    by (simp add: kv_move_file_def kv_write_table_def kv_commit_def list_redb_def demo_db_def
        plain_file_def)
  then show ?thesis
    using kv_file_ops_functional [OF list_redb_laws, of demo_db "plain_file ''c''" "[]" "plain_file ''d''"]
    by simp
qed

lemma kv_folder_ops_atomic_witness:
  "\<exists>r db'. kv_move_folder list_redb demo_db (demo_folder ''a'') (demo_folder ''a/n'') = Some (r, db') \<and>
     (is_ok r \<or> map_of db' = map_of demo_db)"
  using kv_folder_ops_atomic [OF list_redb_laws] by blast

lemma demo_db_facts:
  "inj_on components (dom (map_of demo_db))"
  "components (full_path (demo_folder ''a'')) \<noteq> []"
  "unrelated (components (full_path (demo_folder ''a''))) (components (full_path (demo_folder ''b'')))"
proof -
  have "dom (map_of demo_db) = {''a/x'', ''c''}" by (auto simp: demo_db_def)
  then show "inj_on components (dom (map_of demo_db))" by (simp add: inj_on_def demo_defs)
qed (simp_all add: demo_defs)

lemmas path_eval = components_def head_components_def real_pieces_def skip_piece_def
  lead_cur_def piece_component_def starts_with_def strip_prefix_def after_components_def
  body_pieces_def lead_len_def trim_right_def trim_left_def push_def

lemmas kv_eval = kv_move_folder_def kv_copy_folder_def kv_folder_txn_def kv_write_table_def
  kv_matching_keys_def kv_re_key_def swap_prefix_def kv_commit_def list_redb_def demo_db_def
  demo_folder_def

lemma kv_folder_ops_rekey_witness:
  "kv_move_folder list_redb demo_db (demo_folder ''a'') (demo_folder ''b'') =
     Some (Inr (), [(''b/x'', [1]), (''c'', [2])]) \<and>
   rekeyed (moved_key ''a'' ''b'') (kv_under map_of demo_db ''a'') (map_of demo_db)
     (map_of [(''b/x'', [1]), (''c'', [2])]) \<and>
   kv_copy_folder list_redb demo_db (demo_folder ''a'') (demo_folder ''b'') =
     Some (Inr (), [(''b/x'', [1]), (''a/x'', [1]), (''c'', [2])]) \<and>
   copied (moved_key ''a'' ''b'') (kv_under map_of demo_db ''a'') (map_of demo_db)
     (map_of [(''b/x'', [1]), (''a/x'', [1]), (''c'', [2])])"
proof -
  have step: "kv_move_folder list_redb demo_db (demo_folder ''a'') (demo_folder ''b'') =
     Some (Inr (), [(''b/x'', [1]), (''c'', [2])])"
    "kv_copy_folder list_redb demo_db (demo_folder ''a'') (demo_folder ''b'') =
     Some (Inr (), [(''b/x'', [1]), (''a/x'', [1]), (''c'', [2])])"
    by (simp_all add: kv_eval path_eval)
  with kv_folder_ops_rekey [OF list_redb_laws demo_db_facts refl refl] show ?thesis
    unfolding full_path_demo by blast
qed

text \<open>
  The raw key and the path disagree at the edges. A file whose key is the folder itself gets a key
  ending in a separator, which the moved name does not find; two spellings of one path collide.
\<close>

lemma kv_move_folder_of_a_file_key:
  "kv_move_folder list_redb [(''a'', [1])] (demo_folder ''a'') (demo_folder ''b'') =
     Some (Inr (), [(''b/'', [1])]) \<and>
   kv_read_file list_redb [(''b/'', [1])] (plain_file ''b'') = Inl (file_not_found ''b'')"
  by (simp add: kv_eval path_eval kv_read_file_def kv_read_table_def plain_file_def)

lemma kv_move_folder_collision:
  "kv_move_folder list_redb [(''a/x'', [1]), (''a//x'', [2])] (demo_folder ''a'') (demo_folder ''b'') =
     Some (Inr (), [(''b/x'', [2]), (''b/x'', [1])])"
  by (simp add: kv_eval path_eval)

end
