(* ===== verification/Files_Api.thy ===== *)
theory Files_Api
  imports Guard Kv_Engine
begin

text \<open>
  The public file and folder calls: \<open>api/files\<close>, \<open>api/folders\<close> and \<open>api/mods/extract_path.rs\<close>, each
  over a bare engine and over a buffer guard, blocking and async. What the two guards share is
  the predicate \<open>guard_contract\<close>; the calls over a guard are proved to act on the overlay of
  buffers and store as the same calls act on a plain file map.
\<close>

section \<open>Calls on an engine\<close>

definition read_blocking :: "'s file_io \<Rightarrow> 's \<Rightarrow> file_path \<Rightarrow> file_error + ustring" where
  "read_blocking io s path = fio_read io s path"

definition exists_blocking :: "'s file_io \<Rightarrow> 's \<Rightarrow> file_path \<Rightarrow> bool" where
  "exists_blocking io s path = fio_exists io s path"

definition write_blocking :: "'s file_io \<Rightarrow> 's \<Rightarrow> file_path \<Rightarrow> ustring \<Rightarrow> (file_error + unit) \<times> 's" where
  "write_blocking io s path data = fio_write io s path data"

definition delete_blocking :: "'s file_io \<Rightarrow> 's \<Rightarrow> file_path \<Rightarrow> (file_error + unit) \<times> 's" where
  "delete_blocking io s path = fio_delete io s path"

definition move_blocking :: "'s file_io \<Rightarrow> 's \<Rightarrow> file_path \<Rightarrow> file_path \<Rightarrow> (file_error + unit) \<times> 's" where
  "move_blocking io s from to = fio_move io s from to"

definition copy_blocking :: "'s file_io \<Rightarrow> 's \<Rightarrow> file_path \<Rightarrow> file_path \<Rightarrow> (file_error + unit) \<times> 's" where
  "copy_blocking io s from to = fio_copy io s from to"

definition delete_folder_blocking ::
    "'s folder_io \<Rightarrow> 's \<Rightarrow> folder_path \<Rightarrow> ((file_error + unit) \<times> 's) option" where
  "delete_folder_blocking dio s path = dio_delete dio s path"

definition move_folder_blocking ::
    "'s folder_io \<Rightarrow> 's \<Rightarrow> folder_path \<Rightarrow> folder_path \<Rightarrow> ((file_error + unit) \<times> 's) option" where
  "move_folder_blocking dio s from to = dio_move dio s from to"

definition copy_folder_blocking ::
    "'s folder_io \<Rightarrow> 's \<Rightarrow> folder_path \<Rightarrow> folder_path \<Rightarrow> ((file_error + unit) \<times> 's) option" where
  "copy_folder_blocking dio s from to = dio_copy dio s from to"

section \<open>What the two guards offer\<close>

type_synonym ('doc, 's) reset_op = "'doc file_map \<Rightarrow> 's \<Rightarrow> file_path \<Rightarrow> ustring \<Rightarrow> ('doc file_map \<times> 's) option"
type_synonym ('doc, 's) drop_op = "'doc file_map \<Rightarrow> 's \<Rightarrow> file_path \<Rightarrow> 'doc file_map \<times> 's"
type_synonym ('doc, 's) drop_dir_op = "'doc file_map \<Rightarrow> 's \<Rightarrow> folder_path \<Rightarrow> 'doc file_map \<times> 's"

definition guard_contract :: "('doc, 'u, 'v) yrs \<Rightarrow> ('s \<Rightarrow> path_component list \<Rightarrow> ustring option) \<Rightarrow>
    ('s \<Rightarrow> bool) \<Rightarrow> backend \<Rightarrow> ('doc, 's) reset_op \<Rightarrow> ('doc, 's) drop_op \<Rightarrow> ('doc, 's) drop_dir_op \<Rightarrow> bool" where
  "guard_contract Y content ok b reset dropf dropd \<longleftrightarrow>
     (\<forall>g s p c. guard_inv b g \<longrightarrow> ok s \<longrightarrow>
        (\<exists>g'. reset g s p c = Some (g', s) \<and> guard_inv b g' \<and>
          overlay Y content g' s = (overlay Y content g s)(components (full_path p) \<mapsto> c))) \<and>
     (\<forall>g s p g' s'. guard_inv b g \<longrightarrow> ok s \<longrightarrow> dropf g s p = (g', s') \<longrightarrow>
        guard_inv b g' \<and> ok s' \<and> overlay Y content g' s' = overlay Y content g s \<and>
        hm_abs components g' = (hm_abs components g)(components (full_path p) := None) \<and>
        (\<forall>n. n \<noteq> components (full_path p) \<longrightarrow> content s' n = content s n)) \<and>
     (\<forall>g s d g' s'. guard_inv b g \<longrightarrow> ok s \<longrightarrow> dropd g s d = (g', s') \<longrightarrow>
        dropped_under Y content ok b (components (full_path d)) g s g' s')"

lemma guard_contractD:
  assumes "guard_contract Y content ok b reset dropf dropd" and "guard_inv b g" and "ok s"
  shows "\<exists>g'. reset g s p c = Some (g', s) \<and> guard_inv b g' \<and>
      overlay Y content g' s = (overlay Y content g s)(components (full_path p) \<mapsto> c)"
    and "dropf g s p = (g', s') \<Longrightarrow> guard_inv b g' \<and> ok s' \<and>
      overlay Y content g' s' = overlay Y content g s \<and>
      hm_abs components g' = (hm_abs components g)(components (full_path p) := None) \<and>
      (\<forall>n. n \<noteq> components (full_path p) \<longrightarrow> content s' n = content s n)"
    and "dropd g s d = (g', s') \<Longrightarrow> dropped_under Y content ok b (components (full_path d)) g s g' s'"
  using assms unfolding guard_contract_def by (blast, blast, blast)

context path_store
begin

lemma overlay_content: "content s' = content s \<Longrightarrow> overlay Y content g s' = overlay Y content g s"
  unfolding overlay_def by (rule ext) (simp split: option.split)

lemma blocking_contract:
  assumes laws: "yrs_laws Y ext"
  shows "guard_contract Y content ok Blocking (reset_file Y io) (drop_file Y io) (drop_dir Y io)"
proof -
  have "\<exists>g'. reset_file Y io g s p c = Some (g', s) \<and> guard_inv Blocking g' \<and>
      overlay Y content g' s = (overlay Y content g s)(components (full_path p) \<mapsto> c)"
    if "guard_inv Blocking g" "ok s" for g s p c
    using reset_file_overlay [OF laws that, of p c] by blast
  moreover have "guard_inv Blocking g' \<and> ok s' \<and> overlay Y content g' s' = overlay Y content g s \<and>
      hm_abs components g' = (hm_abs components g)(components (full_path p) := None) \<and>
      (\<forall>n. n \<noteq> components (full_path p) \<longrightarrow> content s' n = content s n)"
    if "guard_inv Blocking g" "ok s" "drop_file Y io g s p = (g', s')" for g s p g' s'
    using drop_file_overlay [OF that] by simp
  moreover have "dropped_under Y content ok Blocking (components (full_path d)) g s g' s'"
    if "guard_inv Blocking g" "ok s" "drop_dir Y io g s d = (g', s')" for g s d g' s'
    using that by (rule drop_dir_overlay)
  ultimately show ?thesis unfolding guard_contract_def by (intro conjI allI impI; blast)
qed

lemma async_contract:
  assumes laws: "yrs_laws Y ext"
  shows "guard_contract Y content ok Async (async_reset_file Y io) (async_drop_file Y io) (async_drop_dir Y io)"
proof -
  have "\<exists>g'. async_reset_file Y io g s p c = Some (g', s) \<and> guard_inv Async g' \<and>
      overlay Y content g' s = (overlay Y content g s)(components (full_path p) \<mapsto> c)"
    if "guard_inv Async g" "ok s" for g s p c
    using async_reset_file_overlay [OF laws that, of p c] by blast
  moreover have "guard_inv Async g' \<and> ok s' \<and> overlay Y content g' s' = overlay Y content g s \<and>
      hm_abs components g' = (hm_abs components g)(components (full_path p) := None) \<and>
      (\<forall>n. n \<noteq> components (full_path p) \<longrightarrow> content s' n = content s n)"
    if "guard_inv Async g" "ok s" "async_drop_file Y io g s p = (g', s')" for g s p g' s'
    using async_drop_file_overlay [OF that] by simp
  moreover have "dropped_under Y content ok Async (components (full_path d)) g s g' s'"
    if "guard_inv Async g" "ok s" "async_drop_dir Y io g s d = (g', s')" for g s d g' s'
    using that by (rule async_drop_dir_overlay)
  ultimately show ?thesis unfolding guard_contract_def by (intro conjI allI impI; blast)
qed

end

section \<open>Calls over a guard\<close>

text \<open>Each is written once over the guard's operations; the blocking and async instances follow.\<close>

definition memfile_read :: "backend \<Rightarrow> ('doc, 'u, 'v) yrs \<Rightarrow> 's file_io \<Rightarrow> 'doc file_map \<Rightarrow> 's \<Rightarrow>
    file_path \<Rightarrow> ('doc, 's, ustring) guard_result" where
  "memfile_read b Y io g s path =
     (case get_file b Y io g s path of
        None \<Rightarrow> None
      | Some (Inl e, g, s) \<Rightarrow> Some (Inl e, g, s)
      | Some (Inr f, g, s) \<Rightarrow> Some (Inr (mf_contents Y f), g, s))"

definition memfile_exists :: "'s file_io \<Rightarrow> 'doc file_map \<Rightarrow> 's \<Rightarrow> file_path \<Rightarrow> bool" where
  "memfile_exists io g s path = (is_resident g path \<or> exists_blocking io s path)"

text \<open>\<open>guard.get_file(path)?.save()\<close>.\<close>

definition save_file :: "backend \<Rightarrow> ('doc, 'u, 'v) yrs \<Rightarrow> 's file_io \<Rightarrow> 'doc file_map \<Rightarrow> 's \<Rightarrow>
    file_path \<Rightarrow> ('doc, 's, unit) guard_result" where
  "save_file b Y io g s path =
     (case get_file b Y io g s path of
        None \<Rightarrow> None
      | Some (Inl e, g, s) \<Rightarrow> Some (Inl e, g, s)
      | Some (Inr f, g, s) \<Rightarrow>
          (case mf_save Y io f s of (r, f', s') \<Rightarrow> Some (r, put_back path f' g, s')))"

definition memfile_write :: "backend \<Rightarrow> ('doc, 's) reset_op \<Rightarrow> ('doc, 'u, 'v) yrs \<Rightarrow> 's file_io \<Rightarrow>
    'doc file_map \<Rightarrow> 's \<Rightarrow> file_path \<Rightarrow> ustring \<Rightarrow> ('doc, 's, unit) guard_result" where
  "memfile_write b reset Y io g s path data =
     (case reset g s path data of
        None \<Rightarrow> None
      | Some (g, s) \<Rightarrow> save_file b Y io g s path)"

definition memfile_delete :: "('doc, 's) drop_op \<Rightarrow> 's file_io \<Rightarrow> 'doc file_map \<Rightarrow> 's \<Rightarrow>
    file_path \<Rightarrow> (file_error + unit) \<times> 'doc file_map \<times> 's" where
  "memfile_delete dropf io g s path =
     (case dropf g s path of (g, s) \<Rightarrow> (case fio_delete io s path of (r, s) \<Rightarrow> (r, g, s)))"

definition memfile_move :: "('doc, 's) drop_op \<Rightarrow> 's file_io \<Rightarrow> 'doc file_map \<Rightarrow> 's \<Rightarrow>
    file_path \<Rightarrow> file_path \<Rightarrow> (file_error + unit) \<times> 'doc file_map \<times> 's" where
  "memfile_move dropf io g s from to =
     (case dropf g s from of (g, s) \<Rightarrow>
     (case dropf g s to of (g, s) \<Rightarrow>
     (case fio_move io s from to of (r, s) \<Rightarrow> (r, g, s))))"

definition memfile_copy :: "backend \<Rightarrow> ('doc, 's) drop_op \<Rightarrow> ('doc, 'u, 'v) yrs \<Rightarrow> 's file_io \<Rightarrow>
    'doc file_map \<Rightarrow> 's \<Rightarrow> file_path \<Rightarrow> file_path \<Rightarrow> ('doc, 's, unit) guard_result" where
  "memfile_copy b dropf Y io g s from to =
     (case save_file b Y io g s from of
        None \<Rightarrow> None
      | Some (Inl e, g, s) \<Rightarrow> Some (Inl e, g, s)
      | Some (Inr _, g, s) \<Rightarrow>
          (case dropf g s to of (g, s) \<Rightarrow>
          (case fio_copy io s from to of (r, s) \<Rightarrow> Some (r, g, s))))"

definition memfile_delete_folder :: "('doc, 's) drop_dir_op \<Rightarrow> 's folder_io \<Rightarrow> 'doc file_map \<Rightarrow> 's \<Rightarrow>
    folder_path \<Rightarrow> ('doc, 's, unit) guard_result" where
  "memfile_delete_folder dropd dio g s path =
     (case dropd g s path of (g, s) \<Rightarrow>
        map_option (\<lambda>(r, s). (r, g, s)) (dio_delete dio s path))"

definition memfile_move_folder :: "('doc, 's) drop_dir_op \<Rightarrow> 's folder_io \<Rightarrow> 'doc file_map \<Rightarrow> 's \<Rightarrow>
    folder_path \<Rightarrow> folder_path \<Rightarrow> ('doc, 's, unit) guard_result" where
  "memfile_move_folder dropd dio g s from to =
     (case dropd g s from of (g, s) \<Rightarrow>
     (case dropd g s to of (g, s) \<Rightarrow>
        map_option (\<lambda>(r, s). (r, g, s)) (dio_move dio s from to)))"

definition memfile_copy_folder :: "('doc, 's) drop_dir_op \<Rightarrow> ('doc, 'u, 'v) yrs \<Rightarrow> 's file_io \<Rightarrow>
    's folder_io \<Rightarrow> 'doc file_map \<Rightarrow> 's \<Rightarrow> folder_path \<Rightarrow> folder_path \<Rightarrow> ('doc, 's, unit) guard_result" where
  "memfile_copy_folder dropd Y io dio g s from to =
     (case snapshot Y io g s of
        (Inl e, g, s) \<Rightarrow> Some (Inl e, g, s)
      | (Inr _, g, s) \<Rightarrow>
          (case dropd g s to of (g, s) \<Rightarrow>
             map_option (\<lambda>(r, s). (r, g, s)) (dio_copy dio s from to)))"

subsection \<open>The blocking and the async calls\<close>

definition read_memfile_blocking :: "('doc, 'u, 'v) yrs \<Rightarrow> 's file_io \<Rightarrow> 'doc file_map \<Rightarrow> 's \<Rightarrow>
    file_path \<Rightarrow> ('doc, 's, ustring) guard_result" where
  "read_memfile_blocking = memfile_read Blocking"

definition read_memfile_async :: "('doc, 'u, 'v) yrs \<Rightarrow> 's file_io \<Rightarrow> 'doc file_map \<Rightarrow> 's \<Rightarrow>
    file_path \<Rightarrow> ('doc, 's, ustring) guard_result" where
  "read_memfile_async = memfile_read Async"

definition write_memfile_blocking :: "('doc, 'u, 'v) yrs \<Rightarrow> 's file_io \<Rightarrow> 'doc file_map \<Rightarrow> 's \<Rightarrow>
    file_path \<Rightarrow> ustring \<Rightarrow> ('doc, 's, unit) guard_result" where
  "write_memfile_blocking Y io = memfile_write Blocking (reset_file Y io) Y io"

definition write_memfile_async :: "('doc, 'u, 'v) yrs \<Rightarrow> 's file_io \<Rightarrow> 'doc file_map \<Rightarrow> 's \<Rightarrow>
    file_path \<Rightarrow> ustring \<Rightarrow> ('doc, 's, unit) guard_result" where
  "write_memfile_async Y io = memfile_write Async (async_reset_file Y io) Y io"

definition delete_memfile_blocking :: "('doc, 'u, 'v) yrs \<Rightarrow> 's file_io \<Rightarrow> 'doc file_map \<Rightarrow> 's \<Rightarrow>
    file_path \<Rightarrow> (file_error + unit) \<times> 'doc file_map \<times> 's" where
  "delete_memfile_blocking Y io = memfile_delete (drop_file Y io) io"

definition delete_memfile_async :: "('doc, 'u, 'v) yrs \<Rightarrow> 's file_io \<Rightarrow> 'doc file_map \<Rightarrow> 's \<Rightarrow>
    file_path \<Rightarrow> (file_error + unit) \<times> 'doc file_map \<times> 's" where
  "delete_memfile_async Y io = memfile_delete (async_drop_file Y io) io"

definition move_memfile_blocking :: "('doc, 'u, 'v) yrs \<Rightarrow> 's file_io \<Rightarrow> 'doc file_map \<Rightarrow> 's \<Rightarrow>
    file_path \<Rightarrow> file_path \<Rightarrow> (file_error + unit) \<times> 'doc file_map \<times> 's" where
  "move_memfile_blocking Y io = memfile_move (drop_file Y io) io"

definition move_memfile_async :: "('doc, 'u, 'v) yrs \<Rightarrow> 's file_io \<Rightarrow> 'doc file_map \<Rightarrow> 's \<Rightarrow>
    file_path \<Rightarrow> file_path \<Rightarrow> (file_error + unit) \<times> 'doc file_map \<times> 's" where
  "move_memfile_async Y io = memfile_move (async_drop_file Y io) io"

definition copy_memfile_blocking :: "('doc, 'u, 'v) yrs \<Rightarrow> 's file_io \<Rightarrow> 'doc file_map \<Rightarrow> 's \<Rightarrow>
    file_path \<Rightarrow> file_path \<Rightarrow> ('doc, 's, unit) guard_result" where
  "copy_memfile_blocking Y io = memfile_copy Blocking (drop_file Y io) Y io"

definition copy_memfile_async :: "('doc, 'u, 'v) yrs \<Rightarrow> 's file_io \<Rightarrow> 'doc file_map \<Rightarrow> 's \<Rightarrow>
    file_path \<Rightarrow> file_path \<Rightarrow> ('doc, 's, unit) guard_result" where
  "copy_memfile_async Y io = memfile_copy Async (async_drop_file Y io) Y io"

definition delete_folder_memfile_blocking :: "('doc, 'u, 'v) yrs \<Rightarrow> 's file_io \<Rightarrow> 's folder_io \<Rightarrow>
    'doc file_map \<Rightarrow> 's \<Rightarrow> folder_path \<Rightarrow> ('doc, 's, unit) guard_result" where
  "delete_folder_memfile_blocking Y io dio = memfile_delete_folder (drop_dir Y io) dio"

definition delete_folder_memfile_async :: "('doc, 'u, 'v) yrs \<Rightarrow> 's file_io \<Rightarrow> 's folder_io \<Rightarrow>
    'doc file_map \<Rightarrow> 's \<Rightarrow> folder_path \<Rightarrow> ('doc, 's, unit) guard_result" where
  "delete_folder_memfile_async Y io dio = memfile_delete_folder (async_drop_dir Y io) dio"

definition move_folder_memfile_blocking :: "('doc, 'u, 'v) yrs \<Rightarrow> 's file_io \<Rightarrow> 's folder_io \<Rightarrow>
    'doc file_map \<Rightarrow> 's \<Rightarrow> folder_path \<Rightarrow> folder_path \<Rightarrow> ('doc, 's, unit) guard_result" where
  "move_folder_memfile_blocking Y io dio = memfile_move_folder (drop_dir Y io) dio"

definition move_folder_memfile_async :: "('doc, 'u, 'v) yrs \<Rightarrow> 's file_io \<Rightarrow> 's folder_io \<Rightarrow>
    'doc file_map \<Rightarrow> 's \<Rightarrow> folder_path \<Rightarrow> folder_path \<Rightarrow> ('doc, 's, unit) guard_result" where
  "move_folder_memfile_async Y io dio = memfile_move_folder (async_drop_dir Y io) dio"

definition copy_folder_memfile_blocking :: "('doc, 'u, 'v) yrs \<Rightarrow> 's file_io \<Rightarrow> 's folder_io \<Rightarrow>
    'doc file_map \<Rightarrow> 's \<Rightarrow> folder_path \<Rightarrow> folder_path \<Rightarrow> ('doc, 's, unit) guard_result" where
  "copy_folder_memfile_blocking Y io dio = memfile_copy_folder (drop_dir Y io) Y io dio"

definition copy_folder_memfile_async :: "('doc, 'u, 'v) yrs \<Rightarrow> 's file_io \<Rightarrow> 's folder_io \<Rightarrow>
    'doc file_map \<Rightarrow> 's \<Rightarrow> folder_path \<Rightarrow> folder_path \<Rightarrow> ('doc, 's, unit) guard_result" where
  "copy_folder_memfile_async Y io dio = memfile_copy_folder (async_drop_dir Y io) Y io dio"

section \<open>Resolving a declared module\<close>

text \<open>\<open>Debug\<close> of an ASCII path: quoted, with the escapes of \<open>char::escape_debug\<close>.\<close>

definition debug_char :: "char \<Rightarrow> string" where
  "debug_char c =
     (if c = CHR 0x22 then [CHR 0x5C, CHR 0x22]
      else if c = CHR 0x27 then [CHR 0x5C, CHR 0x27]
      else if c = CHR 0x5C then [CHR 0x5C, CHR 0x5C]
      else if c = CHR 0x0A then [CHR 0x5C, CHR ''n'']
      else if c = CHR 0x0D then [CHR 0x5C, CHR ''r'']
      else if c = CHR 0x09 then [CHR 0x5C, CHR ''t'']
      else if c = CHR 0x00 then [CHR 0x5C, CHR ''0'']
      else [c])"

definition debug_str :: "string \<Rightarrow> string" where
  "debug_str s = CHR 0x22 # concat (map debug_char s) @ [CHR 0x22]"

definition strip_suffix :: "string \<Rightarrow> string \<Rightarrow> string option" where
  "strip_suffix s suf = (if suffix suf s then Some (take (length s - length suf) s) else None)"

lemma strip_suffix_append [simp]: "strip_suffix (s @ suf) suf = Some s"
  by (simp add: strip_suffix_def suffix_def)

definition mod_candidates :: "string \<Rightarrow> string \<Rightarrow> file_error + file_path \<times> file_path" where
  "mod_candidates root rel =
     (let stem = (case strip_suffix rel ''.cad'' of Some t \<Rightarrow> t | None \<Rightarrow> rel) in
      res_bind (file_path_str root (stem @ ''.cad'')) (\<lambda>direct_path.
      res_bind (file_path_str root (stem @ ''/mod.cad'')) (\<lambda>mod_path.
        Inr (direct_path, mod_path))))"

definition mod_not_found :: "string \<Rightarrow> file_path \<Rightarrow> file_path \<Rightarrow> file_error" where
  "mod_not_found rel direct_path mod_path =
     PathError rel (''declared mod file not found: neither '' @ debug_str (full_path direct_path) @
       '' nor '' @ debug_str (full_path mod_path) @ '' exists'')"

definition extract_path :: "(file_path \<Rightarrow> bool) \<Rightarrow> string \<Rightarrow> string \<Rightarrow> file_error + file_path" where
  "extract_path exists_at root rel =
     res_bind (mod_candidates root rel) (\<lambda>(direct_path, mod_path).
       if exists_at direct_path then Inr direct_path
       else if exists_at mod_path then Inr mod_path
       else Inl (mod_not_found rel direct_path mod_path))"

definition extract_path_blocking :: "'s file_io \<Rightarrow> 's \<Rightarrow> string \<Rightarrow> string \<Rightarrow> file_error + file_path" where
  "extract_path_blocking io s = extract_path (exists_blocking io s)"

definition extract_path_memfile :: "'s file_io \<Rightarrow> 'doc file_map \<Rightarrow> 's \<Rightarrow> string \<Rightarrow> string \<Rightarrow>
    file_error + file_path" where
  "extract_path_memfile io g s = extract_path (memfile_exists io g s)"

section \<open>The calls act on the overlay\<close>

context path_store
begin

lemma memfile_read_overlay:
  assumes laws: "yrs_laws Y ext" and inv: "guard_inv b g" and ok: "ok s"
  shows "\<exists>r g'. memfile_read b Y io g s p = Some (r, g', s) \<and> guard_inv b g' \<and>
    overlay Y content g' s = overlay Y content g s \<and>
    (case overlay Y content g s (components (full_path p)) of None \<Rightarrow> \<not> is_ok r | Some c \<Rightarrow> r = Inr c)"
  using get_file_overlay [OF assms, of p] inv
  by (auto simp: memfile_read_def split: option.splits)

lemma memfile_exists_overlay:
  assumes "ok s"
  shows "memfile_exists io g s p \<longleftrightarrow> overlay Y content g s (components (full_path p)) \<noteq> None"
  using exists_iff [OF assms, of p]
  by (auto simp: memfile_exists_def is_resident_def exists_blocking_def overlay_def hm_get_def map_key_def
      split: option.split)

lemma save_file_overlay:
  assumes laws: "yrs_laws Y ext" and inv: "guard_inv b g" and ok: "ok s"
  shows "case overlay Y content g s (components (full_path p)) of
      None \<Rightarrow> (\<exists>e. save_file b Y io g s p = Some (Inl e, g, s))
    | Some c \<Rightarrow> (\<exists>g' s'. save_file b Y io g s p = Some (Inr (), g', s') \<and> guard_inv b g' \<and> ok s' \<and>
        overlay Y content g' s' = overlay Y content g s \<and> content s' (components (full_path p)) = Some c)"
proof (cases "overlay Y content g s (components (full_path p))")
  case None
  then show ?thesis using get_file_overlay [OF assms, of p] by (auto simp: save_file_def)
next
  case (Some c)
  with get_file_overlay [OF assms, of p] obtain f g1 where
    get: "get_file b Y io g s p = Some (Inr f, g1, s)" and f: "mf_contents Y f = c"
    and res: "hm_get components g1 (full_path p) = Some f" and inv1: "guard_inv b g1"
    and o1: "overlay Y content g1 s = overlay Y content g s" by auto
  have pf: "components (full_path (mf_path f)) = components (full_path p)" "flush_on_drop f" "mf_backend f = b"
    using inv1 res by (auto simp: guard_inv_def hm_get_def)
  obtain s' where sv: "mf_save Y io f s = (Inr (), f\<lparr>ops_since_save := 0\<rparr>, s')" and ok': "ok s'"
    and c': "content s' = (content s)(components (full_path p) \<mapsto> c)"
    using save_total [OF ok, of Y f] pf f by auto
  let ?g = "put_back p (f\<lparr>ops_since_save := 0\<rparr>) g1"
  have "guard_inv b ?g"
    using inv1 pf unfolding put_back_def map_key_def by (intro guard_inv_insert) simp_all
  moreover have "overlay Y content ?g s' = overlay Y content g s"
    using c' f Some unfolding o1 [symmetric]
    by (auto simp: put_back_def map_key_def overlay_insert fun_eq_iff overlay_def split: option.split)
  ultimately show ?thesis
    using Some get sv ok' c' by (simp add: save_file_def)
qed

lemma memfile_write_overlay:
  assumes laws: "yrs_laws Y ext" and con: "guard_contract Y content ok b reset dropf dropd"
    and inv: "guard_inv b g" and ok: "ok s"
  shows "\<exists>g' s'. memfile_write b reset Y io g s p c = Some (Inr (), g', s') \<and> guard_inv b g' \<and> ok s' \<and>
    overlay Y content g' s' = (overlay Y content g s)(components (full_path p) \<mapsto> c) \<and>
    content s' (components (full_path p)) = Some c"
proof -
  obtain g1 where r: "reset g s p c = Some (g1, s)" and inv1: "guard_inv b g1"
    and o1: "overlay Y content g1 s = (overlay Y content g s)(components (full_path p) \<mapsto> c)"
    using guard_contractD(1) [OF con inv ok] by blast
  from save_file_overlay [OF laws inv1 ok, of p] o1 r show ?thesis
    by (auto simp: memfile_write_def)
qed

lemma memfile_delete_overlay:
  assumes con: "guard_contract Y content ok b reset dropf dropd" and inv: "guard_inv b g" and ok: "ok s"
    and del: "memfile_delete dropf io g s p = (r, g', s')"
  shows "guard_inv b g' \<and> ok s' \<and>
    (is_ok r \<longleftrightarrow> overlay Y content g s (components (full_path p)) \<noteq> None) \<and>
    overlay Y content g' s' = (overlay Y content g s)(components (full_path p) := None)"
proof -
  let ?p = "components (full_path p)"
  obtain g1 s1 where d: "dropf g s p = (g1, s1)" by fastforce
  note d1 = guard_contractD(2) [OF con inv ok d]
  have none: "hm_abs components g1 ?p = None" using d1 by simp
  then have L: "overlay Y content g s ?p = content s1 ?p" using d1 by (metis option.simps(4) overlay_def)
  from del d have g': "g' = g1" and fd: "fio_delete io s1 p = (r, s')"
    by (auto simp: memfile_delete_def split: prod.splits)
  have ok': "ok s'" using delete_inv [of s1 p] d1 fd by simp
  show ?thesis
  proof (cases "content s1 ?p")
    case None
    with delete_ok [of s1 p] d1 fd have err: "\<not> is_ok r" by (cases r) auto
    then have "content s' = content s1" using delete_err [of s1 p] d1 fd by (cases r) auto
    from overlay_content [OF this, of Y g1] None L d1 g' ok' err show ?thesis by (simp add: fun_upd_idem)
  next
    case (Some c)
    with delete_total [of s1 p] d1 fd have r: "r = Inr ()" by simp
    then have "content s' = (content s1)(?p := None)" using delete_ok [of s1 p] d1 fd by blast
    then have "overlay Y content g' s' = (overlay Y content g1 s1)(?p := None)"
      using none g' by (auto simp: overlay_def fun_eq_iff split: option.split)
    with r Some L d1 g' ok' show ?thesis by simp
  qed
qed

lemma memfile_move_overlay:
  assumes con: "guard_contract Y content ok b reset dropf dropd" and inv: "guard_inv b g" and ok: "ok s"
    and ne: "components (full_path p) \<noteq> components (full_path q)"
    and mv: "memfile_move dropf io g s p q = (r, g', s')"
  shows "guard_inv b g' \<and> ok s' \<and>
    (is_ok r \<longleftrightarrow> overlay Y content g s (components (full_path p)) \<noteq> None) \<and>
    overlay Y content g' s' = (if is_ok r then (overlay Y content g s)
        (components (full_path q) := overlay Y content g s (components (full_path p)),
         components (full_path p) := None) else overlay Y content g s)"
proof -
  let ?p = "components (full_path p)" and ?q = "components (full_path q)"
  obtain g1 s1 where d: "dropf g s p = (g1, s1)" by fastforce
  note d1 = guard_contractD(2) [OF con inv ok d]
  obtain g2 s2 where e: "dropf g1 s1 q = (g2, s2)" by fastforce
  note d2 = guard_contractD(2) [OF con _ _ e]
  have none: "hm_abs components g2 ?p = None" "hm_abs components g2 ?q = None"
    and ov: "overlay Y content g2 s2 = overlay Y content g s" and inv2: "guard_inv b g2" and ok2: "ok s2"
    using d1 d2 by auto
  have L: "overlay Y content g s ?p = content s2 ?p" using none ov by (metis option.simps(4) overlay_def)
  from mv d e have g': "g' = g2" and fm: "fio_move io s2 p q = (r, s')"
    by (auto simp: memfile_move_def split: prod.splits)
  have ok': "ok s'" using move_inv [OF ok2, of p q] fm by simp
  show ?thesis
  proof (cases "content s2 ?p")
    case None
    with move_ok [OF ok2 ne] fm have err: "\<not> is_ok r" by (cases r) auto
    then have "content s' = content s2" using move_err [OF ok2] fm by (cases r) auto
    from overlay_content [OF this, of Y g2] None L ov inv2 g' ok' err show ?thesis by simp
  next
    case (Some c)
    with move_total [OF ok2] fm have r: "r = Inr ()" by (metis fst_conv option.distinct(1))
    then have "content s' = (content s2)(?q := content s2 ?p, ?p := None)"
      using move_ok [OF ok2 ne] fm by blast
    then have "overlay Y content g' s' = (overlay Y content g2 s2)(?q := content s2 ?p, ?p := None)"
      using none g' by (auto simp: overlay_def fun_eq_iff split: option.split)
    with r Some L ov inv2 g' ok' show ?thesis by simp
  qed
qed

lemma memfile_copy_overlay:
  assumes laws: "yrs_laws Y ext" and con: "guard_contract Y content ok b reset dropf dropd"
    and inv: "guard_inv b g" and ok: "ok s"
  shows "\<exists>r g' s'. memfile_copy b dropf Y io g s p q = Some (r, g', s') \<and> guard_inv b g' \<and> ok s' \<and>
    (is_ok r \<longleftrightarrow> overlay Y content g s (components (full_path p)) \<noteq> None) \<and>
    overlay Y content g' s' = (if is_ok r then (overlay Y content g s)
        (components (full_path q) := overlay Y content g s (components (full_path p)))
      else overlay Y content g s)"
proof (cases "overlay Y content g s (components (full_path p))")
  case None
  with save_file_overlay [OF laws inv ok, of p] obtain e where
    "save_file b Y io g s p = Some (Inl e, g, s)" by auto
  then have "memfile_copy b dropf Y io g s p q = Some (Inl e, g, s)" by (simp add: memfile_copy_def)
  with None inv ok show ?thesis by simp
next
  case (Some c)
  let ?p = "components (full_path p)" and ?q = "components (full_path q)"
  from save_file_overlay [OF laws inv ok, of p] Some obtain g1 s1 where
    sv: "save_file b Y io g s p = Some (Inr (), g1, s1)" and inv1: "guard_inv b g1" and ok1: "ok s1"
    and o1: "overlay Y content g1 s1 = overlay Y content g s" and c1: "content s1 ?p = Some c" by auto
  obtain g2 s2 where e: "dropf g1 s1 q = (g2, s2)" by fastforce
  note d2 = guard_contractD(2) [OF con inv1 ok1 e]
  have none: "hm_abs components g2 ?q = None" using d2 by simp
  have c2: "content s2 ?p = Some c"
  proof (cases "?p = ?q")
    case True
    with none d2 o1 Some show ?thesis by (metis option.simps(4) overlay_def)
  next
    case False
    with d2 c1 show ?thesis by simp
  qed
  obtain r s' where fc: "fio_copy io s2 p q = (r, s')" by fastforce
  have r: "r = Inr ()" using copy_total [of s2 p q] d2 c2 fc by simp
  have "content s' = (content s2)(?q := content s2 ?p)" using copy_ok [of s2 p q] d2 fc r by blast
  then have "overlay Y content g2 s' = (overlay Y content g2 s2)(?q := Some c)"
    using none c2 by (auto simp: overlay_def fun_eq_iff split: option.split)
  moreover have "ok s'" using copy_inv [of s2 p q] d2 fc by simp
  ultimately show ?thesis
    using sv e fc r d2 o1 Some by (simp add: memfile_copy_def)
qed

end

section \<open>Folders\<close>

text \<open>What a folder engine promises over the file contents.\<close>

locale folder_store = path_store io content ok
  for io :: "'s file_io"
    and content :: "'s \<Rightarrow> path_component list \<Rightarrow> ustring option"
    and ok :: "'s \<Rightarrow> bool" +
  fixes dio :: "'s folder_io"
  assumes folder_delete: "ok s \<Longrightarrow> under (components (full_path p)) (content s) \<noteq> {} \<Longrightarrow>
      \<exists>s'. dio_delete dio s p = Some (Inr (), s') \<and> ok s' \<and>
        content s' = delete_spec (components (full_path p)) (content s)"
    and folder_move: "ok s \<Longrightarrow> components (full_path p) \<noteq> [] \<Longrightarrow>
      unrelated (components (full_path p)) (components (full_path q)) \<Longrightarrow>
      under (components (full_path p)) (content s) \<noteq> {} \<Longrightarrow>
      \<exists>s'. dio_move dio s p q = Some (Inr (), s') \<and> ok s' \<and>
        content s' = move_spec (components (full_path p)) (components (full_path q)) (content s)"
    and folder_copy: "ok s \<Longrightarrow> components (full_path p) \<noteq> [] \<Longrightarrow>
      unrelated (components (full_path p)) (components (full_path q)) \<Longrightarrow>
      under (components (full_path p)) (content s) \<noteq> {} \<Longrightarrow>
      \<exists>s'. dio_copy dio s p q = Some (Inr (), s') \<and> ok s' \<and>
        content s' = copy_spec (components (full_path p)) (components (full_path q)) (content s)"
begin

lemma overlay_not_resident: "hm_abs components g n = None \<Longrightarrow> overlay Y content g s n = content s n"
  by (simp add: overlay_def)

lemma dropped_agree:
  assumes "dropped_under Y content ok b D g s g' s'" and "prefix D n"
  shows "content s' n = overlay Y content g s n"
proof -
  from assms have "hm_abs components g' n = None" by (simp add: dropped_under_def)
  then have "overlay Y content g' s' n = content s' n" by (rule overlay_not_resident)
  with assms(1) show ?thesis by (simp add: dropped_under_def)
qed

lemma under_agree: "(\<And>n. prefix F n \<Longrightarrow> M n = M' n) \<Longrightarrow> under F M = under F M'"
  by (auto simp: under_def)

lemma memfile_delete_folder_overlay:
  assumes con: "guard_contract Y content ok b reset dropf dropd" and inv: "guard_inv b g" and ok: "ok s"
    and some: "under (components (full_path p)) (overlay Y content g s) \<noteq> {}"
  shows "\<exists>g' s'. memfile_delete_folder dropd dio g s p = Some (Inr (), g', s') \<and> guard_inv b g' \<and> ok s' \<and>
    overlay Y content g' s' = delete_spec (components (full_path p)) (overlay Y content g s)"
proof -
  let ?D = "components (full_path p)"
  obtain g1 s1 where d: "dropd g s p = (g1, s1)" by fastforce
  note d1 = guard_contractD(3) [OF con inv ok d]
  have "under ?D (content s1) = under ?D (overlay Y content g s)"
    by (rule under_agree) (rule dropped_agree [OF d1])
  with some folder_delete [of s1 p] d1 obtain s2 where
    dd: "dio_delete dio s1 p = Some (Inr (), s2)" "ok s2" "content s2 = delete_spec ?D (content s1)"
    by (auto simp: dropped_under_def)
  have "overlay Y content g1 s2 n = delete_spec ?D (overlay Y content g s) n" for n
    using d1 dd(3) by (cases "hm_abs components g1 n")
      (auto simp: dropped_under_def overlay_def delete_spec_def fun_eq_iff split: if_splits)
  then show ?thesis using d dd d1 by (auto simp: memfile_delete_folder_def dropped_under_def)
qed

lemma memfile_move_folder_overlay:
  assumes con: "guard_contract Y content ok b reset dropf dropd" and inv: "guard_inv b g" and ok: "ok s"
    and ne: "components (full_path p) \<noteq> []"
    and un: "unrelated (components (full_path p)) (components (full_path q))"
    and some: "under (components (full_path p)) (overlay Y content g s) \<noteq> {}"
  shows "\<exists>g' s'. memfile_move_folder dropd dio g s p q = Some (Inr (), g', s') \<and> guard_inv b g' \<and> ok s' \<and>
    overlay Y content g' s' =
      move_spec (components (full_path p)) (components (full_path q)) (overlay Y content g s)"
proof -
  let ?F = "components (full_path p)" and ?T = "components (full_path q)"
  let ?M = "overlay Y content g s"
  obtain g1 s1 where d: "dropd g s p = (g1, s1)" by fastforce
  note d1 = guard_contractD(3) [OF con inv ok d]
  then have i1: "guard_inv b g1" "ok s1" by (simp_all add: dropped_under_def)
  obtain g2 s2 where e: "dropd g1 s1 q = (g2, s2)" by fastforce
  note d2 = guard_contractD(3) [OF con i1 e]
  have ov: "overlay Y content g2 s2 = ?M" and i2: "guard_inv b g2" "ok s2"
    using d1 d2 by (simp_all add: dropped_under_def)
  have res: "hm_abs components g2 n = None" if "prefix ?F n \<or> prefix ?T n" for n
    using d1 d2 that by (auto simp: dropped_under_def)
  have agree: "content s2 n = ?M n" if "hm_abs components g2 n = None" for n
    using overlay_not_resident [OF that, of Y s2] ov by simp
  have "under ?F (content s2) = under ?F ?M"
    by (rule under_agree) (simp add: agree res)
  with some folder_move [OF i2(2) ne un] obtain s3 where
    mv: "dio_move dio s2 p q = Some (Inr (), s3)" "ok s3" "content s3 = move_spec ?F ?T (content s2)"
    by auto
  have "overlay Y content g2 s3 n = move_spec ?F ?T ?M n" for n
  proof (cases "hm_abs components g2 n")
    case None
    then have "overlay Y content g2 s3 n = move_spec ?F ?T (content s2) n"
      by (simp add: overlay_not_resident mv(3))
    also have "\<dots> = move_spec ?F ?T ?M n"
      using agree [OF None] agree [OF res, of "transplant ?T ?F n"]
      by (auto simp: move_spec_def prefix_transplant)
    finally show ?thesis .
  next
    case (Some f)
    with res have "\<not> prefix ?F n" "\<not> prefix ?T n" by force+
    then have "move_spec ?F ?T ?M n = overlay Y content g2 s2 n" by (simp add: move_spec_def ov)
    with Some show ?thesis by (simp add: overlay_def)
  qed
  then show ?thesis using d e mv i2 by (auto simp: memfile_move_folder_def)
qed

lemma memfile_copy_folder_overlay:
  assumes con: "guard_contract Y content ok b reset dropf dropd" and inv: "guard_inv b g" and ok: "ok s"
    and ne: "components (full_path p) \<noteq> []"
    and un: "unrelated (components (full_path p)) (components (full_path q))"
    and some: "under (components (full_path p)) (overlay Y content g s) \<noteq> {}"
  shows "\<exists>g' s'. memfile_copy_folder dropd Y io dio g s p q = Some (Inr (), g', s') \<and> guard_inv b g' \<and> ok s' \<and>
    overlay Y content g' s' =
      copy_spec (components (full_path p)) (components (full_path q)) (overlay Y content g s)"
proof -
  let ?F = "components (full_path p)" and ?T = "components (full_path q)"
  let ?M = "overlay Y content g s"
  obtain g1 s1 where sn: "snapshot Y io g s = (Inr (), g1, s1)" and i1: "guard_inv b g1" "ok s1"
    and c1: "content s1 = ?M"
    and m1: "\<forall>n. map_option (mf_contents Y) (hm_abs components g1 n) =
        map_option (mf_contents Y) (hm_abs components g n)"
    using snapshot_overlay [OF inv ok, of Y] by blast
  have o1: "overlay Y content g1 s1 = ?M"
  proof
    fix n
    show "overlay Y content g1 s1 n = ?M n"
      using m1 [rule_format, of n] c1
      by (cases "hm_abs components g n"; cases "hm_abs components g1 n") (simp_all add: overlay_def)
  qed
  obtain g2 s2 where e: "dropd g1 s1 q = (g2, s2)" by fastforce
  note d2 = guard_contractD(3) [OF con i1 e]
  have ov: "overlay Y content g2 s2 = ?M" and i2: "guard_inv b g2" "ok s2"
    using d2 o1 by (simp_all add: dropped_under_def)
  have c2: "content s2 = ?M"
  proof
    fix n
    show "content s2 n = ?M n"
      using dropped_agree [OF d2, of n] d2 o1 c1 by (cases "prefix ?T n") (simp_all add: dropped_under_def)
  qed
  from some folder_copy [OF i2(2) ne un] c2 obtain s3 where
    cp: "dio_copy dio s2 p q = Some (Inr (), s3)" "ok s3" "content s3 = copy_spec ?F ?T ?M"
    by auto
  have "overlay Y content g2 s3 n = copy_spec ?F ?T ?M n" for n
  proof (cases "hm_abs components g2 n")
    case None
    then show ?thesis by (simp add: overlay_not_resident cp(3))
  next
    case (Some f)
    with d2 have "\<not> prefix ?T n" by (auto simp: dropped_under_def)
    then have "copy_spec ?F ?T ?M n = overlay Y content g2 s2 n" by (simp add: copy_spec_def ov)
    with Some show ?thesis by (simp add: overlay_def)
  qed
  then show ?thesis using sn e cp i2 by (auto simp: memfile_copy_folder_def)
qed

end

interpretation mem_folders: folder_store mem_file_io mem_content mem_ok mem_folder_io
  by unfold_locales
    (simp_all add: mem_folder_io_def mem_delete_folder_meets mem_move_folder_meets mem_copy_folder_meets)

section \<open>Properties\<close>

text \<open>What a call over a guard leaves behind: a well-formed guard whose overlay is \<open>M\<close>.\<close>

definition leaves :: "('doc, 'u, 'v) yrs \<Rightarrow> ('s \<Rightarrow> path_component list \<Rightarrow> ustring option) \<Rightarrow> ('s \<Rightarrow> bool) \<Rightarrow>
    backend \<Rightarrow> 'doc file_map \<Rightarrow> 's \<Rightarrow> (path_component list \<Rightarrow> ustring option) \<Rightarrow> bool" where
  "leaves Y content ok b g s M \<longleftrightarrow> guard_inv b g \<and> ok s \<and> overlay Y content g s = M"

text \<open>C1: The blocking file calls over a guard act on the overlay of resident buffers and store
  as on a plain map from paths to texts, whatever is resident: a read returns what the path
  holds and changes nothing, a write sets it (and has reached the store), a delete removes it,
  a move carries it over, a copy duplicates it, each succeeding exactly when its source
  exists; the guard's invariant is kept.\<close>

theorem memfile_blocking_refines:
  assumes "path_store io content ok" and "yrs_laws Y ext" and "guard_inv Blocking g" and "ok s"
    and "M = overlay Y content g s" and "np = components (full_path p)" and "nq = components (full_path q)"
  shows "(\<exists>r g'. read_memfile_blocking Y io g s p = Some (r, g', s) \<and> leaves Y content ok Blocking g' s M
        \<and> (case M np of None \<Rightarrow> \<not> is_ok r | Some c \<Rightarrow> r = Inr c))
    \<and> (memfile_exists io g s p \<longleftrightarrow> M np \<noteq> None)
    \<and> (\<exists>g' s'. write_memfile_blocking Y io g s p c = Some (Inr (), g', s')
        \<and> leaves Y content ok Blocking g' s' (M(np \<mapsto> c)) \<and> content s' np = Some c)
    \<and> (\<forall>r g' s'. delete_memfile_blocking Y io g s p = (r, g', s') \<longrightarrow> (is_ok r \<longleftrightarrow> M np \<noteq> None)
        \<and> leaves Y content ok Blocking g' s' (M(np := None)))
    \<and> (np \<noteq> nq \<longrightarrow> (\<forall>r g' s'. move_memfile_blocking Y io g s p q = (r, g', s') \<longrightarrow> (is_ok r \<longleftrightarrow> M np \<noteq> None)
        \<and> leaves Y content ok Blocking g' s' (if is_ok r then M(nq := M np, np := None) else M)))
    \<and> (\<exists>r g' s'. copy_memfile_blocking Y io g s p q = Some (r, g', s') \<and> (is_ok r \<longleftrightarrow> M np \<noteq> None)
        \<and> leaves Y content ok Blocking g' s' (if is_ok r then M(nq := M np) else M))"
proof -
  note con = path_store.blocking_contract [OF assms(1,2)]
  show ?thesis
    unfolding assms(5-7) leaves_def read_memfile_blocking_def write_memfile_blocking_def
      delete_memfile_blocking_def move_memfile_blocking_def copy_memfile_blocking_def
    using path_store.memfile_read_overlay [OF assms(1,2,3,4), of p]
      path_store.memfile_exists_overlay [OF assms(1,4)]
      path_store.memfile_write_overlay [OF assms(1,2) con assms(3,4)]
      path_store.memfile_delete_overlay [OF assms(1) con assms(3,4)]
      path_store.memfile_move_overlay [OF assms(1) con assms(3,4)]
      path_store.memfile_copy_overlay [OF assms(1,2) con assms(3,4), of p q] assms(4)
    by (intro conjI) (simp; blast | blast)+
qed

lemma memfile_blocking_refines_witness:
  "\<exists>g' s'. write_memfile_blocking list_yrs mem_file_io demo_guard demo_mem (plain_file ''b/x'') [9] =
       Some (Inr (), g', s') \<and> mem_content s' (components ''b/x'') = Some [9] \<and>
     overlay list_yrs mem_content g' s' =
       (overlay list_yrs mem_content demo_guard demo_mem)(components ''b/x'' \<mapsto> [9])"
  using memfile_blocking_refines [OF mem_paths.path_store_axioms list_yrs_laws demo_guard_inv
      demo_mem_facts(1) refl refl refl, where p = "plain_file ''b/x''" and c = "[9]"]
  unfolding full_path_plain leaves_def by blast

text \<open>C14: The async file calls over a guard act on the overlay in the same way, although their
  buffers do nothing when they are dropped: the guard saves a buffer before it lets it go.\<close>

theorem memfile_async_refines:
  assumes "path_store io content ok" and "yrs_laws Y ext" and "guard_inv Async g" and "ok s"
    and "M = overlay Y content g s" and "np = components (full_path p)" and "nq = components (full_path q)"
  shows "(\<exists>r g'. read_memfile_async Y io g s p = Some (r, g', s) \<and> leaves Y content ok Async g' s M
        \<and> (case M np of None \<Rightarrow> \<not> is_ok r | Some c \<Rightarrow> r = Inr c))
    \<and> (\<exists>g' s'. write_memfile_async Y io g s p c = Some (Inr (), g', s')
        \<and> leaves Y content ok Async g' s' (M(np \<mapsto> c)) \<and> content s' np = Some c)
    \<and> (\<forall>r g' s'. delete_memfile_async Y io g s p = (r, g', s') \<longrightarrow> (is_ok r \<longleftrightarrow> M np \<noteq> None)
        \<and> leaves Y content ok Async g' s' (M(np := None)))
    \<and> (np \<noteq> nq \<longrightarrow> (\<forall>r g' s'. move_memfile_async Y io g s p q = (r, g', s') \<longrightarrow> (is_ok r \<longleftrightarrow> M np \<noteq> None)
        \<and> leaves Y content ok Async g' s' (if is_ok r then M(nq := M np, np := None) else M)))
    \<and> (\<exists>r g' s'. copy_memfile_async Y io g s p q = Some (r, g', s') \<and> (is_ok r \<longleftrightarrow> M np \<noteq> None)
        \<and> leaves Y content ok Async g' s' (if is_ok r then M(nq := M np) else M))"
proof -
  note con = path_store.async_contract [OF assms(1,2)]
  show ?thesis
    unfolding assms(5-7) leaves_def read_memfile_async_def write_memfile_async_def
      delete_memfile_async_def move_memfile_async_def copy_memfile_async_def
    using path_store.memfile_read_overlay [OF assms(1,2,3,4), of p]
      path_store.memfile_write_overlay [OF assms(1,2) con assms(3,4)]
      path_store.memfile_delete_overlay [OF assms(1) con assms(3,4)]
      path_store.memfile_move_overlay [OF assms(1) con assms(3,4)]
      path_store.memfile_copy_overlay [OF assms(1,2) con assms(3,4), of p q] assms(4)
    by (intro conjI) (simp; blast | blast)+
qed

definition demo_amem :: amem_io where
  "demo_amem = \<lparr>amem_files = [(''a'', [1])]\<rparr>"

definition demo_async_guard :: "ustring file_map" where
  "demo_async_guard = [(''a'', (mf_new [5] (plain_file ''a'') Async)\<lparr>ops_since_save := 1\<rparr>)]"

lemma demo_amem_ok: "amem_ok demo_amem" "guard_inv Async demo_async_guard"
  by (simp_all add: demo_amem_def amem_ok_def hm_inv_def hm_keys_def demo_async_guard_def
      guard_inv_Cons mf_new_def)

lemma memfile_async_refines_witness:
  "\<exists>r g' s'. copy_memfile_async list_yrs amem_file_io demo_async_guard demo_amem
       (plain_file ''a'') (plain_file ''b'') = Some (r, g', s') \<and> is_ok r \<and>
     overlay list_yrs amem_content g' s' (components ''b'') = Some [5]"
proof -
  have "overlay list_yrs amem_content demo_async_guard demo_amem (components ''a'') = Some [5]"
    by (simp add: overlay_def demo_async_guard_def hm_abs_Cons)
  moreover obtain r g' s' where "copy_memfile_async list_yrs amem_file_io demo_async_guard demo_amem
       (plain_file ''a'') (plain_file ''b'') = Some (r, g', s')"
    and "is_ok r \<longleftrightarrow> overlay list_yrs amem_content demo_async_guard demo_amem (components ''a'') \<noteq> None"
    and "overlay list_yrs amem_content g' s' = (if is_ok r
      then (overlay list_yrs amem_content demo_async_guard demo_amem)
        (components ''b'' := overlay list_yrs amem_content demo_async_guard demo_amem (components ''a''))
      else overlay list_yrs amem_content demo_async_guard demo_amem)"
    using memfile_async_refines [OF amem_paths.path_store_axioms list_yrs_laws demo_amem_ok(2,1)
        refl refl refl, where p = "plain_file ''a''" and q = "plain_file ''b''"]
    unfolding full_path_plain leaves_def by blast
  ultimately show ?thesis by auto
qed

text \<open>C10: The folder calls over either guard act on the overlay too: unsaved edits of resident
  buffers travel with a moved or copied folder and go with a deleted one, for folders neither
  of which contains the other, and buffers elsewhere stay resident with their text.\<close>

theorem memfile_folders_refine:
  assumes "folder_store io content ok dio" and "yrs_laws Y ext" and "ok s"
    and "components (full_path p) \<noteq> []"
    and "unrelated (components (full_path p)) (components (full_path q))"
    and "M = overlay Y content g s" and "under (components (full_path p)) M \<noteq> {}"
  shows "(guard_inv Blocking g \<longrightarrow>
        (\<exists>g' s'. move_folder_memfile_blocking Y io dio g s p q = Some (Inr (), g', s') \<and>
          leaves Y content ok Blocking g' s' (move_spec (components (full_path p)) (components (full_path q)) M))
      \<and> (\<exists>g' s'. copy_folder_memfile_blocking Y io dio g s p q = Some (Inr (), g', s') \<and>
          leaves Y content ok Blocking g' s' (copy_spec (components (full_path p)) (components (full_path q)) M))
      \<and> (\<exists>g' s'. delete_folder_memfile_blocking Y io dio g s p = Some (Inr (), g', s') \<and>
          leaves Y content ok Blocking g' s' (delete_spec (components (full_path p)) M)))
    \<and> (guard_inv Async g \<longrightarrow>
        (\<exists>g' s'. move_folder_memfile_async Y io dio g s p q = Some (Inr (), g', s') \<and>
          leaves Y content ok Async g' s' (move_spec (components (full_path p)) (components (full_path q)) M))
      \<and> (\<exists>g' s'. copy_folder_memfile_async Y io dio g s p q = Some (Inr (), g', s') \<and>
          leaves Y content ok Async g' s' (copy_spec (components (full_path p)) (components (full_path q)) M))
      \<and> (\<exists>g' s'. delete_folder_memfile_async Y io dio g s p = Some (Inr (), g', s') \<and>
          leaves Y content ok Async g' s' (delete_spec (components (full_path p)) M)))"
proof -
  have ps: "path_store io content ok" using assms(1) by (simp add: folder_store_def)
  note b = path_store.blocking_contract [OF ps assms(2)] and a = path_store.async_contract [OF ps assms(2)]
  note some = assms(7) [unfolded assms(6)]
  note mv = folder_store.memfile_move_folder_overlay [OF assms(1) _ _ assms(3,4,5) some]
  note cp = folder_store.memfile_copy_folder_overlay [OF assms(1) _ _ assms(3,4,5) some]
  note del = folder_store.memfile_delete_folder_overlay [OF assms(1) _ _ assms(3) some]
  show ?thesis
    unfolding assms(6) leaves_def move_folder_memfile_blocking_def copy_folder_memfile_blocking_def
      delete_folder_memfile_blocking_def move_folder_memfile_async_def copy_folder_memfile_async_def
      delete_folder_memfile_async_def
    by (intro conjI impI) (rule mv [OF b] cp [OF b] del [OF b] mv [OF a] cp [OF a] del [OF a], assumption)+
qed

lemma memfile_folders_refine_witness:
  "\<exists>g' s'. move_folder_memfile_blocking list_yrs mem_file_io mem_folder_io demo_guard demo_mem
       (demo_folder ''a'') (demo_folder ''b'') = Some (Inr (), g', s') \<and>
     overlay list_yrs mem_content g' s' = move_spec (components ''a'') (components ''b'')
       (overlay list_yrs mem_content demo_guard demo_mem)"
proof -
  have "components ''a/x'' \<in> under (components ''a'') (overlay list_yrs mem_content demo_guard demo_mem)"
    by (simp add: under_def overlay_def demo_guard_def hm_abs_Cons)
      (simp add: demo_defs)
  then have "under (components (full_path (demo_folder ''a''))) (overlay list_yrs mem_content demo_guard demo_mem) \<noteq> {}"
    by auto
  from memfile_folders_refine [OF mem_folders.folder_store_axioms list_yrs_laws demo_mem_facts(1,2,3) refl this]
  show ?thesis using demo_guard_inv unfolding full_path_demo leaves_def by blast
qed

text \<open>A declared module resolves to a file that exists, the direct \<open>stem.cad\<close> before
  \<open>stem/mod.cad\<close>, and fails exactly when neither exists; the declaration may carry the
  \<open>.cad\<close> suffix or not with the same outcome. Over a guard a file exists when its overlay holds a
  text, saved or not.\<close>

theorem extract_path_resolves:
  assumes "direct = push root (stem @ ''.cad'')" and "nested = push root (stem @ ''/mod.cad'')"
    and "\<not> suffix ''.cad'' stem"
  shows "(\<forall>ex \<in> {exists_blocking io s, memfile_exists io g s}. \<forall>rel \<in> {stem, stem @ ''.cad''}.
      (case extract_path ex root rel of
         Inr f \<Rightarrow> ex f \<and> (full_path f = direct \<or> full_path f = nested \<and>
           \<not> ex \<lparr>rel_path = stem @ ''.cad'', root_path = root, full_path = direct, path_type = PhantomData\<rparr>)
       | Inl e \<Rightarrow> \<not> ex \<lparr>rel_path = stem @ ''.cad'', root_path = root, full_path = direct, path_type = PhantomData\<rparr>
           \<and> \<not> ex \<lparr>rel_path = stem @ ''/mod.cad'', root_path = root, full_path = nested, path_type = PhantomData\<rparr>))"
proof -
  have "mod_candidates root rel = Inr
      (\<lparr>rel_path = stem @ ''.cad'', root_path = root, full_path = direct, path_type = PhantomData\<rparr>,
       \<lparr>rel_path = stem @ ''/mod.cad'', root_path = root, full_path = nested, path_type = PhantomData\<rparr>)"
    if "rel \<in> {stem, stem @ ''.cad''}" for rel
  proof -
    from that have "(case strip_suffix rel ''.cad'' of Some t \<Rightarrow> t | None \<Rightarrow> rel) = stem"
      using assms(3) by (auto simp: strip_suffix_def [of stem] simp del: append_assoc)
    then show ?thesis
      using assms(1,2) by (simp add: mod_candidates_def Let_def file_path_str_def build_file_def)
  qed
  then show ?thesis by (auto simp: extract_path_def)
qed

lemma extract_path_resolves_witness:
  "\<not> suffix ''.cad'' ''m'' \<and>
   (case extract_path (exists_blocking mem_file_io mem_new) ''r'' ''m.cad'' of Inr f \<Rightarrow> False | Inl e \<Rightarrow> True)"
proof -
  have n: "\<not> suffix ''.cad'' ''m''" by (simp add: suffix_def)
  have "\<not> exists_blocking mem_file_io mem_new f" for f
    by (simp add: exists_blocking_def mem_file_io_def mem_exists_def mem_new_def hm_get_def)
  then show ?thesis
    using extract_path_resolves [OF refl refl n, of mem_file_io mem_new "[]" "''r''"] n
    by (auto split: sum.splits)
qed

end
