(* ===== verification/Disk_Fs.thy ===== *)
theory Disk_Fs
  imports Stores "HOL-Library.AList"
begin

text \<open>
  The part of \<open>std::fs\<close> the disk engine calls, on Unix: a tree of folders and regular files, named by the
  components of their absolute paths, with the root implicit. There are no links, and no other
  process touches the tree. What the system refuses besides (permissions, a full disk) is the
  field \<open>d_fault\<close>, a function of the system call; a refused write may have written \<open>d_partial\<close>
  characters.
\<close>

section \<open>The tree\<close>

type_synonym node_path = "path_component list"

datatype file_data = Text ustring | Bytes "nat list"

datatype inode = Folder | Regular file_data

datatype os_error =
    NotFound
  | NotADirectory
  | IsADirectory
  | AlreadyExists
  | DirectoryNotEmpty
  | InvalidInput
  | InvalidData
  | Refused string

datatype sys_call =
    SysStat node_path
  | SysOpenRead node_path
  | SysRead node_path
  | SysOpenWrite node_path
  | SysWrite node_path
  | SysUnlink node_path
  | SysRename node_path node_path
  | SysMkdir node_path
  | SysReadDir node_path
  | SysNextEntry node_path
  | SysRmdir node_path

record disk =
  d_nodes :: "(node_path \<times> inode) list"
  d_cwd :: node_path
  d_fault :: "sys_call \<Rightarrow> string option"
  d_partial :: "node_path \<Rightarrow> nat"

definition node_at :: "disk \<Rightarrow> node_path \<Rightarrow> inode option" where
  "node_at d n = (if n = [] then Some Folder else map_of (d_nodes d) n)"

definition set_node :: "node_path \<Rightarrow> inode \<Rightarrow> disk \<Rightarrow> disk" where
  "set_node n v d = d\<lparr>d_nodes := AList.update n v (d_nodes d)\<rparr>"

definition del_node :: "node_path \<Rightarrow> disk \<Rightarrow> disk" where
  "del_node n d = d\<lparr>d_nodes := AList.delete n (d_nodes d)\<rparr>"

text \<open>The root cannot be removed.\<close>

definition sys :: "disk \<Rightarrow> sys_call \<Rightarrow> os_error + unit" where
  "sys d c =
     (if c = SysRmdir [] then Inl (Refused ''Device or resource busy'')
      else (case d_fault d c of None \<Rightarrow> Inr () | Some m \<Rightarrow> Inl (Refused m)))"

section \<open>Path resolution\<close>

fun step_to :: "node_path \<Rightarrow> path_component \<Rightarrow> node_path" where
  "step_to cur RootDir = []"
| "step_to cur CurDir = cur"
| "step_to cur ParentDir = butlast cur"
| "step_to cur (Normal x) = cur @ [Normal x]"

text \<open>Every component but the last must lead to a folder; whether there is a node at the end is for
  the call to say.\<close>

fun walk :: "disk \<Rightarrow> node_path \<Rightarrow> path_component list \<Rightarrow> os_error + node_path" where
  "walk d cur [] = Inr cur"
| "walk d cur (RootDir # cs) = walk d [] cs"
| "walk d cur (c # cs) =
     (case node_at d cur of
        None \<Rightarrow> Inl NotFound
      | Some (Regular _) \<Rightarrow> Inl NotADirectory
      | Some Folder \<Rightarrow> walk d (step_to cur c) cs)"

definition locate :: "disk \<Rightarrow> string \<Rightarrow> os_error + node_path" where
  "locate d p = (if p = [] then Inl NotFound else walk d (d_cwd d) (components p))"

text \<open>A path that ends in a separator or a dot names a folder only.\<close>

definition wants_folder :: "string \<Rightarrow> bool" where
  "wants_folder p = skip_piece (last (split_on sep p))"

section \<open>The calls\<close>

definition stat :: "disk \<Rightarrow> string \<Rightarrow> os_error + inode" where
  "stat d p = res_bind (locate d p) (\<lambda>n. res_bind (sys d (SysStat n)) (\<lambda>_.
     (case node_at d n of
        None \<Rightarrow> Inl NotFound
      | Some (Regular x) \<Rightarrow> if wants_folder p then Inl NotADirectory else Inr (Regular x)
      | Some Folder \<Rightarrow> Inr Folder)))"

definition is_file :: "disk \<Rightarrow> string \<Rightarrow> bool" where
  "is_file d p = (case stat d p of Inr (Regular _) \<Rightarrow> True | _ \<Rightarrow> False)"

definition is_dir :: "disk \<Rightarrow> string \<Rightarrow> bool" where
  "is_dir d p = (case stat d p of Inr Folder \<Rightarrow> True | _ \<Rightarrow> False)"

text \<open>Opening for reading: the node and what is there.\<close>

definition open_read :: "disk \<Rightarrow> string \<Rightarrow> os_error + node_path \<times> inode" where
  "open_read d p = res_bind (locate d p) (\<lambda>n. res_bind (sys d (SysOpenRead n)) (\<lambda>_.
     (case node_at d n of
        None \<Rightarrow> Inl NotFound
      | Some (Regular x) \<Rightarrow> if wants_folder p then Inl NotADirectory else Inr (n, Regular x)
      | Some Folder \<Rightarrow> Inr (n, Folder))))"

definition fs_read_to_string :: "disk \<Rightarrow> string \<Rightarrow> os_error + ustring" where
  "fs_read_to_string d p = res_bind (open_read d p) (\<lambda>(n, node). res_bind (sys d (SysRead n)) (\<lambda>_.
     (case node of
        Folder \<Rightarrow> Inl IsADirectory
      | Regular (Bytes _) \<Rightarrow> Inl InvalidData
      | Regular (Text t) \<Rightarrow> Inr t)))"

definition fs_mkdir :: "disk \<Rightarrow> string \<Rightarrow> (os_error + unit) \<times> disk" where
  "fs_mkdir d p =
     (case locate d p of
        Inl e \<Rightarrow> (Inl e, d)
      | Inr n \<Rightarrow>
          if node_at d n \<noteq> None then (Inl AlreadyExists, d)
          else (case sys d (SysMkdir n) of
              Inl e \<Rightarrow> (Inl e, d)
            | Inr _ \<Rightarrow> (Inr (), set_node n Folder d)))"

text \<open>\<open>create_dir_all\<close>: try, make the parent when that is what is missing, try again.\<close>

definition settle :: "string \<Rightarrow> (os_error + unit) \<times> disk \<Rightarrow> (os_error + unit) \<times> disk" where
  "settle p out =
     (case out of
        (Inr _, d) \<Rightarrow> (Inr (), d)
      | (Inl e, d) \<Rightarrow> if is_dir d p then (Inr (), d) else (Inl e, d))"

function fs_create_dir_all :: "disk \<Rightarrow> string \<Rightarrow> (os_error + unit) \<times> disk" where
  "fs_create_dir_all d p =
     (if p = [] then (Inr (), d)
      else (case fs_mkdir d p of
          (Inl NotFound, d) \<Rightarrow>
            (case parent p of
               None \<Rightarrow> (Inl (Refused ''failed to create whole tree''), d)
             | Some q \<Rightarrow>
                 (case fs_create_dir_all d q of
                    (Inl e, d) \<Rightarrow> (Inl e, d)
                  | (Inr _, d) \<Rightarrow> settle p (fs_mkdir d p)))
        | out \<Rightarrow> settle p out))"
  by pat_completeness auto
termination
proof (relation "measure (\<lambda>(d, p). length (components p))")
  fix d p x y e q
  assume "parent p = Some q"
  then show "((y, q), d, p) \<in> measure (\<lambda>(d, p). length (components p))"
    using components_parent [of p q] by simp
qed simp

declare fs_create_dir_all.simps [simp del]

text \<open>Opening for writing creates or truncates.\<close>

definition open_write :: "disk \<Rightarrow> string \<Rightarrow> (os_error + node_path) \<times> disk" where
  "open_write d p =
     (case locate d p of
        Inl e \<Rightarrow> (Inl e, d)
      | Inr n \<Rightarrow>
          if node_at d n = Some Folder \<or> wants_folder p then (Inl IsADirectory, d)
          else (case sys d (SysOpenWrite n) of
              Inl e \<Rightarrow> (Inl e, d)
            | Inr _ \<Rightarrow> (Inr n, set_node n (Regular (Text [])) d)))"

fun part_of :: "nat \<Rightarrow> file_data \<Rightarrow> file_data" where
  "part_of k (Text t) = Text (take k t)"
| "part_of k (Bytes b) = Bytes (take k b)"

definition write_out :: "disk \<Rightarrow> node_path \<Rightarrow> file_data \<Rightarrow> (os_error + unit) \<times> disk" where
  "write_out d n x =
     (case sys d (SysWrite n) of
        Inl e \<Rightarrow> (Inl e, set_node n (Regular (part_of (d_partial d n) x)) d)
      | Inr _ \<Rightarrow> (Inr (), set_node n (Regular x) d))"

definition fs_write :: "disk \<Rightarrow> string \<Rightarrow> ustring \<Rightarrow> (os_error + unit) \<times> disk" where
  "fs_write d p data = st_bind (open_write d p) (\<lambda>n d. write_out d n (Text data))"

definition fs_remove_file :: "disk \<Rightarrow> string \<Rightarrow> (os_error + unit) \<times> disk" where
  "fs_remove_file d p =
     (case locate d p of
        Inl e \<Rightarrow> (Inl e, d)
      | Inr n \<Rightarrow>
          (case node_at d n of
             None \<Rightarrow> (Inl NotFound, d)
           | Some Folder \<Rightarrow> (Inl IsADirectory, d)
           | Some (Regular _) \<Rightarrow>
               if wants_folder p then (Inl NotADirectory, d)
               else (case sys d (SysUnlink n) of
                   Inl e \<Rightarrow> (Inl e, d)
                 | Inr _ \<Rightarrow> (Inr (), del_node n d))))"

text \<open>Copying opens the source first, then truncates the destination, then copies: what is copied
  of a file onto itself is what is left of it.\<close>

definition fs_copy :: "disk \<Rightarrow> string \<Rightarrow> string \<Rightarrow> (os_error + unit) \<times> disk" where
  "fs_copy d p q =
     (case open_read d p of
        Inl e \<Rightarrow> (Inl e, d)
      | Inr (n, Folder) \<Rightarrow> (Inl InvalidInput, d)
      | Inr (n, Regular x) \<Rightarrow>
          st_bind (open_write d q) (\<lambda>m d.
            (case node_at d n of
               Some (Regular x) \<Rightarrow> st_bind (sys d (SysRead n), d) (\<lambda>_ d. write_out d m x)
             | _ \<Rightarrow> (Inl NotFound, d))))"

section \<open>Folders\<close>

definition entries_of :: "(node_path \<times> inode) list \<Rightarrow> node_path \<Rightarrow> node_path list" where
  "entries_of es n = filter (\<lambda>k. k \<noteq> [] \<and> butlast k = n) (map fst es)"

fun entry_name :: "path_component \<Rightarrow> string" where
  "entry_name (Normal x) = x"
| "entry_name ParentDir = ''..''"
| "entry_name CurDir = ''.''"
| "entry_name RootDir = ''/''"

text \<open>The entries in the system's order, each of which may fail to be read.\<close>

definition fs_read_dir :: "disk \<Rightarrow> string \<Rightarrow> os_error + (os_error + string) list" where
  "fs_read_dir d p = res_bind (locate d p) (\<lambda>n.
     (case node_at d n of
        None \<Rightarrow> Inl NotFound
      | Some (Regular _) \<Rightarrow> Inl NotADirectory
      | Some Folder \<Rightarrow> res_bind (sys d (SysReadDir n)) (\<lambda>_.
          Inr (map (\<lambda>k. res_bind (sys d (SysNextEntry k)) (\<lambda>_. Inr (entry_name (last k))))
            (entries_of (d_nodes d) n)))))"

definition rebase :: "node_path \<Rightarrow> node_path \<Rightarrow> node_path \<Rightarrow> node_path" where
  "rebase n m k = (if prefix n k then transplant n m k else k)"

definition fs_rename :: "disk \<Rightarrow> string \<Rightarrow> string \<Rightarrow> (os_error + unit) \<times> disk" where
  "fs_rename d p q =
     (case (locate d p, locate d q) of
        (Inl e, _) \<Rightarrow> (Inl e, d)
      | (_, Inl e) \<Rightarrow> (Inl e, d)
      | (Inr n, Inr m) \<Rightarrow>
          (case node_at d n of
             None \<Rightarrow> (Inl NotFound, d)
           | Some (Regular x) \<Rightarrow>
               if wants_folder p \<or> wants_folder q then (Inl NotADirectory, d)
               else if node_at d m = Some Folder then (Inl IsADirectory, d)
               else if n = m then (Inr (), d)
               else (case sys d (SysRename n m) of
                   Inl e \<Rightarrow> (Inl e, d)
                 | Inr _ \<Rightarrow> (Inr (), set_node m (Regular x) (del_node n d)))
           | Some Folder \<Rightarrow>
               if n = m then (Inr (), d)
               else if prefix n m then (Inl InvalidInput, d)
               else (case node_at d m of
                   Some (Regular _) \<Rightarrow> (Inl NotADirectory, d)
                 | _ \<Rightarrow>
                     if entries_of (d_nodes d) m \<noteq> [] \<or> m = [] then (Inl DirectoryNotEmpty, d)
                     else (case sys d (SysRename n m) of
                         Inl e \<Rightarrow> (Inl e, d)
                       | Inr _ \<Rightarrow> (Inr (), d\<lparr>d_nodes := map (\<lambda>e. (rebase n m (fst e), snd e))
                           (filter (\<lambda>e. fst e \<noteq> m) (d_nodes d))\<rparr>)))))"

text \<open>The system calls of \<open>remove_dir_all\<close>: a folder is opened, its entries go, then itself.\<close>

definition beneath :: "node_path \<Rightarrow> (node_path \<times> inode) list \<Rightarrow> nat" where
  "beneath n es = length (filter (\<lambda>e. strict_prefix n (fst e)) es)"

lemma entries_of_iff: "k \<in> set (entries_of es n) \<longleftrightarrow> k \<in> fst ` set es \<and> (\<exists>x. k = n @ [x])"
  by (auto simp: entries_of_def) (metis append_butlast_last_id)

lemma beneath_entry: "k \<in> set (entries_of es n) \<Longrightarrow> beneath k es < beneath n es"
proof -
  assume k: "k \<in> set (entries_of es n)"
  then obtain e x where e: "e \<in> set es" "k = fst e" "k = n @ [x]" by (auto simp: entries_of_iff)
  have "filter (\<lambda>e. strict_prefix k (fst e)) es = filter (\<lambda>e. strict_prefix k (fst e)) (filter (\<lambda>e. strict_prefix n (fst e)) es)"
    using e(3) by (auto intro!: filter_cong simp: strict_prefix_def prefix_def)
  moreover have "length (filter (\<lambda>e. strict_prefix k (fst e)) (filter (\<lambda>e. strict_prefix n (fst e)) es)) <
      length (filter (\<lambda>e. strict_prefix n (fst e)) es)"
    using e by (intro length_filter_less [of e]) (simp_all add: e(2) [symmetric] strict_prefix_def)
  ultimately show ?thesis by (simp add: beneath_def)
qed

function rm_plan :: "(node_path \<times> inode) list \<Rightarrow> node_path \<Rightarrow> sys_call list" where
  "rm_plan es n =
     (case map_of es n of
        Some (Regular _) \<Rightarrow> [SysUnlink n]
      | _ \<Rightarrow> SysReadDir n # concat (map (rm_plan es) (entries_of es n)) @ [SysRmdir n])"
  by pat_completeness auto
termination
  by (relation "measure (\<lambda>(es, n). beneath n es)") (simp_all add: beneath_entry)

declare rm_plan.simps [simp del]

fun run_plan :: "disk \<Rightarrow> sys_call list \<Rightarrow> (os_error + unit) \<times> disk" where
  "run_plan d [] = (Inr (), d)"
| "run_plan d (c # cs) =
     (case sys d c of
        Inl e \<Rightarrow> (Inl e, d)
      | Inr _ \<Rightarrow> run_plan (case c of SysUnlink n \<Rightarrow> del_node n d | SysRmdir n \<Rightarrow> del_node n d | _ \<Rightarrow> d) cs)"

definition fs_remove_dir_all :: "disk \<Rightarrow> string \<Rightarrow> (os_error + unit) \<times> disk" where
  "fs_remove_dir_all d p =
     (case locate d p of
        Inl e \<Rightarrow> (Inl e, d)
      | Inr n \<Rightarrow>
          (case node_at d n of
             None \<Rightarrow> (Inl NotFound, d)
           | Some (Regular _) \<Rightarrow> (Inl NotADirectory, d)
           | Some Folder \<Rightarrow> run_plan d (rm_plan (d_nodes d) n)))"

end
