(* ===== verification/Disk_Facts.thy ===== *)
theory Disk_Facts
  imports Disk_Fs
begin

text \<open>
  Facts about the calls of \<open>Disk_Fs\<close>: what a well-formed tree is, that resolving a path in it ends at a
  node or at a place where one can be made, and what each call does to the map from places to
  nodes, whatever the system refuses.
\<close>

section \<open>Well-formed trees\<close>

definition valid_name :: "string \<Rightarrow> bool" where
  "valid_name x \<longleftrightarrow> \<not> skip_piece x \<and> x \<noteq> ''..'' \<and> sep \<notin> set x"

definition tree_ok :: "(node_path \<Rightarrow> inode option) \<Rightarrow> bool" where
  "tree_ok M \<longleftrightarrow> M [] = Some Folder \<and>
     (\<forall>n. M n \<noteq> None \<longrightarrow> n \<noteq> [] \<longrightarrow> M (butlast n) = Some Folder \<and> (\<exists>x. last n = Normal x \<and> valid_name x))"

definition disk_wf :: "disk \<Rightarrow> bool" where
  "disk_wf d \<longleftrightarrow> distinct (map fst (d_nodes d)) \<and> [] \<notin> fst ` set (d_nodes d) \<and> tree_ok (node_at d)"

text \<open>A place where a node can be made.\<close>

definition free_place :: "(node_path \<Rightarrow> inode option) \<Rightarrow> node_path \<Rightarrow> bool" where
  "free_place M n \<longleftrightarrow> n \<noteq> [] \<and> M n = None \<and> M (butlast n) = Some Folder \<and> (\<exists>x. last n = Normal x \<and> valid_name x)"

lemma disk_wfD:
  "disk_wf d \<Longrightarrow> distinct (map fst (d_nodes d))"
  "disk_wf d \<Longrightarrow> [] \<notin> fst ` set (d_nodes d)"
  "disk_wf d \<Longrightarrow> tree_ok (node_at d)"
  by (simp_all add: disk_wf_def)

lemma tree_okD:
  "tree_ok M \<Longrightarrow> M [] = Some Folder"
  "tree_ok M \<Longrightarrow> M n \<noteq> None \<Longrightarrow> n \<noteq> [] \<Longrightarrow> M (butlast n) = Some Folder"
  "tree_ok M \<Longrightarrow> M n \<noteq> None \<Longrightarrow> n \<noteq> [] \<Longrightarrow> \<exists>x. last n = Normal x \<and> valid_name x"
  by (simp_all add: tree_ok_def)

lemma node_at_root [simp]: "node_at d [] = Some Folder"
  by (simp add: node_at_def)

lemma node_at_set [simp]: "n \<noteq> [] \<Longrightarrow> node_at (set_node n v d) = (node_at d)(n \<mapsto> v)"
  by (auto simp: node_at_def set_node_def update_conv' fun_eq_iff)

lemma node_at_del [simp]: "n \<noteq> [] \<Longrightarrow> node_at (del_node n d) = (node_at d)(n := None)"
  by (auto simp: node_at_def del_node_def delete_conv' fun_eq_iff)

text \<open>What lies beneath a folder's place is reached through it.\<close>

lemma tree_ok_above:
  assumes ok: "tree_ok M" and "M (n @ rest) \<noteq> None" and "rest \<noteq> []"
  shows "M n = Some Folder"
  using assms(2,3)
proof (induction rest rule: rev_induct)
  case (snoc x rest)
  have "M (n @ rest) = Some Folder" using tree_okD(2) [OF ok snoc.prems(1)] by (simp add: butlast_append)
  then show ?case using snoc.IH by (cases "rest = []") auto
qed simp

lemma tree_ok_regular:
  assumes "tree_ok M" and "M n = Some (Regular x)" and "strict_prefix n k"
  shows "M k = None"
proof -
  obtain rest where "k = n @ rest" "rest \<noteq> []" using assms(3) by (auto simp: strict_prefix_def prefix_def)
  then show ?thesis using tree_ok_above [OF assms(1), of n rest] assms(2)
    by (metis inode.distinct(1) option.inject)
qed

lemma tree_ok_free:
  assumes "tree_ok M" and "M n = None" and "prefix n k"
  shows "M k = None"
proof -
  obtain rest where "k = n @ rest" using assms(3) by (auto simp: prefix_def)
  then show ?thesis using tree_ok_above [OF assms(1), of n rest] assms(2)
    by (metis append_Nil2 option.distinct(1))
qed

text \<open>The three ways a tree changes: a node appears or is replaced by one of its kind, a set closed
  under descent goes, a subtree moves.\<close>

lemma tree_ok_insert:
  assumes ok: "tree_ok M" and at: "free_place M n \<or> (\<exists>x y. M n = Some (Regular x) \<and> v = Regular y)"
  shows "tree_ok (M(n \<mapsto> v))"
proof -
  have n: "n \<noteq> []" using at tree_okD(1) [OF ok] by (auto simp: free_place_def)
  have "M k \<noteq> Some Folder \<or> k \<noteq> n" for k using at by (auto simp: free_place_def)
  moreover have "butlast n \<noteq> n" using n by (metis append_butlast_last_id append_self_conv not_Cons_self2)
  ultimately show ?thesis
    using ok at n unfolding tree_ok_def free_place_def by (auto simp: fun_upd_def)
qed

lemma tree_ok_remove:
  assumes ok: "tree_ok M" and root: "[] \<notin> T" and closed: "\<And>a k. a \<in> T \<Longrightarrow> prefix a k \<Longrightarrow> M k \<noteq> None \<Longrightarrow> k \<in> T"
  shows "tree_ok (\<lambda>k. if k \<in> T then None else M k)"
proof -
  have "butlast n \<notin> T" if "M n \<noteq> None" "n \<notin> T" for n
    using closed [of "butlast n" n] that by (metis prefixeq_butlast)
  then show ?thesis using ok root unfolding tree_ok_def by auto
qed

section \<open>Where a path leads\<close>

abbreviation place :: "disk \<Rightarrow> node_path \<Rightarrow> bool" where
  "place d n \<equiv> node_at d n \<noteq> None \<or> free_place (node_at d) n"

abbreviation valid_component :: "path_component \<Rightarrow> bool" where
  "valid_component c \<equiv> (case c of Normal x \<Rightarrow> valid_name x | _ \<Rightarrow> True)"

lemma components_valid: "c \<in> set (components p) \<Longrightarrow> valid_component c"
  by (auto simp: components_def head_components_def real_pieces_def piece_component_def valid_name_def
      dest: split_on_pieces_free split: if_splits)

lemma walk_not_root:
  "c \<noteq> RootDir \<Longrightarrow> walk d cur (c # cs) =
     (case node_at d cur of
        None \<Rightarrow> Inl NotFound
      | Some (Regular _) \<Rightarrow> Inl NotADirectory
      | Some Folder \<Rightarrow> walk d (step_to cur c) cs)"
  by (cases c) (simp_all split: option.splits inode.splits)

lemma walk_Inr_Cons:
  "walk d cur (c # cs) = Inr n \<longleftrightarrow>
     (c = RootDir \<or> node_at d cur = Some Folder) \<and> walk d (step_to cur c) cs = Inr n"
  by (cases c) (auto split: option.splits inode.splits)

lemma walk_append: "walk d cur (cs @ ds) = res_bind (walk d cur cs) (\<lambda>n. walk d n ds)"
proof (induction cs arbitrary: cur)
  case (Cons c cs)
  then show ?case by (cases c) (simp_all split: option.splits inode.splits)
qed simp

lemma walk_place:
  assumes ok: "tree_ok (node_at d)"
  shows "walk d cur cs = Inr n \<Longrightarrow> \<forall>c \<in> set cs. valid_component c \<Longrightarrow> place d cur \<or> cs \<noteq> [] \<Longrightarrow> place d n"
proof (induction cs arbitrary: cur)
  case (Cons c cs)
  have step: "walk d (step_to cur c) cs = Inr n" "c = RootDir \<or> node_at d cur = Some Folder"
    using Cons.prems(1) by (simp_all add: walk_Inr_Cons)
  have "place d (step_to cur c)"
  proof (cases c)
    case ParentDir
    then show ?thesis using step(2) tree_okD(2) [OF ok, of cur] by (cases "cur = []") auto
  next
    case (Normal x)
    then show ?thesis using step(2) Cons.prems(2) by (auto simp: free_place_def)
  qed (use step(2) in auto)
  then show ?case using Cons.IH [OF step(1)] Cons.prems(2) by simp
qed simp

lemma components_Nil_iff [simp]: "components p = [] \<longleftrightarrow> p = []"
proof
  assume "components p = []"
  then have "\<not> has_root p" "\<not> lead_cur p" "real_pieces p = []"
    by (auto simp: components_def head_components_def split: if_splits)
  then have "hd (split_on sep p) = []"
    by (cases "split_on sep p") (auto simp: real_pieces_def lead_cur_def skip_piece_def split: if_splits)
  then show "p = []" using \<open>\<not> has_root p\<close>
    by (cases p) (auto split: list.splits if_splits)
qed simp

lemma locate_place: "disk_wf d \<Longrightarrow> locate d p = Inr n \<Longrightarrow> place d n"
  unfolding locate_def
  by (rule walk_place [of d "d_cwd d" "components p" n])
     (auto simp: disk_wf_def components_valid split: if_splits)

lemma locate_cong: "components p = components q \<Longrightarrow> locate d p = locate d q"
  using components_Nil_iff [of p] components_Nil_iff [of q] by (auto simp: locate_def)

lemma locate_push:
  assumes "locate d p = Inr n" and "node_at d n = Some Folder" and "valid_name x"
  shows "locate d (push p x) = Inr (n @ [Normal x])"
proof -
  have x: "split_on sep x = [x]" using assms(3) by (simp add: valid_name_def split_on_free)
  then have "\<not> has_root x" "\<not> lead_cur x" "components x = [Normal x]"
    using assms(3) by (cases x; auto simp: valid_name_def lead_cur_def components_def head_components_def
      real_pieces_def piece_component_def)+
  then have cs: "components (push p x) = components p @ [Normal x]" by (simp add: components_push_rel)
  then have "push p x \<noteq> []" using components_Nil_iff [of "push p x"] by simp
  then show ?thesis using assms(1,2) cs by (auto simp: locate_def walk_append split: if_splits)
qed

text \<open>More folders keep every path that led somewhere.\<close>

abbreviation same_system :: "disk \<Rightarrow> disk \<Rightarrow> bool" where
  "same_system d d' \<equiv> d_cwd d' = d_cwd d \<and> d_fault d' = d_fault d \<and> d_partial d' = d_partial d"

definition keeps_folders :: "disk \<Rightarrow> disk \<Rightarrow> bool" where
  "keeps_folders d d' \<longleftrightarrow> (\<forall>k. node_at d k = Some Folder \<longrightarrow> node_at d' k = Some Folder)"

lemma walk_mono: "walk d cur cs = Inr n \<Longrightarrow> keeps_folders d d' \<Longrightarrow> walk d' cur cs = Inr n"
  by (induction cs arbitrary: cur) (auto simp: walk_Inr_Cons keeps_folders_def)

lemma locate_mono:
  "locate d p = Inr n \<Longrightarrow> d_cwd d' = d_cwd d \<Longrightarrow> keeps_folders d d' \<Longrightarrow> locate d' p = Inr n"
  by (auto simp: locate_def split: if_splits intro: walk_mono)

lemma wants_folder_push: "valid_name x \<Longrightarrow> \<not> wants_folder (push p x)"
  by (cases rule: push_cases [of x p])
     (auto simp: wants_folder_def valid_name_def split_on_append split_on_free)

section \<open>What the calls do\<close>

lemma system_kept [simp]:
  "d_cwd (set_node n v d) = d_cwd d" "d_fault (set_node n v d) = d_fault d" "d_partial (set_node n v d) = d_partial d"
  "d_cwd (del_node n d) = d_cwd d" "d_fault (del_node n d) = d_fault d" "d_partial (del_node n d) = d_partial d"
  by (simp_all add: set_node_def del_node_def)

lemma disk_wf_set:
  assumes wf: "disk_wf d" and at: "free_place (node_at d) n \<or> (\<exists>x y. node_at d n = Some (Regular x) \<and> v = Regular y)"
  shows "disk_wf (set_node n v d)"
proof -
  have n: "n \<noteq> []" using at by (auto simp: free_place_def)
  then have "tree_ok (node_at (set_node n v d))" using tree_ok_insert [OF disk_wfD(3) [OF wf] at] by simp
  moreover have "distinct (map fst (d_nodes (set_node n v d)))"
    using disk_wfD(1) [OF wf] by (simp add: set_node_def distinct_update)
  moreover have "[] \<notin> fst ` set (d_nodes (set_node n v d))"
    using disk_wfD(2) [OF wf] n by (simp add: set_node_def dom_update)
  ultimately show ?thesis by (simp add: disk_wf_def)
qed

lemma map_of_filter_keys: "map_of (filter (\<lambda>e. fst e \<notin> T) es) k = (if k \<in> T then None else map_of es k)"
  by (induction es) auto

lemma disk_wf_erase:
  assumes wf: "disk_wf d" and nodes: "d_nodes d' = filter (\<lambda>e. fst e \<notin> T) (d_nodes d)"
    and closed: "\<And>a k. a \<in> T \<Longrightarrow> prefix a k \<Longrightarrow> node_at d k \<noteq> None \<Longrightarrow> k \<in> T" and root: "[] \<notin> T"
  shows "disk_wf d'"
proof -
  have "node_at d' = (\<lambda>k. if k \<in> T then None else node_at d k)"
    using root by (auto simp: node_at_def nodes map_of_filter_keys fun_eq_iff)
  then have "tree_ok (node_at d')" using tree_ok_remove [OF disk_wfD(3) [OF wf] root] closed by auto
  then show ?thesis using disk_wfD(1,2) [OF wf] nodes
    by (auto simp: disk_wf_def distinct_map_filter)
qed

text \<open>A call that makes folders only: everything else is kept.\<close>

definition grows :: "disk \<Rightarrow> disk \<Rightarrow> bool" where
  "grows d d' \<longleftrightarrow> same_system d d' \<and>
     (\<forall>k. node_at d' k = node_at d k \<or> node_at d k = None \<and> node_at d' k = Some Folder)"

lemma grows_refl [simp]: "grows d d"
  by (simp add: grows_def)

lemma grows_trans: "grows a b \<Longrightarrow> grows b c \<Longrightarrow> grows a c"
  unfolding grows_def by metis

lemma grows_keeps: "grows d d' \<Longrightarrow> keeps_folders d d'"
  unfolding grows_def keeps_folders_def by (metis option.distinct(1))

lemma growsD: "grows d d' \<Longrightarrow> node_at d k = Some v \<Longrightarrow> node_at d' k = Some v"
  unfolding grows_def by (metis option.distinct(1))

lemma grows_locate: "grows d d' \<Longrightarrow> locate d p = Inr n \<Longrightarrow> locate d' p = Inr n"
  by (rule locate_mono) (auto simp: grows_def intro: grows_keeps [unfolded grows_def])

lemma stat_Folder: "is_dir d p \<Longrightarrow> \<exists>n. locate d p = Inr n \<and> node_at d n = Some Folder"
  by (auto simp: is_dir_def stat_def res_bind_Inr_iff split: sum.splits inode.splits option.splits if_splits)

lemma fs_mkdir_iff:
  "fs_mkdir d p = (r, d') \<longleftrightarrow>
     (\<exists>e. r = Inl e \<and> d' = d \<and> fs_mkdir d p = (Inl e, d)) \<or>
     (\<exists>n. r = Inr () \<and> locate d p = Inr n \<and> node_at d n = None \<and> sys d (SysMkdir n) = Inr () \<and>
        d' = set_node n Folder d)"
  by (auto simp: fs_mkdir_def split: sum.split if_split)

lemma fs_mkdir_cases:
  assumes "fs_mkdir d p = (r, d')"
  obtains e where "r = Inl e" "d' = d"
  | n where "r = Inr ()" "locate d p = Inr n" "node_at d n = None" "sys d (SysMkdir n) = Inr ()" "d' = set_node n Folder d"
  using assms fs_mkdir_iff by meson

lemma fs_mkdir_effect:
  assumes "fs_mkdir d p = (r, d')"
  shows "grows d d'" and "disk_wf d \<Longrightarrow> disk_wf d'"
proof -
  show "grows d d'" using assms
  proof (cases rule: fs_mkdir_cases)
    case (2 n)
    then have "n \<noteq> []" by auto
    then show ?thesis using 2 by (simp add: grows_def)
  qed simp
  show "disk_wf d'" if "disk_wf d" using assms
  proof (cases rule: fs_mkdir_cases)
    case (2 n)
    then have "free_place (node_at d) n" using locate_place [OF that 2(2)] by auto
    then show ?thesis using disk_wf_set [OF that] 2 by blast
  qed (use that in simp)
qed

lemma settle_cases: "settle p (r, d) = (r', d') \<Longrightarrow> d' = d \<and> (r' = r \<or> is_dir d p \<and> r' = Inr ())"
  by (auto simp: settle_def split: sum.splits if_splits)

lemma create_dir_all_induct:
  assumes "fs_create_dir_all d p = (r, d')"
    and refl: "\<And>d. R d d" and mk: "\<And>d p r d'. fs_mkdir d p = (r, d') \<Longrightarrow> R d d'"
    and trans: "\<And>a b c. R a b \<Longrightarrow> R b c \<Longrightarrow> R a c"
  shows "R d d'"
  using assms(1)
proof (induction d p arbitrary: r d' rule: fs_create_dir_all.induct)
  case (1 d p)
  obtain r1 d1 where m: "fs_mkdir d p = (r1, d1)" by fastforce
  note step = mk [OF m]
  show ?case
  proof (cases "p = [] \<or> r1 \<noteq> Inl NotFound \<or> parent p = None")
    case True
    then have "d' = d \<or> d' = d1" using "1.prems" m
      by (subst (asm) fs_create_dir_all.simps)
         (auto simp: settle_def split: if_splits sum.splits os_error.splits option.splits)
    then show ?thesis using refl step by auto
  next
    case False
    then obtain q where q: "p \<noteq> []" "r1 = Inl NotFound" "parent p = Some q" by auto
    obtain r2 d2 where c: "fs_create_dir_all d1 q = (r2, d2)" by fastforce
    have up: "R d1 d2" using "1.IH" q m c by auto
    show ?thesis
    proof (cases r2)
      case (Inl e)
      then show ?thesis using "1.prems" q m c up step trans
        by (subst (asm) fs_create_dir_all.simps) auto
    next
      case (Inr u)
      obtain r3 d3 where m3: "fs_mkdir d2 p = (r3, d3)" by fastforce
      have "d' = d3" using "1.prems" q m c Inr m3
        by (subst (asm) fs_create_dir_all.simps) (auto dest: settle_cases)
      then show ?thesis using up step mk [OF m3] trans by metis
    qed
  qed
qed

lemma create_dir_all_grows: "fs_create_dir_all d p = (r, d') \<Longrightarrow> grows d d'"
  by (rule create_dir_all_induct) (auto intro: fs_mkdir_effect(1) grows_trans)

lemma create_dir_all_wf: "fs_create_dir_all d p = (r, d') \<Longrightarrow> disk_wf d \<Longrightarrow> disk_wf d'"
  by (rule create_dir_all_induct [of d p r d' "\<lambda>d d'. disk_wf d \<longrightarrow> disk_wf d'", rule_format])
     (auto intro: fs_mkdir_effect(2))

lemma create_dir_all_located:
  assumes "locate d p = Inr n"
  shows "fs_create_dir_all d p = settle p (fs_mkdir d p)"
proof -
  have "p \<noteq> []" using assms by (auto simp: locate_def)
  moreover have "fst (fs_mkdir d p) \<noteq> Inl NotFound"
    using assms by (auto simp: fs_mkdir_def sys_def split: option.splits if_splits sum.splits)
  ultimately show ?thesis
    by (subst fs_create_dir_all.simps) (cases "fs_mkdir d p"; auto split: sum.splits os_error.splits)
qed

lemma settle_mkdir_ok:
  assumes "settle p (fs_mkdir d p) = (Inr u, d')"
  shows "\<exists>n. locate d' p = Inr n \<and> node_at d' n = Some Folder"
proof -
  obtain r1 d1 where m: "fs_mkdir d p = (r1, d1)" by fastforce
  from m show ?thesis
  proof (cases rule: fs_mkdir_cases)
    case (1 e)
    then have "d' = d1" "is_dir d1 p" using assms m by (auto simp: settle_def split: if_splits)
    then show ?thesis using stat_Folder by blast
  next
    case (2 n)
    then have "n \<noteq> []" by auto
    moreover have "d' = d1" using assms m 2 by (simp add: settle_def)
    moreover have "locate d1 p = Inr n" using grows_locate [OF fs_mkdir_effect(1) [OF m]] 2 by blast
    ultimately show ?thesis using 2 by auto
  qed
qed

lemma create_dir_all_ok:
  assumes ok: "fs_create_dir_all d p = (Inr u, d')" and "p \<noteq> []"
  shows "\<exists>n. locate d' p = Inr n \<and> node_at d' n = Some Folder"
proof -
  obtain r1 d1 where m: "fs_mkdir d p = (r1, d1)" by fastforce
  show ?thesis
  proof (cases "r1 = Inl NotFound")
    case False
    then have "settle p (fs_mkdir d p) = (Inr u, d')" using ok assms(2) m
      by (subst (asm) fs_create_dir_all.simps) (auto split: sum.split_asm os_error.split_asm)
    then show ?thesis by (rule settle_mkdir_ok)
  next
    case True
    then obtain q where q: "parent p = Some q" using ok assms(2) m
      by (subst (asm) fs_create_dir_all.simps) (auto split: option.split_asm)
    obtain r2 d2 where c: "fs_create_dir_all d1 q = (r2, d2)" by fastforce
    have "settle p (fs_mkdir d2 p) = (Inr u, d')" using ok assms(2) m True q c
      by (subst (asm) fs_create_dir_all.simps) (auto split: sum.split_asm)
    then show ?thesis by (rule settle_mkdir_ok)
  qed
qed

lemma set_node_twice [simp]: "set_node n v (set_node n w d) = set_node n v d"
  by (simp add: set_node_def update_last)

lemma open_write_cases:
  assumes "open_write d p = (r, d')"
  obtains e where "r = Inl e" "d' = d"
  | n where "r = Inr n" "locate d p = Inr n" "node_at d n \<noteq> Some Folder" "n \<noteq> []"
      "d' = set_node n (Regular (Text [])) d"
proof -
  have "(\<exists>e. r = Inl e \<and> d' = d) \<or> (\<exists>n. r = Inr n \<and> locate d p = Inr n \<and> node_at d n \<noteq> Some Folder \<and>
      d' = set_node n (Regular (Text [])) d)"
    using assms unfolding open_write_def by (auto split: sum.split_asm if_split_asm) metis+
  then show thesis using that node_at_root by metis
qed

lemma write_out_cases:
  assumes "write_out d n x = (r, d')"
  obtains e where "r = Inl e" "d' = set_node n (Regular (part_of (d_partial d n) x)) d"
  | "r = Inr ()" "d' = set_node n (Regular x) d"
proof (cases "sys d (SysWrite n)")
  case (Inl e)
  then show ?thesis using assms that(1) [of e] by (simp add: write_out_def)
next
  case (Inr u)
  then show ?thesis using assms that(2) by (simp add: write_out_def)
qed

lemma fs_write_cases:
  assumes "fs_write d p data = (r, d')"
  obtains (refused) e where "r = Inl e" "d' = d"
  | (partial) e n where "r = Inl e" "locate d p = Inr n" "node_at d n \<noteq> Some Folder" "n \<noteq> []"
      "d' = set_node n (Regular (Text (take (d_partial d n) data))) d"
  | (ok) n where "r = Inr ()" "locate d p = Inr n" "node_at d n \<noteq> Some Folder" "n \<noteq> []"
      "d' = set_node n (Regular (Text data)) d"
proof -
  obtain r1 d1 where o1: "open_write d p = (r1, d1)" by fastforce
  from o1 show thesis
  proof (cases rule: open_write_cases)
    case (1 e)
    then show ?thesis using assms o1 refused [of e] by (simp add: fs_write_def)
  next
    case (2 n)
    then have "write_out d1 n (Text data) = (r, d')" using assms o1 by (simp add: fs_write_def)
    then show ?thesis using 2 partial ok by (cases rule: write_out_cases) auto
  qed
qed

lemma open_read_Inr:
  assumes "open_read d p = Inr (n, node)"
  shows "locate d p = Inr n" and "node_at d n = Some node"
proof -
  obtain a y where y: "locate d p = Inr a" "node_at d a = Some y"
    using assms by (auto simp: open_read_def res_bind_Inr_iff split: option.split_asm)
  then have "a = n \<and> y = node"
    using assms by (cases y) (auto simp: open_read_def res_bind_Inr_iff split: if_split_asm)
  with y show "locate d p = Inr n" "node_at d n = Some node" by simp_all
qed

text \<open>What a copy of a file onto itself ends with is what opening for writing has left of it.\<close>

lemma fs_copy_cases:
  assumes "fs_copy d p q = (r, d')"
  obtains (refused) e where "r = Inl e" "d' = d"
  | (partial) e n m x z where "r = Inl e" "locate d p = Inr n" "node_at d n = Some (Regular x)" "locate d q = Inr m"
      "node_at d m \<noteq> Some Folder" "m \<noteq> []" "d' = set_node m (Regular z) d"
  | (ok) n m x where "r = Inr ()" "locate d p = Inr n" "node_at d n = Some (Regular x)" "locate d q = Inr m"
      "node_at d m \<noteq> Some Folder" "m \<noteq> []" "d' = set_node m (Regular (if n = m then Text [] else x)) d"
proof -
  consider e where "open_read d p = Inl e" | n where "open_read d p = Inr (n, Folder)"
    | n x where "open_read d p = Inr (n, Regular x)"
    by (metis inode.exhaust surj_pair sum.exhaust)
  then show thesis
  proof cases
    case (3 n x)
    note rd = open_read_Inr [OF 3]
    obtain r1 d1 where o1: "open_write d q = (r1, d1)" by fastforce
    from o1 show ?thesis
    proof (cases rule: open_write_cases)
      case (1 e)
      then show ?thesis using assms 3 o1 refused [of e] by (simp add: fs_copy_def)
    next
      case (2 m)
      define y where "y = (if n = m then Text [] else x)"
      have d1: "node_at d1 n = Some (Regular y)" using 2 rd by (simp add: y_def)
      show ?thesis
      proof (cases "sys d1 (SysRead n)")
        case (Inl e)
        then show ?thesis using assms 3 o1 2 d1 partial [of e n x m "Text []"] rd by (simp add: fs_copy_def)
      next
        case (Inr u)
        then have "write_out d1 m y = (r, d')" using assms 3 o1 2 d1 by (simp add: fs_copy_def)
        then show ?thesis
          using 2 rd partial [OF _ rd 2(2-4)] ok [OF _ rd 2(2-4)] by (cases rule: write_out_cases) (auto simp: y_def)
      qed
    qed
  qed (use assms refused in \<open>auto simp: fs_copy_def\<close>)
qed

lemma fs_remove_file_cases:
  assumes "fs_remove_file d p = (r, d')"
  obtains e where "r = Inl e" "d' = d"
  | n x where "r = Inr ()" "locate d p = Inr n" "node_at d n = Some (Regular x)" "n \<noteq> []" "d' = del_node n d"
proof -
  have "(\<exists>e. r = Inl e \<and> d' = d) \<or> (\<exists>n x. r = Inr () \<and> locate d p = Inr n \<and> node_at d n = Some (Regular x) \<and>
      d' = del_node n d)"
    using assms unfolding fs_remove_file_def
    by (auto split: sum.split_asm if_split_asm option.split_asm inode.split_asm) metis+
  then show thesis using that node_at_root by (metis inode.distinct(1) option.inject)
qed

section \<open>Renaming\<close>

lemma tree_ok_move:
  assumes ok: "tree_ok M" and src: "M n \<noteq> None" and un: "\<not> prefix n m" "\<not> prefix m n"
    and dst: "M m \<noteq> None \<or> free_place M m" and bare: "\<And>k. strict_prefix m k \<Longrightarrow> M k = None"
  shows "tree_ok (move_spec n m M)"
proof -
  let ?M = "move_spec n m M"
  have ne: "m \<noteq> []" "n \<noteq> []" using un by auto
  have out: "?M q = M q" if "\<not> prefix m q" "\<not> prefix n q" for q using that by (simp add: move_spec_def)
  have inn: "?M (m @ r) = M (n @ r)" if "M (n @ r) \<noteq> None" for r
    using that by (simp add: move_spec_def transplant_def)
  have up: "M (butlast m) = Some Folder" "\<exists>x. last m = Normal x \<and> valid_name x"
    using dst tree_okD(2,3) [OF ok _ ne(1)] by (auto simp: free_place_def)
  have "?M (butlast q) = Some Folder \<and> (\<exists>x. last q = Normal x \<and> valid_name x)"
    if q: "?M q \<noteq> None" "q \<noteq> []" for q
  proof (cases "\<exists>r. q = m @ r \<and> M (n @ r) \<noteq> None")
    case True
    then obtain r where r: "q = m @ r" "M (n @ r) \<noteq> None" by auto
    show ?thesis
    proof (cases "r = []")
      case True
      have "\<not> prefix m (butlast m)" using ne(1) by (metis append_butlast_last_id not_Cons_self2 prefix_order.eq_iff prefixeq_butlast self_append_conv)
      moreover have "\<not> prefix n (butlast m)" using un(1) prefixeq_butlast prefix_order.trans by blast
      ultimately show ?thesis using True r up out by simp
    next
      case False
      then have "M (n @ butlast r) = Some Folder" "\<exists>x. last r = Normal x \<and> valid_name x"
        using tree_okD(2,3) [OF ok r(2)] by (simp_all add: butlast_append)
      then show ?thesis using False r(1) inn [of "butlast r"] by (simp add: butlast_append)
    qed
  next
    case False
    then have n: "\<not> prefix n q" "M q \<noteq> None"
      using q(1) by (auto simp: move_spec_def transplant_def prefix_def split: if_splits)
    have "\<not> prefix m (butlast q)"
    proof
      assume "prefix m (butlast q)"
      then have "strict_prefix m q" using q(2)
        by (metis append_butlast_last_id prefix_order.dual_order.strict_trans2 prefix_snocD strict_prefixI' append_Nil2 prefix_order.le_less_trans)
      then show False using bare n(2) by auto
    qed
    moreover have "\<not> prefix n (butlast q)" using n(1) prefixeq_butlast prefix_order.trans by blast
    ultimately show ?thesis using out tree_okD(2,3) [OF ok n(2) q(2)] by simp
  qed
  moreover have "?M [] = Some Folder" using out [of "[]"] ne tree_okD(1) [OF ok] by simp
  ultimately show ?thesis by (simp add: tree_ok_def)
qed

text \<open>A folder without entries has nothing beneath it.\<close>

lemma map_of_node_at: "disk_wf d \<Longrightarrow> map_of (d_nodes d) k = (if k = [] then None else node_at d k)"
  using disk_wfD(2) [of d] by (auto simp: node_at_def map_of_eq_None_iff)

lemma key_iff: "disk_wf d \<Longrightarrow> k \<in> fst ` set (d_nodes d) \<longleftrightarrow> k \<noteq> [] \<and> node_at d k \<noteq> None"
  by (metis map_of_eq_None_iff map_of_node_at)

lemma entries_iff:
  "disk_wf d \<Longrightarrow> k \<in> set (entries_of (d_nodes d) n) \<longleftrightarrow> (\<exists>x. k = n @ [Normal x] \<and> valid_name x \<and> node_at d k \<noteq> None)"
  using tree_okD(3) [OF disk_wfD(3), of d k] by (auto simp: entries_of_iff key_iff)

lemma reached_through_entry:
  assumes wf: "disk_wf d" and "node_at d (n @ c # r) \<noteq> None"
  shows "n @ [c] \<in> set (entries_of (d_nodes d) n)"
proof -
  have "node_at d (n @ [c]) \<noteq> None"
    using tree_ok_above [OF disk_wfD(3) [OF wf], of "n @ [c]" r] assms(2) by (cases "r = []") auto
  then show ?thesis by (simp add: entries_of_iff key_iff [OF wf])
qed

lemma no_entries_bare:
  "disk_wf d \<Longrightarrow> entries_of (d_nodes d) m = [] \<Longrightarrow> strict_prefix m k \<Longrightarrow> node_at d k = None"
  by (metis empty_iff list.set(1) reached_through_entry strict_prefixE')

text \<open>Where a renamed node comes from.\<close>

lemma rebase_hits:
  assumes un: "\<not> prefix n m" "\<not> prefix m n" and n: "M n \<noteq> None" and q: "q \<noteq> []"
    and at_m: "\<And>k v. M k = Some v \<Longrightarrow> prefix m k \<Longrightarrow> k = m"
  shows "(\<exists>k. k \<noteq> [] \<and> k \<noteq> m \<and> M k = Some v \<and> rebase n m k = q) \<longleftrightarrow> move_spec n m M q = Some v"
proof (cases "prefix m q \<and> M (transplant m n q) \<noteq> None")
  case True
  then have pq: "prefix m q" by blast
  then have ret: "rebase n m (transplant m n q) = q"
    by (simp add: rebase_def prefix_transplant transplant_inverse)
  have "transplant m n q \<noteq> m" using un(1) prefix_transplant [of n m q] by metis
  moreover have "transplant m n q \<noteq> []" using un by (auto simp: transplant_def)
  moreover have "k = transplant m n q" if k: "rebase n m k = q" "M k = Some v" "k \<noteq> m" for k
  proof (cases "prefix n k")
    case True
    then have "q = transplant n m k" using k(1) by (simp add: rebase_def)
    then show ?thesis using True by (simp add: transplant_inverse)
  next
    case False
    then have "k = q" using k(1) by (simp add: rebase_def)
    then show ?thesis using at_m k(2,3) pq by blast
  qed
  ultimately have "(\<exists>k. k \<noteq> [] \<and> k \<noteq> m \<and> M k = Some v \<and> rebase n m k = q) \<longleftrightarrow> M (transplant m n q) = Some v"
    using ret by metis
  moreover have "move_spec n m M q = M (transplant m n q)"
    unfolding move_spec_def using True by presburger
  ultimately show ?thesis by simp
next
  case False
  have "\<not> prefix n k" if k: "rebase n m k = q" "M k = Some v" for k
  proof
    assume p: "prefix n k"
    then have eq: "q = transplant n m k" using k(1) by (simp add: rebase_def)
    have "transplant m n q = k" "prefix m q"
      unfolding eq using p by (simp_all add: transplant_inverse prefix_transplant)
    then show False using False k(2) by simp
  qed
  then have "rebase n m k = q \<and> M k = Some v \<longleftrightarrow> \<not> prefix n q \<and> k = q \<and> M q = Some v" for k
    unfolding rebase_def by metis
  then have "(\<exists>k. k \<noteq> [] \<and> k \<noteq> m \<and> M k = Some v \<and> rebase n m k = q) \<longleftrightarrow>
      \<not> prefix n q \<and> q \<noteq> m \<and> M q = Some v"
    using q by metis
  moreover have "q \<noteq> m" using False n by (auto simp: transplant_def)
  moreover have "move_spec n m M q = (if prefix n q then None else M q)"
    unfolding move_spec_def using False by presburger
  ultimately show ?thesis by simp
qed

text \<open>The moved nodes, as a map.\<close>

lemma rename_nodes:
  assumes wf: "disk_wf d" and n: "node_at d n \<noteq> None" and un: "\<not> prefix n m" "\<not> prefix m n"
    and bare: "\<And>k. strict_prefix m k \<Longrightarrow> node_at d k = None"
    and d': "d' = d\<lparr>d_nodes := map (\<lambda>e. (rebase n m (fst e), snd e)) (filter (\<lambda>e. fst e \<noteq> m) (d_nodes d))\<rparr>"
  shows "node_at d' = move_spec n m (node_at d)" and "distinct (map fst (d_nodes d'))" and "[] \<notin> fst ` set (d_nodes d')"
proof -
  let ?es = "filter (\<lambda>e. fst e \<noteq> m) (d_nodes d)"
  have ne: "m \<noteq> []" "n \<noteq> []" using un by auto
  have at_m: "k = m" if "node_at d k = Some v" "prefix m k" for k v
    using bare that unfolding strict_prefix_def by (metis option.distinct(1))
  have keys: "k \<noteq> []" "k \<noteq> m" "node_at d k \<noteq> None" "\<not> prefix m k" if k: "k \<in> fst ` set ?es" for k
  proof -
    have "fst ` set ?es = fst ` set (d_nodes d) - {m}" by auto
    then show "k \<noteq> []" "k \<noteq> m" "node_at d k \<noteq> None" using k key_iff [OF wf, of k] by blast+
    then show "\<not> prefix m k" using at_m by blast
  qed
  have inj: "inj_on (rebase n m) (fst ` set ?es)"
  proof (rule inj_onI)
    fix a b assume "a \<in> fst ` set ?es" "b \<in> fst ` set ?es" "rebase n m a = rebase n m b"
    then show "a = b" using keys(4) [of a] keys(4) [of b]
      by (auto simp: rebase_def transplant_def prefix_def split: if_splits)
  qed
  have names: "map fst (d_nodes d') = map (rebase n m) (map fst ?es)" by (simp add: d' comp_def)
  show dist': "distinct (map fst (d_nodes d'))"
    unfolding names distinct_map [of "rebase n m"] using disk_wfD(1) [OF wf] inj by (simp add: distinct_map_filter)
  show root: "[] \<notin> fst ` set (d_nodes d')"
  proof
    assume "[] \<in> fst ` set (d_nodes d')"
    then have "[] \<in> set (map (rebase n m) (map fst ?es))" unfolding names [symmetric] by simp
    then have "[] \<in> rebase n m ` fst ` set ?es" unfolding set_map .
    then obtain k where "[] = rebase n m k" "k \<in> fst ` set ?es" by (rule imageE)
    then show False using keys(1) [of k] ne by (cases "prefix n k") (simp_all add: rebase_def transplant_def)
  qed
  have "(k, v) \<in> set ?es \<longleftrightarrow> k \<noteq> [] \<and> k \<noteq> m \<and> node_at d k = Some v" for k v
    using map_of_node_at [OF wf, of k] map_of_eq_Some_iff [OF disk_wfD(1) [OF wf], of k v]
    by (auto split: if_split_asm)
  then have "map_of (d_nodes d') q = Some v \<longleftrightarrow> (\<exists>k. k \<noteq> [] \<and> k \<noteq> m \<and> node_at d k = Some v \<and> rebase n m k = q)" for q v
    unfolding map_of_eq_Some_iff [OF dist'] by (auto simp: d' image_iff)
  then have "node_at d' q = Some v \<longleftrightarrow> move_spec n m (node_at d) q = Some v" if "q \<noteq> []" for q v
    using rebase_hits [of n m "node_at d" q v, OF un n that at_m] that by (simp add: node_at_def)
  moreover have "node_at d' [] = move_spec n m (node_at d) []" using ne by (simp add: move_spec_def)
  ultimately show "node_at d' = move_spec n m (node_at d)" by (metis ext not_Some_eq)
qed

text \<open>Renaming, of a file or of a folder, is the move of the folder operations' contract.\<close>

lemma disk_wf_rename:
  assumes wf: "disk_wf d" and "node_at d n \<noteq> None" "\<not> prefix n m" "\<not> prefix m n" "place d m"
    and "\<And>k. strict_prefix m k \<Longrightarrow> node_at d k = None"
    and d': "d' = d\<lparr>d_nodes := map (\<lambda>e. (rebase n m (fst e), snd e)) (filter (\<lambda>e. fst e \<noteq> m) (d_nodes d))\<rparr>"
  shows "disk_wf d'"
  using rename_nodes [OF assms(1-4,6) d'] tree_ok_move [OF disk_wfD(3) [OF wf] assms(2-6)]
  by (simp add: disk_wf_def)

lemma fs_rename_cases:
  assumes "fs_rename d p q = (r, d')"
  obtains (refused) e where "r = Inl e" "d' = d"
  | (same) n where "r = Inr ()" "locate d p = Inr n" "locate d q = Inr n" "node_at d n \<noteq> None" "d' = d"
  | (single) n m x where "r = Inr ()" "locate d p = Inr n" "locate d q = Inr m" "node_at d n = Some (Regular x)"
      "node_at d m \<noteq> Some Folder" "n \<noteq> m" "d' = set_node m (Regular x) (del_node n d)"
  | (folder) n m where "r = Inr ()" "locate d p = Inr n" "locate d q = Inr m" "node_at d n = Some Folder"
      "\<not> prefix n m" "entries_of (d_nodes d) m = []" "m \<noteq> []" "\<nexists>x. node_at d m = Some (Regular x)"
      "d' = d\<lparr>d_nodes := map (\<lambda>e. (rebase n m (fst e), snd e)) (filter (\<lambda>e. fst e \<noteq> m) (d_nodes d))\<rparr>"
proof (cases "\<exists>e. fs_rename d p q = (Inl e, d)")
  case True
  then show ?thesis using refused assms by auto
next
  case False
  then obtain n m v where nm: "locate d p = Inr n" "locate d q = Inr m" "node_at d n = Some v"
    by (auto simp: fs_rename_def split: sum.split_asm option.split_asm)
  show ?thesis
  proof (cases v)
    case Folder
    note run = assms False nm Folder
    show ?thesis
    proof (cases "n = m")
      case True
      then show ?thesis using run same [of n] by (simp add: fs_rename_def)
    next
      case ne: False
      have m: "\<not> prefix n m" "\<nexists>x. node_at d m = Some (Regular x)" "entries_of (d_nodes d) m = []" "m \<noteq> []"
        using run ne by (auto simp: fs_rename_def split: if_split_asm option.split_asm inode.split_asm)
      have "sys d (SysRename n m) = Inr ()"
      proof (cases "sys d (SysRename n m)")
        case (Inl e)
        then have "fs_rename d p q = (Inl e, d)"
          using nm Folder ne m by (auto simp: fs_rename_def split: option.split inode.split)
        then show ?thesis using False by blast
      qed simp
      then show ?thesis
        using run ne m folder [OF _ nm(1,2)] by (auto simp: fs_rename_def split: option.split_asm inode.split_asm)
    qed
  next
    case (Regular x)
    note run = assms False nm Regular
    show ?thesis
    proof (cases "n = m")
      case True
      moreover have "\<not> (wants_folder p \<or> wants_folder q)"
        using False nm Regular True by (auto simp: fs_rename_def)
      ultimately show ?thesis using run same [of n] by (simp add: fs_rename_def)
    next
      case ne: False
      have w: "\<not> (wants_folder p \<or> wants_folder q)" using False nm Regular by (auto simp: fs_rename_def)
      then have "node_at d m \<noteq> Some Folder" using False nm Regular by (auto simp: fs_rename_def)
      then have eq: "fs_rename d p q = (case sys d (SysRename n m) of Inl e \<Rightarrow> (Inl e, d)
          | Inr _ \<Rightarrow> (Inr (), set_node m (Regular x) (del_node n d)))"
        using nm Regular ne w by (simp add: fs_rename_def)
      then have "r = Inr ()" "d' = set_node m (Regular x) (del_node n d)"
        using assms False by (auto split: sum.split_asm)
      then show ?thesis using single nm Regular ne \<open>node_at d m \<noteq> Some Folder\<close> by simp
    qed
  qed
qed

lemma fs_rename_ok:
  assumes wf: "disk_wf d" and ok: "fs_rename d p q = (Inr u, d')"
  shows "\<exists>n m. locate d p = Inr n \<and> locate d q = Inr m \<and> node_at d n \<noteq> None \<and>
      (n = m \<and> d' = d \<or> unrelated n m \<and> node_at d' = move_spec n m (node_at d))"
    and "disk_wf d'"
proof -
  have "(\<exists>n m. locate d p = Inr n \<and> locate d q = Inr m \<and> node_at d n \<noteq> None \<and>
      (n = m \<and> d' = d \<or> unrelated n m \<and> node_at d' = move_spec n m (node_at d))) \<and> disk_wf d'"
    using ok
  proof (cases rule: fs_rename_cases)
    case (single n m x)
    have pl: "place d m" using locate_place [OF wf single(3)] .
    have ne: "n \<noteq> []" "m \<noteq> []" using single by auto
    have un1: "\<not> prefix n m"
    proof
      assume "prefix n m"
      then have "strict_prefix n m" using single(6) by (simp add: strict_prefix_def)
      moreover have "node_at d m = None" using tree_ok_regular [OF disk_wfD(3) [OF wf] single(4) calculation] .
      moreover have "node_at d (butlast m) = Some Folder" using pl calculation(2) by (simp add: free_place_def)
      ultimately show False
        using tree_ok_regular [OF disk_wfD(3) [OF wf] single(4), of "butlast m"] single(4) ne(2)
        by (metis append_butlast_last_id inode.distinct(1) option.distinct(1) option.inject prefix_snocD
            prefix_snoc strict_prefix_def)
    qed
    have bare: "node_at d k = None" if "strict_prefix m k" for k
      using tree_ok_regular [OF disk_wfD(3) [OF wf]] tree_ok_free [OF disk_wfD(3) [OF wf]] single(5) that
      by (metis inode.exhaust option.exhaust strict_prefix_def)
    have un2: "\<not> prefix m n" using bare [of n] single(4,6) by (auto simp: strict_prefix_def)
    have below: "node_at d k = None" if "strict_prefix n k" for k
      using tree_ok_regular [OF disk_wfD(3) [OF wf] single(4) that] .
    have spec: "node_at d' = move_spec n m (node_at d)"
    proof
      fix k
      show "node_at d' k = move_spec n m (node_at d) k"
        using single ne un1 un2 below [of "transplant m n k"] below [of k] bare [of k]
        by (auto simp: move_spec_def transplant_def strict_prefix_def prefix_def) blast+
    qed
    have "tree_ok (node_at d')"
      unfolding spec using tree_ok_move [OF disk_wfD(3) [OF wf] _ un1 un2 pl bare] single(4) by simp
    moreover have "distinct (map fst (d_nodes d'))"
      using disk_wfD(1) [OF wf] unfolding single(7) by (simp add: set_node_def del_node_def distinct_update distinct_delete)
    moreover have "[] \<notin> fst ` set (d_nodes d')"
      using disk_wfD(2) [OF wf] ne unfolding single(7)
      by (auto simp: set_node_def del_node_def dom_update AList.delete_eq)
    ultimately show ?thesis using single spec un1 un2 by (simp add: disk_wf_def unrelated_def)
  next
    case (folder n m)
    have bare: "node_at d k = None" if "strict_prefix m k" for k
      using no_entries_bare [OF wf folder(6) that] .
    have un2: "\<not> prefix m n" using bare [of n] folder(4,5) by (auto simp: strict_prefix_def)
    have n: "node_at d n \<noteq> None" using folder(4) by simp
    show ?thesis
      using rename_nodes(1) [OF wf n folder(5) un2 bare folder(9)]
        disk_wf_rename [OF wf n folder(5) un2 locate_place [OF wf folder(3)] bare folder(9)] folder un2
      by (simp add: unrelated_def)
  qed (use wf in auto)
  then show "\<exists>n m. locate d p = Inr n \<and> locate d q = Inr m \<and> node_at d n \<noteq> None \<and>
      (n = m \<and> d' = d \<or> unrelated n m \<and> node_at d' = move_spec n m (node_at d))"
    and "disk_wf d'" by auto
qed

end
