(* ===== verification/Disk_Trees.thy ===== *)
theory Disk_Trees
  imports Disk_Facts
begin

text \<open>
  Facts about whole subtrees: removing one takes its nodes from the leaves up, so that what is left
  when the system refuses a step is still a tree; and making a path of folders succeeds where no
  file is in the way.
\<close>

section \<open>Removing a subtree\<close>

fun erased :: "sys_call list \<Rightarrow> node_path list" where
  "erased [] = []"
| "erased (SysUnlink n # cs) = n # erased cs"
| "erased (SysRmdir n # cs) = n # erased cs"
| "erased (_ # cs) = erased cs"

lemma erased_append [simp]: "erased (a @ b) = erased a @ erased b"
  by (induction a rule: erased.induct) simp_all

lemma erased_concat: "erased (concat xss) = concat (map erased xss)"
  by (induction xss) simp_all

lemma del_node_filter: "del_node n d = d\<lparr>d_nodes := filter (\<lambda>e. fst e \<noteq> n) (d_nodes d)\<rparr>"
  by (auto simp: del_node_def AList.delete_eq intro!: arg_cong [of _ _ "\<lambda>es. d\<lparr>d_nodes := es\<rparr>"] filter_cong)

text \<open>A plan that stops has done an initial part of itself.\<close>

lemma run_plan_effect:
  "run_plan d cs = (r, d') \<Longrightarrow> SysUnlink [] \<notin> set cs \<Longrightarrow>
    \<exists>k. d' = d\<lparr>d_nodes := filter (\<lambda>e. fst e \<notin> set (take k (erased cs))) (d_nodes d)\<rparr> \<and>
      [] \<notin> set (take k (erased cs)) \<and> (r = Inr () \<longrightarrow> take k (erased cs) = erased cs)"
proof (induction cs arbitrary: d)
  case (Cons c cs)
  show ?case
  proof (cases "sys d c")
    case (Inl e)
    then show ?thesis using Cons.prems by (intro exI [of _ 0]) auto
  next
    case (Inr u)
    have go: "run_plan (case c of SysUnlink n \<Rightarrow> del_node n d | SysRmdir n \<Rightarrow> del_node n d | _ \<Rightarrow> d) cs = (r, d')"
      using Cons.prems(1) Inr by simp
    show ?thesis
    proof (cases "\<exists>n. c = SysUnlink n \<or> c = SysRmdir n")
      case True
      then obtain n where n: "c = SysUnlink n \<or> c = SysRmdir n" by blast
      have "n \<noteq> []" using n Inr Cons.prems(2) by (auto simp: sys_def)
      moreover have run: "run_plan (del_node n d) cs = (r, d')" using go n by auto
      moreover obtain k where
        "d' = (del_node n d)\<lparr>d_nodes := filter (\<lambda>e. fst e \<notin> set (take k (erased cs))) (d_nodes (del_node n d))\<rparr>"
        "[] \<notin> set (take k (erased cs))" "r = Inr () \<longrightarrow> take k (erased cs) = erased cs"
        using Cons.IH [OF run] Cons.prems(2) by auto
      moreover have "erased (c # cs) = n # erased cs" using n by auto
      ultimately show ?thesis
        by (intro exI [of _ "Suc k"]) (auto simp: del_node_filter conj_commute intro: filter_cong)
    next
      case False
      then have "run_plan d cs = (r, d')" using go by (cases c) auto
      moreover have "erased (c # cs) = erased cs" using False by (cases c) auto
      ultimately show ?thesis using Cons.IH [of d] Cons.prems(2) by simp
    qed
  qed
qed auto

lemma sorted_siblings:
  assumes "distinct xs" and "\<forall>k \<in> set xs. \<exists>c. k = n @ [c]"
    and "\<forall>k \<in> set xs. sorted_wrt (\<lambda>a b. \<not> prefix a b) (g k) \<and> (\<forall>a \<in> set (g k). prefix k a)"
  shows "sorted_wrt (\<lambda>a b. \<not> prefix a b) (concat (map g xs))"
  using assms
proof (induction xs)
  case (Cons k xs)
  have "\<not> prefix a b" if "a \<in> set (g k)" "j \<in> set xs" "b \<in> set (g j)" for a b j
  proof
    assume "prefix a b"
    then have "prefix k b" "prefix j b" using that Cons.prems(3) by (auto intro: prefix_order.trans)
    then have "k = j" using Cons.prems(2) that(2) by (auto simp: prefix_def)
    then show False using Cons.prems(1) that(2) by simp
  qed
  then show ?case using Cons by (auto simp: sorted_wrt_append)
qed simp

lemma rm_plan_targets:
  assumes wf: "disk_wf d"
  shows "node_at d n \<noteq> None \<Longrightarrow>
    set (erased (rm_plan (d_nodes d) n)) = {k. prefix n k \<and> node_at d k \<noteq> None} \<and>
    sorted_wrt (\<lambda>a b. \<not> prefix a b) (erased (rm_plan (d_nodes d) n)) \<and>
    SysUnlink [] \<notin> set (rm_plan (d_nodes d) n)"
proof (induction "d_nodes d" n rule: rm_plan.induct)
  case (1 n)
  let ?es = "d_nodes d"
  show ?case
  proof (cases "\<exists>x. map_of ?es n = Some (Regular x)")
    case True
    then obtain x where x: "map_of ?es n = Some (Regular x)" by blast
    then have n: "n \<noteq> []" "node_at d n = Some (Regular x)"
      using map_of_node_at [OF wf, of n] by (auto split: if_splits)
    have "k = n" if "prefix n k" "node_at d k \<noteq> None" for k
      using tree_ok_regular [OF disk_wfD(3) [OF wf] n(2)] that unfolding strict_prefix_def by metis
    then have "{k. prefix n k \<and> node_at d k \<noteq> None} = {n}" using n by auto
    then show ?thesis using x n by (subst (1 2 3) rm_plan.simps) simp
  next
    case False
    let ?xs = "entries_of ?es n"
    have plan: "rm_plan ?es n = SysReadDir n # concat (map (rm_plan ?es) ?xs) @ [SysRmdir n]"
      using False by (subst rm_plan.simps) (auto split: option.split inode.split)
    have fo: "map_of ?es n = Some Folder \<or> map_of ?es n = None" using False by (metis inode.exhaust option.exhaust)
    have IH: "set (erased (rm_plan ?es k)) = {j. prefix k j \<and> node_at d j \<noteq> None}"
      "sorted_wrt (\<lambda>a b. \<not> prefix a b) (erased (rm_plan ?es k))" "SysUnlink [] \<notin> set (rm_plan ?es k)"
      if k: "k \<in> set ?xs" for k
      using "1.hyps" fo entries_iff [OF wf, of k n] k by auto
    have gone: "erased (rm_plan ?es n) = concat (map (\<lambda>k. erased (rm_plan ?es k)) ?xs) @ [n]"
      by (simp add: plan erased_concat comp_def)
    have "\<exists>k \<in> set ?xs. prefix k j" if j: "strict_prefix n j" "node_at d j \<noteq> None" for j
    proof -
      obtain c r where "j = n @ c # r" using j(1) by (rule strict_prefixE')
      then show ?thesis using reached_through_entry [OF wf, of n c r] j(2) by (auto intro!: bexI [of _ "n @ [c]"])
    qed
    moreover have "strict_prefix n k" if "k \<in> set ?xs" for k using that by (auto simp: entries_of_iff strict_prefix_def)
    ultimately have "(\<Union>k \<in> set ?xs. {j. prefix k j \<and> node_at d j \<noteq> None}) = {j. strict_prefix n j \<and> node_at d j \<noteq> None}"
      by (auto intro: prefix_order.less_le_trans)
    then have set: "set (erased (rm_plan ?es n)) = {j. prefix n j \<and> node_at d j \<noteq> None}"
      using IH(1) "1.prems" by (auto simp: gone strict_prefix_def)
    have "distinct ?xs" using disk_wfD(1) [OF wf] by (simp add: entries_of_def)
    then have "sorted_wrt (\<lambda>a b. \<not> prefix a b) (concat (map (\<lambda>k. erased (rm_plan ?es k)) ?xs))"
      using IH by (intro sorted_siblings [of _ n]) (auto simp: entries_of_iff)
    moreover have "\<not> prefix a n" if "k \<in> set ?xs" "a \<in> set (erased (rm_plan ?es k))" for a k
      using that IH(1) [OF that(1)] by (auto simp: entries_of_iff prefix_def)
    ultimately have "sorted_wrt (\<lambda>a b. \<not> prefix a b) (erased (rm_plan ?es n))"
      by (auto simp: gone sorted_wrt_append)
    then show ?thesis using set IH(3) by (simp add: plan)
  qed
qed

lemma sorted_take_closed:
  assumes "sorted_wrt (\<lambda>a b. \<not> P a b) ts" and "a \<in> set (take k ts)" and "x \<in> set ts" and "P a x"
  shows "x \<in> set (take k ts)"
proof -
  have "sorted_wrt (\<lambda>a b. \<not> P a b) (take k ts @ drop k ts)" using assms(1) by simp
  then have "x \<notin> set (drop k ts)" using assms(2,4) unfolding sorted_wrt_append by blast
  then show ?thesis using assms(3) by (metis Un_iff append_take_drop_id set_append)
qed

text \<open>The effect of removing a folder: on success all of it goes; stopped half-way, what is left of it is
  still a tree, and nothing outside it is touched.\<close>

lemma remove_dir_all_effect:
  assumes wf: "disk_wf d" and run: "fs_remove_dir_all d p = (r, d')"
  shows "disk_wf d'" and "same_system d d'"
    and "locate d p = Inr n \<Longrightarrow> \<not> prefix n k \<Longrightarrow> node_at d' k = node_at d k"
    and "node_at d' k = node_at d k \<or> node_at d' k = None"
    and "r = Inr () \<Longrightarrow> \<exists>n. locate d p = Inr n \<and> node_at d n = Some Folder \<and> n \<noteq> [] \<and> node_at d' = delete_spec n (node_at d)"
proof -
  have *: "disk_wf d' \<and> same_system d d' \<and> (locate d p = Inr n \<longrightarrow> \<not> prefix n k \<longrightarrow> node_at d' k = node_at d k) \<and>
      (node_at d' k = node_at d k \<or> node_at d' k = None) \<and>
      (r = Inr () \<longrightarrow> (\<exists>n. locate d p = Inr n \<and> node_at d n = Some Folder \<and> n \<noteq> [] \<and> node_at d' = delete_spec n (node_at d)))"
  proof (cases "\<exists>n. locate d p = Inr n \<and> node_at d n = Some Folder")
    case False
    then have "d' = d" "r \<noteq> Inr ()"
      using run by (auto simp: fs_remove_dir_all_def split: sum.split_asm option.split_asm inode.split_asm)
    then show ?thesis using wf by simp
  next
    case True
    then obtain m where m: "locate d p = Inr m" "node_at d m = Some Folder" by blast
    let ?ts = "erased (rm_plan (d_nodes d) m)"
    note T = rm_plan_targets [OF wf, of m]
    have "run_plan d (rm_plan (d_nodes d) m) = (r, d')" using run m by (simp add: fs_remove_dir_all_def)
    then obtain i where i: "d' = d\<lparr>d_nodes := filter (\<lambda>e. fst e \<notin> set (take i ?ts)) (d_nodes d)\<rparr>"
      "[] \<notin> set (take i ?ts)" "r = Inr () \<longrightarrow> take i ?ts = ?ts"
      using run_plan_effect T m(2) by blast
    let ?G = "set (take i ?ts)"
    have sub: "?G \<subseteq> {k. prefix m k \<and> node_at d k \<noteq> None}" using T m(2) set_take_subset by fastforce
    have nodes: "d_nodes d' = filter (\<lambda>e. fst e \<notin> ?G) (d_nodes d)" by (simp add: i(1))
    have closed: "k \<in> ?G" if "a \<in> ?G" "prefix a k" "node_at d k \<noteq> None" for a k
    proof (rule sorted_take_closed [of prefix ?ts a i k])
      have "prefix m a" using sub that(1) by blast
      then show "k \<in> set ?ts" using T m(2) that by (auto intro: prefix_order.trans)
    qed (use T m(2) that in auto)
    have at: "node_at d' k = (if k \<in> ?G then None else node_at d k)" for k
      using i(2) by (auto simp: node_at_def nodes map_of_filter_keys)
    have "r = Inr () \<longrightarrow> m \<noteq> [] \<and> node_at d' = delete_spec m (node_at d)"
    proof
      assume "r = Inr ()"
      then have G: "?G = {k. prefix m k \<and> node_at d k \<noteq> None}" using i(3) T m(2) by simp
      then have "m \<in> ?G" using m(2) by simp
      then have "m \<noteq> []" using i(2) by blast
      moreover have "node_at d' k = delete_spec m (node_at d) k" for k unfolding at G by (simp add: delete_spec_def)
      ultimately show "m \<noteq> [] \<and> node_at d' = delete_spec m (node_at d)" by blast
    qed
    moreover have "disk_wf d'" by (rule disk_wf_erase [OF wf nodes closed i(2)])
    moreover have "locate d p = Inr n \<longrightarrow> \<not> prefix n k \<longrightarrow> node_at d' k = node_at d k"
      using at sub m by auto
    ultimately show ?thesis using m at by (simp add: i(1))
  qed
  show "disk_wf d'" "same_system d d'" using * by simp_all
  show "locate d p = Inr n \<Longrightarrow> \<not> prefix n k \<Longrightarrow> node_at d' k = node_at d k" using * by simp
  show "node_at d' k = node_at d k \<or> node_at d' k = None" using * by simp
  show "r = Inr () \<Longrightarrow> \<exists>n. locate d p = Inr n \<and> node_at d n = Some Folder \<and> n \<noteq> [] \<and> node_at d' = delete_spec n (node_at d)"
    using * by simp
qed

section \<open>Making a path of folders\<close>

text \<open>A path without \<open>..\<close> or a leading \<open>.\<close>, and the place it names.\<close>

fun is_normal :: "path_component \<Rightarrow> bool" where
  "is_normal (Normal x) = True"
| "is_normal _ = False"

definition plain_path :: "string \<Rightarrow> bool" where
  "plain_path p \<longleftrightarrow> list_all is_normal (if has_root p then tl (components p) else components p)"

definition plain_place :: "disk \<Rightarrow> string \<Rightarrow> node_path" where
  "plain_place d p = (if has_root p then tl (components p) else d_cwd d @ components p)"

definition no_file_on :: "disk \<Rightarrow> node_path \<Rightarrow> bool" where
  "no_file_on d n \<longleftrightarrow> (\<forall>k x. prefix k n \<longrightarrow> node_at d k \<noteq> Some (Regular x))"

definition healthy :: "disk \<Rightarrow> bool" where
  "healthy d \<longleftrightarrow> disk_wf d \<and> node_at d (d_cwd d) = Some Folder \<and> d_fault d = (\<lambda>_. None)"

lemma healthyD:
  "healthy d \<Longrightarrow> disk_wf d" "healthy d \<Longrightarrow> node_at d (d_cwd d) = Some Folder"
  "healthy d \<Longrightarrow> c \<noteq> SysRmdir [] \<Longrightarrow> sys d c = Inr ()"
  by (simp_all add: healthy_def sys_def)

lemma components_root: "has_root p \<Longrightarrow> components p = RootDir # tl (components p)"
  by (simp add: components_def head_components_def)

lemma walk_names:
  assumes wf: "disk_wf d"
  shows "node_at d cur = Some Folder \<Longrightarrow> list_all is_normal ns \<Longrightarrow>
    \<forall>k x. strict_prefix k (cur @ ns) \<longrightarrow> node_at d k \<noteq> Some (Regular x) \<Longrightarrow>
    walk d cur ns = (if node_at d (butlast (cur @ ns)) = Some Folder then Inr (cur @ ns) else Inl NotFound)"
proof (induction ns arbitrary: cur)
  case Nil
  then have "node_at d (butlast cur) = Some Folder"
    using tree_okD(2) [OF disk_wfD(3) [OF wf], of cur] by (cases "cur = []") auto
  then show ?case by simp
next
  case (Cons c ns)
  obtain x where c: "c = Normal x" using Cons.prems(2) by (cases c) auto
  show ?case
  proof (cases "ns = []")
    case True
    then show ?thesis using Cons.prems(1) c by (simp add: butlast_append)
  next
    case False
    then have "strict_prefix (cur @ [c]) (cur @ c # ns)" by (simp add: strict_prefix_def prefix_def)
    then consider "node_at d (cur @ [c]) = Some Folder" | "node_at d (cur @ [c]) = None"
      using Cons.prems(3) by (metis inode.exhaust option.exhaust)
    then show ?thesis
    proof cases
      case 1
      then show ?thesis using Cons.IH [OF 1] Cons.prems c by simp
    next
      case 2
      have "prefix (cur @ [c]) (butlast (cur @ c # ns))" using False by (simp add: butlast_append prefix_def)
      then have "node_at d (butlast (cur @ c # ns)) = None" using tree_ok_free [OF disk_wfD(3) [OF wf] 2] by blast
      moreover have "walk d (cur @ [c]) ns = Inl NotFound"
        using 2 False Cons.prems(2) by (cases ns) (auto simp: walk_not_root elim!: is_normal.elims(2))
      ultimately show ?thesis using Cons.prems(1) c by simp
    qed
  qed
qed

lemma locate_plain:
  assumes h: "healthy d" and p: "plain_path p" "p \<noteq> []"
    and free: "\<And>k x. strict_prefix k (plain_place d p) \<Longrightarrow> node_at d k \<noteq> Some (Regular x)"
  shows "locate d p = (if node_at d (butlast (plain_place d p)) = Some Folder then Inr (plain_place d p) else Inl NotFound)"
proof (cases "has_root p")
  case True
  then have "locate d p = walk d [] (tl (components p))"
    using p(2) components_root [of p] by (simp add: locate_def) (metis walk.simps(2))
  then show ?thesis
    using walk_names [OF healthyD(1) [OF h], of "[]" "tl (components p)"] p(1) free True
    by (simp add: plain_path_def plain_place_def)
next
  case False
  then show ?thesis
    using walk_names [OF healthyD(1,2) [OF h], of "components p"] p free
    by (simp add: plain_path_def plain_place_def locate_def)
qed

lemma parent_plain:
  assumes "parent p = Some q" and "plain_path p"
  shows "plain_path q" and "plain_place d q = butlast (plain_place d p)"
proof -
  have c: "components q = butlast (components p)" "components p \<noteq> []" using components_parent [OF assms(1)] .
  have ex: "\<not> (components p = [RootDir])" using parent_None [of p] assms(1) by auto
  have "has_root q \<longleftrightarrow> has_root p"
  proof (cases "has_root p")
    case True
    then have "components q = RootDir # butlast (tl (components p))"
      using c ex components_root [OF True] by (metis butlast.simps(2) list.sel(3))
    then show ?thesis using True by (auto simp: components_def head_components_def piece_component_def split: if_splits)
  next
    case False
    then have "RootDir \<notin> set (components p)"
      by (auto simp: components_def head_components_def piece_component_def)
    then show ?thesis using False c(1) components_root [of q] by (metis in_set_butlastD list.set_intros(1))
  qed
  then show "plain_path q" "plain_place d q = butlast (plain_place d p)"
    using assms(2) c ex components_root [of p]
    by (auto simp: plain_path_def plain_place_def list_all_iff butlast_tl [symmetric] butlast_append dest: in_set_butlastD)
qed

lemma create_dir_all_total:
  assumes "healthy d" and "plain_path p" and "no_file_on d (plain_place d p)"
  shows "\<exists>d'. fs_create_dir_all d p = (Inr (), d') \<and>
    (\<forall>k. node_at d' k = (if prefix k (plain_place d p) then Some Folder else node_at d k))"
  using assms(2,3)
proof (induction "length (components p)" arbitrary: p rule: less_induct)
  case less
  let ?n = "plain_place d p"
  note h = assms(1) and wf = healthyD(1) [OF assms(1)]
  have above: "node_at d k = Some Folder" if km: "prefix k m" "node_at d m = Some Folder" for k m
  proof -
    obtain rest where "m = k @ rest" using km(1) by (auto simp: prefix_def)
    then show ?thesis using tree_ok_above [OF disk_wfD(3) [OF wf], of k rest] km(2) by (cases "rest = []") auto
  qed
  have no: "node_at d k \<noteq> Some (Regular x)" if "strict_prefix k ?n" for k x
    using less.prems(2) that by (simp add: no_file_on_def strict_prefix_def)
  consider (nil) "p = []" | (found) "p \<noteq> []" "locate d p = Inr ?n" "?n = [] \<or> node_at d (butlast ?n) = Some Folder"
    | (missing) "p \<noteq> []" "locate d p = Inl NotFound" "node_at d (butlast ?n) \<noteq> Some Folder"
    using locate_plain [OF h less.prems(1) _ no] by metis
  then show ?case
  proof cases
    case nil
    then show ?thesis using above healthyD(2) [OF h]
      by (auto simp: fs_create_dir_all.simps [of d "[]"] plain_place_def)
  next
    case found
    note mk = create_dir_all_located [OF found(2)]
    show ?thesis
    proof (cases "node_at d ?n = None")
      case True
      then have "?n \<noteq> []" by auto
      moreover have "node_at d k = Some Folder" if "strict_prefix k ?n" for k
        using found(3) above [of k "butlast ?n"] that calculation
        by (metis append_butlast_last_id prefix_snoc strict_prefix_def)
      ultimately show ?thesis
        using True found mk healthyD(3) [OF h, of "SysMkdir ?n"]
        by (auto simp: fs_mkdir_def settle_def strict_prefix_def)
    next
      case False
      then have f: "node_at d ?n = Some Folder" using less.prems(2) by (metis inode.exhaust no_file_on_def not_Some_eq prefix_order.refl)
      then have "is_dir d p" using found healthyD(3) [OF h, of "SysStat ?n"] by (simp add: is_dir_def stat_def)
      then show ?thesis using False found mk above f by (auto simp: fs_mkdir_def settle_def)
    qed
  next
    case missing
    have "components p \<noteq> [RootDir]"
    proof
      assume "components p = [RootDir]"
      then have "has_root p" by (auto simp: components_def head_components_def piece_component_def split: if_splits)
      then show False using missing(3) \<open>components p = [RootDir]\<close> by (simp add: plain_place_def)
    qed
    then obtain q where q: "parent p = Some q" using missing(1) parent_None [of p] by (cases "parent p") auto
    note pl = parent_plain(1) [OF q less.prems(1)] parent_plain(2) [OF q less.prems(1), of d]
    have "no_file_on d (plain_place d q)"
      using less.prems(2) pl(2) unfolding no_file_on_def by (metis prefix_order.trans prefixeq_butlast)
    moreover have "length (components q) < length (components p)" using components_parent [OF q] by simp
    ultimately obtain d1 where d1: "fs_create_dir_all d q = (Inr (), d1)"
      "\<And>k. node_at d1 k = (if prefix k (butlast ?n) then Some Folder else node_at d k)"
      using less.hyps [of q] pl by metis
    have g: "grows d d1" and wf1: "disk_wf d1"
      using create_dir_all_grows [OF d1(1)] create_dir_all_wf [OF d1(1) wf] .
    have h1: "healthy d1" using h g wf1 growsD [OF g healthyD(2) [OF h]] by (simp add: healthy_def grows_def)
    have pp: "plain_place d1 p = ?n" using g by (simp add: plain_place_def grows_def)
    have "?n \<noteq> []" using missing(3) by (metis butlast.simps(1) node_at_root)
    then have ne: "?n \<noteq> []" "node_at d ?n = None"
      using missing(3) tree_okD(2) [OF disk_wfD(3) [OF wf], of ?n] by blast+
    have "locate d1 p = Inr ?n"
      using locate_plain [OF h1 less.prems(1) missing(1), unfolded pp] d1(2) less.prems(2)
      by (auto simp: no_file_on_def strict_prefix_def)
    moreover have "node_at d1 ?n = None"
      using ne d1(2) by (metis append_butlast_last_id not_Cons_self2 prefix_order.eq_iff prefixeq_butlast self_append_conv)
    moreover have "settle p (fs_mkdir d1 p) = (Inr (), set_node ?n Folder d1)"
      using calculation healthyD(3) [OF h1, of "SysMkdir ?n"] by (simp add: fs_mkdir_def settle_def)
    moreover have "fs_mkdir d p = (Inl NotFound, d)" using missing(2) by (simp add: fs_mkdir_def)
    ultimately have "fs_create_dir_all d p = (Inr (), set_node ?n Folder d1)"
      using q d1(1) missing(1) by (subst fs_create_dir_all.simps) simp
    moreover have "prefix k ?n \<longleftrightarrow> prefix k (butlast ?n) \<or> k = ?n" for k
      using ne(1) by (metis append_butlast_last_id prefix_snoc)
    ultimately show ?thesis using ne(1) d1(2) by auto
  qed
qed

end
