(* ===== verification/Disk_Engine.thy ===== *)
theory Disk_Engine
  imports Disk_Trees
begin

text \<open>
  The disk engine: \<open>engines/blocking_io/disk.rs\<close>, \<open>files/blocking_io/disk.rs\<close> and
  \<open>folders/blocking_io/disk.rs\<close> over \<open>Disk_Fs\<close>. The engine has no state of its own, so the state of the
  operations is the disk. The two functions that walk a tree by its paths, \<open>collect_files\<close> and
  \<open>copy_dir_all\<close>, take the depth they may recurse to; \<open>None\<close> is that it was not enough.
\<close>

section \<open>Files\<close>

fun os_message :: "os_error \<Rightarrow> string" where
  "os_message NotFound = ''No such file or directory (os error 2)''"
| "os_message NotADirectory = ''Not a directory (os error 20)''"
| "os_message IsADirectory = ''Is a directory (os error 21)''"
| "os_message AlreadyExists = ''File exists (os error 17)''"
| "os_message DirectoryNotEmpty = ''Directory not empty (os error 39)''"
| "os_message InvalidInput = ''Invalid argument (os error 22)''"
| "os_message InvalidData = ''stream did not contain valid UTF-8''"
| "os_message (Refused m) = m"

definition io_error :: "string \<Rightarrow> os_error \<Rightarrow> file_error" where
  "io_error path e = Io path (os_message e)"

text \<open>\<open>map_err\<close> on a call that has changed the disk.\<close>

definition map_io :: "string \<Rightarrow> (os_error + 'a) \<times> disk \<Rightarrow> (file_error + 'a) \<times> disk" where
  "map_io path out = (map_err (io_error path) (fst out), snd out)"

definition disk_read_file :: "disk \<Rightarrow> file_path \<Rightarrow> file_error + ustring" where
  "disk_read_file d path = map_err (io_error (full_path path)) (fs_read_to_string d (full_path path))"

definition disk_exists :: "disk \<Rightarrow> file_path \<Rightarrow> bool" where
  "disk_exists d path = is_file d (full_path path)"

definition disk_write_file :: "disk \<Rightarrow> file_path \<Rightarrow> ustring \<Rightarrow> (file_error + unit) \<times> disk" where
  "disk_write_file d path data =
     st_bind (case parent (full_path path) of
         None \<Rightarrow> (Inr (), d)
       | Some q \<Rightarrow> map_io q (fs_create_dir_all d q))
       (\<lambda>_ d. map_io (full_path path) (fs_write d (full_path path) data))"

definition disk_delete_file :: "disk \<Rightarrow> file_path \<Rightarrow> (file_error + unit) \<times> disk" where
  "disk_delete_file d path = map_io (full_path path) (fs_remove_file d (full_path path))"

definition disk_move_file :: "disk \<Rightarrow> file_path \<Rightarrow> file_path \<Rightarrow> (file_error + unit) \<times> disk" where
  "disk_move_file d from to = map_io (full_path from) (fs_rename d (full_path from) (full_path to))"

definition disk_copy_file :: "disk \<Rightarrow> file_path \<Rightarrow> file_path \<Rightarrow> (file_error + unit) \<times> disk" where
  "disk_copy_file d from to = map_io (full_path from) (fs_copy d (full_path from) (full_path to))"

section \<open>Folders\<close>

definition entry_rel :: "string \<Rightarrow> string \<Rightarrow> string" where
  "entry_rel root entry = (case strip_prefix entry root of None \<Rightarrow> entry | Some rel \<Rightarrow> rel)"

definition disk_typed_file :: "string \<Rightarrow> string \<Rightarrow> file_error + file_path" where
  "disk_typed_file root entry = build_file root (entry_rel root entry)"

definition disk_typed_folder :: "string \<Rightarrow> string \<Rightarrow> file_error + folder_path" where
  "disk_typed_folder root entry = build_folder root (entry_rel root entry)"

text \<open>One level of a listing: the entries that pass the test, typed.\<close>

fun list_entries :: "(string \<Rightarrow> bool) \<Rightarrow> (string \<Rightarrow> file_error + 'p) \<Rightarrow> string \<Rightarrow> (os_error + string) list \<Rightarrow>
    file_error + 'p list" where
  "list_entries P typed folder [] = Inr []"
| "list_entries P typed folder (Inl e # es) = Inl (io_error folder e)"
| "list_entries P typed folder (Inr name # es) =
     (let entry_path = push folder name in
      if P entry_path
      then res_bind (typed entry_path) (\<lambda>p. res_bind (list_entries P typed folder es) (\<lambda>ps. Inr (p # ps)))
      else list_entries P typed folder es)"

definition disk_child_files :: "disk \<Rightarrow> folder_path \<Rightarrow> file_error + file_path list" where
  "disk_child_files d path =
     (let root = root_path path; folder = full_path path in
      res_bind (map_err (io_error folder) (fs_read_dir d folder))
        (list_entries (is_file d) (disk_typed_file root) folder))"

definition disk_child_folders :: "disk \<Rightarrow> folder_path \<Rightarrow> file_error + folder_path list" where
  "disk_child_folders d path =
     (let root = root_path path; folder = full_path path in
      res_bind (map_err (io_error folder) (fs_read_dir d folder))
        (list_entries (is_dir d) (disk_typed_folder root) folder))"

text \<open>The loop of \<open>collect_files\<close>, with the recursive call as an argument; the accumulator is what has
  been found so far.\<close>

fun collect_entries :: "(string \<Rightarrow> file_path list \<Rightarrow> (file_error + file_path list) option) \<Rightarrow> disk \<Rightarrow> string \<Rightarrow>
    string \<Rightarrow> (os_error + string) list \<Rightarrow> file_path list \<Rightarrow> (file_error + file_path list) option" where
  "collect_entries rec d root dir [] out = Some (Inr out)"
| "collect_entries rec d root dir (Inl e # es) out = Some (Inl (io_error dir e))"
| "collect_entries rec d root dir (Inr name # es) out =
     (let entry_path = push dir name in
      if is_dir d entry_path then
        (case rec entry_path out of
           None \<Rightarrow> None
         | Some (Inl e) \<Rightarrow> Some (Inl e)
         | Some (Inr out) \<Rightarrow> collect_entries rec d root dir es out)
      else if is_file d entry_path then
        (case disk_typed_file root entry_path of
           Inl e \<Rightarrow> Some (Inl e)
         | Inr f \<Rightarrow> collect_entries rec d root dir es (out @ [f]))
      else collect_entries rec d root dir es out)"

fun collect_files :: "nat \<Rightarrow> disk \<Rightarrow> string \<Rightarrow> string \<Rightarrow> file_path list \<Rightarrow> (file_error + file_path list) option" where
  "collect_files 0 d root dir out = None"
| "collect_files (Suc depth) d root dir out =
     (case fs_read_dir d dir of
        Inl e \<Rightarrow> Some (Inl (io_error dir e))
      | Inr es \<Rightarrow> collect_entries (collect_files depth d root) d root dir es out)"

definition disk_all_child_files :: "nat \<Rightarrow> disk \<Rightarrow> folder_path \<Rightarrow> (file_error + file_path list) option" where
  "disk_all_child_files depth d path = collect_files depth d (root_path path) (full_path path) []"

definition disk_create_folder :: "disk \<Rightarrow> folder_path \<Rightarrow> (file_error + unit) \<times> disk" where
  "disk_create_folder d path = map_io (full_path path) (fs_create_dir_all d (full_path path))"

definition disk_folder_exists :: "disk \<Rightarrow> folder_path \<Rightarrow> bool" where
  "disk_folder_exists d path = is_dir d (full_path path)"

definition disk_delete_folder :: "disk \<Rightarrow> folder_path \<Rightarrow> (file_error + unit) \<times> disk" where
  "disk_delete_folder d path = map_io (full_path path) (fs_remove_dir_all d (full_path path))"

definition disk_move_folder :: "disk \<Rightarrow> folder_path \<Rightarrow> folder_path \<Rightarrow> (file_error + unit) \<times> disk" where
  "disk_move_folder d from to = map_io (full_path from) (fs_rename d (full_path from) (full_path to))"

fun copy_entries :: "(string \<Rightarrow> string \<Rightarrow> disk \<Rightarrow> ((file_error + unit) \<times> disk) option) \<Rightarrow> string \<Rightarrow> string \<Rightarrow>
    (os_error + string) list \<Rightarrow> disk \<Rightarrow> ((file_error + unit) \<times> disk) option" where
  "copy_entries rec src dst [] d = Some (Inr (), d)"
| "copy_entries rec src dst (Inl e # es) d = Some (Inl (io_error src e), d)"
| "copy_entries rec src dst (Inr name # es) d =
     (let entry_path = push src name; destination = push dst name in
      (case (if is_dir d entry_path then rec entry_path destination d
             else Some (map_io entry_path (fs_copy d entry_path destination))) of
         None \<Rightarrow> None
       | Some (Inl e, d) \<Rightarrow> Some (Inl e, d)
       | Some (Inr _, d) \<Rightarrow> copy_entries rec src dst es d))"

fun copy_dir_all :: "nat \<Rightarrow> string \<Rightarrow> string \<Rightarrow> disk \<Rightarrow> ((file_error + unit) \<times> disk) option" where
  "copy_dir_all 0 src dst d = None"
| "copy_dir_all (Suc depth) src dst d =
     (case map_io dst (fs_create_dir_all d dst) of
        (Inl e, d) \<Rightarrow> Some (Inl e, d)
      | (Inr _, d) \<Rightarrow>
          (case fs_read_dir d src of
             Inl e \<Rightarrow> Some (Inl (io_error src e), d)
           | Inr es \<Rightarrow> copy_entries (copy_dir_all depth) src dst es d))"

definition disk_copy_folder :: "nat \<Rightarrow> disk \<Rightarrow> folder_path \<Rightarrow> folder_path \<Rightarrow> ((file_error + unit) \<times> disk) option" where
  "disk_copy_folder depth d from to = copy_dir_all depth (full_path from) (full_path to) d"

section \<open>Every operation keeps the tree\<close>

lemma map_io_eq: "map_io path out = (r, d') \<longleftrightarrow> (\<exists>r0. out = (r0, d') \<and> r = map_err (io_error path) r0)"
  by (cases out) (auto simp: map_io_def)

lemma map_io_Inr [simp]: "map_io path out = (Inr a, d') \<longleftrightarrow> out = (Inr a, d')"
  by (cases out) (auto simp: map_io_def map_err_Inr_iff)

lemma map_io_pair [simp]: "map_io path (r, d) = (map_err (io_error path) r, d)"
  by (simp add: map_io_def)

lemma snd_map_io [simp]: "snd (map_io path out) = snd out"
  by (simp add: map_io_def)

lemma fs_write_wf: "fs_write d p x = (r, d') \<Longrightarrow> disk_wf d \<Longrightarrow> disk_wf d'"
  using locate_place [of d p] by (elim fs_write_cases)
    (auto intro!: disk_wf_set, (metis inode.exhaust)+)

lemma fs_copy_wf: "fs_copy d p q = (r, d') \<Longrightarrow> disk_wf d \<Longrightarrow> disk_wf d'"
  using locate_place [of d q] by (elim fs_copy_cases)
    (auto intro!: disk_wf_set, (metis inode.exhaust)+)

lemma fs_remove_file_wf:
  assumes run: "fs_remove_file d p = (r, d')" and wf: "disk_wf d"
  shows "disk_wf d'"
  using run
proof (cases rule: fs_remove_file_cases)
  case (2 n x)
  have "d_nodes d' = filter (\<lambda>e. fst e \<notin> {n}) (d_nodes d)" using 2 by (simp add: del_node_filter)
  moreover have "k \<in> {n}" if "a \<in> {n}" "prefix a k" "node_at d k \<noteq> None" for a k
    using tree_ok_regular [OF disk_wfD(3) [OF wf] 2(3)] that unfolding strict_prefix_def by (metis singletonD singletonI)
  ultimately show ?thesis using disk_wf_erase [OF wf, of d' "{n}"] 2(4) by simp
qed (use wf in simp)

lemma fs_rename_wf: "fs_rename d p q = (r, d') \<Longrightarrow> disk_wf d \<Longrightarrow> disk_wf d'"
  using fs_rename_ok(2) [of d p q _ d'] by (cases r) (auto elim: fs_rename_cases)

lemma copy_entries_inv:
  assumes "\<And>p q d r d'. rec p q d = Some (r, d') \<Longrightarrow> I d \<Longrightarrow> I d'"
    and "\<And>p q d r d'. fs_copy d p q = (r, d') \<Longrightarrow> I d \<Longrightarrow> I d'"
  shows "copy_entries rec src dst es d = Some (r, d') \<Longrightarrow> I d \<Longrightarrow> I d'"
proof (induction es arbitrary: d)
  case (Cons entry es)
  show ?case
  proof (cases entry)
    case (Inl e)
    then show ?thesis using Cons.prems by simp
  next
    case (Inr name)
    let ?step = "if is_dir d (push src name) then rec (push src name) (push dst name) d
        else Some (map_io (push src name) (fs_copy d (push src name) (push dst name)))"
    obtain r1 d1 where s: "?step = Some (r1, d1)"
      using Cons.prems(1) Inr by (auto simp: Let_def split: option.split_asm)
    have "I d1" using s Cons.prems(2) assms by (auto simp: map_io_eq split: if_split_asm)
    then show ?thesis using Cons.IH [of d1] Cons.prems(1) Inr s by (cases r1) (simp_all add: Let_def)
  qed
qed simp

lemma copy_dir_all_wf: "copy_dir_all depth src dst d = Some (r, d') \<Longrightarrow> disk_wf d \<Longrightarrow> disk_wf d'"
proof (induction depth arbitrary: src dst d r d')
  case (Suc depth)
  obtain r1 d1 where c: "fs_create_dir_all d dst = (r1, d1)" by fastforce
  note wf1 = create_dir_all_wf [OF c Suc.prems(2)]
  show ?case
  proof (cases "\<exists>es. r1 = Inr () \<and> fs_read_dir d1 src = Inr es")
    case True
    then obtain es where "copy_entries (copy_dir_all depth) src dst es d1 = Some (r, d')"
      using Suc.prems(1) c by (auto simp: map_io_def)
    then show ?thesis
      by (rule copy_entries_inv [where I = disk_wf, rotated 2]) (auto intro: Suc.IH fs_copy_wf wf1)
  next
    case False
    then show ?thesis using Suc.prems(1) c wf1 by (cases r1) (auto simp: map_io_def split: sum.split_asm)
  qed
qed simp

section \<open>Where the system refuses nothing\<close>

lemma sys_kept [simp]: "sys (set_node n v d) c = sys d c" "sys (del_node n d) c = sys d c"
  by (simp_all add: sys_def)

lemma healthy_sys:
  assumes "healthy d"
  shows "sys d (SysStat n) = Inr ()" "sys d (SysOpenRead n) = Inr ()" "sys d (SysRead n) = Inr ()"
    "sys d (SysOpenWrite n) = Inr ()" "sys d (SysWrite n) = Inr ()" "sys d (SysUnlink n) = Inr ()"
    "sys d (SysRename n m) = Inr ()" "sys d (SysReadDir n) = Inr ()" "sys d (SysNextEntry n) = Inr ()"
  using healthyD(3) [OF assms] by simp_all

lemma stat_healthy:
  "healthy d \<Longrightarrow> locate d p = Inr n \<Longrightarrow> \<not> wants_folder p \<Longrightarrow>
    stat d p = (case node_at d n of None \<Rightarrow> Inl NotFound | Some v \<Rightarrow> Inr v)"
  by (simp add: stat_def healthy_sys split: option.split inode.split)

lemma is_file_healthy:
  "healthy d \<Longrightarrow> locate d p = Inr n \<Longrightarrow> \<not> wants_folder p \<Longrightarrow> is_file d p \<longleftrightarrow> (\<exists>x. node_at d n = Some (Regular x))"
  by (simp add: is_file_def stat_healthy split: option.split inode.split)

lemma is_dir_healthy: "healthy d \<Longrightarrow> locate d p = Inr n \<Longrightarrow> is_dir d p \<longleftrightarrow> node_at d n = Some Folder"
  by (simp add: is_dir_def stat_def healthy_sys split: option.split inode.split)

lemma open_read_healthy:
  "healthy d \<Longrightarrow> locate d p = Inr n \<Longrightarrow> node_at d n = Some (Regular x) \<Longrightarrow> \<not> wants_folder p \<Longrightarrow>
    open_read d p = Inr (n, Regular x)"
  by (simp add: open_read_def healthy_sys)

lemma open_write_healthy:
  "healthy d \<Longrightarrow> locate d p = Inr n \<Longrightarrow> node_at d n \<noteq> Some Folder \<Longrightarrow> \<not> wants_folder p \<Longrightarrow>
    open_write d p = (Inr n, set_node n (Regular (Text [])) d)"
  by (simp add: open_write_def healthy_sys)

lemma fs_write_healthy:
  "healthy d \<Longrightarrow> locate d p = Inr n \<Longrightarrow> node_at d n \<noteq> Some Folder \<Longrightarrow> \<not> wants_folder p \<Longrightarrow>
    fs_write d p x = (Inr (), set_node n (Regular (Text x)) d)"
  by (simp add: fs_write_def open_write_healthy write_out_def healthy_sys)

lemma fs_copy_healthy:
  assumes "healthy d" and "locate d p = Inr n" "node_at d n = Some (Regular x)" "\<not> wants_folder p"
    and "locate d q = Inr m" "node_at d m \<noteq> Some Folder" "\<not> wants_folder q"
  shows "fs_copy d p q = (Inr (), set_node m (Regular (if n = m then Text [] else x)) d)"
proof -
  have "m \<noteq> []" using assms(6) by auto
  then show ?thesis
    using assms by (simp add: fs_copy_def open_read_healthy open_write_healthy write_out_def healthy_sys)
qed

end
