(* ===== verification/Disk_Copy.thy ===== *)
theory Disk_Copy
  imports Disk_Engine
begin

text \<open>
  Copying a folder on disk: the recursion of \<open>copy_dir_all\<close> ends when source and destination are
  unrelated, writes nothing outside the destination whatever the system refuses, and when it
  returns \<open>Ok\<close> has laid the source over the destination, which is what the folder operations promise.
\<close>

section \<open>One entry\<close>

text \<open>No file of one tree lies where the other has a folder.\<close>

definition trees_fit :: "node_path \<Rightarrow> node_path \<Rightarrow> (node_path \<Rightarrow> inode option) \<Rightarrow> bool" where
  "trees_fit n m M \<longleftrightarrow> (\<forall>r. M (n @ r) \<noteq> None \<longrightarrow> M (m @ r) \<noteq> None \<longrightarrow> (M (n @ r) = Some Folder \<longleftrightarrow> M (m @ r) = Some Folder))"

text \<open>What the copy of the subtree \<open>n\<close> to \<open>m\<close> does, whether or not it succeeds.\<close>

definition copies :: "node_path \<Rightarrow> node_path \<Rightarrow> disk \<Rightarrow> (file_error + unit) \<Rightarrow> disk \<Rightarrow> bool" where
  "copies n m d r d' \<longleftrightarrow> disk_wf d' \<and> same_system d d' \<and> keeps_folders d d' \<and>
     (\<forall>k. \<not> prefix m k \<longrightarrow> node_at d' k = node_at d k) \<and>
     (r = Inr () \<longrightarrow> node_at d' = copy_spec n m (node_at d)) \<and>
     (healthy d \<longrightarrow> trees_fit n m (node_at d) \<longrightarrow> r = Inr ())"

lemma unrelated_child: "unrelated n m \<Longrightarrow> unrelated (n @ [c]) (m @ [c])"
proof -
  assume un: "unrelated n m"
  have "\<not> prefix (a @ [c]) (b @ [c])" if "\<not> prefix a b" for a b
  proof
    assume "prefix (a @ [c]) (b @ [c])"
    then have "prefix a (b @ [c])" by (auto simp: prefix_def)
    then have "a = b @ [c]" using that by (simp add: prefix_snoc)
    then show False using \<open>prefix (a @ [c]) (b @ [c])\<close> by (auto simp: prefix_def)
  qed
  then show ?thesis using un by (simp add: unrelated_def)
qed

lemma trees_fit_child: "trees_fit n m M \<Longrightarrow> trees_fit (n @ [c]) (m @ [c]) M"
  unfolding trees_fit_def by (metis append.assoc)

lemma keeps_trans: "keeps_folders a b \<Longrightarrow> keeps_folders b c \<Longrightarrow> keeps_folders a c"
  by (simp add: keeps_folders_def)

lemma copy_spec_regular:
  assumes "tree_ok M" and "M k = Some (Regular x)" and "\<not> prefix l k"
  shows "copy_spec k l M = M(l \<mapsto> Regular x)"
proof
  fix q
  have below: "r = []" if "M (k @ r) = Some y" for r y
    using tree_ok_regular [OF assms(1,2), of "k @ r"] that by (auto simp: strict_prefix_def)
  show "copy_spec k l M q = (M(l \<mapsto> Regular x)) q"
    using assms(2) by (auto simp: copy_spec_def transplant_def prefix_def dest: below)
qed

lemma copies_file:
  assumes run: "fs_copy d p q = (r, d')" and wf: "disk_wf d" and at: "locate d p = Inr k" "locate d q = Inr l"
    and un: "unrelated k l" and shape: "\<not> wants_folder p" "\<not> wants_folder q"
    and live: "healthy d \<Longrightarrow> \<exists>x. node_at d k = Some (Regular x)"
  shows "copies k l d (map_err f r) d'"
proof -
  have kl: "k \<noteq> l" using un by (auto simp: unrelated_def)
  have live': "r = Inr ()" if h: "healthy d" "trees_fit k l (node_at d)"
  proof -
    obtain x where x: "node_at d k = Some (Regular x)" using live [OF h(1)] by blast
    have "node_at d l \<noteq> Some Folder"
      using h(2) x unfolding trees_fit_def by (metis append_Nil2 inode.distinct(1) option.distinct(1) option.inject)
    then show ?thesis using run fs_copy_healthy [OF h(1) at(1) x shape(1) at(2) _ shape(2)] by simp
  qed
  have "disk_wf d'" using fs_copy_wf [OF run wf] .
  moreover have "same_system d d' \<and> keeps_folders d d' \<and> (\<forall>j. \<not> prefix l j \<longrightarrow> node_at d' j = node_at d j) \<and>
      (r = Inr () \<longrightarrow> node_at d' = copy_spec k l (node_at d))"
    using run
  proof (cases rule: fs_copy_cases)
    case (ok n m x)
    then have "k = n" "l = m" using at by simp_all
    moreover have "\<not> prefix l k" using un by (simp add: unrelated_def)
    ultimately show ?thesis
      using ok kl copy_spec_regular [OF disk_wfD(3) [OF wf], of k x l] by (auto simp: keeps_folders_def)
  qed (use at in \<open>auto simp: keeps_folders_def\<close>)
  moreover have "map_err f r = Inr () \<longleftrightarrow> r = Inr ()" by (simp add: map_err_Inr_iff)
  ultimately show ?thesis using live' unfolding copies_def by blast
qed

section \<open>The loop\<close>

definition laid_over :: "node_path set \<Rightarrow> node_path \<Rightarrow> node_path \<Rightarrow> (node_path \<Rightarrow> inode option) \<Rightarrow> node_path \<Rightarrow> inode option" where
  "laid_over K n m M q =
     (if (\<exists>k \<in> K. prefix (transplant n m k) q) \<and> M (transplant m n q) \<noteq> None then M (transplant m n q) else M q)"

lemma laid_over_step:
  assumes un: "unrelated n m"
  shows "laid_over K n m (copy_spec (n @ [c]) (m @ [c]) M) = laid_over (insert (n @ [c]) K) n m M"
proof
  fix q
  have src: "copy_spec (n @ [c]) (m @ [c]) M (transplant m n q) = M (transplant m n q)"
    using un by (auto simp: copy_spec_def transplant_def unrelated_def prefix_def append_eq_append_conv2)
  have "transplant (m @ [c]) (n @ [c]) q = transplant m n q" if "prefix (m @ [c]) q"
    using that by (auto simp: transplant_def prefix_def)
  then show "laid_over K n m (copy_spec (n @ [c]) (m @ [c]) M) q = laid_over (insert (n @ [c]) K) n m M q"
    unfolding laid_over_def src by (auto simp: copy_spec_def transplant_def)
qed

lemma trees_fit_copy_spec:
  assumes un: "unrelated n m" and fit: "trees_fit n m M"
  shows "trees_fit n m (copy_spec (n @ [c]) (m @ [c]) M)"
  unfolding trees_fit_def
proof (intro allI impI)
  fix r
  let ?M = "copy_spec (n @ [c]) (m @ [c]) M"
  assume "?M (n @ r) \<noteq> None" "?M (m @ r) \<noteq> None"
  moreover have "?M (n @ r) = M (n @ r)"
    using un by (auto simp: copy_spec_def transplant_def unrelated_def prefix_def append_eq_append_conv2)
  moreover have "?M (m @ r) = M (n @ r) \<or> ?M (m @ r) = M (m @ r)"
    by (auto simp: copy_spec_def transplant_def prefix_def)
  ultimately show "(?M (n @ r) = Some Folder) = (?M (m @ r) = Some Folder)"
    using fit unfolding trees_fit_def by metis
qed

lemma laid_over_empty [simp]: "laid_over {} n m M = M"
  by (simp add: laid_over_def fun_eq_iff)

text \<open>A routine that copies any subtree of at most \<open>depth\<close> levels.\<close>

definition copier :: "nat \<Rightarrow> (string \<Rightarrow> string \<Rightarrow> disk \<Rightarrow> ((file_error + unit) \<times> disk) option) \<Rightarrow> bool" where
  "copier depth rec \<longleftrightarrow> (\<forall>k l p q d. unrelated k l \<longrightarrow> disk_wf d \<longrightarrow> locate d p = Inr k \<longrightarrow>
     node_at d k = Some Folder \<longrightarrow> locate d q = Inr l \<longrightarrow>
     (\<forall>j. prefix k j \<longrightarrow> node_at d j \<noteq> None \<longrightarrow> length j < length k + depth) \<longrightarrow>
     (\<exists>r d'. rec p q d = Some (r, d') \<and> copies k l d r d'))"

lemma copierD:
  "copier depth rec \<Longrightarrow> unrelated k l \<Longrightarrow> disk_wf d \<Longrightarrow> locate d p = Inr k \<Longrightarrow> node_at d k = Some Folder \<Longrightarrow>
    locate d q = Inr l \<Longrightarrow> \<forall>j. prefix k j \<longrightarrow> node_at d j \<noteq> None \<longrightarrow> length j < length k + depth \<Longrightarrow>
    \<exists>r d'. rec p q d = Some (r, d') \<and> copies k l d r d'"
  unfolding copier_def by blast

text \<open>The loop over the entries \<open>ks\<close> of \<open>n\<close>, where every recursive call copies a subtree.\<close>

lemma copies_entries:
  assumes un: "unrelated n m"
    and rec: "copier depth rec"
  shows "disk_wf d \<Longrightarrow> locate d src = Inr n \<Longrightarrow> node_at d n = Some Folder \<Longrightarrow>
      locate d dst = Inr m \<Longrightarrow> node_at d m = Some Folder \<Longrightarrow>
      \<forall>j. prefix n j \<longrightarrow> node_at d j \<noteq> None \<longrightarrow> length j < length n + Suc depth \<Longrightarrow>
      \<forall>k \<in> set ks. \<exists>x. k = n @ [Normal x] \<and> valid_name x \<and> node_at d k \<noteq> None \<Longrightarrow>
    \<exists>r d'. copy_entries rec src dst (map (\<lambda>k. res_bind (sys d0 (SysNextEntry k)) (\<lambda>_. Inr (entry_name (last k)))) ks) d =
        Some (r, d') \<and> disk_wf d' \<and> same_system d d' \<and> keeps_folders d d' \<and>
      (\<forall>k. \<not> prefix m k \<longrightarrow> node_at d' k = node_at d k) \<and>
      (r = Inr () \<longrightarrow> node_at d' = laid_over (set ks) n m (node_at d)) \<and>
      (healthy d0 \<longrightarrow> healthy d \<longrightarrow> trees_fit n m (node_at d) \<longrightarrow> r = Inr ())"
proof (induction ks arbitrary: d)
  case Nil
  then show ?case by (simp add: keeps_folders_def)
next
  case (Cons k ks)
  let ?es = "map (\<lambda>k. res_bind (sys d0 (SysNextEntry k)) (\<lambda>_. Inr (entry_name (last k)))) ks"
  show ?case
  proof (cases "sys d0 (SysNextEntry k)")
    case (Inl e)
    then show ?thesis using Cons.prems(1) by (auto simp: keeps_folders_def healthy_sys)
  next
    case (Inr u)
    obtain x where x: "k = n @ [Normal x]" "valid_name x" "node_at d k \<noteq> None" using Cons.prems(7) by auto
    let ?c = "Normal x" let ?l = "m @ [?c]" let ?p = "push src x" let ?q = "push dst x"
    have at: "locate d ?p = Inr k" "locate d ?q = Inr ?l"
      using locate_push [OF Cons.prems(2,3) x(2)] locate_push [OF Cons.prems(4,5) x(2)] x(1) by simp_all
    have unk: "unrelated k ?l" using unrelated_child [OF un] x(1) by simp
    let ?step = "if is_dir d ?p then rec ?p ?q d else Some (map_io ?p (fs_copy d ?p ?q))"
    have "\<exists>r1 d1. ?step = Some (r1, d1) \<and> copies k ?l d r1 d1"
    proof (cases "is_dir d ?p")
      case True
      then have "node_at d k = Some Folder" using stat_Folder [OF True] at(1) by auto
      then show ?thesis
        using copierD [OF rec unk Cons.prems(1) at(1) _ at(2)] Cons.prems(6) True x(1) by (auto simp: prefix_def)
    next
      case False
      obtain r1 d1 where c: "fs_copy d ?p ?q = (r1, d1)" by fastforce
      have "copies k ?l d (map_err (io_error ?p) r1) d1"
        using copies_file [OF c Cons.prems(1) at unk] wants_folder_push [OF x(2)] is_dir_healthy [OF _ at(1)] False x(3)
        by (metis inode.exhaust option.exhaust)
      then show ?thesis using False c by (simp add: map_io_def)
    qed
    then obtain r1 d1 where s: "?step = Some (r1, d1)" and cp: "copies k ?l d r1 d1" by blast
    have out: "node_at d1 j = node_at d j" if "\<not> prefix m j" for j
      using cp that unfolding copies_def by (metis append_prefixD)
    have run: "copy_entries rec src dst (Inr x # ?es) d =
        (case r1 of Inl e \<Rightarrow> Some (Inl e, d1) | Inr _ \<Rightarrow> copy_entries rec src dst ?es d1)"
      using s by (cases r1) (simp_all add: Let_def)
    have fit: "trees_fit n m (node_at d) \<longrightarrow> trees_fit k ?l (node_at d)" using trees_fit_child x(1) by blast
    show ?thesis
    proof (cases r1)
      case Inl: (Inl e)
      then show ?thesis using run cp out fit x(1) Inr unfolding copies_def by auto
    next
      case ok: (Inr v)
      have spec: "node_at d1 = copy_spec k ?l (node_at d)" using cp ok by (simp add: copies_def)
      have kf: "keeps_folders d d1" "same_system d d1" "disk_wf d1" using cp by (simp_all add: copies_def)
      have in_n: "\<not> prefix m j" if "prefix n j" for j
        using un that prefix_same_cases [of n j m] unfolding unrelated_def by blast
      have same: "node_at d1 j = node_at d j" if "prefix n j" for j using out in_n [OF that] .
      have "\<exists>r d'. copy_entries rec src dst ?es d1 = Some (r, d') \<and> disk_wf d' \<and> same_system d1 d' \<and> keeps_folders d1 d' \<and>
        (\<forall>k. \<not> prefix m k \<longrightarrow> node_at d' k = node_at d1 k) \<and>
        (r = Inr () \<longrightarrow> node_at d' = laid_over (set ks) n m (node_at d1)) \<and>
        (healthy d0 \<longrightarrow> healthy d1 \<longrightarrow> trees_fit n m (node_at d1) \<longrightarrow> r = Inr ())"
      proof (rule Cons.IH)
        show "locate d1 src = Inr n" "locate d1 dst = Inr m"
          using locate_mono [OF Cons.prems(2) _ kf(1)] locate_mono [OF Cons.prems(4) _ kf(1)] kf(2) by simp_all
        show "node_at d1 n = Some Folder" "node_at d1 m = Some Folder"
          using kf(1) Cons.prems(3,5) by (simp_all add: keeps_folders_def)
        show "\<forall>j. prefix n j \<longrightarrow> node_at d1 j \<noteq> None \<longrightarrow> length j < length n + Suc depth"
          using same Cons.prems(6) by metis
        show "\<forall>k \<in> set ks. \<exists>x. k = n @ [Normal x] \<and> valid_name x \<and> node_at d1 k \<noteq> None"
          using same Cons.prems(7) by (metis list.set_intros(2) prefixI)
      qed (rule kf(3))
      then obtain r d' where r: "copy_entries rec src dst ?es d1 = Some (r, d')" "disk_wf d'" "same_system d1 d'"
        "keeps_folders d1 d'" "\<forall>k. \<not> prefix m k \<longrightarrow> node_at d' k = node_at d1 k"
        "r = Inr () \<longrightarrow> node_at d' = laid_over (set ks) n m (node_at d1)"
        "healthy d0 \<longrightarrow> healthy d1 \<longrightarrow> trees_fit n m (node_at d1) \<longrightarrow> r = Inr ()" by blast
      have "healthy d1" if "healthy d" using that kf by (simp add: healthy_def keeps_folders_def)
      moreover have "trees_fit n m (node_at d1)" if "trees_fit n m (node_at d)"
        unfolding spec x(1) using trees_fit_copy_spec [OF un that] .
      moreover have "laid_over (set ks) n m (node_at d1) = laid_over (set (k # ks)) n m (node_at d)"
        unfolding spec x(1) using laid_over_step [OF un] by simp
      ultimately show ?thesis
        using r run ok out kf keeps_trans [OF kf(1) r(4)] Inr x(1) by auto
    qed
  qed
qed

section \<open>The recursion\<close>

text \<open>What one call of \<open>copy_dir_all\<close> does once its destination is there.\<close>

definition copy_body :: "nat \<Rightarrow> string \<Rightarrow> string \<Rightarrow> disk \<Rightarrow> ((file_error + unit) \<times> disk) option" where
  "copy_body depth src dst d =
     (case fs_read_dir d src of
        Inl e \<Rightarrow> Some (Inl (io_error src e), d)
      | Inr es \<Rightarrow> copy_entries (copy_dir_all depth) src dst es d)"

lemma copy_dir_all_Suc:
  "copy_dir_all (Suc depth) src dst d =
     (case fs_create_dir_all d dst of
        (Inl e, d) \<Rightarrow> Some (Inl (io_error dst e), d)
      | (Inr _, d) \<Rightarrow> copy_body depth src dst d)"
proof -
  obtain r1 d1 where "fs_create_dir_all d dst = (r1, d1)" by fastforce
  then show ?thesis by (cases r1) (simp_all add: copy_body_def map_io_def)
qed

lemma laid_over_entries:
  assumes wf: "disk_wf d" and m: "node_at d n = Some Folder" "node_at d m = Some Folder"
  shows "laid_over (set (entries_of (d_nodes d) n)) n m (node_at d) = copy_spec n m (node_at d)"
proof
  fix q
  let ?K = "set (entries_of (d_nodes d) n)" let ?t = "transplant m n q"
  show "laid_over ?K n m (node_at d) q = copy_spec n m (node_at d) q"
  proof (cases "q = m")
    case True
    have "\<not> prefix (transplant n m k) m" if "k \<in> ?K" for k
      using that by (auto simp: entries_of_iff transplant_def)
    then have "laid_over ?K n m (node_at d) q = node_at d q" using True unfolding laid_over_def by simp
    then show ?thesis using True m by (simp add: copy_spec_def transplant_def)
  next
    case False
    have "(\<exists>k \<in> ?K. prefix (transplant n m k) q) \<longleftrightarrow> prefix m q" if t: "node_at d ?t \<noteq> None"
    proof
      assume "prefix m q"
      then obtain c r where q: "q = m @ c # r" using False by (metis append_Nil2 list.exhaust prefix_def)
      then have "n @ [c] \<in> ?K" using reached_through_entry [OF wf, of n c r] t by (simp add: transplant_def)
      then show "\<exists>k \<in> ?K. prefix (transplant n m k) q"
        using q by (intro bexI [of _ "n @ [c]"]) (simp_all add: transplant_def)
    qed (auto simp: transplant_def dest: append_prefixD)
    then show ?thesis unfolding laid_over_def copy_spec_def by auto
  qed
qed

lemma copy_body_copies:
  assumes IH: "copier depth (copy_dir_all depth)"
    and un: "unrelated n m" and wf: "disk_wf d" and at: "locate d src = Inr n" "node_at d n = Some Folder"
    "locate d dst = Inr m" "node_at d m = Some Folder"
    and deep: "\<forall>j. prefix n j \<longrightarrow> node_at d j \<noteq> None \<longrightarrow> length j < length n + Suc depth"
  shows "\<exists>r d'. copy_body depth src dst d = Some (r, d') \<and> copies n m d r d'"
proof (cases "sys d (SysReadDir n)")
  case (Inl e)
  then have "copy_body depth src dst d = Some (Inl (io_error src e), d)"
    using at by (simp add: copy_body_def fs_read_dir_def)
  moreover have "\<not> healthy d" using Inl healthy_sys(8) [of d n] by auto
  ultimately show ?thesis using wf by (simp add: copies_def keeps_folders_def)
next
  case (Inr u)
  let ?ks = "entries_of (d_nodes d) n"
  have run: "copy_body depth src dst d = copy_entries (copy_dir_all depth) src dst
      (map (\<lambda>k. res_bind (sys d (SysNextEntry k)) (\<lambda>_. Inr (entry_name (last k)))) ?ks) d"
    using at Inr by (simp add: copy_body_def fs_read_dir_def)
  have "\<forall>k \<in> set ?ks. \<exists>x. k = n @ [Normal x] \<and> valid_name x \<and> node_at d k \<noteq> None"
    using entries_iff [OF wf] by blast
  note loop = copies_entries [where ?d0.0 = d, OF un IH wf at deep this]
  show ?thesis
    using loop unfolding run copies_def laid_over_entries [OF wf at(2,4)] by blast
qed

lemma copy_dir_all_step:
  assumes IH: "copier depth (copy_dir_all depth)"
    and un: "unrelated n m" and wf: "disk_wf d" and src: "locate d src = Inr n" "node_at d n = Some Folder"
    and dst: "locate d dst = Inr m"
    and deep: "\<forall>j. prefix n j \<longrightarrow> node_at d j \<noteq> None \<longrightarrow> length j < length n + Suc depth"
  shows "\<exists>r d'. copy_dir_all (Suc depth) src dst d = Some (r, d') \<and> copies n m d r d'"
proof -
  have in_n: "\<not> prefix m j" if "prefix n j" for j
    using un that prefix_same_cases [of n j m] unfolding unrelated_def by blast
  obtain r1 d1 where c: "fs_create_dir_all d dst = (r1, d1)" by fastforce
  have mk: "settle dst (fs_mkdir d dst) = (r1, d1)" using create_dir_all_located [OF dst] c by simp
  have g: "grows d d1" and wf1: "disk_wf d1" using create_dir_all_grows [OF c] create_dir_all_wf [OF c wf] .
  have same: "node_at d1 k = node_at d k" if "k \<noteq> m" for k
    using mk dst that by (cases "m = []") (auto simp: fs_mkdir_def settle_def split: sum.splits if_splits)
  show ?thesis
  proof (cases r1)
    case (Inl e)
    have "node_at d m = None \<or> node_at d m = Some Folder" if "trees_fit n m (node_at d)"
      using that src(2) unfolding trees_fit_def by (metis append_Nil2 option.distinct(1))
    then have "\<not> (healthy d \<and> trees_fit n m (node_at d))"
      using mk Inl dst is_dir_healthy [of d dst m]
      by (auto simp: fs_mkdir_def settle_def sys_def healthy_def split: if_splits)
    then have "copies n m d (Inl (io_error dst e)) d1"
      using wf1 g same grows_keeps [OF g] by (auto simp: copies_def grows_def)
    moreover have "copy_dir_all (Suc depth) src dst d = Some (Inl (io_error dst e), d1)"
      unfolding copy_dir_all_Suc using c Inl by simp
    ultimately show ?thesis by blast
  next
    case (Inr u)
    have "dst \<noteq> []" using dst by (auto simp: locate_def)
    then have dst1: "locate d1 dst = Inr m" "node_at d1 m = Some Folder"
      using create_dir_all_ok [of d dst u d1] c Inr grows_locate [OF g dst] by auto
    have src1: "locate d1 src = Inr n" "node_at d1 n = Some Folder"
      using grows_locate [OF g src(1)] growsD [OF g src(2)] .
    have "\<forall>j. prefix n j \<longrightarrow> node_at d1 j \<noteq> None \<longrightarrow> length j < length n + Suc depth"
      using deep same in_n by (metis prefix_order.refl)
    then obtain r d' where run: "copy_body depth src dst d1 = Some (r, d')" and cp: "copies n m d1 r d'"
      using copy_body_copies [OF IH un wf1 src1 dst1] by blast
    have spec: "copy_spec n m (node_at d1) = copy_spec n m (node_at d)"
    proof
      fix q
      show "copy_spec n m (node_at d1) q = copy_spec n m (node_at d) q"
        using same [of q] same [of "transplant m n q"] in_n [of "transplant m n q"] src(2)
        by (cases "q = m") (auto simp: copy_spec_def transplant_def)
    qed
    have "trees_fit n m (node_at d1)" if "trees_fit n m (node_at d)"
      using that same in_n src(2) dst1(2) unfolding trees_fit_def by (metis append_Nil2 prefixI self_append_conv src1(2))
    moreover have "healthy d1" if "healthy d"
      using that wf1 g growsD [OF g] by (auto simp: healthy_def grows_def)
    ultimately have "copies n m d r d'"
      using cp spec g same keeps_trans [OF grows_keeps [OF g]] unfolding copies_def grows_def by auto
    moreover have "copy_dir_all (Suc depth) src dst d = Some (r, d')"
      unfolding copy_dir_all_Suc using run c Inr by simp
    ultimately show ?thesis by blast
  qed
qed

lemma copy_dir_all_copies: "copier depth (copy_dir_all depth)"
proof (induction depth)
  case 0
  show ?case unfolding copier_def by (metis add_cancel_right_right less_irrefl option.distinct(1) prefix_order.refl)
next
  case (Suc depth)
  show ?case
    unfolding copier_def
  proof (intro allI impI)
    fix n m src dst d
    assume un: "unrelated n m" and wf: "disk_wf d" and src: "locate d src = Inr n" "node_at d n = Some Folder"
      and dst: "locate d dst = Inr m"
      and deep: "\<forall>j. prefix n j \<longrightarrow> node_at d j \<noteq> None \<longrightarrow> length j < length n + Suc depth"
    show "\<exists>r d'. copy_dir_all (Suc depth) src dst d = Some (r, d') \<and> copies n m d r d'"
      by (rule copy_dir_all_step [OF Suc un wf src dst deep])
  qed
qed

section \<open>A folder into itself\<close>

text \<open>What no operation of the loop takes away.\<close>

definition stays :: "disk \<Rightarrow> disk \<Rightarrow> bool" where
  "stays d d' \<longleftrightarrow> disk_wf d' \<and> keeps_folders d d' \<and> d_cwd d' = d_cwd d"

lemma stays_trans: "stays a b \<Longrightarrow> stays b c \<Longrightarrow> stays a c"
  by (auto simp: stays_def intro: keeps_trans)

lemma fs_copy_stays:
  assumes run: "fs_copy d p q = (r, d')" and wf: "disk_wf d"
  shows "stays d d'"
proof -
  from run have "keeps_folders d d' \<and> d_cwd d' = d_cwd d"
    by (cases rule: fs_copy_cases) (auto simp: keeps_folders_def)
  then show ?thesis using fs_copy_wf [OF run wf] by (simp add: stays_def)
qed

lemma create_dir_all_stays: "fs_create_dir_all d p = (r, d') \<Longrightarrow> disk_wf d \<Longrightarrow> stays d d'"
  using create_dir_all_wf [of d p r d'] create_dir_all_grows [of d p r d'] grows_keeps [of d d']
  by (simp add: stays_def grows_def)

lemma copy_dir_all_stays: "copy_dir_all depth src dst d = Some (r, d') \<Longrightarrow> disk_wf d \<Longrightarrow> stays d d'"
proof (induction depth arbitrary: src dst d r d')
  case (Suc depth)
  obtain r1 d1 where c: "fs_create_dir_all d dst = (r1, d1)" by fastforce
  note st = create_dir_all_stays [OF c Suc.prems(2)]
  show ?case
  proof (cases "\<exists>es. r1 = Inr () \<and> fs_read_dir d1 src = Inr es")
    case True
    then obtain es where es: "copy_entries (copy_dir_all depth) src dst es d1 = Some (r, d')"
      using Suc.prems(1) c by auto
    show ?thesis
    proof (rule copy_entries_inv [where I = "stays d", OF _ _ es st])
      fix p q cur r2 d2
      show "stays d d2" if "copy_dir_all depth p q cur = Some (r2, d2)" "stays d cur"
        using Suc.IH [OF that(1)] that(2) stays_trans by (auto simp: stays_def)
    next
      fix p q cur r2 d2
      show "stays d d2" if "fs_copy cur p q = (r2, d2)" "stays d cur"
        using fs_copy_stays [OF that(1)] that(2) stays_trans by (auto simp: stays_def)
    qed
  next
    case False
    then show ?thesis using Suc.prems(1) c st by (cases r1) (auto split: sum.split_asm)
  qed
qed simp

abbreviation copy_step :: "(string \<Rightarrow> string \<Rightarrow> disk \<Rightarrow> ((file_error + unit) \<times> disk) option) \<Rightarrow> string \<Rightarrow> string \<Rightarrow>
    string \<Rightarrow> disk \<Rightarrow> ((file_error + unit) \<times> disk) option" where
  "copy_step rec src dst name d \<equiv>
     (if is_dir d (push src name) then rec (push src name) (push dst name) d
      else Some (map_io (push src name) (fs_copy d (push src name) (push dst name))))"

text \<open>A loop that returns \<open>Ok\<close> has come to each of its entries and copied it.\<close>

lemma copy_entries_reaches:
  assumes rec: "\<forall>p q d r d'. rec p q d = Some (r, d') \<longrightarrow> disk_wf d \<longrightarrow> stays d d'"
  shows "copy_entries rec src dst es d = Some (Inr (), d') \<Longrightarrow> entry \<in> set es \<Longrightarrow> disk_wf d \<Longrightarrow>
    \<exists>name cur d2. entry = Inr name \<and> stays d cur \<and>
      copy_step rec src dst name cur = Some (Inr (), d2)"
proof (induction es arbitrary: d)
  case (Cons e es)
  obtain name where e: "e = Inr name" using Cons.prems(1) by (cases e) auto
  obtain d1 where s: "copy_step rec src dst name d = Some (Inr (), d1)" "copy_entries rec src dst es d1 = Some (Inr (), d')"
    using Cons.prems(1) e by (auto simp: Let_def split: option.split_asm sum.split_asm prod.split_asm)
  have "stays d d1" using s(1) rec Cons.prems(3) fs_copy_stays by (auto split: if_split_asm)
  show ?case
  proof (cases "entry = e")
    case True
    have "stays d d" using Cons.prems(3) by (simp add: stays_def keeps_folders_def)
    then show ?thesis using True e s(1) by blast
  next
    case False
    then show ?thesis
      using Cons.IH [OF s(2)] Cons.prems(2) stays_trans [OF \<open>stays d d1\<close>] \<open>stays d d1\<close> unfolding stays_def
      by (metis set_ConsD)
  qed
qed simp

lemma copy_inside_never_ok:
  "strict_prefix n m \<Longrightarrow> disk_wf d \<Longrightarrow> locate d src = Inr n \<Longrightarrow> node_at d n = Some Folder \<Longrightarrow> locate d dst = Inr m \<Longrightarrow>
    copy_dir_all depth src dst d \<noteq> Some (Inr (), d')"
proof (induction depth arbitrary: n m src dst d d')
  case (Suc depth)
  show ?case
  proof
    assume ok: "copy_dir_all (Suc depth) src dst d = Some (Inr (), d')"
    obtain d1 where c: "fs_create_dir_all d dst = (Inr (), d1)" and body: "copy_body depth src dst d1 = Some (Inr (), d')"
      using ok unfolding copy_dir_all_Suc by (auto split: prod.split_asm sum.split_asm)
    note g = create_dir_all_grows [OF c] create_dir_all_wf [OF c Suc.prems(2)]
    have "dst \<noteq> []" using Suc.prems(5) by (auto simp: locate_def)
    then have m: "locate d1 dst = Inr m" "node_at d1 m = Some Folder"
      using create_dir_all_ok [OF c] grows_locate [OF g(1) Suc.prems(5)] by auto
    have n: "locate d1 src = Inr n" "node_at d1 n = Some Folder"
      using grows_locate [OF g(1) Suc.prems(3)] growsD [OF g(1) Suc.prems(4)] .
    obtain x r where x: "m = n @ x # r" using Suc.prems(1) by (rule strict_prefixE')
    let ?k = "n @ [x]"
    have k: "?k \<in> set (entries_of (d_nodes d1) n)" using reached_through_entry [OF g(2), of n x r] m(2) x by simp
    then obtain name where name: "x = Normal name" "valid_name name" using entries_iff [OF g(2)] by auto
    have f: "node_at d1 ?k = Some Folder"
      using m(2) x tree_ok_above [OF disk_wfD(3) [OF g(2)], of ?k r] by (cases "r = []") auto
    obtain es where es: "fs_read_dir d1 src = Inr es" "copy_entries (copy_dir_all depth) src dst es d1 = Some (Inr (), d')"
      using body by (auto simp: copy_body_def split: sum.split_asm)
    then have mem: "res_bind (sys d1 (SysNextEntry ?k)) (\<lambda>_. Inr (entry_name (last ?k))) \<in> set es"
      using n k by (auto simp: fs_read_dir_def res_bind_Inr_iff intro!: image_eqI [of _ _ ?k])
    have "\<forall>p q d r d'. copy_dir_all depth p q d = Some (r, d') \<longrightarrow> disk_wf d \<longrightarrow> stays d d'"
      using copy_dir_all_stays by blast
    from copy_entries_reaches [OF this es(2) mem g(2)] obtain name' cur d2 where cur: "stays d1 cur"
      "copy_step (copy_dir_all depth) src dst name' cur = Some (Inr (), d2)"
      "res_bind (sys d1 (SysNextEntry ?k)) (\<lambda>_. Inr (entry_name (last ?k))) = Inr name'" by blast
    have nm: "name' = name" using cur(3) name(1) by (simp add: res_bind_Inr_iff)
    have kf: "keeps_folders d1 cur" "d_cwd cur = d_cwd d1" using cur(1) by (simp_all add: stays_def)
    have F: "node_at cur n = Some Folder" "node_at cur m = Some Folder" "node_at cur ?k = Some Folder"
      using kf(1) n(2) m(2) f unfolding keeps_folders_def by blast+
    have at: "locate cur (push src name) = Inr ?k" "locate cur (push dst name) = Inr (m @ [x])"
      using locate_push [OF locate_mono [OF n(1) kf(2,1)] F(1) name(2)]
        locate_push [OF locate_mono [OF m(1) kf(2,1)] F(2) name(2)] name(1) by simp_all
    show False
    proof (cases "is_dir cur (push src name)")
      case True
      have "strict_prefix ?k (m @ [x])" using x by (simp add: strict_prefix_def)
      then show False using Suc.IH [OF _ _ at(1) F(3) at(2)] cur True nm by (auto simp: stays_def)
    next
      case False
      then have "fs_copy cur (push src name) (push dst name) = (Inr (), d2)" using cur(2) nm by simp
      then show False using at F(3) by (cases rule: fs_copy_cases) auto
    qed
  qed
qed simp

end
