(* ===== verification/Disk_Listing.thy ===== *)
theory Disk_Listing
  imports Disk_Engine
begin

text \<open>
  The listings of the disk engine: every path returned leads to the node it stands for, under the
  root the folder was built with, and nothing is missed or returned twice.
\<close>

section \<open>Typing an entry\<close>

definition anchored :: "string \<Rightarrow> string \<Rightarrow> bool" where
  "anchored root e \<longleftrightarrow> has_root e \<or> starts_with e root"

lemma anchored_full:
  assumes "path_inv p"
  shows "anchored (root_path p) (full_path p)"
proof (cases "has_root (rel_path p)")
  case True
  then show ?thesis using assms by (simp add: anchored_def path_inv_def push_def)
next
  case False
  then show ?thesis using assms by (simp add: anchored_def path_inv_def starts_with_def components_push)
qed

lemma valid_name_plain:
  assumes "valid_name x"
  shows "\<not> has_root x" and "\<not> lead_cur x" and "components x = [Normal x]"
proof -
  have "split_on sep x = [x]" using assms by (simp add: valid_name_def split_on_free)
  then show "\<not> has_root x" "\<not> lead_cur x" "components x = [Normal x]"
    using assms by (cases x; auto simp: valid_name_def lead_cur_def components_def head_components_def
      real_pieces_def piece_component_def)+
qed

lemma anchored_push:
  assumes "anchored root e" and "valid_name x" and "e \<noteq> []"
  shows "anchored root (push e x)"
proof (cases "has_root e")
  case True
  then show ?thesis using assms valid_name_plain(1) by (simp add: anchored_def push_def has_root_append)
next
  case False
  then show ?thesis
    using assms valid_name_plain [of x] by (simp add: anchored_def starts_with_def components_push_rel)
qed

lemma typed_file_place:
  assumes "anchored root e"
  shows "\<exists>f. disk_typed_file root e = Inr f \<and> root_path f = root \<and> components (full_path f) = components e"
proof -
  have "components (push root (entry_rel root e)) = components e"
  proof (cases "starts_with e root")
    case True
    then have rel: "entry_rel root e = after_components (length (components root)) e"
      by (simp add: entry_rel_def strip_prefix_def)
    show ?thesis
    proof (cases "root = []")
      case True
      then show ?thesis using rel by (simp add: components_after_0)
    next
      case False
      then show ?thesis
        using components_swap [OF True, of "entry_rel root e" root] True
        by (auto simp: entry_rel_def strip_prefix_def starts_with_def prefix_def)
    qed
  next
    case False
    then show ?thesis using assms by (simp add: anchored_def entry_rel_def strip_prefix_def push_def)
  qed
  then show ?thesis by (simp add: disk_typed_file_def build_file_def)
qed

lemma typed_folder_place:
  "anchored root e \<Longrightarrow> \<exists>f. disk_typed_folder root e = Inr f \<and> root_path f = root \<and> components (full_path f) = components e"
  using typed_file_place [of root e] by (auto simp: disk_typed_file_def disk_typed_folder_def build_file_def build_folder_def)

section \<open>One level\<close>

abbreviation is_regular :: "disk \<Rightarrow> node_path \<Rightarrow> bool" where
  "is_regular d k \<equiv> (case node_at d k of Some (Regular _) \<Rightarrow> True | _ \<Rightarrow> False)"

lemma fs_read_dir_healthy:
  "healthy d \<Longrightarrow> locate d p = Inr n \<Longrightarrow> node_at d n = Some Folder \<Longrightarrow>
    fs_read_dir d p = Inr (map (\<lambda>k. Inr (entry_name (last k))) (entries_of (d_nodes d) n))"
  by (simp add: fs_read_dir_def healthy_sys)

lemma list_entries_places:
  assumes h: "healthy d" and at: "locate d dir = Inr n" "node_at d n = Some Folder"
    and P: "\<forall>p k. locate d p = Inr k \<longrightarrow> \<not> wants_folder p \<longrightarrow> P p = Q k"
    and typed: "\<forall>e. anchored root e \<longrightarrow> (\<exists>f. typed e = Inr f \<and> root_path f = root \<and> components (full_path f) = components e)"
    and root: "anchored root dir"
  shows "\<forall>k \<in> set ks. \<exists>x. k = n @ [Normal x] \<and> valid_name x \<Longrightarrow>
    \<exists>fs. list_entries P typed dir (map (\<lambda>k. Inr (entry_name (last k))) ks) = Inr fs \<and>
      map (\<lambda>f. locate d (full_path f)) fs = map Inr (filter Q ks) \<and> (\<forall>f \<in> set fs. root_path f = root)"
proof (induction ks)
  case (Cons k ks)
  then obtain fs where fs: "list_entries P typed dir (map (\<lambda>k. Inr (entry_name (last k))) ks) = Inr fs"
    "map (\<lambda>f. locate d (full_path f)) fs = map Inr (filter Q ks)" "\<forall>f \<in> set fs. root_path f = root" by auto
  obtain x where x: "k = n @ [Normal x]" "valid_name x" using Cons.prems by auto
  have loc: "locate d (push dir x) = Inr k" using locate_push [OF at x(2)] x(1) by simp
  have "dir \<noteq> []" using at(1) by (auto simp: locate_def)
  then obtain f where f: "typed (push dir x) = Inr f" "root_path f = root" "components (full_path f) = components (push dir x)"
    using typed anchored_push [OF root x(2)] by blast
  have "locate d (full_path f) = Inr k" using locate_cong [OF f(3)] loc by simp
  then show ?case using fs f(1,2) x P loc wants_folder_push [OF x(2)] by (simp add: Let_def)
qed simp

section \<open>The whole subtree\<close>

definition collector :: "nat \<Rightarrow> disk \<Rightarrow> string \<Rightarrow> (string \<Rightarrow> file_path list \<Rightarrow> (file_error + file_path list) option) \<Rightarrow> bool" where
  "collector depth d root rec \<longleftrightarrow> (\<forall>dir n out. anchored root dir \<longrightarrow> locate d dir = Inr n \<longrightarrow> node_at d n = Some Folder \<longrightarrow>
     (\<forall>j. prefix n j \<longrightarrow> node_at d j \<noteq> None \<longrightarrow> length j < length n + depth) \<longrightarrow>
     (\<exists>fs ps. rec dir out = Some (Inr (out @ fs)) \<and> map (\<lambda>f. locate d (full_path f)) fs = map Inr ps \<and> distinct ps \<and>
        set ps = {j. prefix n j \<and> is_regular d j} \<and> (\<forall>f \<in> set fs. root_path f = root)))"

lemma collectorD:
  "collector depth d root rec \<Longrightarrow> anchored root dir \<Longrightarrow> locate d dir = Inr n \<Longrightarrow> node_at d n = Some Folder \<Longrightarrow>
    \<forall>j. prefix n j \<longrightarrow> node_at d j \<noteq> None \<longrightarrow> length j < length n + depth \<Longrightarrow>
    \<exists>fs ps. rec dir out = Some (Inr (out @ fs)) \<and> map (\<lambda>f. locate d (full_path f)) fs = map Inr ps \<and> distinct ps \<and>
      set ps = {j. prefix n j \<and> is_regular d j} \<and> (\<forall>f \<in> set fs. root_path f = root)"
  unfolding collector_def by blast

lemma collector_entries:
  assumes h: "healthy d" and rec: "collector depth d root rec" and root: "anchored root dir"
    and at: "locate d dir = Inr n" "node_at d n = Some Folder"
    and deep: "\<forall>j. prefix n j \<longrightarrow> node_at d j \<noteq> None \<longrightarrow> length j < length n + Suc depth"
  shows "distinct ks \<Longrightarrow> \<forall>k \<in> set ks. \<exists>x. k = n @ [Normal x] \<and> valid_name x \<and> node_at d k \<noteq> None \<Longrightarrow>
    \<exists>fs ps. collect_entries rec d root dir (map (\<lambda>k. Inr (entry_name (last k))) ks) out = Some (Inr (out @ fs)) \<and>
      map (\<lambda>f. locate d (full_path f)) fs = map Inr ps \<and> distinct ps \<and>
      set ps = {j. (\<exists>k \<in> set ks. prefix k j) \<and> is_regular d j} \<and> (\<forall>f \<in> set fs. root_path f = root)"
proof (induction ks arbitrary: out)
  case (Cons k ks)
  obtain x where x: "k = n @ [Normal x]" "valid_name x" "node_at d k \<noteq> None" using Cons.prems by auto
  have loc: "locate d (push dir x) = Inr k" using locate_push [OF at x(2)] x(1) by simp
  have "dir \<noteq> []" using at(1) by (auto simp: locate_def)
  then have anc: "anchored root (push dir x)" using anchored_push [OF root x(2)] by simp
  have "\<exists>fs ps. collect_entries rec d root dir (map (\<lambda>k. Inr (entry_name (last k))) (k # ks)) out =
      collect_entries rec d root dir (map (\<lambda>k. Inr (entry_name (last k))) ks) (out @ fs) \<and>
      map (\<lambda>f. locate d (full_path f)) fs = map Inr ps \<and> distinct ps \<and>
      set ps = {j. prefix k j \<and> is_regular d j} \<and> (\<forall>f \<in> set fs. root_path f = root)"
  proof (cases "is_dir d (push dir x)")
    case True
    then have f: "node_at d k = Some Folder" using is_dir_healthy [OF h loc] by simp
    have "\<forall>j. prefix k j \<longrightarrow> node_at d j \<noteq> None \<longrightarrow> length j < length k + depth"
      using deep x(1) by (auto simp: prefix_def)
    then obtain fs ps where "rec (push dir x) out = Some (Inr (out @ fs))"
      "map (\<lambda>f. locate d (full_path f)) fs = map Inr ps" "distinct ps"
      "set ps = {j. prefix k j \<and> is_regular d j}" "\<forall>f \<in> set fs. root_path f = root"
      using collectorD [OF rec anc loc f] by blast
    then show ?thesis using True x(1) by (intro exI [of _ fs] exI [of _ ps]) (simp add: Let_def)
  next
    case False
    then obtain y where y: "node_at d k = Some (Regular y)"
      using x(3) is_dir_healthy [OF h loc] by (metis inode.exhaust option.exhaust)
    obtain f where f: "disk_typed_file root (push dir x) = Inr f" "root_path f = root"
      "components (full_path f) = components (push dir x)" using typed_file_place [OF anc] by auto
    have "j = k" if "prefix k j" "is_regular d j" for j
      using tree_ok_regular [OF disk_wfD(3) [OF healthyD(1) [OF h]] y, of j] that
      by (cases "j = k") (auto simp: strict_prefix_def)
    then have "{j. prefix k j \<and> is_regular d j} = {k}" using y by auto
    moreover have "locate d (full_path f) = Inr k" using locate_cong [OF f(3)] loc by simp
    moreover have "is_file d (push dir x)" using is_file_healthy [OF h loc wants_folder_push [OF x(2)]] y by simp
    ultimately show ?thesis using False f(1,2) x(1) by (intro exI [of _ "[f]"] exI [of _ "[k]"]) (simp add: Let_def)
  qed
  then obtain fs ps where one: "collect_entries rec d root dir (map (\<lambda>k. Inr (entry_name (last k))) (k # ks)) out =
      collect_entries rec d root dir (map (\<lambda>k. Inr (entry_name (last k))) ks) (out @ fs)"
    "map (\<lambda>f. locate d (full_path f)) fs = map Inr ps" "distinct ps"
    "set ps = {j. prefix k j \<and> is_regular d j}" "\<forall>f \<in> set fs. root_path f = root" by blast
  obtain gs qs where rest: "collect_entries rec d root dir (map (\<lambda>k. Inr (entry_name (last k))) ks) (out @ fs) =
      Some (Inr ((out @ fs) @ gs))" "map (\<lambda>f. locate d (full_path f)) gs = map Inr qs" "distinct qs"
    "set qs = {j. (\<exists>k \<in> set ks. prefix k j) \<and> is_regular d j}" "\<forall>f \<in> set gs. root_path f = root"
    using Cons.IH [of "out @ fs"] Cons.prems by auto
  have "\<not> prefix j i" if "j \<in> set ks" "prefix k i" for i j
  proof
    assume "prefix j i"
    then have "prefix j k \<or> prefix k j" using that(2) prefix_same_cases by blast
    then have "j = k" using Cons.prems(2) x(1) that(1) by (auto simp: prefix_def)
    then show False using Cons.prems(1) that(1) by simp
  qed
  then have "set ps \<inter> set qs = {}" using one(4) rest(4) by blast
  then show ?case
    using one rest by (intro exI [of _ "fs @ gs"] exI [of _ "ps @ qs"]) auto
qed simp

lemma collect_files_collector: "healthy d \<Longrightarrow> collector depth d root (collect_files depth d root)"
proof (induction depth)
  case 0
  show ?case unfolding collector_def by (metis add_cancel_right_right less_irrefl option.distinct(1) prefix_order.refl)
next
  case (Suc depth)
  note wf = healthyD(1) [OF Suc.prems]
  show ?case
    unfolding collector_def
  proof (intro allI impI)
    fix dir n out
    assume at: "anchored root dir" "locate d dir = Inr n" "node_at d n = Some Folder"
      and deep: "\<forall>j. prefix n j \<longrightarrow> node_at d j \<noteq> None \<longrightarrow> length j < length n + Suc depth"
    let ?ks = "entries_of (d_nodes d) n"
    have ks: "distinct ?ks" "\<forall>k \<in> set ?ks. \<exists>x. k = n @ [Normal x] \<and> valid_name x \<and> node_at d k \<noteq> None"
      using disk_wfD(1) [OF wf] entries_iff [OF wf] by (auto simp: entries_of_def)
    have "(\<exists>k \<in> set ?ks. prefix k j) \<and> is_regular d j \<longleftrightarrow> prefix n j \<and> is_regular d j" for j
    proof (cases "prefix n j \<and> is_regular d j")
      case True
      then have "j \<noteq> n" using at(3) by auto
      then obtain c r where j: "j = n @ c # r" using True by (metis append_Nil2 list.exhaust prefix_def)
      have "node_at d j \<noteq> None" using True by (auto split: option.splits)
      then have "n @ [c] \<in> set ?ks" using reached_through_entry [OF wf, of n c r] j by simp
      then show ?thesis using True j by (auto intro!: bexI [of _ "n @ [c]"])
    next
      case False
      moreover have "prefix n j" if "k \<in> set ?ks" "prefix k j" for k
        using that by (auto simp: entries_of_iff dest: append_prefixD)
      ultimately show ?thesis by blast
    qed
    then have "{j. (\<exists>k \<in> set ?ks. prefix k j) \<and> is_regular d j} = {j. prefix n j \<and> is_regular d j}" by blast
    then show "\<exists>fs ps. collect_files (Suc depth) d root dir out = Some (Inr (out @ fs)) \<and>
        map (\<lambda>f. locate d (full_path f)) fs = map Inr ps \<and> distinct ps \<and>
        set ps = {j. prefix n j \<and> is_regular d j} \<and> (\<forall>f \<in> set fs. root_path f = root)"
      using collector_entries [OF Suc.prems Suc.IH [OF Suc.prems] at deep ks, of out]
        fs_read_dir_healthy [OF Suc.prems at(2,3)] by simp
  qed
qed

end
