(* ===== verification/Disk.thy ===== *)
theory Disk
  imports Disk_Copy Disk_Listing
begin

text \<open>
  What the disk engine does, on any disk whose nodes form a tree and whatever the system refuses, and
  on one where it refuses nothing. The operations are those of \<open>Disk_Engine\<close>; what the other engines
  promise of their folder operations (\<open>move_spec\<close>, \<open>copy_spec\<close>, \<open>delete_spec\<close>) holds here of the
  nodes of the disk, folders included.
\<close>

section \<open>A disk\<close>

definition demo_disk :: disk where
  "demo_disk = \<lparr>d_nodes = [([Normal ''w''], Folder), ([Normal ''w'', Normal ''a.rs''], Regular (Text [97])),
       ([Normal ''w'', Normal ''s''], Folder), ([Normal ''w'', Normal ''s'', Normal ''b.rs''], Regular (Text [98]))],
     d_cwd = [], d_fault = (\<lambda>_. None), d_partial = (\<lambda>_. 0)\<rparr>"

definition disk_demo_folder :: "string \<Rightarrow> string \<Rightarrow> folder_path" where
  "disk_demo_folder root rel =
     \<lparr>rel_path = rel, root_path = root, full_path = push root rel, path_type = PhantomData\<rparr>"

lemmas disk_path_eval = components_def head_components_def real_pieces_def piece_component_def skip_piece_def
  push_def lead_cur_def has_root_def split_on.simps

lemma demo_nodes:
  "node_at demo_disk k =
     (if k = [] \<or> k = [Normal ''w''] \<or> k = [Normal ''w'', Normal ''s''] then Some Folder
      else if k = [Normal ''w'', Normal ''a.rs''] then Some (Regular (Text [97]))
      else if k = [Normal ''w'', Normal ''s'', Normal ''b.rs''] then Some (Regular (Text [98])) else None)"
  by (auto simp: node_at_def demo_disk_def)

lemma demo_disk_wf: "disk_wf demo_disk"
proof -
  have "tree_ok (node_at demo_disk)"
    unfolding tree_ok_def demo_nodes
    by (auto simp: valid_name_def skip_piece_def split: if_splits)
  then show ?thesis by (simp add: disk_wf_def) (simp add: demo_disk_def)
qed

lemma demo_healthy: "healthy demo_disk"
  using demo_disk_wf by (simp add: healthy_def demo_disk_def)

lemma disk_demo_locate:
  "locate demo_disk ''/w'' = Inr [Normal ''w'']"
  "locate demo_disk ''/w/a.rs'' = Inr [Normal ''w'', Normal ''a.rs'']"
  "locate demo_disk ''/w/s'' = Inr [Normal ''w'', Normal ''s'']"
  by (simp_all add: locate_def disk_path_eval walk_not_root demo_nodes)

section \<open>What the operations keep\<close>

text \<open>Whatever the system refuses, and wherever it stops, every operation of the engine leaves a tree:
  every node but the root has a valid name and lies in a folder.\<close>

theorem disk_operations_keep_tree:
  assumes "disk_wf d"
  shows "disk_wf (snd (disk_write_file d f x)) \<and> disk_wf (snd (disk_delete_file d f)) \<and>
    disk_wf (snd (disk_move_file d f g)) \<and> disk_wf (snd (disk_copy_file d f g)) \<and>
    disk_wf (snd (disk_create_folder d F)) \<and> disk_wf (snd (disk_delete_folder d F)) \<and>
    disk_wf (snd (disk_move_folder d F G)) \<and>
    (case disk_copy_folder depth d F G of None \<Rightarrow> True | Some (r, d') \<Rightarrow> disk_wf d')"
proof (intro conjI)
  show "disk_wf (snd (disk_write_file d f x))"
  proof (cases "parent (full_path f)")
    case None
    then show ?thesis using fs_write_wf [OF prod.collapse [symmetric] assms] by (simp add: disk_write_file_def)
  next
    case (Some q)
    obtain r1 d1 where c: "fs_create_dir_all d q = (r1, d1)" by fastforce
    then have "disk_wf d1" using create_dir_all_wf assms by blast
    then show ?thesis
      using Some c fs_write_wf [OF prod.collapse [symmetric], of d1] by (cases r1) (simp_all add: disk_write_file_def map_io_def)
  qed
  show "disk_wf (snd (disk_delete_file d f))"
    using fs_remove_file_wf [OF prod.collapse [symmetric] assms] by (simp add: disk_delete_file_def)
  show "disk_wf (snd (disk_copy_file d f g))"
    using fs_copy_wf [OF prod.collapse [symmetric] assms] by (simp add: disk_copy_file_def)
  show "disk_wf (snd (disk_move_file d f g))" "disk_wf (snd (disk_move_folder d F G))"
    using fs_rename_wf [OF prod.collapse [symmetric] assms] by (simp_all add: disk_move_file_def disk_move_folder_def)
  show "disk_wf (snd (disk_create_folder d F))"
    using create_dir_all_wf [OF prod.collapse [symmetric] assms] by (simp add: disk_create_folder_def)
  show "disk_wf (snd (disk_delete_folder d F))"
    using remove_dir_all_effect(1) [OF assms prod.collapse [symmetric]] by (simp add: disk_delete_folder_def)
  show "case disk_copy_folder depth d F G of None \<Rightarrow> True | Some (r, d') \<Rightarrow> disk_wf d'"
    using copy_dir_all_wf [OF _ assms] by (auto simp: disk_copy_folder_def split: option.split)
qed

lemma disk_operations_keep_tree_witness:
  "disk_wf (snd (disk_move_folder demo_disk (disk_demo_folder ''/w'' ''s'') (disk_demo_folder ''/w'' ''t'')))"
  using disk_operations_keep_tree [OF demo_disk_wf] by blast

text \<open>C21: Deleting, moving and copying, under any refusals: a call that returns an error has changed nothing,
  except that a refused copy may have changed the destination file and a folder delete stopped half-way has
  removed some of the folder's nodes and no others. A call that returns \<open>Ok\<close> has removed the file or the
  whole folder, re-based the node and what is beneath it, or put the source's contents at the
  destination; copying a file onto itself leaves it empty.\<close>

theorem disk_changes:
  assumes "disk_wf d"
  shows "(case disk_delete_file d f of
      (Inl e, d') \<Rightarrow> d' = d
    | (Inr _, d') \<Rightarrow> \<exists>n x. locate d (full_path f) = Inr n \<and> node_at d n = Some (Regular x) \<and>
        node_at d' = (node_at d)(n := None)) \<and>
    (case disk_copy_file d f g of
      (Inl e, d') \<Rightarrow> \<forall>k. locate d (full_path g) \<noteq> Inr k \<longrightarrow> node_at d' k = node_at d k
    | (Inr _, d') \<Rightarrow> \<exists>n m x. locate d (full_path f) = Inr n \<and> node_at d n = Some (Regular x) \<and>
        locate d (full_path g) = Inr m \<and>
        node_at d' = (node_at d)(m \<mapsto> Regular (if n = m then Text [] else x))) \<and>
    (\<forall>out \<in> {(disk_move_file d f g, full_path f, full_path g), (disk_move_folder d F G, full_path F, full_path G)}.
      case out of
        ((Inl e, d'), _, _) \<Rightarrow> d' = d
      | ((Inr _, d'), p, q) \<Rightarrow> \<exists>n m. locate d p = Inr n \<and> locate d q = Inr m \<and> node_at d n \<noteq> None \<and>
          (n = m \<and> d' = d \<or> unrelated n m \<and> node_at d' = move_spec n m (node_at d))) \<and>
    (case disk_delete_folder d F of
      (Inl e, d') \<Rightarrow> \<forall>k. node_at d' k = node_at d k \<or>
        node_at d' k = None \<and> (\<exists>n. locate d (full_path F) = Inr n \<and> prefix n k)
    | (Inr _, d') \<Rightarrow> \<exists>n. locate d (full_path F) = Inr n \<and> node_at d n = Some Folder \<and>
        node_at d' = delete_spec n (node_at d))"
proof (intro conjI)
  obtain r d' where del: "fs_remove_file d (full_path f) = (r, d')" by fastforce
  from del show "case disk_delete_file d f of
      (Inl e, d') \<Rightarrow> d' = d
    | (Inr _, d') \<Rightarrow> \<exists>n x. locate d (full_path f) = Inr n \<and> node_at d n = Some (Regular x) \<and>
        node_at d' = (node_at d)(n := None)"
    by (cases rule: fs_remove_file_cases) (auto simp: disk_delete_file_def map_io_def del)
next
  obtain r d' where c: "fs_copy d (full_path f) (full_path g) = (r, d')" by fastforce
  from c show "case disk_copy_file d f g of
      (Inl e, d') \<Rightarrow> \<forall>k. locate d (full_path g) \<noteq> Inr k \<longrightarrow> node_at d' k = node_at d k
    | (Inr _, d') \<Rightarrow> \<exists>n m x. locate d (full_path f) = Inr n \<and> node_at d n = Some (Regular x) \<and>
        locate d (full_path g) = Inr m \<and>
        node_at d' = (node_at d)(m \<mapsto> Regular (if n = m then Text [] else x))"
    by (cases rule: fs_copy_cases) (auto simp: disk_copy_file_def map_io_def c)
next
  have rename: "case map_io p (fs_rename d p q) of
        (Inl e, d') \<Rightarrow> d' = d
      | (Inr _, d') \<Rightarrow> \<exists>n m. locate d p = Inr n \<and> locate d q = Inr m \<and> node_at d n \<noteq> None \<and>
          (n = m \<and> d' = d \<or> unrelated n m \<and> node_at d' = move_spec n m (node_at d))" for p q
  proof (cases "fs_rename d p q")
    case (Pair r d')
    then show ?thesis using fs_rename_ok(1) [OF assms, of p q _ d'] Pair
      by (cases r) (auto simp: map_io_def elim: fs_rename_cases)
  qed
  show "\<forall>out \<in> {(disk_move_file d f g, full_path f, full_path g), (disk_move_folder d F G, full_path F, full_path G)}.
      case out of
        ((Inl e, d'), _, _) \<Rightarrow> d' = d
      | ((Inr _, d'), p, q) \<Rightarrow> \<exists>n m. locate d p = Inr n \<and> locate d q = Inr m \<and> node_at d n \<noteq> None \<and>
          (n = m \<and> d' = d \<or> unrelated n m \<and> node_at d' = move_spec n m (node_at d))"
    using rename [of "full_path f" "full_path g"] rename [of "full_path F" "full_path G"]
    by (auto simp: disk_move_file_def disk_move_folder_def split: sum.split_asm prod.split_asm sum.split)
next
  obtain r d' where rm: "fs_remove_dir_all d (full_path F) = (r, d')" by fastforce
  note eff = remove_dir_all_effect [OF assms rm]
  show "case disk_delete_folder d F of
      (Inl e, d') \<Rightarrow> \<forall>k. node_at d' k = node_at d k \<or>
        node_at d' k = None \<and> (\<exists>n. locate d (full_path F) = Inr n \<and> prefix n k)
    | (Inr _, d') \<Rightarrow> \<exists>n. locate d (full_path F) = Inr n \<and> node_at d n = Some Folder \<and>
        node_at d' = delete_spec n (node_at d)"
  proof (cases r)
    case (Inl e)
    have "d' = d" if "\<nexists>n. locate d (full_path F) = Inr n"
      using rm that by (auto simp: fs_remove_dir_all_def split: sum.split_asm)
    then show ?thesis using Inl eff(3,4) by (simp add: disk_delete_folder_def rm map_io_def) metis
  next
    case (Inr u)
    then show ?thesis using eff(5) by (auto simp: disk_delete_folder_def rm map_io_def)
  qed
qed

lemma disk_changes_witness:
  "\<exists>d'. disk_delete_file demo_disk (demo_file ''/w'' ''a.rs'') = (Inr (), d') \<and>
    node_at d' = (node_at demo_disk)([Normal ''w'', Normal ''a.rs''] := None)"
proof -
  have p: "full_path (demo_file ''/w'' ''a.rs'') = ''/w/a.rs''" by (simp add: demo_file_def disk_path_eval)
  have "fst (fs_remove_file demo_disk ''/w/a.rs'') = Inr ()"
    using disk_demo_locate(2) healthy_sys(6) [OF demo_healthy]
    by (simp add: fs_remove_file_def demo_nodes wants_folder_def disk_path_eval)
  then have "fst (disk_delete_file demo_disk (demo_file ''/w'' ''a.rs'')) = Inr ()"
    by (simp add: disk_delete_file_def map_io_def p)
  then show ?thesis
    using disk_changes [OF demo_disk_wf, of "demo_file ''/w'' ''a.rs''", THEN conjunct1] disk_demo_locate(2)
    by (cases "disk_delete_file demo_disk (demo_file ''/w'' ''a.rs'')") (auto simp: p)
qed

section \<open>Writing\<close>

text \<open>C24: On a disk that refuses nothing, writing to a path with no file on the way and no folder at its end
  succeeds, whatever folders are missing: the file holds the text and reads back, the folders on the
  way exist, and nothing else has changed.\<close>

theorem disk_write_reaches:
  assumes "healthy d" and "plain_path (full_path f)" and "full_path f \<noteq> []" and "\<not> wants_folder (full_path f)"
    and "n = plain_place d (full_path f)" and "n \<noteq> []" and "no_file_on d (butlast n)" and "node_at d n \<noteq> Some Folder"
  shows "\<exists>d'. disk_write_file d f x = (Inr (), d') \<and> disk_read_file d' f = Inr x \<and> disk_exists d' f \<and>
    node_at d' = (\<lambda>k. if k = n then Some (Regular (Text x)) else if strict_prefix k n then Some Folder else node_at d k)"
proof -
  let ?p = "full_path f"
  have "parent ?p \<noteq> None"
    using assms(2,3,5,6) components_Nil_iff [of ?p] by (auto simp: parent_None plain_place_def components_def head_components_def piece_component_def split: if_split_asm)
  then obtain q where q: "parent ?p = Some q" by blast
  note pl = parent_plain(1) [OF q assms(2)] parent_plain(2) [OF q assms(2), of d, folded assms(5)]
  obtain d1 where d1: "fs_create_dir_all d q = (Inr (), d1)"
    "\<And>k. node_at d1 k = (if prefix k (butlast n) then Some Folder else node_at d k)"
    using create_dir_all_total [OF assms(1) pl(1)] assms(7) pl(2) by metis
  note g = create_dir_all_grows [OF d1(1)]
  have h1: "healthy d1"
    using assms(1) g create_dir_all_wf [OF d1(1) healthyD(1) [OF assms(1)]] growsD [OF g healthyD(2) [OF assms(1)]]
    by (simp add: healthy_def grows_def)
  have iff: "prefix k (butlast n) \<longleftrightarrow> strict_prefix k n" for k
    using assms(6) by (metis append_butlast_last_id prefix_order.less_le prefix_snoc not_Cons_self2 append_self_conv prefixeq_butlast strict_prefix_def prefix_length_le length_append_singleton Suc_n_not_le_n)
  have "plain_place d1 ?p = n" using g assms(5) by (simp add: plain_place_def grows_def)
  then have loc: "locate d1 ?p = Inr n"
    using locate_plain [OF h1 assms(2,3)] d1(2) by (auto simp: iff)
  have n1: "node_at d1 n \<noteq> Some Folder" using d1(2) assms(8) by (simp add: iff)
  let ?d = "set_node n (Regular (Text x)) d1"
  have run: "disk_write_file d f x = (Inr (), ?d)"
    using q d1(1) fs_write_healthy [OF h1 loc n1 assms(4)] by (simp add: disk_write_file_def map_io_def)
  have kf: "keeps_folders d1 ?d" using n1 assms(6) by (simp add: keeps_folders_def)
  then have loc2: "locate ?d ?p = Inr n" using locate_mono [OF loc] by simp
  have "disk_wf ?d" using fs_write_wf [OF fs_write_healthy [OF h1 loc n1 assms(4)] healthyD(1) [OF h1]] .
  then have h2: "healthy ?d" using h1 kf by (simp add: healthy_def keeps_folders_def)
  have "disk_read_file ?d f = Inr x"
    using open_read_healthy [OF h2 loc2 _ assms(4)] assms(6) healthy_sys(3) [OF h1]
    by (simp add: disk_read_file_def fs_read_to_string_def)
  moreover have "disk_exists ?d f" using is_file_healthy [OF h2 loc2 assms(4)] assms(6) by (simp add: disk_exists_def)
  ultimately show ?thesis using run d1(2) assms(6) by (auto simp: fun_eq_iff iff)
qed

lemma disk_write_reaches_witness:
  "\<exists>d'. disk_write_file demo_disk (demo_file ''/w'' ''n/c.rs'') [99] = (Inr (), d') \<and>
    disk_read_file d' (demo_file ''/w'' ''n/c.rs'') = Inr [99]"
proof -
  let ?n = "[Normal ''w'', Normal ''n'', Normal ''c.rs'']"
  have p: "full_path (demo_file ''/w'' ''n/c.rs'') = ''/w/n/c.rs''" by (simp add: demo_file_def disk_path_eval)
  have "plain_path ''/w/n/c.rs''" "\<not> wants_folder ''/w/n/c.rs''" "plain_place demo_disk ''/w/n/c.rs'' = ?n"
    by (simp_all add: plain_path_def wants_folder_def plain_place_def disk_path_eval)
  moreover have "no_file_on demo_disk (butlast ?n)" by (auto simp: no_file_on_def demo_nodes prefix_def)
  moreover have "node_at demo_disk ?n \<noteq> Some Folder" by (simp add: demo_nodes)
  ultimately show ?thesis
    using disk_write_reaches [OF demo_healthy, of "demo_file ''/w'' ''n/c.rs''" ?n "[99]"] by (auto simp: p)
qed

text \<open>C25: Whatever the system refuses, a write changes no file but the one it names and removes none; every node
  it adds besides is a folder. On \<open>Ok\<close> the file named holds the text; after an error it may hold an
  initial part of the text in place of what it held.\<close>

theorem disk_write_changes_one_file:
  assumes "disk_wf d" and "disk_write_file d f x = (r, d')"
  shows "(\<forall>k v. node_at d k = Some v \<longrightarrow> locate d' (full_path f) \<noteq> Inr k \<longrightarrow> node_at d' k = Some v) \<and>
    (\<forall>k. node_at d k = None \<longrightarrow> locate d' (full_path f) \<noteq> Inr k \<longrightarrow> node_at d' k \<in> {None, Some Folder}) \<and>
    (\<forall>n. locate d' (full_path f) = Inr n \<longrightarrow> node_at d' n \<in> {node_at d n, Some Folder} \<union>
      {Some (Regular (Text (take i x))) | i. True}) \<and>
    (r = Inr () \<longrightarrow> (\<exists>n. locate d' (full_path f) = Inr n \<and> node_at d' n = Some (Regular (Text x))))"
proof -
  let ?p = "full_path f"
  have "\<exists>d1 r0. grows d d1 \<and> disk_wf d1 \<and> (r \<noteq> Inr () \<and> d' = d1 \<or> fs_write d1 ?p x = (r0, d') \<and> (r = Inr () \<longleftrightarrow> r0 = Inr ()))"
  proof (cases "parent ?p")
    case None
    obtain r0 where "fs_write d ?p x = (r0, d')" "r = map_err (io_error ?p) r0"
      using assms(2) None by (auto simp: disk_write_file_def map_io_eq)
    then show ?thesis using assms(1) by (intro exI [of _ d] exI [of _ r0]) (simp add: map_err_Inr_iff)
  next
    case (Some q)
    obtain r1 d1 where c: "fs_create_dir_all d q = (r1, d1)" by fastforce
    note g = create_dir_all_grows [OF c] create_dir_all_wf [OF c assms(1)]
    show ?thesis
    proof (cases r1)
      case (Inl e)
      then show ?thesis using assms(2) Some c g by (auto simp: disk_write_file_def map_io_def)
    next
      case (Inr u)
      then have "map_io q (fs_create_dir_all d q) = (Inr (), d1)" using c by simp
      then have "map_io ?p (fs_write d1 ?p x) = (r, d')" using assms(2) Some by (simp add: disk_write_file_def)
      then obtain r0 where "fs_write d1 ?p x = (r0, d')" "r = map_err (io_error ?p) r0" by (auto simp: map_io_eq)
      then show ?thesis using g by (intro exI [of _ d1] exI [of _ r0]) (simp add: map_err_Inr_iff)
    qed
  qed
  then obtain d1 r0 where g: "grows d d1" "disk_wf d1"
    and cs: "r \<noteq> Inr () \<and> d' = d1 \<or> fs_write d1 ?p x = (r0, d') \<and> (r = Inr () \<longleftrightarrow> r0 = Inr ())" by blast
  have "(r \<noteq> Inr () \<and> d' = d1) \<or> (\<exists>n i. locate d' ?p = Inr n \<and>
      node_at d' = (node_at d1)(n \<mapsto> Regular (Text (take i x))) \<and> (r = Inr () \<longrightarrow> take i x = x))"
  proof (cases "r \<noteq> Inr () \<and> d' = d1")
    case False
    then have w: "fs_write d1 ?p x = (r0, d')" "r = Inr () \<longleftrightarrow> r0 = Inr ()" using cs by auto
    have at: "locate d' ?p = Inr n" if "locate d1 ?p = Inr n" "node_at d1 n \<noteq> Some Folder" "n \<noteq> []"
      "d' = set_node n (Regular v) d1" for n v
      using locate_mono [OF that(1), of d'] that(2-4) by (simp add: keeps_folders_def)
    from w(1) show ?thesis
    proof (cases rule: fs_write_cases)
      case (partial e n)
      then show ?thesis using at [OF partial(2-5)] w(2) by auto
    next
      case (ok n)
      then show ?thesis using at [OF ok(2-5)] by (intro disjI2 exI [of _ n] exI [of _ "length x"]) simp
    qed (use w(2) in simp)
  qed blast
  moreover have g1: "node_at d1 k = Some v" if "node_at d k = Some v" for k v using growsD [OF g(1) that] .
  moreover have g0: "node_at d1 k = node_at d k \<or> node_at d k = None \<and> node_at d1 k = Some Folder" for k
    using g(1) by (simp add: grows_def)
  ultimately consider (kept) "r \<noteq> Inr ()" "d' = d1"
    | (written) n i where "locate d' ?p = Inr n" "node_at d' = (node_at d1)(n \<mapsto> Regular (Text (take i x)))"
        "r = Inr () \<longrightarrow> take i x = x" by blast
  then show ?thesis
  proof cases
    case kept
    have "node_at d1 k \<in> {None, Some Folder}" if "node_at d k = None" for k using g0 [of k] that by auto
    moreover have "node_at d1 n \<in> {node_at d n, Some Folder}" for n using g0 [of n] by auto
    ultimately show ?thesis
      using kept(1) g1 unfolding kept(2) by (intro conjI allI impI) (blast | simp)+
  next
    case written
    have "node_at d1 k \<in> {None, Some Folder}" if "node_at d k = None" for k using g0 [of k] that by auto
    then show ?thesis using written g1 by auto
  qed
qed

lemma disk_write_changes_one_file_witness:
  "node_at (snd (disk_write_file demo_disk (demo_file ''/w'' ''a.rs'') [99])) [Normal ''w'', Normal ''s'', Normal ''b.rs''] =
    Some (Regular (Text [98]))"
proof -
  let ?f = "demo_file ''/w'' ''a.rs''"
  have p: "full_path ?f = ''/w/a.rs''" by (simp add: demo_file_def disk_path_eval)
  let ?a = "[Normal ''w'', Normal ''a.rs'']" let ?d = "set_node ?a (Regular (Text [99])) demo_disk"
  have "is_dir demo_disk ''/w''" using is_dir_healthy [OF demo_healthy disk_demo_locate(1)] by (simp add: demo_nodes)
  then have mk: "fs_create_dir_all demo_disk ''/w'' = (Inr (), demo_disk)"
    using create_dir_all_located [OF disk_demo_locate(1)] disk_demo_locate(1) by (simp add: fs_mkdir_def settle_def demo_nodes)
  have "fs_write demo_disk ''/w/a.rs'' [99] = (Inr (), ?d)"
    using fs_write_healthy [OF demo_healthy disk_demo_locate(2)] by (simp add: demo_nodes wants_folder_def disk_path_eval)
  moreover have "parent ''/w/a.rs'' = Some ''/w''"
    by (simp add: parent_def body_pieces_def lead_len_def trim_right_def disk_path_eval)
  ultimately have run: "disk_write_file demo_disk ?f [99] = (Inr (), ?d)" using mk by (simp add: disk_write_file_def p)
  have "locate ?d ''/w/a.rs'' = Inr ?a"
    by (rule locate_mono [OF disk_demo_locate(2)]) (simp_all add: keeps_folders_def demo_nodes)
  then show ?thesis
    using disk_write_changes_one_file [OF demo_disk_wf run, THEN conjunct1, rule_format,
        of "[Normal ''w'', Normal ''s'', Normal ''b.rs'']" "Regular (Text [98])"] run by (simp add: p demo_nodes)
qed

section \<open>Copying a folder\<close>

lemma bound_depth:
  assumes "disk_wf d" and "\<forall>e \<in> set (d_nodes d). length (fst e) < depth" and "node_at d k \<noteq> None" and "k \<noteq> []"
  shows "length k < depth"
  using assms key_iff [OF assms(1), of k] by auto

text \<open>C22: Between unrelated places the recursion of a folder copy ends, at the latest at the depth of the disk,
  whatever the system refuses. It changes nothing outside the destination and keeps every folder, and
  on \<open>Ok\<close> the source lies over the destination as in the other engines.\<close>

theorem disk_copy_folder_returns:
  assumes "disk_wf d" and "locate d (full_path F) = Inr n" and "node_at d n = Some Folder"
    and "locate d (full_path G) = Inr m" and "unrelated n m" and "\<forall>e \<in> set (d_nodes d). length (fst e) < depth"
  shows "\<exists>r d'. disk_copy_folder depth d F G = Some (r, d') \<and> disk_wf d' \<and> keeps_folders d d' \<and>
    (\<forall>k. \<not> prefix m k \<longrightarrow> node_at d' k = node_at d k) \<and>
    (r = Inr () \<longrightarrow> node_at d' = copy_spec n m (node_at d))"
proof -
  have "\<forall>j. prefix n j \<longrightarrow> node_at d j \<noteq> None \<longrightarrow> length j < length n + depth"
    using bound_depth [OF assms(1,6)] assms(5) by (metis prefix_bot.extremum_unique prefix_bot.bot_least trans_less_add2 unrelated_def)
  then obtain r d' where "copy_dir_all depth (full_path F) (full_path G) d = Some (r, d')" "copies n m d r d'"
    using copierD [OF copy_dir_all_copies assms(5,1-4)] by blast
  then show ?thesis unfolding disk_copy_folder_def copies_def by auto
qed

lemma disk_copy_folder_returns_witness:
  "\<exists>r d'. disk_copy_folder 4 demo_disk (disk_demo_folder ''/w'' ''s'') (disk_demo_folder ''/w'' ''t'') = Some (r, d') \<and>
    node_at d' [Normal ''w'', Normal ''a.rs''] = Some (Regular (Text [97]))"
proof -
  have p: "full_path (disk_demo_folder ''/w'' ''s'') = ''/w/s''" "full_path (disk_demo_folder ''/w'' ''t'') = ''/w/t''"
    by (simp_all add: disk_demo_folder_def disk_path_eval)
  have t: "locate demo_disk ''/w/t'' = Inr [Normal ''w'', Normal ''t'']"
    by (simp add: locate_def disk_path_eval walk_not_root demo_nodes)
  have "unrelated [Normal ''w'', Normal ''s''] [Normal ''w'', Normal ''t'']" by (simp add: unrelated_def)
  moreover have "\<forall>e \<in> set (d_nodes demo_disk). length (fst e) < 4" by (simp add: demo_disk_def)
  ultimately obtain r d' where
    "disk_copy_folder 4 demo_disk (disk_demo_folder ''/w'' ''s'') (disk_demo_folder ''/w'' ''t'') = Some (r, d')"
    "\<forall>k. \<not> prefix [Normal ''w'', Normal ''t''] k \<longrightarrow> node_at d' k = node_at demo_disk k"
    using disk_copy_folder_returns [OF demo_disk_wf, of "disk_demo_folder ''/w'' ''s''" "[Normal ''w'', Normal ''s'']"
        "disk_demo_folder ''/w'' ''t''" "[Normal ''w'', Normal ''t'']" 4] disk_demo_locate(3) t
    by (auto simp: p demo_nodes)
  then show ?thesis by (auto simp: demo_nodes)
qed

text \<open>C23: Where the system refuses nothing, and no file of one tree lies where the other has a folder, a folder
  copy returns \<open>Ok\<close> for any destination outside the source, its missing parents included, and the disk
  is then the copy of the source over the destination with those folders made.\<close>

theorem disk_copy_folder_copies:
  assumes "healthy d" and "locate d (full_path F) = Inr n" and "node_at d n = Some Folder"
    and "plain_path (full_path G)" and "full_path G \<noteq> []" and "m = plain_place d (full_path G)" and "no_file_on d m"
    and "unrelated n m" and "trees_fit n m (node_at d)" and "\<forall>e \<in> set (d_nodes d). length (fst e) < depth"
  shows "\<exists>d'. disk_copy_folder depth d F G = Some (Inr (), d') \<and>
    node_at d' = copy_spec n m (\<lambda>k. if prefix k m then Some Folder else node_at d k)"
proof -
  let ?src = "full_path F" let ?dst = "full_path G"
  note wf = healthyD(1) [OF assms(1)]
  have "n \<noteq> []" using assms(8) by (auto simp: unrelated_def)
  then have n_deep: "length n < depth" using bound_depth [OF wf assms(10)] assms(3) by simp
  then obtain dep where dep: "depth = Suc dep" by (cases depth) auto
  obtain d1 where d1: "fs_create_dir_all d ?dst = (Inr (), d1)"
    "\<And>k. node_at d1 k = (if prefix k m then Some Folder else node_at d k)"
    using create_dir_all_total [OF assms(1,4)] assms(6,7) by metis
  note g = create_dir_all_grows [OF d1(1)] create_dir_all_wf [OF d1(1) wf]
  have h1: "healthy d1"
    using assms(1) g growsD [OF g(1) healthyD(2) [OF assms(1)]] by (simp add: healthy_def grows_def)
  have m: "plain_place d1 ?dst = m" using g(1) assms(6) by (simp add: plain_place_def grows_def)
  have dst: "locate d1 ?dst = Inr m" "node_at d1 m = Some Folder"
    using locate_plain [OF h1 assms(4,5), unfolded m] d1(2) prefixeq_butlast [of m] by (auto simp: strict_prefix_def)
  have src: "locate d1 ?src = Inr n" "node_at d1 n = Some Folder"
    using grows_locate [OF g(1) assms(2)] growsD [OF g(1) assms(3)] .
  have same: "node_at d1 (n @ r) = node_at d (n @ r)" for r
    using d1(2) assms(8) by (auto simp: unrelated_def dest: append_prefixD)
  have "trees_fit n m (node_at d1)"
    unfolding trees_fit_def
  proof (intro allI impI)
    fix r
    assume "node_at d1 (n @ r) \<noteq> None" "node_at d1 (m @ r) \<noteq> None"
    then show "(node_at d1 (n @ r) = Some Folder) = (node_at d1 (m @ r) = Some Folder)"
      using assms(3,9) unfolding trees_fit_def same by (cases "r = []") (auto simp: d1(2))
  qed
  moreover have "\<forall>j. prefix n j \<longrightarrow> node_at d1 j \<noteq> None \<longrightarrow> length j < length n + Suc dep"
  proof (intro allI impI)
    fix j
    assume "prefix n j" "node_at d1 j \<noteq> None"
    then have "node_at d j \<noteq> None" "j \<noteq> []" using same \<open>n \<noteq> []\<close> by (auto simp: prefix_def)
    then show "length j < length n + Suc dep" using bound_depth [OF wf assms(10)] dep by (metis trans_less_add2)
  qed
  ultimately obtain d' where "copy_body dep ?src ?dst d1 = Some (Inr (), d')" "node_at d' = copy_spec n m (node_at d1)"
    using copy_body_copies [OF copy_dir_all_copies assms(8) g(2) src dst] h1 unfolding copies_def by blast
  moreover have "node_at d1 = (\<lambda>k. if prefix k m then Some Folder else node_at d k)" using d1(2) by blast
  ultimately show ?thesis
    using d1(1) unfolding disk_copy_folder_def dep copy_dir_all_Suc by simp
qed

lemma disk_copy_folder_copies_witness:
  "\<exists>d'. disk_copy_folder 4 demo_disk (disk_demo_folder ''/w'' ''s'') (disk_demo_folder ''/'' ''x/y'') = Some (Inr (), d') \<and>
    node_at d' [Normal ''x'', Normal ''y'', Normal ''b.rs''] = Some (Regular (Text [98]))"
proof -
  have p: "full_path (disk_demo_folder ''/w'' ''s'') = ''/w/s''" "full_path (disk_demo_folder ''/'' ''x/y'') = ''/x/y''"
    by (simp_all add: disk_demo_folder_def disk_path_eval)
  have "plain_path ''/x/y''" "plain_place demo_disk ''/x/y'' = [Normal ''x'', Normal ''y'']"
    by (simp_all add: plain_path_def plain_place_def disk_path_eval)
  moreover have "no_file_on demo_disk [Normal ''x'', Normal ''y'']" by (auto simp: no_file_on_def demo_nodes prefix_def)
  moreover have "trees_fit [Normal ''w'', Normal ''s''] [Normal ''x'', Normal ''y''] (node_at demo_disk)"
    by (auto simp: trees_fit_def demo_nodes)
  moreover have "unrelated [Normal ''w'', Normal ''s''] [Normal ''x'', Normal ''y'']" by (simp add: unrelated_def)
  moreover have "\<forall>e \<in> set (d_nodes demo_disk). length (fst e) < 4" by (simp add: demo_disk_def)
  ultimately obtain d' where
    "disk_copy_folder 4 demo_disk (disk_demo_folder ''/w'' ''s'') (disk_demo_folder ''/'' ''x/y'') = Some (Inr (), d')"
    "node_at d' = copy_spec [Normal ''w'', Normal ''s''] [Normal ''x'', Normal ''y'']
       (\<lambda>k. if prefix k [Normal ''x'', Normal ''y''] then Some Folder else node_at demo_disk k)"
    using disk_copy_folder_copies [OF demo_healthy, of "disk_demo_folder ''/w'' ''s''" "[Normal ''w'', Normal ''s'']"
        "disk_demo_folder ''/'' ''x/y''" "[Normal ''x'', Normal ''y'']" 4] disk_demo_locate(3)
    by (auto simp: p demo_nodes)
  then show ?thesis by (auto simp: demo_nodes copy_spec_def transplant_def)
qed

text \<open>C39: A folder copied to a place inside itself never returns \<open>Ok\<close>, to whatever depth the recursion is let
  run: each level copies the folder it has just made.\<close>

theorem disk_copy_into_itself_never_ok:
  assumes "disk_wf d" and "locate d (full_path F) = Inr n" and "node_at d n = Some Folder"
    and "locate d (full_path G) = Inr m" and "strict_prefix n m"
  shows "disk_copy_folder depth d F G \<noteq> Some (Inr (), d')"
  unfolding disk_copy_folder_def by (rule copy_inside_never_ok [OF assms(5,1-4)])

lemma disk_copy_into_itself_never_ok_witness:
  "disk_copy_folder 9 demo_disk (disk_demo_folder ''/'' ''w'') (disk_demo_folder ''/w'' ''s'') \<noteq> Some (Inr (), demo_disk)"
proof -
  have p: "full_path (disk_demo_folder ''/'' ''w'') = ''/w''" "full_path (disk_demo_folder ''/w'' ''s'') = ''/w/s''"
    by (simp_all add: disk_demo_folder_def disk_path_eval)
  show ?thesis
    using disk_copy_into_itself_never_ok [OF demo_disk_wf, of "disk_demo_folder ''/'' ''w''" "[Normal ''w'']"
        "disk_demo_folder ''/w'' ''s''" "[Normal ''w'', Normal ''s'']" 9 demo_disk] disk_demo_locate
    by (simp add: p demo_nodes)
qed

section \<open>Listing\<close>

text \<open>Where the system refuses nothing, the listings of a folder return one path for each file, each
  sub-folder, and each file at any depth beneath it, in the order of the directory entries, each path
  leading to its node and keeping the root the folder was built with.\<close>

theorem disk_listings:
  assumes "healthy d" and "path_inv F" and "locate d (full_path F) = Inr n" and "node_at d n = Some Folder"
    and "\<forall>e \<in> set (d_nodes d). length (fst e) < depth" and "n \<noteq> []"
  shows "\<exists>fs Fs all ps. disk_child_files d F = Inr fs \<and> disk_child_folders d F = Inr Fs \<and>
    disk_all_child_files depth d F = Some (Inr all) \<and>
    map (\<lambda>f. locate d (full_path f)) fs = map Inr (filter (is_regular d) (entries_of (d_nodes d) n)) \<and>
    map (\<lambda>f. locate d (full_path f)) Fs = map Inr (filter (\<lambda>k. node_at d k = Some Folder) (entries_of (d_nodes d) n)) \<and>
    map (\<lambda>f. locate d (full_path f)) all = map Inr ps \<and> distinct ps \<and> set ps = {k. prefix n k \<and> is_regular d k} \<and>
    (\<forall>r \<in> root_path ` set fs \<union> root_path ` set Fs \<union> root_path ` set all. r = root_path F)"
proof -
  note h = assms(1) and wf = healthyD(1) [OF assms(1)] and anc = anchored_full [OF assms(2)]
  let ?ks = "entries_of (d_nodes d) n"
  have ks: "\<forall>k \<in> set ?ks. \<exists>x. k = n @ [Normal x] \<and> valid_name x" using entries_iff [OF wf] by blast
  note rd = fs_read_dir_healthy [OF h assms(3,4)]
  have reg: "\<forall>p k. locate d p = Inr k \<longrightarrow> \<not> wants_folder p \<longrightarrow> is_file d p = is_regular d k"
    using is_file_healthy [OF h] by (auto split: option.split inode.split)
  have dir: "\<forall>p k. locate d p = Inr k \<longrightarrow> \<not> wants_folder p \<longrightarrow> is_dir d p = (node_at d k = Some Folder)"
    using is_dir_healthy [OF h] by blast
  have typed: "\<forall>e. anchored (root_path F) e \<longrightarrow> (\<exists>f. disk_typed_file (root_path F) e = Inr f \<and>
      root_path f = root_path F \<and> components (full_path f) = components e)"
    "\<forall>e. anchored (root_path F) e \<longrightarrow> (\<exists>f. disk_typed_folder (root_path F) e = Inr f \<and>
      root_path f = root_path F \<and> components (full_path f) = components e)"
    using typed_file_place typed_folder_place by blast+
  obtain fs where fs: "disk_child_files d F = Inr fs"
    "map (\<lambda>f. locate d (full_path f)) fs = map Inr (filter (is_regular d) ?ks)" "\<forall>f \<in> set fs. root_path f = root_path F"
    using list_entries_places [OF h assms(3,4) reg typed(1) anc ks] rd by (auto simp: disk_child_files_def Let_def)
  obtain Fs where Fs: "disk_child_folders d F = Inr Fs"
    "map (\<lambda>f. locate d (full_path f)) Fs = map Inr (filter (\<lambda>k. node_at d k = Some Folder) ?ks)"
    "\<forall>f \<in> set Fs. root_path f = root_path F"
    using list_entries_places [OF h assms(3,4) dir typed(2) anc ks] rd
    by (auto simp: disk_child_folders_def Let_def)
  have "\<forall>j. prefix n j \<longrightarrow> node_at d j \<noteq> None \<longrightarrow> length j < length n + depth"
    using bound_depth [OF wf assms(5)] assms(6) by (metis prefix_bot.extremum_unique trans_less_add2)
  from collectorD [OF collect_files_collector [OF h] anc assms(3,4) this, of "[]"] obtain all ps where
    "disk_all_child_files depth d F = Some (Inr all)"
    "map (\<lambda>f. locate d (full_path f)) all = map Inr ps" "distinct ps" "set ps = {k. prefix n k \<and> is_regular d k}"
    "\<forall>f \<in> set all. root_path f = root_path F"
    unfolding disk_all_child_files_def append_Nil by blast
  then show ?thesis using fs Fs by auto
qed

lemma disk_listings_witness:
  "\<exists>all. disk_all_child_files 4 demo_disk (disk_demo_folder ''/'' ''w'') = Some (Inr all) \<and>
    Inr [Normal ''w'', Normal ''s'', Normal ''b.rs''] \<in> (\<lambda>f. locate demo_disk (full_path f)) ` set all"
proof -
  have p: "full_path (disk_demo_folder ''/'' ''w'') = ''/w''" by (simp add: disk_demo_folder_def disk_path_eval)
  have inv: "path_inv (disk_demo_folder ''/'' ''w'')" by (simp add: path_inv_def disk_demo_folder_def)
  have at: "locate demo_disk (full_path (disk_demo_folder ''/'' ''w'')) = Inr [Normal ''w'']" using disk_demo_locate(1) by (simp add: p)
  have f: "node_at demo_disk [Normal ''w''] = Some Folder" by (simp add: demo_nodes)
  have "\<forall>e \<in> set (d_nodes demo_disk). length (fst e) < 4" by (simp add: demo_disk_def)
  from disk_listings [OF demo_healthy inv at f this list.simps(3)] obtain all ps where
    all: "disk_all_child_files 4 demo_disk (disk_demo_folder ''/'' ''w'') = Some (Inr all)"
    "map (\<lambda>f. locate demo_disk (full_path f)) all = map Inr ps" "set ps = {k. prefix [Normal ''w''] k \<and> is_regular demo_disk k}"
    by blast
  have "[Normal ''w'', Normal ''s'', Normal ''b.rs''] \<in> set ps" by (simp add: all(3) demo_nodes)
  then have "Inr [Normal ''w'', Normal ''s'', Normal ''b.rs''] \<in> set (map (\<lambda>f. locate demo_disk (full_path f)) all)"
    unfolding all(2) by simp
  then show ?thesis using all(1) by auto
qed

end
