(* ===== verification/Idb_Engine.thy ===== *)
theory Idb_Engine
  imports Kv_Engine
begin

text \<open>
  The IndexedDB engine: \<open>engines/async_io/indexed_db.rs\<close>, \<open>files/async_io/indexed_db.rs\<close> and
  \<open>folders/async_io/indexed_db.rs\<close>. The browser's database is a parameter. A call opens a
  transaction, issues its requests, then awaits them in order; requests that have been issued run
  also when the call gives up before awaiting them. An awaited call is the call, so nothing else
  uses the database between two transactions of one operation.
\<close>

section \<open>The browser's database\<close>

datatype idb_mode = Readonly | Readwrite

datatype idb_request =
    GetRequest string
  | GetAllKeys
  | GetAll
  | PutRequest ustring string
  | DeleteRequest string

datatype idb_value = Undefined | JsText ustring | JsKeys "string list" | JsTexts "ustring list"

text \<open>
  \<open>i_open\<close> and \<open>i_drop\<close> act on the database of a name, \<open>i_txn\<close> opens a transaction with its object
  store, \<open>i_issue\<close> is the exception a request may throw when it is issued, and \<open>i_run\<close> runs the
  requests of a transaction: what each of them was answered, and the database afterwards.
\<close>

record 'd idb =
  i_open :: "string \<Rightarrow> 'd \<Rightarrow> (string + unit) \<times> 'd"
  i_drop :: "string \<Rightarrow> 'd \<Rightarrow> (string + unit) \<times> 'd"
  i_txn :: "'d \<Rightarrow> idb_mode \<Rightarrow> string + unit"
  i_issue :: "'d \<Rightarrow> idb_request \<Rightarrow> string + unit"
  i_run :: "'d \<Rightarrow> idb_request list \<Rightarrow> (string + idb_value) list \<times> 'd"

fun is_write :: "idb_request \<Rightarrow> bool" where
  "is_write (PutRequest v k) = True"
| "is_write (DeleteRequest k) = True"
| "is_write _ = False"

fun idb_answer :: "(string \<times> ustring) list \<Rightarrow> idb_request \<Rightarrow> idb_value" where
  "idb_answer es (GetRequest k) = (case map_of es k of None \<Rightarrow> Undefined | Some v \<Rightarrow> JsText v)"
| "idb_answer es GetAllKeys = JsKeys (map fst es)"
| "idb_answer es GetAll = JsTexts (map snd es)"
| "idb_answer es _ = Undefined"

fun idb_apply :: "(string \<Rightarrow> ustring option) \<Rightarrow> idb_request \<Rightarrow> string \<Rightarrow> ustring option" where
  "idb_apply M (PutRequest v k) = M(k \<mapsto> v)"
| "idb_apply M (DeleteRequest k) = M(k := None)"
| "idb_apply M _ = M"

text \<open>
  What the IndexedDB specification says, with the entries of the object store in key order: opening a
  database leaves the entries it has; reads answer from them; requests with string keys on a transaction
  that has just been opened do not throw; a transaction of which a request fails is aborted and leaves no
  trace. One of which every request succeeds is usually committed, but the commit comes after the requests
  have been answered and may still abort it (the quota, an I/O error), which also leaves no trace.
\<close>

definition idb_laws :: "'d idb \<Rightarrow> ('d \<Rightarrow> (string \<times> ustring) list) \<Rightarrow> bool" where
  "idb_laws I entries \<longleftrightarrow>
     (\<forall>d. distinct (map fst (entries d))) \<and>
     (\<forall>n d r d'. i_open I n d = (r, d') \<longrightarrow> map_of (entries d') = map_of (entries d)) \<and>
     (\<forall>d rq. i_issue I d rq = Inr ()) \<and>
     (\<forall>d rqs outs d'. i_run I d rqs = (outs, d') \<longrightarrow> length outs = length rqs \<and>
        (list_all (Not \<circ> is_write) rqs \<longrightarrow>
          list_all2 (\<lambda>rq out. \<forall>v. out = Inr v \<longrightarrow> v = idb_answer (entries d) rq) rqs outs) \<and>
        (map_of (entries d') = map_of (entries d) \<or>
          list_all is_ok outs \<and> map_of (entries d') = foldl idb_apply (map_of (entries d)) rqs))"

text \<open>That no commit aborts once the requests have succeeded. IndexedDB does not promise it, and the code does
  not wait for it; a property that needs it says so.\<close>

definition idb_commits :: "'d idb \<Rightarrow> ('d \<Rightarrow> (string \<times> ustring) list) \<Rightarrow> bool" where
  "idb_commits I entries \<longleftrightarrow> (\<forall>d rqs outs d'. i_run I d rqs = (outs, d') \<longrightarrow> list_all is_ok outs \<longrightarrow>
     map_of (entries d') = foldl idb_apply (map_of (entries d)) rqs)"

definition idb_keeps :: "'d idb \<Rightarrow> ('d \<Rightarrow> (string \<times> ustring) list) \<Rightarrow> bool" where
  "idb_keeps I entries \<longleftrightarrow> idb_laws I entries \<and> idb_commits I entries"

section \<open>The engine\<close>

definition js_error :: "string \<Rightarrow> string \<Rightarrow> file_error" where
  "js_error c e = Io c e"

abbreviation idb_store :: string where "idb_store \<equiv> ''files''"

definition idb_new :: "'d idb \<Rightarrow> string \<Rightarrow> 'd \<Rightarrow> (file_error + unit) \<times> 'd" where
  "idb_new I name d = (case i_open I name d of (r, d') \<Rightarrow> (map_err (js_error name) r, d'))"

definition delete_database :: "'d idb \<Rightarrow> string \<Rightarrow> 'd \<Rightarrow> (file_error + unit) \<times> 'd" where
  "delete_database I name d = (case i_drop I name d of (r, d') \<Rightarrow> (map_err (js_error name) r, d'))"

text \<open>Issuing in order: the requests that were issued, and the error of the one that threw. Each
  request comes with the path its errors name.\<close>

fun idb_issue :: "'d idb \<Rightarrow> 'd \<Rightarrow> (string \<times> idb_request) list \<Rightarrow> idb_request list \<times> (file_error + unit)" where
  "idb_issue I d [] = ([], Inr ())"
| "idb_issue I d ((c, rq) # rqs) =
     (case i_issue I d rq of
        Inl e \<Rightarrow> ([], Inl (js_error c e))
      | Inr _ \<Rightarrow> (case idb_issue I d rqs of (issued, r) \<Rightarrow> (rq # issued, r)))"

fun idb_await :: "string list \<Rightarrow> (string + idb_value) list \<Rightarrow> file_error + idb_value list" where
  "idb_await (c # cs) (out # outs) =
     res_bind (map_err (js_error c) out) (\<lambda>v. res_bind (idb_await cs outs) (\<lambda>vs. Inr (v # vs)))"
| "idb_await _ _ = Inr []"

definition idb_transact ::
    "'d idb \<Rightarrow> 'd \<Rightarrow> idb_mode \<Rightarrow> (string \<times> idb_request) list \<Rightarrow> (file_error + idb_value list) \<times> 'd" where
  "idb_transact I d mode rqs =
     (case i_txn I d mode of
        Inl e \<Rightarrow> (Inl (js_error idb_store e), d)
      | Inr _ \<Rightarrow>
          (case idb_issue I d rqs of (issued, r) \<Rightarrow>
            (case i_run I d issued of (outs, d') \<Rightarrow>
              (res_bind r (\<lambda>_. idb_await (map fst rqs) outs), d'))))"

text \<open>A read-only transaction and a read-write one without a result.\<close>

definition idb_query :: "'d idb \<Rightarrow> 'd \<Rightarrow> (string \<times> idb_request) list \<Rightarrow> file_error + idb_value list" where
  "idb_query I d rqs = fst (idb_transact I d Readonly rqs)"

definition idb_update :: "'d idb \<Rightarrow> 'd \<Rightarrow> (string \<times> idb_request) list \<Rightarrow> (file_error + unit) \<times> 'd" where
  "idb_update I d rqs =
     (case idb_transact I d Readwrite rqs of (r, d') \<Rightarrow> (res_bind r (\<lambda>_. Inr ()), d'))"

definition idb_get :: "'d idb \<Rightarrow> 'd \<Rightarrow> string \<Rightarrow> file_error + ustring option" where
  "idb_get I d key = res_bind (idb_query I d [(key, GetRequest key)]) (\<lambda>vs.
     Inr (case vs of [JsText t] \<Rightarrow> Some t | _ \<Rightarrow> None))"

definition idb_all_keys :: "'d idb \<Rightarrow> 'd \<Rightarrow> file_error + string list" where
  "idb_all_keys I d = res_bind (idb_query I d [(idb_store, GetAllKeys)]) (\<lambda>vs.
     Inr (case vs of [JsKeys ks] \<Rightarrow> ks | _ \<Rightarrow> []))"

definition idb_all_entries :: "'d idb \<Rightarrow> 'd \<Rightarrow> file_error + (string \<times> ustring) list" where
  "idb_all_entries I d =
     res_bind (idb_query I d [(idb_store, GetAllKeys), (idb_store, GetAll)]) (\<lambda>vs.
       Inr (case vs of [JsKeys ks, JsTexts ts] \<Rightarrow> zip ks ts | _ \<Rightarrow> []))"

section \<open>Files\<close>

definition idb_read_file :: "'d idb \<Rightarrow> 'd \<Rightarrow> file_path \<Rightarrow> file_error + ustring" where
  "idb_read_file I d path =
     (let key = full_path path in res_bind (idb_get I d key) (ok_or (file_not_found key)))"

definition idb_exists :: "'d idb \<Rightarrow> 'd \<Rightarrow> file_path \<Rightarrow> bool" where
  "idb_exists I d path = (case idb_get I d (full_path path) of Inl _ \<Rightarrow> False | Inr v \<Rightarrow> v \<noteq> None)"

definition idb_write_file ::
    "'d idb \<Rightarrow> 'd \<Rightarrow> file_path \<Rightarrow> ustring \<Rightarrow> (file_error + unit) \<times> 'd" where
  "idb_write_file I d path data =
     (let key = full_path path in idb_update I d [(key, PutRequest data key)])"

definition idb_delete_file :: "'d idb \<Rightarrow> 'd \<Rightarrow> file_path \<Rightarrow> (file_error + unit) \<times> 'd" where
  "idb_delete_file I d path =
     (let key = full_path path in
      (case idb_get I d key of
         Inl e \<Rightarrow> (Inl e, d)
       | Inr None \<Rightarrow> (Inl (file_not_found key), d)
       | Inr (Some _) \<Rightarrow> idb_update I d [(key, DeleteRequest key)]))"

definition idb_move_file ::
    "'d idb \<Rightarrow> 'd \<Rightarrow> file_path \<Rightarrow> file_path \<Rightarrow> (file_error + unit) \<times> 'd" where
  "idb_move_file I d from to =
     (let from_key = full_path from; to_key = full_path to in
      (case idb_get I d from_key of
         Inl e \<Rightarrow> (Inl e, d)
       | Inr None \<Rightarrow> (Inl (file_not_found from_key), d)
       | Inr (Some contents) \<Rightarrow>
           idb_update I d [(to_key, PutRequest contents to_key), (from_key, DeleteRequest from_key)]))"

definition idb_copy_file ::
    "'d idb \<Rightarrow> 'd \<Rightarrow> file_path \<Rightarrow> file_path \<Rightarrow> (file_error + unit) \<times> 'd" where
  "idb_copy_file I d from to =
     (let from_key = full_path from; to_key = full_path to in
      (case idb_get I d from_key of
         Inl e \<Rightarrow> (Inl e, d)
       | Inr None \<Rightarrow> (Inl (file_not_found from_key), d)
       | Inr (Some contents) \<Rightarrow> idb_update I d [(to_key, PutRequest contents to_key)]))"

definition idb_file_io :: "'d idb \<Rightarrow> 'd file_io" where
  "idb_file_io I = \<lparr>fio_read = idb_read_file I, fio_exists = idb_exists I, fio_write = idb_write_file I,
     fio_delete = idb_delete_file I, fio_move = idb_move_file I, fio_copy = idb_copy_file I\<rparr>"

section \<open>Folders\<close>

definition idb_child_files :: "'d idb \<Rightarrow> 'd \<Rightarrow> folder_path \<Rightarrow> file_error + file_path list" where
  "idb_child_files I d path =
     res_bind (idb_all_keys I d) (collect_typed (is_child_of (full_path path)))"

definition idb_all_child_files :: "'d idb \<Rightarrow> 'd \<Rightarrow> folder_path \<Rightarrow> file_error + file_path list" where
  "idb_all_child_files I d path =
     res_bind (idb_all_keys I d) (collect_typed (\<lambda>key. starts_with key (full_path path)))"

definition idb_child_folders :: "'d idb \<Rightarrow> 'd \<Rightarrow> folder_path \<Rightarrow> file_error + folder_path list" where
  "idb_child_folders I d path = Inr []"

definition idb_create_folder :: "'d idb \<Rightarrow> 'd \<Rightarrow> folder_path \<Rightarrow> (file_error + unit) \<times> 'd" where
  "idb_create_folder I d path = (Inr (), d)"

definition idb_folder_exists :: "'d idb \<Rightarrow> 'd \<Rightarrow> folder_path \<Rightarrow> bool" where
  "idb_folder_exists I d path =
     (case idb_all_keys I d of
        Inr keys \<Rightarrow> list_ex (\<lambda>key. starts_with key (full_path path)) keys
      | Inl _ \<Rightarrow> False)"

definition idb_delete_folder ::
    "'d idb \<Rightarrow> 'd \<Rightarrow> folder_path \<Rightarrow> ((file_error + unit) \<times> 'd) option" where
  "idb_delete_folder I d path =
     (let c = full_path path in
      (case idb_all_keys I d of
         Inl e \<Rightarrow> Some (Inl e, d)
       | Inr all \<Rightarrow>
           (let keys = filter (\<lambda>key. starts_with key (full_path path)) all in
            if keys = [] then Some (Inl (folder_not_found c), d)
            else Some (idb_update I d (map (\<lambda>key. (c, DeleteRequest key)) keys)))))"

text \<open>The requests of a move and of a copy; \<open>None\<close> is the panic of \<open>strip_prefix\<close>, which the filter on
  the entries excludes, so that it does not matter that the requests before it have been issued.\<close>

fun move_requests ::
    "string \<Rightarrow> string \<Rightarrow> string \<Rightarrow> (string \<times> ustring) list \<Rightarrow> (string \<times> idb_request) list option" where
  "move_requests c from to [] = Some []"
| "move_requests c from to ((key, v) # es) =
     (case swap_prefix key from to of
        None \<Rightarrow> None
      | Some new_key \<Rightarrow> map_option (\<lambda>rqs. (c, PutRequest v new_key) # (c, DeleteRequest key) # rqs)
          (move_requests c from to es))"

fun copy_requests ::
    "string \<Rightarrow> string \<Rightarrow> string \<Rightarrow> (string \<times> ustring) list \<Rightarrow> (string \<times> idb_request) list option" where
  "copy_requests c from to [] = Some []"
| "copy_requests c from to ((key, v) # es) =
     (case swap_prefix key from to of
        None \<Rightarrow> None
      | Some new_key \<Rightarrow> map_option (\<lambda>rqs. (c, PutRequest v new_key) # rqs) (copy_requests c from to es))"

definition idb_folder_update :: "'d idb \<Rightarrow> 'd \<Rightarrow> string \<Rightarrow>
    ((string \<times> ustring) list \<Rightarrow> (string \<times> idb_request) list option) \<Rightarrow> ((file_error + unit) \<times> 'd) option" where
  "idb_folder_update I d folder requests =
     (case idb_all_entries I d of
        Inl e \<Rightarrow> Some (Inl e, d)
      | Inr all \<Rightarrow>
          (let es = filter (\<lambda>e. starts_with (fst e) folder) all in
           if es = [] then Some (Inl (folder_not_found folder), d)
           else map_option (idb_update I d) (requests es)))"

definition idb_move_folder ::
    "'d idb \<Rightarrow> 'd \<Rightarrow> folder_path \<Rightarrow> folder_path \<Rightarrow> ((file_error + unit) \<times> 'd) option" where
  "idb_move_folder I d from to =
     idb_folder_update I d (full_path from) (move_requests (full_path from) (full_path from) (full_path to))"

definition idb_copy_folder ::
    "'d idb \<Rightarrow> 'd \<Rightarrow> folder_path \<Rightarrow> folder_path \<Rightarrow> ((file_error + unit) \<times> 'd) option" where
  "idb_copy_folder I d from to =
     idb_folder_update I d (full_path from) (copy_requests (full_path from) (full_path from) (full_path to))"

definition idb_folder_io :: "'d idb \<Rightarrow> 'd folder_io" where
  "idb_folder_io I = \<lparr>dio_child_files = idb_child_files I, dio_all_child_files = idb_all_child_files I,
     dio_child_folders = idb_child_folders I, dio_create = idb_create_folder I,
     dio_exists = idb_folder_exists I, dio_delete = idb_delete_folder I,
     dio_move = idb_move_folder I, dio_copy = idb_copy_folder I\<rparr>"

section \<open>Transactions\<close>

lemma idb_lawsD:
  assumes "idb_laws I entries"
  shows "distinct (map fst (entries d))" and "i_issue I d rq = Inr ()"
    and "i_run I d rqs = (outs, d') \<Longrightarrow> length outs = length rqs"
    and "i_run I d rqs = (outs, d') \<Longrightarrow> list_all (Not \<circ> is_write) rqs \<Longrightarrow>
      list_all2 (\<lambda>rq out. \<forall>v. out = Inr v \<longrightarrow> v = idb_answer (entries d) rq) rqs outs"
    and "i_run I d rqs = (outs, d') \<Longrightarrow> map_of (entries d') = map_of (entries d) \<or>
      list_all is_ok outs \<and> map_of (entries d') = foldl idb_apply (map_of (entries d)) rqs"
    and "i_open I n d = (r, d') \<Longrightarrow> map_of (entries d') = map_of (entries d)"
  using assms unfolding idb_laws_def by blast+

lemma idb_keepsD: "idb_keeps I entries \<Longrightarrow> idb_laws I entries" "idb_keeps I entries \<Longrightarrow> idb_commits I entries"
  by (simp_all add: idb_keeps_def)

text \<open>What a call leaves of the stored files, whose success is \<open>sure\<close> to have been committed or is not.\<close>

definition committed :: "bool \<Rightarrow> 'm \<Rightarrow> 'm \<Rightarrow> bool \<Rightarrow> 'm \<Rightarrow> bool" where
  "committed sure old new success now \<longleftrightarrow> (if success then now = new \<or> \<not> sure \<and> now = old else now = old)"

lemma idb_issue_all: "(\<And>rq. i_issue I d rq = Inr ()) \<Longrightarrow> idb_issue I d rqs = (map snd rqs, Inr ())"
  by (induction rqs) auto

lemma idb_await_ok:
  "length cs = length outs \<Longrightarrow> idb_await cs outs = Inr vs \<Longrightarrow> list_all is_ok outs \<and> outs = map Inr vs"
  by (induction cs outs arbitrary: vs rule: idb_await.induct)
    (auto simp: res_bind_Inr_iff map_err_Inr_iff)

lemma idb_await_err:
  "length cs = length outs \<Longrightarrow> idb_await cs outs = Inl e \<Longrightarrow> \<not> list_all is_ok outs"
proof (induction cs outs rule: idb_await.induct)
  case (1 c cs out outs)
  then show ?case by (cases out) (auto simp: res_bind_Inl_iff)
qed auto

lemma idb_transact_spec:
  assumes laws: "idb_laws I entries" and t: "idb_transact I d mode rqs = (r, d')"
  shows "(sure \<longrightarrow> idb_commits I entries) \<Longrightarrow>
      committed sure (map_of (entries d)) (foldl idb_apply (map_of (entries d)) (map snd rqs)) (is_ok r) (map_of (entries d'))"
    and "r = Inr vs \<Longrightarrow> list_all (Not \<circ> is_write \<circ> snd) rqs \<Longrightarrow> vs = map (idb_answer (entries d) \<circ> snd) rqs"
proof -
  obtain outs d1 where run: "i_run I d (map snd rqs) = (outs, d1)" by fastforce
  note len = idb_lawsD(3) [OF laws run]
  have opened: "r = idb_await (map fst rqs) outs \<and> d' = d1" if "i_txn I d mode = Inr ()"
    using t that by (simp add: idb_transact_def idb_issue_all idb_lawsD(2) [OF laws] run)
  have closed: "\<exists>e. r = Inl e" "d' = d" if "i_txn I d mode = Inl e" for e
    using t that by (auto simp: idb_transact_def)
  show "committed sure (map_of (entries d)) (foldl idb_apply (map_of (entries d)) (map snd rqs)) (is_ok r) (map_of (entries d'))"
    if sure: "sure \<longrightarrow> idb_commits I entries"
  proof (cases "i_txn I d mode")
    case (Inl e)
    with closed show ?thesis by (fastforce simp: committed_def)
  next
    case (Inr u)
    then have r: "r = idb_await (map fst rqs) outs" "d' = d1" using opened by simp_all
    have "list_all is_ok outs = is_ok (idb_await (map fst rqs) outs)"
      using idb_await_ok [of "map fst rqs" outs] idb_await_err [of "map fst rqs" outs] len
      by (cases "idb_await (map fst rqs) outs") (simp_all, blast)
    moreover have "list_all is_ok outs \<longrightarrow> sure \<longrightarrow> map_of (entries d1) = foldl idb_apply (map_of (entries d)) (map snd rqs)"
      using sure run unfolding idb_commits_def by blast
    ultimately show ?thesis using idb_lawsD(5) [OF laws run] r by (auto simp: committed_def)
  qed
  show "vs = map (idb_answer (entries d) \<circ> snd) rqs" if "r = Inr vs" "list_all (Not \<circ> is_write \<circ> snd) rqs"
  proof -
    have "i_txn I d mode = Inr ()" using closed that(1) by (cases "i_txn I d mode") fastforce+
    then have "outs = map Inr vs"
      using opened that(1) idb_await_ok [of "map fst rqs" outs vs] len by simp
    moreover have "list_all (Not \<circ> is_write) (map snd rqs)" using that(2) by (simp add: list.pred_map o_assoc)
    ultimately have "list_all2 (\<lambda>rq v. v = idb_answer (entries d) rq) (map snd rqs) vs"
      using idb_lawsD(4) [OF laws run] by (simp add: list_all2_map2)
    then show ?thesis by (simp add: list_all2_conv_all_nth nth_equalityI)
  qed
qed

lemma idb_update_committed:
  assumes "idb_laws I entries" and "idb_update I d rqs = (r, d')" and "sure \<longrightarrow> idb_commits I entries"
  shows "committed sure (map_of (entries d)) (foldl idb_apply (map_of (entries d)) (map snd rqs)) (is_ok r) (map_of (entries d'))"
proof -
  obtain r1 where t: "idb_transact I d Readwrite rqs = (r1, d')" and "r = res_bind r1 (\<lambda>_. Inr ())"
    using assms(2) by (auto simp: idb_update_def split: prod.splits)
  then have "is_ok r = is_ok r1" by (cases r1) simp_all
  with idb_transact_spec(1) [OF assms(1) t assms(3)] show ?thesis by simp
qed

lemma idb_update_spec:
  assumes "idb_keeps I entries" and "idb_update I d rqs = (r, d')"
  shows "map_of (entries d') =
    (if is_ok r then foldl idb_apply (map_of (entries d)) (map snd rqs) else map_of (entries d))"
  using idb_update_committed [OF idb_keepsD(1) [OF assms(1)] assms(2), of True] idb_keepsD(2) [OF assms(1)]
  by (auto simp: committed_def split: if_splits)

lemma idb_query_spec:
  assumes "idb_laws I entries" and "idb_query I d rqs = Inr vs" and "list_all (Not \<circ> is_write \<circ> snd) rqs"
  shows "vs = map (idb_answer (entries d) \<circ> snd) rqs"
proof -
  obtain d' where "idb_transact I d Readonly rqs = (Inr vs, d')"
    using assms(2) unfolding idb_query_def by (metis prod.collapse)
  from idb_transact_spec(2) [OF assms(1) this _ assms(3)] show ?thesis by simp
qed

lemma idb_get_ok:
  assumes "idb_laws I entries" and "idb_get I d k = Inr x"
  shows "x = map_of (entries d) k"
proof -
  obtain vs where "idb_query I d [(k, GetRequest k)] = Inr vs"
    and "x = (case vs of [JsText t] \<Rightarrow> Some t | _ \<Rightarrow> None)"
    using assms(2) by (auto simp: idb_get_def res_bind_Inr_iff)
  with idb_query_spec [OF assms(1)] show ?thesis by (fastforce split: option.splits)
qed

lemma idb_all_keys_ok:
  assumes "idb_laws I entries" and "idb_all_keys I d = Inr ks"
  shows "ks = map fst (entries d)"
proof -
  obtain vs where "idb_query I d [(idb_store, GetAllKeys)] = Inr vs"
    and "ks = (case vs of [JsKeys ks] \<Rightarrow> ks | _ \<Rightarrow> [])"
    using assms(2) by (auto simp: idb_all_keys_def res_bind_Inr_iff)
  with idb_query_spec [OF assms(1)] show ?thesis by fastforce
qed

lemma idb_all_entries_ok:
  assumes "idb_laws I entries" and "idb_all_entries I d = Inr es"
  shows "es = entries d"
proof -
  obtain vs where "idb_query I d [(idb_store, GetAllKeys), (idb_store, GetAll)] = Inr vs"
    and "es = (case vs of [JsKeys ks, JsTexts ts] \<Rightarrow> zip ks ts | _ \<Rightarrow> [])"
    using assms(2) by (auto simp: idb_all_entries_def res_bind_Inr_iff)
  with idb_query_spec [OF assms(1)] show ?thesis by (fastforce simp: zip_map_fst_snd)
qed

section \<open>The contract of a file engine\<close>

lemma idb_read_ok:
  assumes laws: "idb_laws I entries"
  shows "idb_read_file I d p = Inr c \<Longrightarrow> map_of (entries d) (full_path p) = Some c"
  using idb_get_ok [OF laws, of d "full_path p"]
  by (auto simp: Let_def idb_read_file_def res_bind_Inr_iff ok_or_def split: option.splits)

lemma idb_exists_ok:
  assumes laws: "idb_laws I entries"
  shows "idb_exists I d p \<Longrightarrow> map_of (entries d) (full_path p) \<noteq> None"
  using idb_get_ok [OF laws, of d "full_path p"] by (auto simp: Let_def idb_exists_def split: sum.splits)

lemma idb_write_spec:
  assumes laws: "idb_keeps I entries"
  shows "idb_write_file I d p c = (r, d') \<Longrightarrow> map_of (entries d') =
    (if is_ok r then (map_of (entries d))(full_path p \<mapsto> c) else map_of (entries d))"
  by (auto simp: Let_def idb_write_file_def dest: idb_update_spec [OF laws])

lemma idb_delete_spec:
  assumes laws: "idb_keeps I entries" and run: "idb_delete_file I d p = (r, d')"
  shows "(is_ok r \<longrightarrow> map_of (entries d) (full_path p) \<noteq> None) \<and> map_of (entries d') =
    (if is_ok r then (map_of (entries d))(full_path p := None) else map_of (entries d))"
proof (cases "idb_get I d (full_path p)")
  case (Inr x)
  with idb_get_ok [OF idb_keepsD(1) [OF laws] Inr, symmetric] run show ?thesis
    by (cases x) (auto simp: Let_def idb_delete_file_def dest: idb_update_spec [OF laws])
qed (use run in \<open>auto simp: Let_def idb_delete_file_def\<close>)

lemma idb_move_spec:
  assumes laws: "idb_keeps I entries" and run: "idb_move_file I d p q = (r, d')"
  shows "(is_ok r \<longrightarrow> map_of (entries d) (full_path p) \<noteq> None) \<and> map_of (entries d') =
    (if is_ok r then (map_of (entries d))(full_path q := map_of (entries d) (full_path p), full_path p := None)
     else map_of (entries d))"
proof (cases "idb_get I d (full_path p)")
  case (Inr x)
  with idb_get_ok [OF idb_keepsD(1) [OF laws] Inr, symmetric] run show ?thesis
    by (cases x) (auto simp: Let_def idb_move_file_def dest: idb_update_spec [OF laws])
qed (use run in \<open>auto simp: Let_def idb_move_file_def\<close>)

lemma idb_copy_spec:
  assumes laws: "idb_keeps I entries" and run: "idb_copy_file I d p q = (r, d')"
  shows "(is_ok r \<longrightarrow> map_of (entries d) (full_path p) \<noteq> None) \<and> map_of (entries d') =
    (if is_ok r then (map_of (entries d))(full_path q := map_of (entries d) (full_path p))
     else map_of (entries d))"
proof (cases "idb_get I d (full_path p)")
  case (Inr x)
  with idb_get_ok [OF idb_keepsD(1) [OF laws] Inr, symmetric] run show ?thesis
    by (cases x) (auto simp: Let_def idb_copy_file_def dest: idb_update_spec [OF laws])
qed (use run in \<open>auto simp: Let_def idb_copy_file_def\<close>)

lemma idb_file_store:
  assumes laws: "idb_keeps I entries"
  shows "file_store (idb_file_io I) (\<lambda>k. k) (\<lambda>d. map_of (entries d)) (\<lambda>_. True)"
  by unfold_locales
    (auto simp: idb_file_io_def dest: idb_read_ok [OF idb_keepsD(1) [OF laws]] idb_exists_ok [OF idb_keepsD(1) [OF laws]]
      dest!: idb_write_spec [OF laws] idb_delete_spec [OF laws] idb_move_spec [OF laws] idb_copy_spec [OF laws])

section \<open>The folder operations\<close>

definition stored :: "('d \<Rightarrow> (string \<times> ustring) list) \<Rightarrow> 'd \<Rightarrow> string \<Rightarrow> ustring option" where
  "stored entries d = map_of (entries d)"

lemma idb_write_committed:
  assumes "idb_laws I entries" and "idb_write_file I d p c = (r, d')" and "sure \<longrightarrow> idb_commits I entries"
  shows "committed sure (stored entries d) ((stored entries d)(full_path p \<mapsto> c)) (is_ok r) (stored entries d')"
  using idb_update_committed [OF assms(1) _ assms(3), of d "[(full_path p, PutRequest c (full_path p))]" r d'] assms(2)
  by (simp add: idb_write_file_def stored_def Let_def)

lemma move_requests_effect:
  assumes "\<forall>e \<in> set es. starts_with (fst e) from"
  shows "\<exists>rqs. move_requests c from to es = Some rqs \<and>
    (\<forall>M. foldl idb_apply M (map snd rqs) =
       foldl (\<lambda>M e. (M(moved_key from to (fst e) \<mapsto> snd e))(fst e := None)) M es)"
  using assms by (induction es) (auto simp: swap_prefix_starts)

lemma copy_requests_effect:
  assumes "\<forall>e \<in> set es. starts_with (fst e) from"
  shows "\<exists>rqs. copy_requests c from to es = Some rqs \<and>
    (\<forall>M. foldl idb_apply M (map snd rqs) =
       foldl (\<lambda>M e. M(moved_key from to (fst e) \<mapsto> snd e)) M es)"
  using assms by (induction es) (auto simp: swap_prefix_starts)

lemma put_entries:
  assumes "distinct (map fst es)" and "inj_on g (fst ` set es)"
  shows "(\<forall>e \<in> set es. foldl (\<lambda>M e. M(g (fst e) \<mapsto> snd e)) M es (g (fst e)) = Some (snd e)) \<and>
    (\<forall>k. k \<notin> g ` fst ` set es \<longrightarrow> foldl (\<lambda>M e. M(g (fst e) \<mapsto> snd e)) M es k = M k)"
  using assms
proof (induction es arbitrary: M)
  case (Cons e es)
  have "g (fst e) \<notin> g ` fst ` set es" using Cons.prems by (auto simp: inj_on_def)
  with Cons.IH [of "M(g (fst e) \<mapsto> snd e)"] Cons.prems show ?case by (auto simp: inj_on_def)
qed simp

lemma delete_requests_effect:
  "foldl idb_apply M (map snd (map (\<lambda>key. (c, DeleteRequest key)) keys)) =
    (\<lambda>k. if k \<in> set keys then None else M k)"
  by (induction keys arbitrary: M) auto

text \<open>The entries beneath a folder, as the operations collect them.\<close>

definition idb_beneath :: "('d \<Rightarrow> (string \<times> ustring) list) \<Rightarrow> 'd \<Rightarrow> string \<Rightarrow> (string \<times> ustring) list" where
  "idb_beneath entries d folder = filter (\<lambda>e. starts_with (fst e) folder) (entries d)"

lemma idb_beneath_facts:
  assumes "idb_laws I entries"
  shows "distinct (map fst (idb_beneath entries d folder))"
    and "fst ` set (idb_beneath entries d folder) = kv_under (stored entries) d folder"
    and "e \<in> set (idb_beneath entries d folder) \<Longrightarrow> stored entries d (fst e) = Some (snd e)"
    and "\<forall>e \<in> set (idb_beneath entries d folder). starts_with (fst e) folder"
  using idb_lawsD(1) [OF assms, of d]
  by (auto simp: idb_beneath_def distinct_map_filter kv_under_def stored_def map_of_eq_None_iff
      image_iff dest: map_of_SomeD)

lemma idb_folder_update_effect:
  assumes laws: "idb_keeps I entries"
    and reqs: "\<exists>rqs. requests (idb_beneath entries d folder) = Some rqs \<and>
      foldl idb_apply (stored entries d) (map snd rqs) = M" and "P M"
  shows "\<exists>r d'. idb_folder_update I d folder requests = Some (r, d') \<and>
    (if is_ok r then kv_under (stored entries) d folder \<noteq> {} \<and> P (stored entries d')
     else stored entries d' = stored entries d)"
proof (cases "idb_all_entries I d")
  case (Inr es)
  then have es: "filter (\<lambda>e. starts_with (fst e) folder) es = idb_beneath entries d folder"
    using idb_all_entries_ok [OF idb_keepsD(1) [OF laws]] by (simp add: idb_beneath_def)
  obtain rqs where rqs: "requests (idb_beneath entries d folder) = Some rqs"
    "foldl idb_apply (stored entries d) (map snd rqs) = M" using reqs by blast
  obtain r d' where run: "idb_update I d rqs = (r, d')" by fastforce
  have "stored entries d' = (if is_ok r then M else stored entries d)"
    using idb_update_spec [OF laws run] rqs(2) by (simp add: stored_def)
  moreover have "idb_beneath entries d folder = [] \<longleftrightarrow> kv_under (stored entries) d folder = {}"
    using idb_beneath_facts(2) [OF idb_keepsD(1) [OF laws], of d folder] by auto
  ultimately show ?thesis using run assms(3) by (auto simp: idb_folder_update_def Inr es rqs(1))
qed (simp add: idb_folder_update_def)

text \<open>The three operations, with the entries beneath the folder \<open>es\<close> and the new keys \<open>g\<close>.\<close>

lemma idb_move_folder_effect:
  assumes laws: "idb_keeps I entries" and es: "es = idb_beneath entries d (full_path p)"
    and g: "g = moved_key (full_path p) (full_path q)"
    and inj: "inj_on g (fst ` set es)" and disj: "g ` fst ` set es \<inter> fst ` set es = {}"
  shows "\<exists>r d'. idb_move_folder I d p q = Some (r, d') \<and>
    (if is_ok r then fst ` set es \<noteq> {} \<and> rekeyed g (fst ` set es) (stored entries d) (stored entries d')
     else stored entries d' = stored entries d)"
proof -
  define F where "F = foldl (\<lambda>M e. (M(g (fst e) \<mapsto> snd e))(fst e := None)) (stored entries d) es"
  note facts = idb_beneath_facts(1,2,4) [OF idb_keepsD(1) [OF laws], of d "full_path p", folded es]
    idb_beneath_facts(3) [OF idb_keepsD(1) [OF laws], of _ d "full_path p", folded es]
  have "rekeyed g ((\<lambda>k. k) ` fst ` set es) (stored entries d) F"
    unfolding F_def using facts(1,4) inj disj by (intro raw.put_delete_loop) (simp_all add: o_def)
  moreover have "\<exists>rqs. move_requests (full_path p) (full_path p) (full_path q) es = Some rqs \<and>
      foldl idb_apply (stored entries d) (map snd rqs) = F"
    using move_requests_effect [OF facts(3), of "full_path p" "full_path q"] unfolding g F_def by blast
  ultimately show ?thesis
    unfolding idb_move_folder_def facts(2) by (intro idb_folder_update_effect [OF laws]) (simp_all add: es)
qed

lemma idb_copy_folder_effect:
  assumes laws: "idb_keeps I entries" and es: "es = idb_beneath entries d (full_path p)"
    and g: "g = moved_key (full_path p) (full_path q)" and inj: "inj_on g (fst ` set es)"
  shows "\<exists>r d'. idb_copy_folder I d p q = Some (r, d') \<and>
    (if is_ok r then fst ` set es \<noteq> {} \<and> copied g (fst ` set es) (stored entries d) (stored entries d')
     else stored entries d' = stored entries d)"
proof -
  define F where "F = foldl (\<lambda>M e. M(g (fst e) \<mapsto> snd e)) (stored entries d) es"
  note facts = idb_beneath_facts(1,2,4) [OF idb_keepsD(1) [OF laws], of d "full_path p", folded es]
    idb_beneath_facts(3) [OF idb_keepsD(1) [OF laws], of _ d "full_path p", folded es]
  have "copied g (fst ` set es) (stored entries d) F"
    using put_entries [OF facts(1) inj] facts(4) unfolding copied_def F_def by auto
  moreover have "\<exists>rqs. copy_requests (full_path p) (full_path p) (full_path q) es = Some rqs \<and>
      foldl idb_apply (stored entries d) (map snd rqs) = F"
    using copy_requests_effect [OF facts(3), of "full_path p" "full_path q"] unfolding g F_def by blast
  ultimately show ?thesis
    unfolding idb_copy_folder_def facts(2) by (intro idb_folder_update_effect [OF laws]) (simp_all add: es)
qed

lemma idb_delete_folder_effect:
  assumes laws: "idb_keeps I entries" and es: "es = idb_beneath entries d (full_path p)"
  shows "\<exists>r d'. idb_delete_folder I d p = Some (r, d') \<and>
    (if is_ok r then fst ` set es \<noteq> {} \<and>
       stored entries d' = (\<lambda>k. if k \<in> fst ` set es then None else stored entries d k)
     else stored entries d' = stored entries d)"
proof (cases "idb_all_keys I d")
  case (Inr all)
  then have keys: "filter (\<lambda>key. starts_with key (full_path p)) all = map fst es"
    using idb_all_keys_ok [OF idb_keepsD(1) [OF laws] Inr] by (simp add: es idb_beneath_def filter_map o_def)
  define rqs where "rqs = map (\<lambda>key. (full_path p, DeleteRequest key)) (map fst es)"
  obtain r d' where run: "idb_update I d rqs = (r, d')" by fastforce
  have "foldl idb_apply (stored entries d) (map snd rqs) =
      (\<lambda>k. if k \<in> fst ` set es then None else stored entries d k)"
    using delete_requests_effect [of "stored entries d" "full_path p" "map fst es"] by (simp add: rqs_def)
  then have "stored entries d' =
      (if is_ok r then (\<lambda>k. if k \<in> fst ` set es then None else stored entries d k) else stored entries d)"
    using idb_update_spec [OF laws run] by (simp add: stored_def)
  then show ?thesis
    using run by (auto simp: idb_delete_folder_def Inr keys Let_def rqs_def)
qed (simp add: idb_delete_folder_def)

text \<open>Every folder operation of the IndexedDB engine returns, and a failed one leaves the files as
  they were. A successful move to a place neither above nor below the folder re-keys exactly the
  entries beneath it, a copy adds them under their new keys, a deletion removes them, and nothing
  else changes; the folder was not empty. Stored keys are taken to name distinct paths.\<close>

theorem idb_folder_ops_rekey:
  assumes "idb_keeps I entries" and "inj_on components (dom (stored entries d))"
    and "components (full_path p) \<noteq> []"
    and "unrelated (components (full_path p)) (components (full_path q))"
    and "N = kv_under (stored entries) d (full_path p)"
    and "g = moved_key (full_path p) (full_path q)"
  shows "(\<exists>r d'. idb_move_folder I d p q = Some (r, d') \<and>
      (if is_ok r then N \<noteq> {} \<and> rekeyed g N (stored entries d) (stored entries d')
       else stored entries d' = stored entries d))
    \<and> (\<exists>r d'. idb_copy_folder I d p q = Some (r, d') \<and>
      (if is_ok r then N \<noteq> {} \<and> copied g N (stored entries d) (stored entries d')
       else stored entries d' = stored entries d))
    \<and> (\<exists>r d'. idb_delete_folder I d p = Some (r, d') \<and>
      (if is_ok r then N \<noteq> {} \<and> stored entries d' = (\<lambda>k. if k \<in> N then None else stored entries d k)
       else stored entries d' = stored entries d))"
proof -
  have N: "fst ` set (idb_beneath entries d (full_path p)) = N"
    using idb_beneath_facts(2) [OF idb_keepsD(1) [OF assms(1)]] by (simp add: assms(5))
  have inj: "inj_on g N" and disj: "g ` N \<inter> N = {}"
    using moved_key_inj [OF assms(2,3) kv_under_sub(1) [of "stored entries" d "full_path p"]]
      moved_key_disjoint [OF assms(4,3) kv_under_sub(2) [of "stored entries" d "full_path p"]]
    by (simp_all add: assms(5,6))
  show ?thesis
    using idb_move_folder_effect [OF assms(1) refl assms(6), of d] idb_copy_folder_effect [OF assms(1) refl assms(6), of d]
      idb_delete_folder_effect [OF assms(1) refl, of d p] inj disj
    unfolding N by (intro conjI) simp_all
qed

section \<open>A concrete database\<close>

text \<open>An object store as a list of entries, on which no request fails and every transaction commits.\<close>

definition list_idb :: "(string \<times> ustring) list idb" where
  "list_idb = \<lparr>i_open = (\<lambda>_ d. (Inr (), d)), i_drop = (\<lambda>_ d. (Inr (), [])), i_txn = (\<lambda>_ _. Inr ()),
     i_issue = (\<lambda>_ _. Inr ()),
     i_run = (\<lambda>d rqs. (map (\<lambda>rq. Inr (idb_answer (AList.clearjunk d) rq)) rqs,
       foldl (\<lambda>d rq. case rq of PutRequest v k \<Rightarrow> (k, v) # d
          | DeleteRequest k \<Rightarrow> filter (\<lambda>e. fst e \<noteq> k) d | _ \<Rightarrow> d) d rqs))\<rparr>"

lemma list_idb_run:
  "map_of (foldl (\<lambda>d rq. case rq of PutRequest v k \<Rightarrow> (k, v) # d
      | DeleteRequest k \<Rightarrow> filter (\<lambda>e. fst e \<noteq> k) d | _ \<Rightarrow> d) d rqs) = foldl idb_apply (map_of d) rqs"
proof (induction rqs arbitrary: d)
  case (Cons rq rqs)
  then show ?case by (cases rq) (simp_all add: map_of_removed fun_upd_def)
qed simp

lemma list_idb_keeps: "idb_keeps list_idb AList.clearjunk"
  by (auto simp: idb_keeps_def idb_commits_def idb_laws_def list_idb_def distinct_clearjunk map_of_clearjunk list_idb_run
      list_all2_conv_all_nth list_all_iff)

lemmas list_idb_laws = idb_keepsD [OF list_idb_keeps]

text \<open>One on which every request succeeds and every transaction then aborts, as when the quota is exhausted: it
  keeps to the same laws.\<close>

definition full_idb :: "(string \<times> ustring) list idb" where
  "full_idb = list_idb\<lparr>i_run := (\<lambda>d rqs. (map (\<lambda>rq. Inr (idb_answer (AList.clearjunk d) rq)) rqs, d))\<rparr>"

lemma full_idb_laws: "idb_laws full_idb AList.clearjunk"
  by (auto simp: idb_laws_def full_idb_def list_idb_def distinct_clearjunk list_all2_conv_all_nth list_all_iff)

interpretation idb_list: file_store "idb_file_io list_idb" "\<lambda>k. k" "\<lambda>d. map_of (AList.clearjunk d)" "\<lambda>_. True"
  by (rule idb_file_store [OF list_idb_keeps])

lemmas idb_eval = idb_all_entries_def idb_query_def idb_transact_def idb_update_def idb_get_def list_idb_def

lemma demo_stored: "stored AList.clearjunk demo_db = map_of demo_db"
  by (simp add: stored_def map_of_clearjunk)

lemma idb_folder_ops_rekey_witness:
  "\<exists>d'. idb_move_folder list_idb demo_db (demo_folder ''a'') (demo_folder ''b'') = Some (Inr (), d') \<and>
     map_of d' ''b/x'' = Some [1] \<and>
     rekeyed (moved_key ''a'' ''b'') (kv_under (stored AList.clearjunk) demo_db ''a'') (map_of demo_db) (map_of d')"
proof -
  have step: "\<exists>d'. idb_move_folder list_idb demo_db (demo_folder ''a'') (demo_folder ''b'') = Some (Inr (), d') \<and>
      map_of d' ''b/x'' = Some [1]"
    by (simp add: idb_move_folder_def idb_folder_update_def idb_eval demo_db_def demo_folder_def
        swap_prefix_def path_eval)
  then obtain d' where d': "idb_move_folder list_idb demo_db (demo_folder ''a'') (demo_folder ''b'') = Some (Inr (), d')"
    "map_of d' ''b/x'' = Some [1]" by blast
  with idb_folder_ops_rekey [OF list_idb_keeps demo_db_facts(1) [folded demo_stored] demo_db_facts(2,3) refl refl]
  show ?thesis by (auto simp: demo_stored full_path_demo) (simp add: stored_def map_of_clearjunk)
qed

text \<open>A write that reports success has not always been committed.\<close>

lemma idb_success_before_commit:
  "idb_write_file full_idb [(''c'', [2])] (plain_file ''c'') [3] = (Inr (), [(''c'', [2])])"
  by (simp add: idb_write_file_def idb_eval full_idb_def plain_file_def)

text \<open>A file moved onto itself is written and then deleted.\<close>

lemma idb_move_onto_itself_loses:
  "idb_move_file list_idb [(''c'', [2])] (plain_file ''c'') (plain_file ''c'') = (Inr (), [])"
  by (simp add: idb_move_file_def idb_eval plain_file_def)

end
