(* ===== verification/Browser.thy ===== *)
theory Browser
  imports Guard Idb_Engine "HOL-Library.Char_ord" "HOL-Library.List_Lexorder"
begin

text \<open>
  The browser's session: \<open>mem_files/browser_state.rs\<close>. Its two thread locals are the configured store
  and the table of open buffers, keyed by the path string; a buffer keeps the store it was opened
  with. The calls are here as they run when nothing else runs meanwhile; \<open>Browser_Calls\<close> cuts them
  at their awaits. Texts are read from the buffers, a compile reads the databases.
\<close>

section \<open>The session\<close>

text \<open>A leaked \<open>IndexedDbIo\<close> is a handle: the name of its database, so that two handles of one name
  have the same contents. \<open>'d\<close> is a database.\<close>

type_synonym 'doc browser_file = "string \<times> 'doc mem_file"

record ('d, 'doc) browser =
  b_dbs :: "string \<Rightarrow> 'd"
  b_store :: "string option"
  b_files :: "(string, 'doc browser_file) hash_map"

abbreviation file_state :: "(string, 'doc browser_file) hash_map \<Rightarrow> string \<Rightarrow> 'doc browser_file option" where
  "file_state fs \<equiv> hm_get (\<lambda>k. k) fs"

definition configure_persistence ::
    "'d idb \<Rightarrow> string \<Rightarrow> ('d, 'doc) browser \<Rightarrow> (file_error + unit) \<times> ('d, 'doc) browser" where
  "configure_persistence I db_name b =
     (case idb_new I db_name (b_dbs b db_name) of
        (Inl e, d) \<Rightarrow> (Inl e, b\<lparr>b_dbs := (b_dbs b)(db_name := d)\<rparr>)
      | (Inr _, d) \<Rightarrow> (Inr (), b\<lparr>b_dbs := (b_dbs b)(db_name := d), b_store := Some db_name\<rparr>))"

definition browser_store :: "('d, 'doc) browser \<Rightarrow> file_error + string" where
  "browser_store b =
     ok_or (MemFileError [] ''persistence not configured; call configure_persistence first'') (b_store b)"

definition not_open :: "string \<Rightarrow> string \<Rightarrow> file_error" where
  "not_open path action = MemFileError path (''file not open to '' @ action)"

text \<open>A save of one buffer, and the drop of one, through its own store.\<close>

definition browser_save :: "('doc, 'u, 'v) yrs \<Rightarrow> 'd idb \<Rightarrow> 'doc browser_file \<Rightarrow> (string \<Rightarrow> 'd) \<Rightarrow>
    (file_error + unit) \<times> 'doc browser_file \<times> (string \<Rightarrow> 'd)" where
  "browser_save Y I file dbs =
     (case mf_save Y (idb_file_io I) (snd file) (dbs (fst file)) of
        (r, f, d) \<Rightarrow> (r, (fst file, f), dbs(fst file := d)))"

definition browser_drop :: "('doc, 'u, 'v) yrs \<Rightarrow> 'd idb \<Rightarrow> 'doc browser_file \<Rightarrow> (string \<Rightarrow> 'd) \<Rightarrow> string \<Rightarrow> 'd" where
  "browser_drop Y I file dbs =
     dbs(fst file := mf_drop Y (idb_file_io I) (snd file) (dbs (fst file)))"

text \<open>\<open>HashMap::insert\<close> and \<open>HashMap::remove\<close> on the table; what they displace is dropped by \<open>put_in\<close>
  and handed to the caller by \<open>take_out\<close>.\<close>

definition take_out :: "string \<Rightarrow> ('d, 'doc) browser \<Rightarrow> 'doc browser_file option \<times> ('d, 'doc) browser" where
  "take_out path b = (file_state (b_files b) path, b\<lparr>b_files := hm_remove (\<lambda>k. k) path (b_files b)\<rparr>)"

definition put_in :: "('doc, 'u, 'v) yrs \<Rightarrow> 'd idb \<Rightarrow> string \<Rightarrow> 'doc browser_file \<Rightarrow>
    ('d, 'doc) browser \<Rightarrow> ('d, 'doc) browser" where
  "put_in Y I path file b =
     b\<lparr>b_files := hm_insert (\<lambda>k. k) path file (b_files b),
       b_dbs := (case file_state (b_files b) path of
                   None \<Rightarrow> b_dbs b
                 | Some old \<Rightarrow> browser_drop Y I old (b_dbs b))\<rparr>"

section \<open>Opening and closing\<close>

text \<open>The shared end of the two: a buffer whose first save fails is dropped.\<close>

definition save_and_open :: "('doc, 'u, 'v) yrs \<Rightarrow> 'd idb \<Rightarrow> string \<Rightarrow> 'doc browser_file \<Rightarrow>
    ('d, 'doc) browser \<Rightarrow> (file_error + unit) \<times> ('d, 'doc) browser" where
  "save_and_open Y I path file b =
     (case browser_save Y I file (b_dbs b) of
        (Inl e, file, dbs) \<Rightarrow> (Inl e, b\<lparr>b_dbs := browser_drop Y I file dbs\<rparr>)
      | (Inr _, file, dbs) \<Rightarrow> (Inr (), put_in Y I path file (b\<lparr>b_dbs := dbs\<rparr>)))"

definition insert_file_from_state :: "('doc, 'u, 'v) yrs \<Rightarrow> 'd idb \<Rightarrow> string \<Rightarrow> nat list \<Rightarrow>
    ('d, 'doc) browser \<Rightarrow> (file_error + unit) \<times> ('d, 'doc) browser" where
  "insert_file_from_state Y I path state b =
     (case browser_store b of
        Inl e \<Rightarrow> (Inl e, b)
      | Inr db \<Rightarrow>
          (case res_bind (new_file path) (\<lambda>file_path. from_state Y file_path state Async) of
             Inl e \<Rightarrow> (Inl e, b)
           | Inr file \<Rightarrow>
               save_and_open Y I path (db, file) b))"

definition insert_file_from_string :: "('doc, 'u, 'v) yrs \<Rightarrow> 'd idb \<Rightarrow> string \<Rightarrow> ustring \<Rightarrow>
    ('d, 'doc) browser \<Rightarrow> ((file_error + unit) \<times> ('d, 'doc) browser) option" where
  "insert_file_from_string Y I path contents b =
     (case browser_store b of
        Inl e \<Rightarrow> Some (Inl e, b)
      | Inr db \<Rightarrow>
          (case new_file path of
             Inl e \<Rightarrow> Some (Inl e, b)
           | Inr file_path \<Rightarrow>
               map_option (\<lambda>file. save_and_open Y I path (db, file) b)
                 (from_string Y file_path Async contents)))"

definition remove_file :: "('doc, 'u, 'v) yrs \<Rightarrow> 'd idb \<Rightarrow> string \<Rightarrow> ('d, 'doc) browser \<Rightarrow> ('d, 'doc) browser" where
  "remove_file Y I path b =
     (case take_out path b of
        (None, b) \<Rightarrow> b
      | (Some file, b) \<Rightarrow> b\<lparr>b_dbs := browser_drop Y I file (b_dbs b)\<rparr>)"

definition wipe_state :: "('doc, 'u, 'v) yrs \<Rightarrow> 'd idb \<Rightarrow> ('d, 'doc) browser \<Rightarrow> ('d, 'doc) browser" where
  "wipe_state Y I b =
     b\<lparr>b_files := [], b_dbs := foldl (\<lambda>dbs e. browser_drop Y I (snd e) dbs) (b_dbs b) (b_files b)\<rparr>"

section \<open>Editing\<close>

text \<open>\<open>apply_transaction\<close>, \<open>apply_insert\<close> and \<open>apply_delete\<close> of this file have the bodies of the guard's.\<close>

definition browser_apply_insert :: "('doc, 'u, 'v) yrs \<Rightarrow> 'd idb \<Rightarrow> 'doc mem_file \<Rightarrow> 'd \<Rightarrow>
    cursor_index \<Rightarrow> ustring \<Rightarrow> ('doc, 'd) edit_result" where
  "browser_apply_insert Y I = apply_insert Y (idb_file_io I)"

definition browser_apply_delete :: "('doc, 'u, 'v) yrs \<Rightarrow> 'd idb \<Rightarrow> 'doc mem_file \<Rightarrow> 'd \<Rightarrow>
    cursor_index \<Rightarrow> nat \<Rightarrow> ('doc, 'd) edit_result" where
  "browser_apply_delete Y I = apply_delete Y (idb_file_io I)"

fun browser_apply_ops :: "('doc, 'u, 'v) yrs \<Rightarrow> 'd idb \<Rightarrow> 'doc mem_file \<Rightarrow> 'd \<Rightarrow> operation list \<Rightarrow>
    ('doc, 'd) edit_result" where
  "browser_apply_ops Y I file d [] = Some (Inr (), file, d)"
| "browser_apply_ops Y I file d (Insert i # ops) =
     and_then (browser_apply_insert Y I file d (ins_position i) (ins_content i)) (\<lambda>file d.
       browser_apply_ops Y I file d ops)"
| "browser_apply_ops Y I file d (Delete x # ops) =
     and_then (browser_apply_delete Y I file d (del_position x) (del_length x)) (\<lambda>file d.
       browser_apply_ops Y I file d ops)"
| "browser_apply_ops Y I file d (Swap w # ops) =
     and_then (browser_apply_delete Y I file d (swap_position w) (swap_length w)) (\<lambda>file d.
       and_then (browser_apply_insert Y I file d (swap_position w) (swap_content w)) (\<lambda>file d.
         browser_apply_ops Y I file d ops))"

definition write_transaction_to_file :: "('doc, 'u, 'v) yrs \<Rightarrow> 'd idb \<Rightarrow> string \<Rightarrow> transaction \<Rightarrow>
    ('d, 'doc) browser \<Rightarrow> ((file_error + unit) \<times> ('d, 'doc) browser) option" where
  "write_transaction_to_file Y I path transaction b =
     (case take_out path b of
        (None, b) \<Rightarrow> Some (Inl (not_open path ''apply a transaction to''), b)
      | (Some (db, file), b) \<Rightarrow>
          map_option (\<lambda>(result, file, d).
              (result, put_in Y I path (db, file) (b\<lparr>b_dbs := (b_dbs b)(db := d)\<rparr>)))
            (browser_apply_ops Y I file (b_dbs b db) (operations transaction)))"

definition apply_update_to_file :: "('doc, 'u, 'v) yrs \<Rightarrow> 'd idb \<Rightarrow> string \<Rightarrow> nat list \<Rightarrow>
    ('d, 'doc) browser \<Rightarrow> (file_error + unit) \<times> ('d, 'doc) browser" where
  "apply_update_to_file Y I path update b =
     (case take_out path b of
        (None, b) \<Rightarrow> (Inl (not_open path ''apply an update to''), b)
      | (Some (db, file), b) \<Rightarrow>
          (case (case mf_apply_update Y file update of
                   (Inr _, file) \<Rightarrow> browser_save Y I (db, file) (b_dbs b)
                 | (Inl e, file) \<Rightarrow> (Inl e, (db, file), b_dbs b)) of
             (result, file, dbs) \<Rightarrow> (result, put_in Y I path file (b\<lparr>b_dbs := dbs\<rparr>))))"

section \<open>Reading and flushing\<close>

definition read_file :: "('doc, 'u, 'v) yrs \<Rightarrow> ('d, 'doc) browser \<Rightarrow> string \<Rightarrow> ustring option" where
  "read_file Y b path = map_option (\<lambda>file. mf_contents Y (snd file)) (file_state (b_files b) path)"

definition subpaths_of :: "('d, 'doc) browser \<Rightarrow> string \<Rightarrow> string list" where
  "subpaths_of b path = sort (filter (\<lambda>key. starts_with key path) (hm_keys (b_files b)))"

text \<open>The loop of \<open>flush_all\<close> with its running result.\<close>

fun flush_each :: "('doc, 'u, 'v) yrs \<Rightarrow> 'd idb \<Rightarrow> (string, 'doc browser_file) hash_map \<Rightarrow> (string \<Rightarrow> 'd) \<Rightarrow>
    file_error + unit \<Rightarrow> (file_error + unit) \<times> (string, 'doc browser_file) hash_map \<times> (string \<Rightarrow> 'd)" where
  "flush_each Y I [] dbs result = (result, [], dbs)"
| "flush_each Y I ((key, file) # files) dbs result =
     (case browser_save Y I file dbs of
        (r, file, dbs) \<Rightarrow>
          (case flush_each Y I files dbs (case r of Inl e \<Rightarrow> Inl e | Inr _ \<Rightarrow> result) of
             (result, files, dbs) \<Rightarrow> (result, (key, file) # files, dbs)))"

definition flush_take :: "('d, 'doc) browser \<Rightarrow> (string, 'doc browser_file) hash_map \<times> ('d, 'doc) browser" where
  "flush_take b = (b_files b, b\<lparr>b_files := []\<rparr>)"

definition flush_put :: "('doc, 'u, 'v) yrs \<Rightarrow> 'd idb \<Rightarrow> (string, 'doc browser_file) hash_map \<Rightarrow>
    ('d, 'doc) browser \<Rightarrow> ('d, 'doc) browser" where
  "flush_put Y I files b = foldl (\<lambda>b e. put_in Y I (fst e) (snd e) b) b files"

definition flush_all :: "('doc, 'u, 'v) yrs \<Rightarrow> 'd idb \<Rightarrow> ('d, 'doc) browser \<Rightarrow>
    (file_error + unit) \<times> ('d, 'doc) browser" where
  "flush_all Y I b =
     (case flush_take b of (files, b) \<Rightarrow>
       (case flush_each Y I files (b_dbs b) (Inr ()) of (result, files, dbs) \<Rightarrow>
         (result, flush_put Y I files (b\<lparr>b_dbs := dbs\<rparr>))))"

section \<open>Saves\<close>

definition browser_inv :: "('d, 'doc) browser \<Rightarrow> bool" where
  "browser_inv b \<longleftrightarrow> hm_inv (\<lambda>k. k) (b_files b) \<and>
     (\<forall>path file. file_state (b_files b) path = Some file \<longrightarrow>
        full_path (mf_path (snd file)) = path \<and> mf_backend (snd file) = Async)"

lemma browser_invD:
  "browser_inv b \<Longrightarrow> file_state (b_files b) path = Some file \<Longrightarrow>
     full_path (mf_path (snd file)) = path \<and> mf_backend (snd file) = Async"
  unfolding browser_inv_def by blast

lemma browser_inv_entries:
  "browser_inv b \<longleftrightarrow> distinct (map fst (b_files b)) \<and>
     (\<forall>e \<in> set (b_files b). full_path (mf_path (snd (snd e))) = fst e \<and> mf_backend (snd (snd e)) = Async)"
proof -
  have state: "file_state fs = map_of fs" for fs :: "(string, 'b browser_file) hash_map"
    by (simp add: hm_get_def hm_abs_def fun_eq_iff)
  have "map_of (b_files b) (fst e) = Some (snd e)" if "e \<in> set (b_files b)" "distinct (map fst (b_files b))" for e
    using that by (metis map_of_eq_Some_iff prod.collapse)
  then show ?thesis
    unfolding browser_inv_def state hm_inv_def hm_keys_def by (auto dest: map_of_SomeD) fastforce+
qed

lemma file_state_simps [simp]:
  "file_state (hm_insert (\<lambda>k. k) path file fs) = (file_state fs)(path \<mapsto> file)"
  "file_state (hm_remove (\<lambda>k. k) path fs) = (file_state fs)(path := None)"
  "file_state [] = Map.empty"
  "file_state (e # fs) = (file_state fs)(fst e \<mapsto> snd e)"
  by (simp_all add: hm_get_def fun_eq_iff hm_abs_Cons)

text \<open>What the databases hold.\<close>

definition disks :: "('d \<Rightarrow> (string \<times> ustring) list) \<Rightarrow> (string \<Rightarrow> 'd) \<Rightarrow> string \<Rightarrow> string \<Rightarrow> ustring option" where
  "disks entries dbs = (\<lambda>db. stored entries (dbs db))"

text \<open>What a save of a text under a path leaves in them: what a success reports is in its database, if it is
  sure that commits do not abort; a failure leaves no trace.\<close>

definition saved_in :: "bool \<Rightarrow> (string \<Rightarrow> string \<Rightarrow> ustring option) \<Rightarrow> string \<Rightarrow> string \<Rightarrow> ustring \<Rightarrow> bool \<Rightarrow>
    (string \<Rightarrow> string \<Rightarrow> ustring option) \<Rightarrow> bool" where
  "saved_in sure D db path t success D' \<longleftrightarrow> committed sure D (D(db := (D db)(path \<mapsto> t))) success D'"

lemma saved_in_one:
  assumes "committed sure (stored entries (dbs db)) ((stored entries (dbs db))(path \<mapsto> t)) success (stored entries d)"
  shows "saved_in sure (disks entries dbs) db path t success (disks entries (dbs(db := d)))"
proof -
  have "disks entries (dbs(db := d)) = (disks entries dbs)(db := stored entries d)"
    by (simp add: disks_def fun_eq_iff)
  moreover have "(disks entries dbs)(db := disks entries dbs db) = disks entries dbs" by simp
  ultimately show ?thesis
    using assms by (auto simp: saved_in_def committed_def disks_def split: if_splits)
qed

lemma browser_save_spec:
  assumes laws: "idb_laws I entries" and save: "browser_save Y I file dbs = (r, file', dbs')"
  shows "fst file' = fst file" and "mf_contents Y (snd file') = mf_contents Y (snd file)"
    and "mf_path (snd file') = mf_path (snd file)" and "mf_backend (snd file') = mf_backend (snd file)"
    and "(sure \<longrightarrow> idb_commits I entries) \<Longrightarrow> saved_in sure (disks entries dbs) (fst file)
      (full_path (mf_path (snd file))) (mf_contents Y (snd file)) (is_ok r) (disks entries dbs')"
proof -
  obtain r1 d where w: "idb_write_file I (dbs (fst file)) (mf_path (snd file)) (mf_contents Y (snd file)) = (r1, d)"
    by fastforce
  have out: "is_ok r = is_ok r1" "dbs' = dbs(fst file := d)" "fst file' = fst file"
    "mf_contents Y (snd file') = mf_contents Y (snd file)" "mf_path (snd file') = mf_path (snd file)"
    "mf_backend (snd file') = mf_backend (snd file)"
    using save w by (auto simp: browser_save_def mf_save_def idb_file_io_def split: sum.splits)
  then show "fst file' = fst file" "mf_contents Y (snd file') = mf_contents Y (snd file)"
    "mf_path (snd file') = mf_path (snd file)" "mf_backend (snd file') = mf_backend (snd file)" by simp_all
  show "saved_in sure (disks entries dbs) (fst file) (full_path (mf_path (snd file))) (mf_contents Y (snd file))
      (is_ok r) (disks entries dbs')" if "sure \<longrightarrow> idb_commits I entries"
    using idb_write_committed [OF laws w that] unfolding out by (rule saved_in_one)
qed

text \<open>Dropping a buffer of the session does nothing, so that putting one in is an update of the table.\<close>

lemma browser_drop_async [simp]: "mf_backend (snd file) = Async \<Longrightarrow> browser_drop Y I file dbs = dbs"
  by (simp add: browser_drop_def mf_drop_def drop_flush_def)

lemma put_in_inv:
  assumes "browser_inv b"
  shows "put_in Y I path file b = b\<lparr>b_files := hm_insert (\<lambda>k. k) path file (b_files b)\<rparr>"
  using assms by (auto simp: put_in_def dest: browser_invD split: option.split)

lemma browser_inv_simps [simp]:
  "browser_inv (b\<lparr>b_dbs := dbs\<rparr>) = browser_inv b"
  "browser_inv (b\<lparr>b_store := st\<rparr>) = browser_inv b"
  "browser_inv (b\<lparr>b_files := []\<rparr>)"
  by (simp_all add: browser_inv_def)

lemma browser_inv_insert:
  "browser_inv b \<Longrightarrow> full_path (mf_path (snd file)) = path \<Longrightarrow> mf_backend (snd file) = Async \<Longrightarrow>
     browser_inv (b\<lparr>b_files := hm_insert (\<lambda>k. k) path file (b_files b)\<rparr>)"
  by (auto simp: browser_inv_def)

lemma browser_inv_remove:
  "browser_inv b \<Longrightarrow> browser_inv (b\<lparr>b_files := hm_remove (\<lambda>k. k) path (b_files b)\<rparr>)"
  by (auto simp: browser_inv_def)

lemma read_file_simps [simp]:
  "read_file Y (b\<lparr>b_dbs := dbs\<rparr>) = read_file Y b"
  "read_file Y (b\<lparr>b_store := st\<rparr>) = read_file Y b"
  "read_file Y (b\<lparr>b_files := hm_insert (\<lambda>k. k) path file (b_files b)\<rparr>) =
     (read_file Y b)(path \<mapsto> mf_contents Y (snd file))"
  "read_file Y (b\<lparr>b_files := hm_remove (\<lambda>k. k) path (b_files b)\<rparr>) = (read_file Y b)(path := None)"
  by (auto simp: read_file_def)

lemma new_file_ok: "\<exists>p. new_file path = Inr p \<and> full_path p = path"
  by (simp add: new_file_def build_file_def)

section \<open>Edits\<close>

lemma browser_apply_ops_steps: "browser_apply_ops Y I f d (edit_steps ops) = browser_apply_ops Y I f d ops"
proof (induction ops arbitrary: f d)
  case (Cons op ops)
  then show ?case by (cases op) (simp_all add: edit_steps_def)
qed (simp add: edit_steps_def)


lemma no_swap_steps: "Swap w \<notin> set (edit_steps ops)"
proof (induction ops)
  case (Cons op ops)
  then show ?case by (cases op) (auto simp: edit_steps_def)
qed (simp add: edit_steps_def)

text \<open>An elementary edit returns with its text; a save that it makes is of that text.\<close>

lemma one_edit:
  assumes laws: "idb_laws I entries" "yrs_laws Y ext" and fits: "fits (mf_contents Y f)" and e: "\<forall>w. e \<noteq> Swap w"
    and sure: "sure \<longrightarrow> idb_commits I entries" and t: "t = op_spec e (mf_contents Y f)"
  shows "\<exists>r f' d'. browser_apply_ops Y I f (dbs db) [e] = Some (r, f', d') \<and> mf_contents Y f' = t \<and>
    mf_path f' = mf_path f \<and> mf_backend f' = mf_backend f \<and>
    (r = Inr () \<and> d' = dbs db \<or>
     saved_in sure (disks entries dbs) db (full_path (mf_path f)) t (is_ok r) (disks entries (dbs(db := d'))))"
proof -
  have done_ok: "and_then r (\<lambda>f d. Some (Inr (), f, d)) = r" for r :: "('b, 'a) edit_result"
    by (auto simp: and_then_def split: option.split sum.split)
  note edits = mf_edit_writes [OF laws(2) fits, of "idb_file_io I" "dbs db"]
  have "\<exists>out. browser_apply_ops Y I f (dbs db) [e] = Some out \<and> edit_writes Y (idb_file_io I) f (dbs db) t out"
  proof (cases e)
    case (Insert i)
    consider "ins_content i = []" | c where "ins_content i = [c]" | a b u where "ins_content i = a # b # u"
      by (metis neq_Nil_conv)
    then show ?thesis
      using edits(1) [of "ins_position i" "ins_content i"] edits(2) [of "ins_position i"]
      by cases (auto simp: t Insert done_ok browser_apply_insert_def apply_insert_def op_spec_def edit_writes_def)
  next
    case (Delete x)
    then show ?thesis
      using edits(3) [of "del_position x" "del_length x"] edits(4) [of "del_position x"]
      by (auto simp: t done_ok browser_apply_delete_def apply_delete_def op_spec_def edit_writes_def)
  qed (use e in simp)
  then obtain r f' d' where run: "browser_apply_ops Y I f (dbs db) [e] = Some (r, f', d')"
    and out: "edit_writes Y (idb_file_io I) f (dbs db) t (r, f', d')" by (metis prod_cases3)
  have "saved_in sure (disks entries dbs) db (full_path (mf_path f)) t (is_ok r) (disks entries (dbs(db := d')))"
    if "idb_write_file I (dbs db) (mf_path f) t = (r, d')"
    by (rule saved_in_one) (rule idb_write_committed [OF laws(1) that sure])
  then show ?thesis using run out by (auto simp: edit_writes_def idb_file_io_def)
qed

lemma browser_apply_Cons:
  "\<forall>w. e \<noteq> Swap w \<Longrightarrow> browser_apply_ops Y I f d (e # ops) =
     and_then (browser_apply_ops Y I f d [e]) (\<lambda>f d. browser_apply_ops Y I f d ops)"
  by (cases e) (auto simp: and_then_def split: option.split sum.split)

section \<open>The operations\<close>

lemma remove_file_spec:
  assumes "browser_inv b"
  shows "remove_file Y I path b = b\<lparr>b_files := hm_remove (\<lambda>k. k) path (b_files b)\<rparr>"
  using browser_invD [OF assms] by (auto simp: remove_file_def take_out_def split: option.split)

lemma wipe_state_spec:
  assumes "browser_inv b"
  shows "wipe_state Y I b = b\<lparr>b_files := []\<rparr>"
proof -
  have "\<forall>e \<in> set fs. mf_backend (snd (snd e)) = Async \<Longrightarrow>
      foldl (\<lambda>dbs e. browser_drop Y I (snd e) dbs) dbs fs = dbs"
    for fs :: "(string, 'b browser_file) hash_map" and dbs
    by (induction fs) simp_all
  from this [of "b_files b" "b_dbs b"] assms show ?thesis by (simp add: wipe_state_def browser_inv_entries)
qed

section \<open>Texts of a table\<close>

definition text_file :: "('doc, 'u, 'v) yrs \<Rightarrow> 'doc browser_file \<Rightarrow> string \<times> ustring" where
  "text_file Y file = (fst file, mf_contents Y (snd file))"

definition texts_of :: "('doc, 'u, 'v) yrs \<Rightarrow> (string, 'doc browser_file) hash_map \<Rightarrow> string \<Rightarrow>
    (string \<times> ustring) option" where
  "texts_of Y files path = map_option (text_file Y) (file_state files path)"

definition named :: "string \<Rightarrow> 'doc browser_file \<Rightarrow> bool" where
  "named path file \<longleftrightarrow> full_path (mf_path (snd file)) = path \<and> mf_backend (snd file) = Async"

definition files_ok :: "(string, 'doc browser_file) hash_map \<Rightarrow> bool" where
  "files_ok fs \<longleftrightarrow> distinct (map fst fs) \<and> (\<forall>e \<in> set fs. named (fst e) (snd e))"

lemma browser_inv_files: "browser_inv b = files_ok (b_files b)"
  by (simp add: browser_inv_entries files_ok_def named_def)

lemma read_file_texts: "read_file Y b = (\<lambda>path. map_option snd (texts_of Y (b_files b) path))"
  by (auto simp: read_file_def texts_of_def text_file_def fun_eq_iff option.map_comp comp_def)

lemma texts_of_simps [simp]:
  "texts_of Y (hm_insert (\<lambda>k. k) path file fs) = (texts_of Y fs)(path \<mapsto> text_file Y file)"
  "texts_of Y (hm_remove (\<lambda>k. k) path fs) = (texts_of Y fs)(path := None)"
  "texts_of Y [] = Map.empty"
  by (auto simp: texts_of_def)

lemma texts_of_list: "texts_of Y fs = map_of (map (\<lambda>e. (fst e, text_file Y (snd e))) fs)"
  by (induction fs) (auto simp: texts_of_def fun_eq_iff)

lemma texts_of_dom: "dom (texts_of Y fs) = fst ` set fs"
  by (simp add: texts_of_list dom_map_of_conv_image_fst image_image)

text \<open>Putting buffers back overwrites what is there under their paths.\<close>

lemma flush_put_spec:
  "files_ok fs \<Longrightarrow> browser_inv b \<Longrightarrow> browser_inv (flush_put Y I fs b) \<and>
    texts_of Y (b_files (flush_put Y I fs b)) = texts_of Y (b_files b) ++ texts_of Y fs \<and>
    b_dbs (flush_put Y I fs b) = b_dbs b \<and> b_store (flush_put Y I fs b) = b_store b"
proof (induction fs arbitrary: b)
  case (Cons e fs)
  let ?b = "b\<lparr>b_files := hm_insert (\<lambda>k. k) (fst e) (snd e) (b_files b)\<rparr>"
  have put: "put_in Y I (fst e) (snd e) b = ?b" by (rule put_in_inv [OF Cons.prems(2)])
  have ok: "files_ok fs" "named (fst e) (snd e)" "fst e \<notin> dom (texts_of Y fs)"
    using Cons.prems(1) by (auto simp: files_ok_def texts_of_dom)
  then have "browser_inv ?b" using Cons.prems(2) by (intro browser_inv_insert) (simp_all add: named_def)
  note IH = Cons.IH [OF ok(1) this]
  have "(texts_of Y (b_files b))(fst e \<mapsto> text_file Y (snd e)) ++ texts_of Y fs =
      texts_of Y (b_files b) ++ texts_of Y (e # fs)"
    using ok(3) by (auto simp: texts_of_list map_add_def fun_eq_iff domIff split: option.split)
  then show ?case using IH by (simp add: flush_put_def put fun_upd_def)
qed (simp add: flush_put_def)

section \<open>Flushing\<close>

text \<open>What the databases would hold if every open buffer were written out.\<close>

definition session_text :: "('doc, 'u, 'v) yrs \<Rightarrow> (string, 'doc browser_file) hash_map \<Rightarrow>
    (string \<Rightarrow> string \<Rightarrow> ustring option) \<Rightarrow> string \<Rightarrow> string \<Rightarrow> ustring option" where
  "session_text Y files M db path =
     (case file_state files path of
        None \<Rightarrow> M db path
      | Some file \<Rightarrow> if fst file = db then Some (mf_contents Y (snd file)) else M db path)"

lemma flush_each_spec:
  assumes laws: "idb_laws I entries" and sure: "sure \<longrightarrow> idb_commits I entries"
  shows "files_ok fs \<Longrightarrow> flush_each Y I fs dbs result = (r, fs', dbs') \<Longrightarrow>
    files_ok fs' \<and> map fst fs' = map fst fs \<and> texts_of Y fs' = texts_of Y fs \<and>
    (is_ok r \<longrightarrow> is_ok result \<and> (sure \<longrightarrow> (\<forall>db. disks entries dbs' db = session_text Y fs (disks entries dbs) db))) \<and>
    (\<forall>db path. disks entries dbs' db path \<in> {disks entries dbs db path, session_text Y fs (disks entries dbs) db path})"
proof (induction fs arbitrary: dbs result r fs' dbs')
  case Nil
  then show ?case by (simp add: session_text_def fun_eq_iff)
next
  case (Cons e fs)
  obtain key fl where e: "e = (key, fl)" by (cases e)
  obtain r1 file1 dbs1 where save: "browser_save Y I fl dbs = (r1, file1, dbs1)" by (metis prod_cases3)
  note saved = browser_save_spec(1-4) [OF laws save] browser_save_spec(5) [OF laws save sure]
  obtain r2 fs2 dbs2 where rest: "flush_each Y I fs dbs1 (case r1 of Inl e \<Rightarrow> Inl e | Inr _ \<Rightarrow> result) = (r2, fs2, dbs2)"
    by (metis prod_cases3)
  have out: "r = r2" "fs' = (key, file1) # fs2" "dbs' = dbs2"
    using Cons.prems(2) by (simp_all add: e save rest)
  have ok: "files_ok fs" "key \<notin> fst ` set fs" "full_path (mf_path (snd fl)) = key" "mf_backend (snd fl) = Async"
    using Cons.prems(1) by (auto simp: files_ok_def named_def e)
  note IH = Cons.IH [OF ok(1) rest]
  have absent: "file_state fs key = None"
    using ok(2) by (metis dom_hm_abs domIff hm_get_def hm_keys_def image_ident list.set_map)
  let ?M = "disks entries dbs" and ?M1 = "disks entries dbs1" and ?full = "session_text Y (e # fs) (disks entries dbs)"
  let ?new = "?M(fst fl := (?M (fst fl))(key \<mapsto> mf_contents Y (snd fl)))"
  have M1: "?M1 = ?M \<or> is_ok r1 \<and> ?M1 = ?new" and M1_sure: "is_ok r1 \<Longrightarrow> sure \<Longrightarrow> ?M1 = ?new"
    using saved(5) ok(3) by (auto simp: saved_in_def committed_def split: if_splits)
  have other: "session_text Y fs ?M1 db path = ?full db path" "?M1 db path = ?M db path"
    if "path \<noteq> key" for db path
    using that M1 by (auto simp: session_text_def e split: option.split)
  have same: "session_text Y fs ?M1 db key = ?M1 db key" "?new db key = ?full db key" for db
    using absent by (auto simp: session_text_def e)
  have "files_ok fs' \<and> map fst fs' = map fst (e # fs) \<and> texts_of Y fs' = texts_of Y (e # fs)"
    using IH saved(1-4) ok
    by (auto simp: files_ok_def out e texts_of_def text_file_def fun_eq_iff named_def dest: map_eq_imp_length_eq)
  moreover have "session_text Y fs ?M1 db path = ?full db path" if "is_ok r1" "sure" for db path
    using M1_sure [OF that] same [of db] other [of path db] by (cases "path = key") simp_all
  then have "is_ok r \<longrightarrow> is_ok result \<and> (sure \<longrightarrow> (\<forall>db. disks entries dbs' db = ?full db))"
    using IH by (cases r1) (auto simp: out fun_eq_iff)
  moreover have "disks entries dbs' db path \<in> {?M db path, ?full db path}" for db path
  proof -
    have "disks entries dbs' db path \<in> {?M1 db path, session_text Y fs ?M1 db path}"
      using IH unfolding out by blast
    then show ?thesis
      using same [of db] other [of path db] M1 by (cases "path = key") auto
  qed
  ultimately show ?case by blast
qed

lemma flush_all_spec:
  assumes laws: "idb_laws I entries" and sure: "sure \<longrightarrow> idb_commits I entries" and inv: "browser_inv b"
    and run: "flush_all Y I b = (r, b')"
  shows "browser_inv b' \<and> texts_of Y (b_files b') = texts_of Y (b_files b) \<and>
    (is_ok r \<longrightarrow> sure \<longrightarrow> (\<forall>db. disks entries (b_dbs b') db = session_text Y (b_files b) (disks entries (b_dbs b)) db)) \<and>
    (\<forall>db path. disks entries (b_dbs b') db path \<in>
       {disks entries (b_dbs b) db path, session_text Y (b_files b) (disks entries (b_dbs b)) db path})"
proof -
  obtain fs dbs where each: "flush_each Y I (b_files b) (b_dbs b) (Inr ()) = (r, fs, dbs)"
    and b': "b' = flush_put Y I fs (b\<lparr>b_files := []\<rparr>\<lparr>b_dbs := dbs\<rparr>)"
    using run by (auto simp: flush_all_def flush_take_def split: prod.splits)
  have "files_ok (b_files b)" using inv by (simp add: browser_inv_files)
  note spec = flush_each_spec [OF laws sure this each]
  then have "files_ok fs" "browser_inv (b\<lparr>b_files := []\<rparr>\<lparr>b_dbs := dbs\<rparr>)" by simp_all
  note put = flush_put_spec [OF this, of Y I, folded b']
  then show ?thesis using spec by simp
qed

section \<open>Listing\<close>

lemma subpaths_of_spec:
  assumes "browser_inv b"
  shows "sorted (subpaths_of b path) \<and> distinct (subpaths_of b path) \<and>
    set (subpaths_of b path) = {k. read_file Y b k \<noteq> None \<and> starts_with k path}"
proof -
  have "read_file Y b k \<noteq> None \<longleftrightarrow> k \<in> set (hm_keys (b_files b))" for k
    using hm_get_Some_iff [of "\<lambda>k. k" "b_files b" k] by (simp add: read_file_def)
  then show ?thesis
    using assms by (auto simp: subpaths_of_def browser_inv_entries hm_keys_def)
qed

end
