(* ===== verification/Browser_Calls.thy ===== *)
theory Browser_Calls
  imports Browser
begin

text \<open>
  The browser's session with calls in flight: \<open>mem_files/browser_state.rs\<close>, its calls cut at their
  awaits. Everything runs on one thread, so that calls interleave only there. A request is issued
  before the call waits for its answer, and the browser runs transactions in the order they were
  opened; so what a save does happens when it begins, and only its answer comes later. An edit
  may be suspended after any elementary edit, also after one that saved nothing: more interleavings
  than the code has.
\<close>

section \<open>Calls\<close>

text \<open>A call that is waiting: for its database, for the first save of the file it opens, for a save of its edits
  (those left to do, and how the last went), for the save of a merge, or for the saves of a flush (what
  has been saved, and what is left).\<close>

datatype 'doc call =
    Configuring string "file_error + unit"
  | Opening string "'doc browser_file" "file_error + unit"
  | Editing string "'doc browser_file" "operation list" "file_error + unit"
  | Merging string "'doc browser_file" "file_error + unit"
  | Flushing "(string, 'doc browser_file) hash_map" "(string, 'doc browser_file) hash_map" "file_error + unit"

text \<open>What a call does before it first waits: it may already have failed.\<close>

type_synonym ('d, 'doc) begun = "(file_error + 'doc call) \<times> ('d, 'doc) browser"

definition begin_configure :: "'d idb \<Rightarrow> string \<Rightarrow> ('d, 'doc) browser \<Rightarrow> ('d, 'doc) begun" where
  "begin_configure I db b =
     (case idb_new I db (b_dbs b db) of (r, d) \<Rightarrow> (Inr (Configuring db r), b\<lparr>b_dbs := (b_dbs b)(db := d)\<rparr>))"

definition begin_open :: "('doc, 'u, 'v) yrs \<Rightarrow> 'd idb \<Rightarrow> string \<Rightarrow> 'doc browser_file \<Rightarrow>
    ('d, 'doc) browser \<Rightarrow> ('d, 'doc) begun" where
  "begin_open Y I path file b =
     (case browser_save Y I file (b_dbs b) of (r, file, dbs) \<Rightarrow> (Inr (Opening path file r), b\<lparr>b_dbs := dbs\<rparr>))"

definition begin_from_state :: "('doc, 'u, 'v) yrs \<Rightarrow> 'd idb \<Rightarrow> string \<Rightarrow> nat list \<Rightarrow>
    ('d, 'doc) browser \<Rightarrow> ('d, 'doc) begun" where
  "begin_from_state Y I path state b =
     (case browser_store b of
        Inl e \<Rightarrow> (Inl e, b)
      | Inr db \<Rightarrow>
          (case res_bind (new_file path) (\<lambda>file_path. from_state Y file_path state Async) of
             Inl e \<Rightarrow> (Inl e, b)
           | Inr file \<Rightarrow> begin_open Y I path (db, file) b))"

definition begin_from_string :: "('doc, 'u, 'v) yrs \<Rightarrow> 'd idb \<Rightarrow> string \<Rightarrow> ustring \<Rightarrow>
    ('d, 'doc) browser \<Rightarrow> ('d, 'doc) begun option" where
  "begin_from_string Y I path contents b =
     (case browser_store b of
        Inl e \<Rightarrow> Some (Inl e, b)
      | Inr db \<Rightarrow>
          (case new_file path of
             Inl e \<Rightarrow> Some (Inl e, b)
           | Inr file_path \<Rightarrow>
               map_option (\<lambda>file. begin_open Y I path (db, file) b) (from_string Y file_path Async contents)))"

definition begin_transaction :: "string \<Rightarrow> transaction \<Rightarrow> ('d, 'doc) browser \<Rightarrow> ('d, 'doc) begun" where
  "begin_transaction path transaction b =
     (case take_out path b of
        (None, b) \<Rightarrow> (Inl (not_open path ''apply a transaction to''), b)
      | (Some file, b) \<Rightarrow> (Inr (Editing path file (edit_steps (operations transaction)) (Inr ())), b))"

definition begin_update :: "('doc, 'u, 'v) yrs \<Rightarrow> 'd idb \<Rightarrow> string \<Rightarrow> nat list \<Rightarrow>
    ('d, 'doc) browser \<Rightarrow> ('d, 'doc) begun" where
  "begin_update Y I path update b =
     (case take_out path b of
        (None, b) \<Rightarrow> (Inl (not_open path ''apply an update to''), b)
      | (Some (db, file), b) \<Rightarrow>
          (case (case mf_apply_update Y file update of
                   (Inr _, file) \<Rightarrow> browser_save Y I (db, file) (b_dbs b)
                 | (Inl e, file) \<Rightarrow> (Inl e, (db, file), b_dbs b)) of
             (result, file, dbs) \<Rightarrow> (Inr (Merging path file result), b\<lparr>b_dbs := dbs\<rparr>)))"

definition begin_flush :: "('d, 'doc) browser \<Rightarrow> ('d, 'doc) begun" where
  "begin_flush b = (case flush_take b of (files, b) \<Rightarrow> (Inr (Flushing [] files (Inr ())), b))"

text \<open>The next save of a call that has one to make. \<open>None\<close>: it has none, or an edit panics.\<close>

fun resume :: "('doc, 'u, 'v) yrs \<Rightarrow> 'd idb \<Rightarrow> 'doc call \<Rightarrow> ('d, 'doc) browser \<Rightarrow> ('doc call \<times> ('d, 'doc) browser) option" where
  "resume Y I (Editing path (db, file) (e # es) (Inr _)) b =
     map_option (\<lambda>(r, file, d). (Editing path (db, file) es r, b\<lparr>b_dbs := (b_dbs b)(db := d)\<rparr>))
       (browser_apply_ops Y I file (b_dbs b db) [e])"
| "resume Y I (Flushing saved ((key, file) # files) result) b =
     (case browser_save Y I file (b_dbs b) of (r, file, dbs) \<Rightarrow>
        Some (Flushing (saved @ [(key, file)]) files (case r of Inl e \<Rightarrow> Inl e | Inr _ \<Rightarrow> result), b\<lparr>b_dbs := dbs\<rparr>))"
| "resume Y I _ b = None"

text \<open>What a call does when its last answer has come.\<close>

fun finish :: "('doc, 'u, 'v) yrs \<Rightarrow> 'd idb \<Rightarrow> 'doc call \<Rightarrow> ('d, 'doc) browser \<Rightarrow>
    ((file_error + unit) \<times> ('d, 'doc) browser) option" where
  "finish Y I (Configuring db r) b = Some (r, if is_ok r then b\<lparr>b_store := Some db\<rparr> else b)"
| "finish Y I (Opening path file r) b =
     Some (r, if is_ok r then put_in Y I path file b else b\<lparr>b_dbs := browser_drop Y I file (b_dbs b)\<rparr>)"
| "finish Y I (Editing path file es r) b =
     (if es = [] \<or> \<not> is_ok r then Some (r, put_in Y I path file b) else None)"
| "finish Y I (Merging path file r) b = Some (r, put_in Y I path file b)"
| "finish Y I (Flushing saved [] r) b = Some (r, flush_put Y I saved b)"
| "finish Y I (Flushing saved (_ # _) r) b = None"

section \<open>Alone, a call is the call\<close>

text \<open>A call that is driven to its end with nothing between its pieces.\<close>

fun drive :: "('doc, 'u, 'v) yrs \<Rightarrow> 'd idb \<Rightarrow> nat \<Rightarrow> 'doc call \<Rightarrow> ('d, 'doc) browser \<Rightarrow>
    ((file_error + unit) \<times> ('d, 'doc) browser) option" where
  "drive Y I n c b = (case finish Y I c b of
       Some x \<Rightarrow> Some x
     | None \<Rightarrow> (case n of 0 \<Rightarrow> None
         | Suc n \<Rightarrow> (case resume Y I c b of None \<Rightarrow> None | Some (c, b) \<Rightarrow> drive Y I n c b)))"

definition alone :: "('doc, 'u, 'v) yrs \<Rightarrow> 'd idb \<Rightarrow> nat \<Rightarrow> ('d, 'doc) begun \<Rightarrow>
    ((file_error + unit) \<times> ('d, 'doc) browser) option" where
  "alone Y I n x = (case x of (Inl e, b) \<Rightarrow> Some (Inl e, b) | (Inr c, b) \<Rightarrow> drive Y I n c b)"

lemma alone_configure: "alone Y I 0 (begin_configure I db b) = Some (configure_persistence I db b)"
  by (simp add: alone_def begin_configure_def configure_persistence_def split: prod.split sum.split)

lemma alone_open: "alone Y I 0 (begin_open Y I path file b) = Some (save_and_open Y I path file b)"
  by (simp add: alone_def begin_open_def save_and_open_def split: prod.split sum.split)

lemma alone_from_state: "alone Y I 0 (begin_from_state Y I path state b) = Some (insert_file_from_state Y I path state b)"
  by (simp add: begin_from_state_def insert_file_from_state_def alone_open split: sum.split) (simp add: alone_def)

lemma alone_from_string:
  "Option.bind (begin_from_string Y I path contents b) (alone Y I 0) = insert_file_from_string Y I path contents b"
  by (cases "browser_store b"; cases "new_file path"; cases "from_string Y (projr (new_file path)) Async contents")
    (simp_all add: begin_from_string_def insert_file_from_string_def alone_open, simp_all add: alone_def)

lemma alone_update: "alone Y I 0 (begin_update Y I path update b) = Some (apply_update_to_file Y I path update b)"
  by (simp add: alone_def begin_update_def apply_update_to_file_def split: prod.split option.split sum.split)

lemma drive_edits:
  "\<forall>w. Swap w \<notin> set es \<Longrightarrow> drive Y I (length es) (Editing path (db, f) es (Inr ())) b =
    map_option (\<lambda>(r, f', d). (r, put_in Y I path (db, f') (b\<lparr>b_dbs := (b_dbs b)(db := d)\<rparr>)))
      (browser_apply_ops Y I f (b_dbs b db) es)"
proof (induction es arbitrary: f b)
  case (Cons e es)
  have e: "\<forall>w. e \<noteq> Swap w" using Cons.prems by (metis list.set_intros(1))
  show ?case
  proof (cases "browser_apply_ops Y I f (b_dbs b db) [e]")
    case (Some x)
    obtain r f' d where x: "x = (r, f', d)" by (metis prod_cases3)
    show ?thesis
    proof (cases r)
      case (Inl err)
      then show ?thesis by (subst browser_apply_Cons [OF e]) (simp add: Some x and_then_def)
    next
      case (Inr u)
      let ?b = "b\<lparr>b_dbs := (b_dbs b)(db := d)\<rparr>"
      have "drive Y I (length es) (Editing path (db, f') es (Inr ())) ?b =
        map_option (\<lambda>(r, f', d). (r, put_in Y I path (db, f') (?b\<lparr>b_dbs := (b_dbs ?b)(db := d)\<rparr>)))
          (browser_apply_ops Y I f' (b_dbs ?b db) es)"
        using Cons.prems by (intro Cons.IH) auto
      then show ?thesis
        by (subst browser_apply_Cons [OF e])
          (simp add: Some x Inr and_then_def del: drive.simps, simp add: Some x Inr and_then_def del: browser_apply_ops.simps)
    qed
  next
    case None
    then show ?thesis by (subst browser_apply_Cons [OF e]) (simp add: and_then_def)
  qed
qed simp

lemma alone_transaction:
  "alone Y I (length (edit_steps (operations tx))) (begin_transaction path tx b) = write_transaction_to_file Y I path tx b"
proof -
  obtain taken b1 where out: "take_out path b = (taken, b1)" by fastforce
  then have dbs: "b_dbs b1 = b_dbs b" by (auto simp: take_out_def)
  show ?thesis
  proof (cases taken)
    case None
    then show ?thesis by (simp add: alone_def begin_transaction_def write_transaction_to_file_def out)
  next
    case (Some e)
    obtain db f where e: "e = (db, f)" by (cases e)
    show ?thesis
      using drive_edits [of "edit_steps (operations tx)" Y I path db f b1] no_swap_steps
      by (simp add: alone_def begin_transaction_def write_transaction_to_file_def out Some e dbs browser_apply_ops_steps
          del: drive.simps)
  qed
qed

lemma drive_flush:
  "drive Y I (length files) (Flushing saved files r) b =
    Some (case flush_each Y I files (b_dbs b) r of (r', files', dbs) \<Rightarrow> (r', flush_put Y I (saved @ files') (b\<lparr>b_dbs := dbs\<rparr>)))"
proof (induction files arbitrary: saved r b)
  case (Cons e files)
  obtain key fl where e: "e = (key, fl)" by (cases e)
  obtain r1 f1 dbs where save: "browser_save Y I fl (b_dbs b) = (r1, f1, dbs)" by (metis prod_cases3)
  show ?case
    using Cons.IH [of "saved @ [(key, f1)]" "case r1 of Inl e \<Rightarrow> Inl e | Inr _ \<Rightarrow> r" "b\<lparr>b_dbs := dbs\<rparr>"]
    by (subst drive.simps) (simp add: e save del: drive.simps split: prod.split)
qed simp

lemma alone_flush: "alone Y I (length (b_files b)) (begin_flush b) = Some (flush_all Y I b)"
  by (simp add: alone_def begin_flush_def flush_take_def flush_all_def drive_flush del: drive.simps split: prod.split)

section \<open>Overlapping calls\<close>

record ('d, 'doc) calls =
  browser_now :: "('d, 'doc) browser"
  flying :: "nat \<Rightarrow> 'doc call option"

text \<open>What happens: a call begins, under a number and with the text that a peer's bytes are known to stand for,
  goes on to its next save, or finishes with a result; or a file is closed, or all.\<close>

datatype event =
    Configure nat string
  | Create nat string ustring
  | Join nat string "ustring option"
  | Edit nat string transaction
  | Merge nat string "ustring option"
  | Flush nat
  | Resume nat
  | Finish nat "file_error + unit"
  | Close string
  | Wipe

definition launched :: "nat \<Rightarrow> ('d, 'doc) begun \<Rightarrow> ('d, 'doc) calls \<Rightarrow> ('d, 'doc) calls" where
  "launched k x s = (case x of
       (Inl _, b) \<Rightarrow> s\<lparr>browser_now := b\<rparr>
     | (Inr c, b) \<Rightarrow> s\<lparr>browser_now := b, flying := (flying s)(k \<mapsto> c)\<rparr>)"

text \<open>The buffer that a call is about to edit is less than 4 GiB long.\<close>

fun roomy :: "('doc, 'u, 'v) yrs \<Rightarrow> 'doc call \<Rightarrow> bool" where
  "roomy Y (Editing path file es r) = fits (mf_contents Y (snd file))"
| "roomy Y _ = True"

inductive call_step :: "('doc, 'u, 'v) yrs \<Rightarrow> ('doc \<Rightarrow> 'doc \<Rightarrow> bool) \<Rightarrow> 'd idb \<Rightarrow> event \<Rightarrow>
    ('d, 'doc) calls \<Rightarrow> ('d, 'doc) calls \<Rightarrow> bool" for Y ext I where
  configure: "flying s k = None \<Longrightarrow>
    call_step Y ext I (Configure k db) s (launched k (begin_configure I db (browser_now s)) s)"
| create: "flying s k = None \<Longrightarrow> begin_from_string Y I path t (browser_now s) = Some x \<Longrightarrow>
    call_step Y ext I (Create k path t) s (launched k x s)"
| join: "flying s k = None \<Longrightarrow>
    call_step Y ext I (Join k path None) s (launched k (begin_from_state Y I path bytes (browser_now s)) s)"
| join_peer: "flying s k = None \<Longrightarrow> call_step Y ext I (Join k path (Some (mf_contents Y g))) s
    (launched k (begin_from_state Y I path (mf_encode_state Y g) (browser_now s)) s)"
| edit: "flying s k = None \<Longrightarrow>
    call_step Y ext I (Edit k path tx) s (launched k (begin_transaction path tx (browser_now s)) s)"
| merge: "flying s k = None \<Longrightarrow>
    call_step Y ext I (Merge k path None) s (launched k (begin_update Y I path bytes (browser_now s)) s)"
| merge_peer: "flying s k = None \<Longrightarrow> file_state (b_files (browser_now s)) path = Some (db, f) \<Longrightarrow> ext (mf_doc f) d \<Longrightarrow>
    y_decode_vector Y (mf_state_vector Y f) = Inr v \<Longrightarrow> call_step Y ext I (Merge k path (Some (y_string Y d))) s
    (launched k (begin_update Y I path (y_encode_diff Y d v) (browser_now s)) s)"
| flush: "flying s k = None \<Longrightarrow> call_step Y ext I (Flush k) s (launched k (begin_flush (browser_now s)) s)"
| resume: "flying s k = Some c \<Longrightarrow> roomy Y c \<Longrightarrow> resume Y I c (browser_now s) = Some (c', b) \<Longrightarrow>
    call_step Y ext I (Resume k) s (s\<lparr>browser_now := b, flying := (flying s)(k \<mapsto> c')\<rparr>)"
| finish: "flying s k = Some c \<Longrightarrow> finish Y I c (browser_now s) = Some (r, b) \<Longrightarrow>
    call_step Y ext I (Finish k r) s (s\<lparr>browser_now := b, flying := (flying s)(k := None)\<rparr>)"
| close: "call_step Y ext I (Close path) s (s\<lparr>browser_now := remove_file Y I path (browser_now s)\<rparr>)"
| wipe: "call_step Y ext I Wipe s (s\<lparr>browser_now := wipe_state Y I (browser_now s)\<rparr>)"

text \<open>Runs of a machine, with what happened.\<close>

inductive runs :: "('e \<Rightarrow> 's \<Rightarrow> 's \<Rightarrow> bool) \<Rightarrow> 's \<Rightarrow> 'e list \<Rightarrow> 's \<Rightarrow> bool" for step s where
  none: "runs step s [] s"
| more: "runs step s es t \<Longrightarrow> step e t u \<Longrightarrow> runs step s (es @ [e]) u"

definition first_calls :: "(string \<Rightarrow> 'd) \<Rightarrow> ('d, 'doc) calls" where
  "first_calls dbs = \<lparr>browser_now = \<lparr>b_dbs = dbs, b_store = None, b_files = []\<rparr>, flying = (\<lambda>_. None)\<rparr>"

section \<open>The session of texts\<close>

text \<open>The specification: open files are texts of a database, by path; a call in flight holds the text of its
  file; databases hold texts. \<open>sure\<close> says whether a save that succeeds is in its database.\<close>

datatype text_call =
    TConfiguring string "file_error + unit"
  | TOpening string "string \<times> ustring" "file_error + unit"
  | TEditing string "string \<times> ustring" "operation list" "file_error + unit"
  | TMerging string "string \<times> ustring" "file_error + unit"
  | TFlushing "string \<Rightarrow> (string \<times> ustring) option" "string set" "file_error + unit"

record texts =
  shown :: "string \<Rightarrow> (string \<times> ustring) option"
  target_db :: "string option"
  held :: "nat \<Rightarrow> text_call option"
  stored_texts :: "string \<Rightarrow> string \<Rightarrow> ustring option"

inductive text_step :: "bool \<Rightarrow> event \<Rightarrow> texts \<Rightarrow> texts \<Rightarrow> bool" for sure where
  t_configure: "held S k = None \<Longrightarrow>
    text_step sure (Configure k db) S (S\<lparr>held := (held S)(k \<mapsto> TConfiguring db r)\<rparr>)"
| t_configured: "held S k = Some (TConfiguring db r) \<Longrightarrow>
    text_step sure (Finish k r) S (S\<lparr>target_db := (if is_ok r then Some db else target_db S), held := (held S)(k := None)\<rparr>)"
| t_create: "held S k = None \<Longrightarrow> target_db S = Some db \<Longrightarrow> saved_in sure (stored_texts S) db path t (is_ok r) D \<Longrightarrow>
    text_step sure (Create k path t) S (S\<lparr>held := (held S)(k \<mapsto> TOpening path (db, t) r), stored_texts := D\<rparr>)"
| t_join: "held S k = None \<Longrightarrow> target_db S = Some db \<Longrightarrow> saved_in sure (stored_texts S) db path t (is_ok r) D \<Longrightarrow>
    said \<in> {None, Some t} \<Longrightarrow>
    text_step sure (Join k path said) S (S\<lparr>held := (held S)(k \<mapsto> TOpening path (db, t) r), stored_texts := D\<rparr>)"
| t_create_refused: "target_db S = None \<Longrightarrow> text_step sure (Create k path t) S S"
| t_join_refused: "target_db S = None \<or> said = None \<Longrightarrow> text_step sure (Join k path said) S S"
| t_opened: "held S k = Some (TOpening path f r) \<Longrightarrow> text_step sure (Finish k r) S
    (S\<lparr>shown := (if is_ok r then (shown S)(path \<mapsto> f) else shown S), held := (held S)(k := None)\<rparr>)"
| t_edit: "held S k = None \<Longrightarrow> shown S path = Some f \<Longrightarrow> text_step sure (Edit k path tx) S
    (S\<lparr>shown := (shown S)(path := None), held := (held S)(k \<mapsto> TEditing path f (edit_steps (operations tx)) (Inr ()))\<rparr>)"
| t_edit_refused: "shown S path = None \<Longrightarrow> text_step sure (Edit k path tx) S S"
| t_edit_one: "held S k = Some (TEditing path (db, t) (e # es) (Inr ())) \<Longrightarrow>
    r = Inr () \<and> D = stored_texts S \<or> saved_in sure (stored_texts S) db path (op_spec e t) (is_ok r) D \<Longrightarrow>
    text_step sure (Resume k) S (S\<lparr>held := (held S)(k \<mapsto> TEditing path (db, op_spec e t) es r), stored_texts := D\<rparr>)"
| t_edited: "held S k = Some (TEditing path f es r) \<Longrightarrow> es = [] \<or> \<not> is_ok r \<Longrightarrow>
    text_step sure (Finish k r) S (S\<lparr>shown := (shown S)(path \<mapsto> f), held := (held S)(k := None)\<rparr>)"
| t_merge: "held S k = None \<Longrightarrow> shown S path = Some (db, t0) \<Longrightarrow> said \<in> {None, Some t} \<Longrightarrow>
    saved_in sure (stored_texts S) db path t (is_ok r) D \<Longrightarrow> text_step sure (Merge k path said) S
    (S\<lparr>shown := (shown S)(path := None), held := (held S)(k \<mapsto> TMerging path (db, t) r), stored_texts := D\<rparr>)"
| t_merge_refused: "shown S path = None \<Longrightarrow> text_step sure (Merge k path said) S S"
| t_merged: "held S k = Some (TMerging path f r) \<Longrightarrow>
    text_step sure (Finish k r) S (S\<lparr>shown := (shown S)(path \<mapsto> f), held := (held S)(k := None)\<rparr>)"
| t_flush: "held S k = None \<Longrightarrow> text_step sure (Flush k) S
    (S\<lparr>shown := Map.empty, held := (held S)(k \<mapsto> TFlushing (shown S) (dom (shown S)) (Inr ()))\<rparr>)"
| t_flush_one: "held S k = Some (TFlushing fs P r) \<Longrightarrow> path \<in> P \<Longrightarrow> fs path = Some (db, t) \<Longrightarrow>
    saved_in sure (stored_texts S) db path t (is_ok r') D \<Longrightarrow> text_step sure (Resume k) S
    (S\<lparr>held := (held S)(k \<mapsto> TFlushing fs (P - {path}) (if is_ok r' then r else r')), stored_texts := D\<rparr>)"
| t_flushed: "held S k = Some (TFlushing fs {} r) \<Longrightarrow>
    text_step sure (Finish k r) S (S\<lparr>shown := shown S ++ fs, held := (held S)(k := None)\<rparr>)"
| t_close: "text_step sure (Close path) S (S\<lparr>shown := (shown S)(path := None)\<rparr>)"
| t_wipe: "text_step sure Wipe S (S\<lparr>shown := Map.empty\<rparr>)"

section \<open>Refinement\<close>

fun call_text :: "('doc, 'u, 'v) yrs \<Rightarrow> 'doc call \<Rightarrow> text_call" where
  "call_text Y (Configuring db r) = TConfiguring db r"
| "call_text Y (Opening path file r) = TOpening path (text_file Y file) r"
| "call_text Y (Editing path file es r) = TEditing path (text_file Y file) es r"
| "call_text Y (Merging path file r) = TMerging path (text_file Y file) r"
| "call_text Y (Flushing saved files r) = TFlushing (texts_of Y (saved @ files)) (fst ` set files) r"

definition texts_in :: "('doc, 'u, 'v) yrs \<Rightarrow> ('d \<Rightarrow> (string \<times> ustring) list) \<Rightarrow> ('d, 'doc) calls \<Rightarrow> texts" where
  "texts_in Y entries s = \<lparr>shown = texts_of Y (b_files (browser_now s)), target_db = b_store (browser_now s),
     held = (\<lambda>k. map_option (call_text Y) (flying s k)), stored_texts = disks entries (b_dbs (browser_now s))\<rparr>"

text \<open>Buffers in the table and in the hands of calls keep their paths and save asynchronously.\<close>

fun call_ok :: "'doc call \<Rightarrow> bool" where
  "call_ok (Configuring db r) = True"
| "call_ok (Opening path file r) = named path file"
| "call_ok (Editing path file es r) = (named path file \<and> (\<forall>w. Swap w \<notin> set es))"
| "call_ok (Merging path file r) = named path file"
| "call_ok (Flushing saved files r) = files_ok (saved @ files)"

definition calls_ok :: "('d, 'doc) calls \<Rightarrow> bool" where
  "calls_ok s \<longleftrightarrow> browser_inv (browser_now s) \<and> (\<forall>k c. flying s k = Some c \<longrightarrow> call_ok c)"

lemma texts_launched [simp]:
  "texts_in Y entries (launched k (Inr c, b) s) = (texts_in Y entries s)\<lparr>shown := texts_of Y (b_files b), target_db := b_store b,
     held := (held (texts_in Y entries s))(k \<mapsto> call_text Y c), stored_texts := disks entries (b_dbs b)\<rparr>"
  "texts_in Y entries (launched k (Inl e, b) s) = (texts_in Y entries s)\<lparr>shown := texts_of Y (b_files b), target_db := b_store b,
     stored_texts := disks entries (b_dbs b)\<rparr>"
  "texts_in Y entries (s\<lparr>browser_now := b, flying := (flying s)(k \<mapsto> c)\<rparr>) =
     (texts_in Y entries s)\<lparr>shown := texts_of Y (b_files b), target_db := b_store b,
       held := (held (texts_in Y entries s))(k \<mapsto> call_text Y c), stored_texts := disks entries (b_dbs b)\<rparr>"
  "texts_in Y entries (s\<lparr>browser_now := b, flying := (flying s)(k := None)\<rparr>) =
     (texts_in Y entries s)\<lparr>shown := texts_of Y (b_files b), target_db := b_store b,
       held := (held (texts_in Y entries s))(k := None), stored_texts := disks entries (b_dbs b)\<rparr>"
  "texts_in Y entries (s\<lparr>browser_now := b\<rparr>) =
     (texts_in Y entries s)\<lparr>shown := texts_of Y (b_files b), target_db := b_store b, stored_texts := disks entries (b_dbs b)\<rparr>"
  by (simp_all add: launched_def texts_in_def fun_eq_iff)

lemma texts_sel [simp]:
  "shown (texts_in Y entries s) = texts_of Y (b_files (browser_now s))" "target_db (texts_in Y entries s) = b_store (browser_now s)"
  "held (texts_in Y entries s) k = map_option (call_text Y) (flying s k)"
  "stored_texts (texts_in Y entries s) = disks entries (b_dbs (browser_now s))"
  by (simp_all add: texts_in_def)

text \<open>Updates that change nothing.\<close>

lemma texts_same:
  "A = shown S \<Longrightarrow> B = target_db S \<Longrightarrow> C = stored_texts S \<Longrightarrow>
    S\<lparr>shown := A, target_db := B, stored_texts := C\<rparr> = S"
  "B = target_db S \<Longrightarrow> S\<lparr>shown := A, target_db := B, held := h, stored_texts := D\<rparr> = S\<lparr>shown := A, held := h, stored_texts := D\<rparr>"
  by simp_all

lemma calls_ok_launched:
  "calls_ok s \<Longrightarrow> browser_inv b \<Longrightarrow> (\<And>c. x = Inr c \<Longrightarrow> call_ok c) \<Longrightarrow> calls_ok (launched k (x, b) s)"
  by (auto simp: calls_ok_def launched_def split: sum.split)

text \<open>The pieces, one by one.\<close>

lemma begin_open_spec:
  assumes laws: "idb_laws I entries" and sure: "sure \<longrightarrow> idb_commits I entries" and n: "named path (db, f)"
  shows "\<exists>r file' dbs. begin_open Y I path (db, f) b = (Inr (Opening path file' r), b\<lparr>b_dbs := dbs\<rparr>) \<and> named path file' \<and>
    text_file Y file' = (db, mf_contents Y f) \<and>
    saved_in sure (disks entries (b_dbs b)) db path (mf_contents Y f) (is_ok r) (disks entries dbs)"
proof -
  obtain r file' dbs where save: "browser_save Y I (db, f) (b_dbs b) = (r, file', dbs)" by (metis prod_cases3)
  note saved = browser_save_spec(1-4) [OF laws save] browser_save_spec(5) [OF laws save sure]
  show ?thesis
    using saved n by (intro exI [of _ r] exI [of _ file'] exI [of _ dbs]) (simp add: begin_open_def save named_def text_file_def)
qed

lemma begin_string_spec:
  assumes "yrs_laws Y ext"
  shows "b_store b = None \<Longrightarrow> \<exists>e. begin_from_string Y I path t b = Some (Inl e, b)"
    and "b_store b = Some db \<Longrightarrow> \<exists>f. begin_from_string Y I path t b = Some (begin_open Y I path (db, f) b) \<and>
      named path (db, f) \<and> mf_contents Y f = t"
proof -
  obtain p f where "new_file path = Inr p" "full_path p = path" "from_string Y p Async t = Some f"
    "mf_contents Y f = t" "mf_path f = p" "mf_backend f = Async"
    using new_file_ok from_string_ok [OF assms] by metis
  then show "b_store b = None \<Longrightarrow> \<exists>e. begin_from_string Y I path t b = Some (Inl e, b)"
    "b_store b = Some db \<Longrightarrow> \<exists>f. begin_from_string Y I path t b = Some (begin_open Y I path (db, f) b) \<and>
      named path (db, f) \<and> mf_contents Y f = t"
    by (simp_all add: begin_from_string_def browser_store_def named_def, intro exI [of _ f], simp)
qed

lemma opened_file:
  assumes "from_state Y p bytes bk = Inr f"
  shows "mf_path f = p \<and> mf_backend f = bk"
proof -
  obtain u where "(case y_apply_update Y (y_new Y) u of
      (Inl e, _) \<Rightarrow> Inl (MemFileError (full_path p) e) | (Inr _, doc) \<Rightarrow> Inr (mf_new doc p bk)) = Inr f"
    using assms unfolding from_state_def res_bind_Inr_iff by blast
  then show ?thesis
    by (cases "y_apply_update Y (y_new Y) u"; cases "fst (y_apply_update Y (y_new Y) u)") (auto simp: mf_new_def)
qed

lemma begin_state_spec:
  shows "b_store b = None \<Longrightarrow> \<exists>e. begin_from_state Y I path bytes b = (Inl e, b)"
    and "b_store b = Some db \<Longrightarrow> (\<exists>e. begin_from_state Y I path bytes b = (Inl e, b)) \<or>
      (\<exists>f. begin_from_state Y I path bytes b = begin_open Y I path (db, f) b \<and> named path (db, f))"
    and "yrs_laws Y ext \<Longrightarrow> b_store b = Some db \<Longrightarrow>
      \<exists>f. begin_from_state Y I path (mf_encode_state Y g) b = begin_open Y I path (db, f) b \<and> named path (db, f) \<and>
        mf_contents Y f = mf_contents Y g"
proof -
  obtain p where p: "new_file path = Inr p" "full_path p = path" using new_file_ok by metis
  show "b_store b = None \<Longrightarrow> \<exists>e. begin_from_state Y I path bytes b = (Inl e, b)"
    by (simp add: begin_from_state_def browser_store_def)
  show "b_store b = Some db \<Longrightarrow> (\<exists>e. begin_from_state Y I path bytes b = (Inl e, b)) \<or>
      (\<exists>f. begin_from_state Y I path bytes b = begin_open Y I path (db, f) b \<and> named path (db, f))"
    using opened_file [of Y p bytes Async] p
    by (cases "from_state Y p bytes Async") (auto simp: begin_from_state_def browser_store_def named_def)
  show "\<exists>f. begin_from_state Y I path (mf_encode_state Y g) b = begin_open Y I path (db, f) b \<and> named path (db, f) \<and>
      mf_contents Y f = mf_contents Y g" if "yrs_laws Y ext" "b_store b = Some db"
    using from_state_ok [OF that(1), of p g Async] that(2) p
    by (auto simp: begin_from_state_def browser_store_def named_def)
qed

lemma begin_update_spec:
  assumes laws: "idb_laws I entries" and sure: "sure \<longrightarrow> idb_commits I entries"
    and here: "file_state (b_files b) path = Some (db, f)" and n: "named path (db, f)"
  shows "\<exists>r file' dbs t. begin_update Y I path bytes b =
      (Inr (Merging path file' r), b\<lparr>b_files := hm_remove (\<lambda>k. k) path (b_files b), b_dbs := dbs\<rparr>) \<and> named path file' \<and>
    text_file Y file' = (db, t) \<and> saved_in sure (disks entries (b_dbs b)) db path t (is_ok r) (disks entries dbs) \<and>
    (\<forall>d v. yrs_laws Y ext \<longrightarrow> ext (mf_doc f) d \<longrightarrow> y_decode_vector Y (mf_state_vector Y f) = Inr v \<longrightarrow>
      bytes = y_encode_diff Y d v \<longrightarrow> t = y_string Y d)"
proof -
  obtain r1 f1 where up: "mf_apply_update Y f bytes = (r1, f1)" by fastforce
  then have f1: "named path (db, f1)" using n by (auto simp: mf_apply_update_def named_def split: prod.splits)
  have peer: "r1 = Inr () \<and> mf_contents Y f1 = y_string Y d"
    if law: "yrs_laws Y ext" and d: "ext (mf_doc f) d" and v: "y_decode_vector Y (mf_state_vector Y f) = Inr v"
      and bytes: "bytes = y_encode_diff Y d v" for d v
  proof -
    obtain u d' where "y_decode_update Y bytes = Inr u" "y_apply_update Y (mf_doc f) u = (Inr (), d')" "y_string Y d' = y_string Y d"
      using yrs_lawsD(8) [OF law d] v bytes by (auto simp: mf_state_vector_def)
    then show ?thesis using up by (auto simp: mf_apply_update_def tx_apply_update_def)
  qed
  have out: "take_out path b = (Some (db, f), b\<lparr>b_files := hm_remove (\<lambda>k. k) path (b_files b)\<rparr>)"
    by (simp add: take_out_def here)
  show ?thesis
  proof (cases r1)
    case (Inl e)
    have "saved_in sure (disks entries (b_dbs b)) db path (mf_contents Y f1) False (disks entries (b_dbs b))"
      by (simp add: saved_in_def committed_def)
    then show ?thesis
      using f1 peer Inl by (intro exI [of _ "Inl e"] exI [of _ "(db, f1)"] exI [of _ "b_dbs b"] exI [of _ "mf_contents Y f1"])
        (auto simp: begin_update_def out up text_file_def)
  next
    case (Inr u)
    obtain r file' dbs where save: "browser_save Y I (db, f1) (b_dbs b) = (r, file', dbs)" by (metis prod_cases3)
    note saved = browser_save_spec(1-4) [OF laws save] browser_save_spec(5) [OF laws save sure]
    show ?thesis
      using f1 peer saved
      by (intro exI [of _ r] exI [of _ file'] exI [of _ dbs] exI [of _ "mf_contents Y f1"])
        (auto simp: begin_update_def out up Inr save text_file_def named_def)
  qed
qed

lemma open_refines:
  assumes laws: "idb_laws I entries" and sure: "sure \<longrightarrow> idb_commits I entries" and ok: "calls_ok s"
    and n: "named path (db, f)" and b: "b = browser_now s"
  shows "\<exists>r D. saved_in sure (stored_texts (texts_in Y entries s)) db path (mf_contents Y f) (is_ok r) D \<and>
    texts_in Y entries (launched k (begin_open Y I path (db, f) b) s) =
      (texts_in Y entries s)\<lparr>held := (held (texts_in Y entries s))(k \<mapsto> TOpening path (db, mf_contents Y f) r), stored_texts := D\<rparr> \<and>
    calls_ok (launched k (begin_open Y I path (db, f) b) s)"
proof -
  obtain r file' dbs where o': "begin_open Y I path (db, f) b = (Inr (Opening path file' r), b\<lparr>b_dbs := dbs\<rparr>)" "named path file'"
    "text_file Y file' = (db, mf_contents Y f)"
    "saved_in sure (disks entries (b_dbs b)) db path (mf_contents Y f) (is_ok r) (disks entries dbs)"
    using begin_open_spec [OF laws sure n] by blast
  have "calls_ok (launched k (begin_open Y I path (db, f) b) s)"
    unfolding o'(1) using ok o'(2) by (intro calls_ok_launched) (auto simp: calls_ok_def b)
  then show ?thesis
    using o' by (intro exI [of _ r] exI [of _ "disks entries dbs"] conjI) (auto simp: b intro!: texts.equality)
qed

lemma step_to: "text_step sure ev S T \<Longrightarrow> T = T' \<Longrightarrow> text_step sure ev S T'"
  by simp

text \<open>A call that puts its buffer back.\<close>

lemma put_back_refines:
  assumes ok: "calls_ok s" and n: "named path file"
  shows "calls_ok (s\<lparr>browser_now := put_in Y I path file (browser_now s), flying := (flying s)(k := None)\<rparr>)"
    and "texts_in Y entries (s\<lparr>browser_now := put_in Y I path file (browser_now s), flying := (flying s)(k := None)\<rparr>) =
      (texts_in Y entries s)\<lparr>shown := (shown (texts_in Y entries s))(path \<mapsto> text_file Y file),
        held := (held (texts_in Y entries s))(k := None)\<rparr>"
proof -
  have inv: "browser_inv (browser_now s)" using ok by (simp add: calls_ok_def)
  have "browser_inv (put_in Y I path file (browser_now s))"
    unfolding put_in_inv [OF inv] using inv n by (intro browser_inv_insert) (simp_all add: named_def)
  then show "calls_ok (s\<lparr>browser_now := put_in Y I path file (browser_now s), flying := (flying s)(k := None)\<rparr>)"
    using ok by (simp add: calls_ok_def)
  show "texts_in Y entries (s\<lparr>browser_now := put_in Y I path file (browser_now s), flying := (flying s)(k := None)\<rparr>) =
      (texts_in Y entries s)\<lparr>shown := (shown (texts_in Y entries s))(path \<mapsto> text_file Y file),
        held := (held (texts_in Y entries s))(k := None)\<rparr>"
    by (rule texts.equality) (simp_all add: put_in_inv [OF inv])
qed

lemma finish_refines:
  assumes ok: "calls_ok s" and here: "flying s k = Some c" and run: "finish Y I c (browser_now s) = Some (r, b)"
  shows "text_step sure (Finish k r) (texts_in Y entries s) (texts_in Y entries (s\<lparr>browser_now := b, flying := (flying s)(k := None)\<rparr>)) \<and>
    calls_ok (s\<lparr>browser_now := b, flying := (flying s)(k := None)\<rparr>)"
proof -
  have inv: "browser_inv (browser_now s)" and c: "call_ok c" using ok here by (auto simp: calls_ok_def)
  have held: "held (texts_in Y entries s) k = Some (call_text Y c)" by (simp add: here)
  show ?thesis
  proof (cases c)
    case (Configuring db r')
    then have r: "r' = r" "b = (if is_ok r then (browser_now s)\<lparr>b_store := Some db\<rparr> else browser_now s)"
      using run by auto
    show ?thesis
      using held ok inv unfolding Configuring r
      by (intro conjI step_to [OF text_step.t_configured]) (auto simp: calls_ok_def intro!: texts.equality)
  next
    case (Opening path fl r')
    then have r: "r' = r" and b: "b = (if is_ok r then put_in Y I path fl (browser_now s)
        else (browser_now s)\<lparr>b_dbs := browser_drop Y I fl (b_dbs (browser_now s))\<rparr>)" using run by auto
    have n: "named path fl" using c Opening by simp
    note t = text_step.t_opened [OF held [unfolded Opening r call_text.simps], of sure]
    show ?thesis
    proof (cases "is_ok r")
      case True
      then show ?thesis using t put_back_refines [OF ok n, where Y = Y and I = I and k = k] b by simp
    next
      case False
      have "b = browser_now s" using b n False by (simp add: named_def)
      then show ?thesis
        using t False ok inv by (intro conjI step_to [OF t]) (auto simp: calls_ok_def intro!: texts.equality)
    qed
  next
    case (Editing path fl es r')
    then have r: "r' = r" "es = [] \<or> \<not> is_ok r" and b: "b = put_in Y I path fl (browser_now s)"
      using run by (auto split: if_splits)
    have n: "named path fl" using c Editing by simp
    show ?thesis
      using text_step.t_edited [OF held [unfolded Editing r(1) call_text.simps] r(2), of sure]
        put_back_refines [OF ok n, where Y = Y and I = I and k = k] by (simp add: b)
  next
    case (Merging path fl r')
    then have r: "r' = r" and b: "b = put_in Y I path fl (browser_now s)" using run by auto
    have n: "named path fl" using c Merging by simp
    show ?thesis
      using text_step.t_merged [OF held [unfolded Merging r call_text.simps], of sure]
        put_back_refines [OF ok n, where Y = Y and I = I and k = k] by (simp add: b)
  next
    case (Flushing saved files r')
    then have r: "r' = r" "files = []" and b: "b = flush_put Y I saved (browser_now s)"
      using run by (cases files; auto)+
    have "files_ok saved" using c Flushing r by simp
    note put = flush_put_spec [OF this inv, of Y I, folded b]
    have "held (texts_in Y entries s) k = Some (TFlushing (texts_of Y saved) {} r)" using held by (simp add: Flushing r)
    then show ?thesis
      using ok put by (intro conjI step_to [OF text_step.t_flushed]) (auto simp: calls_ok_def intro!: texts.equality)
  qed
qed

lemma resume_refines:
  assumes laws: "idb_laws I entries" "yrs_laws Y ext" and sure: "sure \<longrightarrow> idb_commits I entries"
    and ok: "calls_ok s" and here: "flying s k = Some c" and room: "roomy Y c"
    and run: "resume Y I c (browser_now s) = Some (c', b)"
  shows "text_step sure (Resume k) (texts_in Y entries s) (texts_in Y entries (s\<lparr>browser_now := b, flying := (flying s)(k \<mapsto> c')\<rparr>)) \<and>
    calls_ok (s\<lparr>browser_now := b, flying := (flying s)(k \<mapsto> c')\<rparr>)"
proof -
  let ?b = "browser_now s"
  have inv: "browser_inv ?b" and c: "call_ok c" using ok here by (auto simp: calls_ok_def)
  have held: "held (texts_in Y entries s) k = Some (call_text Y c)" by (simp add: here)
  consider (edit) path db f e es u where "c = Editing path (db, f) (e # es) (Inr u)"
    | (flush) saved key fl files r where "c = Flushing saved ((key, fl) # files) r"
    using run by (induction Y I c ?b rule: resume.induct) auto
  then show ?thesis
  proof cases
    case edit
    have e: "\<forall>w. e \<noteq> Swap w" and n: "named path (db, f)" using c edit by auto
    have "fits (mf_contents Y f)" using room edit by simp
    then obtain r f' d where one: "browser_apply_ops Y I f (b_dbs ?b db) [e] = Some (r, f', d)"
      "mf_contents Y f' = op_spec e (mf_contents Y f)" "mf_path f' = mf_path f" "mf_backend f' = mf_backend f"
      "r = Inr () \<and> d = b_dbs ?b db \<or> saved_in sure (disks entries (b_dbs ?b)) db (full_path (mf_path f))
        (op_spec e (mf_contents Y f)) (is_ok r) (disks entries ((b_dbs ?b)(db := d)))"
      using one_edit [OF laws _ e sure refl, of f "b_dbs ?b" db] by blast
    have out: "c' = Editing path (db, f') es r" "b = ?b\<lparr>b_dbs := (b_dbs ?b)(db := d)\<rparr>"
      using run by (simp_all add: edit one(1) del: browser_apply_ops.simps)
    have saved: "r = Inr () \<and> disks entries ((b_dbs ?b)(db := d)) = stored_texts (texts_in Y entries s) \<or>
      saved_in sure (stored_texts (texts_in Y entries s)) db path (op_spec e (mf_contents Y f)) (is_ok r)
        (disks entries ((b_dbs ?b)(db := d)))"
      using one(5) n by (auto simp: named_def)
    have h: "held (texts_in Y entries s) k = Some (TEditing path (db, mf_contents Y f) (e # es) (Inr ()))"
      using held by (simp add: edit text_file_def)
    show ?thesis
      using ok c one(2-4) n unfolding out
      by (intro conjI step_to [OF text_step.t_edit_one [OF h saved]])
        (auto simp: calls_ok_def edit text_file_def named_def intro!: texts.equality)
  next
    case flush
    obtain r1 f1 dbs where save: "browser_save Y I fl (b_dbs ?b) = (r1, f1, dbs)" by (metis prod_cases3)
    have out: "c' = Flushing (saved @ [(key, f1)]) files (if is_ok r1 then r else r1)" "b = ?b\<lparr>b_dbs := dbs\<rparr>"
      using run by (auto simp: flush save split: sum.splits)
    note saved = browser_save_spec(1-4) [OF laws(1) save] browser_save_spec(5) [OF laws(1) save sure]
    have fs: "files_ok (saved @ (key, fl) # files)" using c flush by simp
    then have key: "full_path (mf_path (snd fl)) = key" "key \<notin> fst ` set files" "key \<notin> fst ` set saved"
      by (auto simp: files_ok_def named_def)
    have same: "text_file Y f1 = text_file Y fl" using saved by (simp add: text_file_def)
    then have texts: "texts_of Y (saved @ (key, f1) # files) = texts_of Y (saved @ (key, fl) # files)"
      by (simp add: texts_of_list)
    have at: "texts_of Y (saved @ (key, fl) # files) key = Some (fst fl, mf_contents Y (snd fl))"
      using key(3) by (simp add: texts_of_list map_of_append map_add_Some_iff text_file_def map_of_eq_None_iff image_image)
    have h: "held (texts_in Y entries s) k =
        Some (TFlushing (texts_of Y (saved @ (key, fl) # files)) (fst ` set ((key, fl) # files)) r)"
      using held by (simp add: flush)
    have in_P: "key \<in> fst ` set ((key, fl) # files)" by simp
    have "saved_in sure (stored_texts (texts_in Y entries s)) (fst fl) key (mf_contents Y (snd fl)) (is_ok r1) (disks entries dbs)"
      using saved(5) key(1) by simp
    note t = text_step.t_flush_one [OF h in_P at this]
    have "files_ok (saved @ (key, f1) # files)" using fs saved(1-4) by (auto simp: files_ok_def named_def)
    then show ?thesis
      using ok texts key(2) unfolding out
      by (intro conjI step_to [OF t]) (auto simp: calls_ok_def intro!: texts.equality)
  qed
qed

lemma join_refines:
  assumes laws: "idb_laws I entries" and sure: "sure \<longrightarrow> idb_commits I entries" and ok: "calls_ok s"
    and free: "flying s k = None"
    and x: "\<And>db. b_store (browser_now s) = Some db \<Longrightarrow> (said = None \<and> (\<exists>e. x = (Inl e, browser_now s))) \<or>
      (\<exists>f. x = begin_open Y I path (db, f) (browser_now s) \<and> named path (db, f) \<and> said \<in> {None, Some (mf_contents Y f)})"
    and none: "b_store (browser_now s) = None \<Longrightarrow> \<exists>e. x = (Inl e, browser_now s)"
  shows "text_step sure (Join k path said) (texts_in Y entries s) (texts_in Y entries (launched k x s)) \<and> calls_ok (launched k x s)"
proof -
  have refused: "launched k (Inl e, browser_now s) s = s" for e :: file_error by (simp add: launched_def)
  have h: "held (texts_in Y entries s) k = None" by (simp add: free)
  show ?thesis
  proof (cases "b_store (browser_now s)")
    case None
    then obtain e where "x = (Inl e, browser_now s)" using none by blast
    then show ?thesis using text_step.t_join_refused [of "texts_in Y entries s" said sure k path] None ok refused by simp
  next
    case (Some db)
    from x [OF Some] consider e where "said = None" "x = (Inl e, browser_now s)"
      | f where "x = begin_open Y I path (db, f) (browser_now s)" "named path (db, f)" "said \<in> {None, Some (mf_contents Y f)}"
      by blast
    then show ?thesis
    proof cases
      case 1
      then show ?thesis using text_step.t_join_refused [of "texts_in Y entries s" said sure k path] ok refused by simp
    next
      case 2
      have "target_db (texts_in Y entries s) = Some db" by (simp add: Some)
      then show ?thesis
        using open_refines [OF laws sure ok 2(2) refl, of Y k] text_step.t_join [OF h _ _ 2(3), of db sure] 2(1) by metis
    qed
  qed
qed

lemma create_refines:
  assumes laws: "idb_laws I entries" "yrs_laws Y ext" and sure: "sure \<longrightarrow> idb_commits I entries" and ok: "calls_ok s"
    and free: "flying s k = None" and x: "begin_from_string Y I path t (browser_now s) = Some x"
  shows "text_step sure (Create k path t) (texts_in Y entries s) (texts_in Y entries (launched k x s)) \<and> calls_ok (launched k x s)"
proof (cases "b_store (browser_now s)")
  case None
  then obtain e where "x = (Inl e, browser_now s)" using begin_string_spec(1) [OF laws(2) None, of I path t] x by auto
  then have "launched k x s = s" by (simp add: launched_def)
  then show ?thesis using text_step.t_create_refused [of "texts_in Y entries s" sure k path t] None ok by simp
next
  case (Some db)
  then obtain f where f: "x = begin_open Y I path (db, f) (browser_now s)" "named path (db, f)" "mf_contents Y f = t"
    using begin_string_spec(2) [OF laws(2) Some, of I path t] x by auto
  have h: "held (texts_in Y entries s) k = None" "target_db (texts_in Y entries s) = Some db" by (simp_all add: free Some)
  show ?thesis
    using open_refines [OF laws(1) sure ok f(2) refl, of Y k] text_step.t_create [OF h, of sure path t] f(1,3) by metis
qed

lemma take_out_refines:
  assumes "calls_ok s" and "file_state (b_files (browser_now s)) path = Some fl"
  shows "named path fl" and "browser_inv ((browser_now s)\<lparr>b_files := hm_remove (\<lambda>k. k) path (b_files (browser_now s))\<rparr>)"
    and "shown (texts_in Y entries s) path = Some (text_file Y fl)"
  using assms browser_invD [of "browser_now s" path fl] browser_inv_remove [of "browser_now s" path]
  by (auto simp: calls_ok_def named_def texts_of_def)

lemma not_open_refines:
  assumes "calls_ok s" and "file_state (b_files (browser_now s)) path = None" and "take_out path (browser_now s) = (y, b)"
  shows "y = None" and "shown (texts_in Y entries s) path = None"
    and "texts_in Y entries (launched k (Inl e, b) s) = texts_in Y entries s" and "calls_ok (launched k (Inl e, b) s)"
proof -
  have b: "y = None" "b = (browser_now s)\<lparr>b_files := hm_remove (\<lambda>k. k) path (b_files (browser_now s))\<rparr>"
    using assms(2,3) by (simp_all add: take_out_def)
  then show "y = None" "shown (texts_in Y entries s) path = None" using assms(2) by (simp_all add: texts_of_def)
  have "browser_inv b" using assms(1) browser_inv_remove [of "browser_now s" path] by (simp add: calls_ok_def b)
  then show "calls_ok (launched k (Inl e, b) s)" using assms(1) by (intro calls_ok_launched) auto
  have "(texts_of Y (b_files (browser_now s)))(path := None) = texts_of Y (b_files (browser_now s))"
    using assms(2) by (simp add: texts_of_def fun_upd_idem)
  then show "texts_in Y entries (launched k (Inl e, b) s) = texts_in Y entries s"
    by (intro texts.equality) (simp_all add: b)
qed

lemma merge_refines:
  assumes laws: "idb_laws I entries" and sure: "sure \<longrightarrow> idb_commits I entries" and ok: "calls_ok s"
    and free: "flying s k = None"
    and peer: "said = None \<or> (\<exists>db f d v. said = Some (y_string Y d) \<and> yrs_laws Y ext \<and>
      file_state (b_files (browser_now s)) path = Some (db, f) \<and> ext (mf_doc f) d \<and>
      y_decode_vector Y (mf_state_vector Y f) = Inr v \<and> bytes = y_encode_diff Y d v)"
  shows "text_step sure (Merge k path said) (texts_in Y entries s)
      (texts_in Y entries (launched k (begin_update Y I path bytes (browser_now s)) s)) \<and>
    calls_ok (launched k (begin_update Y I path bytes (browser_now s)) s)"
proof (cases "file_state (b_files (browser_now s)) path")
  case None
  obtain y b where out: "take_out path (browser_now s) = (y, b)" by fastforce
  note no = not_open_refines [OF ok None out]
  obtain e where begun: "begin_update Y I path bytes (browser_now s) = (Inl e, b)"
    using no(1) by (simp add: begin_update_def out)
  show ?thesis
    unfolding begun no(3) using text_step.t_merge_refused [OF no(2), of sure k said] no(4) by blast
next
  case (Some fl)
  obtain db f where fl: "fl = (db, f)" by (cases fl)
  note taken = take_out_refines [OF ok Some, unfolded fl]
  obtain r file' dbs t where begun: "begin_update Y I path bytes (browser_now s) =
      (Inr (Merging path file' r), (browser_now s)\<lparr>b_files := hm_remove (\<lambda>k. k) path (b_files (browser_now s)), b_dbs := dbs\<rparr>)"
    "named path file'" "text_file Y file' = (db, t)"
    "saved_in sure (disks entries (b_dbs (browser_now s))) db path t (is_ok r) (disks entries dbs)"
    and same: "\<And>d v. yrs_laws Y ext \<Longrightarrow> ext (mf_doc f) d \<Longrightarrow> y_decode_vector Y (mf_state_vector Y f) = Inr v \<Longrightarrow>
      bytes = y_encode_diff Y d v \<Longrightarrow> t = y_string Y d"
    using begin_update_spec [OF laws sure Some [unfolded fl] taken(1), of Y bytes ext] by blast
  have said: "said \<in> {None, Some t}" using peer same Some fl by auto
  have h: "held (texts_in Y entries s) k = None" by (simp add: free)
  have saved: "saved_in sure (stored_texts (texts_in Y entries s)) db path t (is_ok r) (disks entries dbs)"
    using begun(4) by simp
  note step = text_step.t_merge [OF h taken(3) [unfolded text_file_def fst_conv] said saved]
  show ?thesis
    unfolding begun(1) using ok taken(2) begun(2,3)
    by (intro conjI step_to [OF step] calls_ok_launched) (auto intro!: texts.equality)
qed

lemma call_step_refines:
  assumes laws: "idb_laws I entries" "yrs_laws Y ext" and sure: "sure \<longrightarrow> idb_commits I entries"
    and step: "call_step Y ext I ev s s'" and ok: "calls_ok s"
  shows "text_step sure ev (texts_in Y entries s) (texts_in Y entries s') \<and> calls_ok s'"
  using step
proof (cases rule: call_step.cases)
  case (configure k db)
  obtain r d where new: "idb_new I db (b_dbs (browser_now s) db) = (r, d)" by fastforce
  then obtain r' where "i_open I db (b_dbs (browser_now s) db) = (r', d)" by (auto simp: idb_new_def split: prod.splits)
  then have "disks entries ((b_dbs (browser_now s))(db := d)) = disks entries (b_dbs (browser_now s))"
    using idb_lawsD(6) [OF laws(1)] by (auto simp: disks_def stored_def fun_eq_iff)
  moreover have "held (texts_in Y entries s) k = None" by (simp add: configure(3))
  ultimately show ?thesis
    using ok unfolding configure(1,2) begin_configure_def new prod.case
    by (intro conjI step_to [OF text_step.t_configure [where r = r]] calls_ok_launched)
      (auto simp: calls_ok_def intro!: texts.equality)
next
  case (create k path t x)
  then show ?thesis using create_refines [OF laws sure ok create(3,4)] by simp
next
  case (join k path bytes)
  show ?thesis unfolding join(1,2)
  proof (rule join_refines [OF laws(1) sure ok join(3)])
    show "\<And>db. b_store (browser_now s) = Some db \<Longrightarrow>
      (None = None \<and> (\<exists>e. begin_from_state Y I path bytes (browser_now s) = (Inl e, browser_now s))) \<or>
      (\<exists>f. begin_from_state Y I path bytes (browser_now s) = begin_open Y I path (db, f) (browser_now s) \<and>
        named path (db, f) \<and> None \<in> {None, Some (mf_contents Y f)})"
      using begin_state_spec(2) [of "browser_now s" _ Y I path bytes] by blast
    show "b_store (browser_now s) = None \<Longrightarrow> \<exists>e. begin_from_state Y I path bytes (browser_now s) = (Inl e, browser_now s)"
      by (rule begin_state_spec(1))
  qed
next
  case (join_peer k path g)
  show ?thesis unfolding join_peer(1,2)
    by (rule join_refines [OF laws(1) sure ok join_peer(3)]) (use begin_state_spec(1,3) [where Y = Y] laws(2) in \<open>fastforce+\<close>)
next
  case (edit k path tx)
  show ?thesis
  proof (cases "file_state (b_files (browser_now s)) path")
    case None
    obtain y b where out: "take_out path (browser_now s) = (y, b)" by fastforce
    note no = not_open_refines [OF ok None out]
    obtain e where begun: "begin_transaction path tx (browser_now s) = (Inl e, b)"
      using no(1) by (simp add: begin_transaction_def out)
    show ?thesis
      unfolding edit(1,2) begun no(3) using text_step.t_edit_refused [OF no(2), of sure k tx] no(4) by blast
  next
    case (Some fl)
    note taken = take_out_refines [OF ok Some]
    have h: "held (texts_in Y entries s) k = None" by (simp add: edit(3))
    have begun: "begin_transaction path tx (browser_now s) = (Inr (Editing path fl (edit_steps (operations tx)) (Inr ())),
        (browser_now s)\<lparr>b_files := hm_remove (\<lambda>k. k) path (b_files (browser_now s))\<rparr>)"
      by (simp add: begin_transaction_def take_out_def Some)
    show ?thesis unfolding edit(1,2) begun
      using ok taken(1,2) no_swap_steps
      by (intro conjI step_to [OF text_step.t_edit [OF h taken(3)]] calls_ok_launched) (auto intro!: texts.equality)
  qed
next
  case (merge k path bytes)
  then show ?thesis using merge_refines [OF laws(1) sure ok merge(3), of None] by simp
next
  case (merge_peer k path db f d v)
  show ?thesis unfolding merge_peer(1,2)
    by (rule merge_refines [OF laws(1) sure ok merge_peer(3), where ext = ext]) (use merge_peer(4-6) laws(2) in blast)
next
  case (flush k)
  have h: "held (texts_in Y entries s) k = None" by (simp add: flush(3))
  have "browser_inv (browser_now s)" using ok by (simp add: calls_ok_def)
  then show ?thesis unfolding flush(1,2) begin_flush_def flush_take_def prod.case
    using ok by (intro conjI step_to [OF text_step.t_flush [OF h]] calls_ok_launched)
      (auto simp: texts_of_dom browser_inv_files files_ok_def [of "[]"] intro!: texts.equality)
next
  case (resume k c c' b)
  then show ?thesis using resume_refines [OF laws sure ok resume(3-5)] by simp
next
  case (finish k c r b)
  then show ?thesis using finish_refines [OF ok finish(3,4)] by simp
next
  case (close path)
  have inv: "browser_inv (browser_now s)" using ok by (simp add: calls_ok_def)
  show ?thesis unfolding close
    using ok browser_inv_remove [OF inv]
    by (intro conjI step_to [OF text_step.t_close]) (auto simp: calls_ok_def remove_file_spec [OF inv] intro!: texts.equality)
next
  case wipe
  have inv: "browser_inv (browser_now s)" using ok by (simp add: calls_ok_def)
  show ?thesis unfolding wipe
    using ok by (intro conjI step_to [OF text_step.t_wipe])
      (auto simp: calls_ok_def wipe_state_spec [OF inv] intro!: texts.equality)
qed

lemma runs_refine:
  assumes laws: "idb_laws I entries" "yrs_laws Y ext" and sure: "sure \<longrightarrow> idb_commits I entries"
    and run: "runs (call_step Y ext I) (first_calls dbs) es s"
  shows "runs (text_step sure) (texts_in Y entries (first_calls dbs)) es (texts_in Y entries s) \<and> calls_ok s"
  using run
proof (induction rule: runs.induct)
  case none
  have "calls_ok (first_calls dbs :: ('a, 'b) calls)" by (simp add: calls_ok_def first_calls_def browser_inv_def)
  then show ?case by (simp add: runs.none)
next
  case (more es t e u)
  then show ?case using call_step_refines [OF laws sure more.hyps(2)] runs.more by metis
qed

text \<open>No call is stuck: it can finish or go on to its next save.\<close>

lemma call_goes_on:
  assumes laws: "idb_laws I entries" "yrs_laws Y ext" and c: "call_ok c" "roomy Y c"
  shows "finish Y I c b \<noteq> None \<or> resume Y I c b \<noteq> None"
proof (cases c)
  case (Editing path fl es r)
  show ?thesis
  proof (cases "es = [] \<or> \<not> is_ok r")
    case False
    then obtain e es' u where es: "es = e # es'" "r = Inr u" by (cases es; cases r) auto
    obtain db f where fl: "fl = (db, f)" by (cases fl)
    have "\<forall>w. e \<noteq> Swap w" "fits (mf_contents Y f)" using c by (auto simp: Editing es fl)
    from one_edit [OF laws this(2,1), of False "op_spec e (mf_contents Y f)" "b_dbs b" db] show ?thesis
      by (auto simp: Editing es fl simp del: browser_apply_ops.simps)
  qed (simp add: Editing)
next
  case (Flushing saved files r)
  show ?thesis
  proof (cases files)
    case (Cons e files')
    obtain key fl where "e = (key, fl)" by (cases e)
    then show ?thesis by (simp add: Flushing Cons split: prod.split)
  qed (simp add: Flushing)
qed simp_all

section \<open>Properties\<close>

text \<open>C35: The browser's session, with calls that overlap, is a session of texts. However calls interleave at
  their awaits, with files closed and the session wiped in between, whatever happens is a step of the
  text session: a file that is created, or joined from a peer's state, is shown with its text once its
  first save has succeeded, and not at all if it has failed; an edit takes the file's text out, edits it one
  elementary edit after the other up to the first that fails to save, and shows it again; a merge of a
  peer's update shows the peer's text; a flush takes all texts out, writes each, reports the last error and
  shows them again over what was opened meanwhile; closing and wiping write nothing. What a save that succeeds
  wrote is in its database if commits do not abort, and is there or not at all if they may; what failed
  left no trace. Reading and listing show exactly these texts. And no call is ever stuck or panics.\<close>

theorem browser_calls_refine:
  assumes "idb_laws I entries" and "yrs_laws Y ext" and "sure \<longrightarrow> idb_commits I entries"
    and "runs (call_step Y ext I) (first_calls dbs) es s"
  shows "runs (text_step sure)
      \<lparr>shown = Map.empty, target_db = None, held = (\<lambda>_. None), stored_texts = (\<lambda>db. stored entries (dbs db))\<rparr>
      es (texts_in Y entries s) \<and>
    read_file Y (browser_now s) = (\<lambda>path. map_option snd (shown (texts_in Y entries s) path)) \<and>
    (\<forall>path. sorted (subpaths_of (browser_now s) path) \<and> distinct (subpaths_of (browser_now s) path) \<and>
      set (subpaths_of (browser_now s) path) = {p. shown (texts_in Y entries s) p \<noteq> None \<and> starts_with p path}) \<and>
    (\<forall>path t. begin_from_string Y I path t (browser_now s) \<noteq> None) \<and>
    (\<forall>k c. flying s k = Some c \<longrightarrow> roomy Y c \<longrightarrow>
      finish Y I c (browser_now s) \<noteq> None \<or> resume Y I c (browser_now s) \<noteq> None)"
proof -
  note run = runs_refine [OF assms]
  then have ok: "calls_ok s" "browser_inv (browser_now s)" by (simp_all add: calls_ok_def)
  have start: "texts_in Y entries (first_calls dbs) =
      \<lparr>shown = Map.empty, target_db = None, held = (\<lambda>_. None), stored_texts = (\<lambda>db. stored entries (dbs db))\<rparr>"
    by (simp add: texts_in_def first_calls_def disks_def)
  have lists: "sorted (subpaths_of (browser_now s) path) \<and> distinct (subpaths_of (browser_now s) path) \<and>
      set (subpaths_of (browser_now s) path) = {p. shown (texts_in Y entries s) p \<noteq> None \<and> starts_with p path}" for path
    using subpaths_of_spec [OF ok(2), of path Y] by (auto simp: read_file_texts)
  have creates: "begin_from_string Y I path t (browser_now s) \<noteq> None" for path t
  proof (cases "b_store (browser_now s)")
    case None
    then show ?thesis using begin_string_spec(1) [OF assms(2) None, of I path t] by auto
  next
    case (Some db)
    then show ?thesis using begin_string_spec(2) [OF assms(2) Some, of I path t] by auto
  qed
  have goes: "finish Y I c (browser_now s) \<noteq> None \<or> resume Y I c (browser_now s) \<noteq> None"
    if "flying s k = Some c" "roomy Y c" for k c
    using call_goes_on [OF assms(1,2)] that ok(1) unfolding calls_ok_def by blast
  show ?thesis
    using run start lists creates goes by (simp add: read_file_texts)
qed

text \<open>C34: A flush, in any state that overlapping calls can reach, when nothing runs between its saves: the
  session keeps its texts, and every path of every database holds its old text or that of the buffer open under
  the path. If the flush succeeds and no commit aborts, every database holds the text of each buffer that is
  in the table and was opened from it, unsaved edits included, and nothing else has changed, so that a compile
  reads what the editor shows.\<close>

theorem flush_all_writes_the_session:
  assumes "idb_laws I entries" and "yrs_laws Y ext" and "runs (call_step Y ext I) (first_calls dbs) es s"
    and "b = browser_now s" and "flush_all Y I b = (r, b')"
  shows "read_file Y b' = read_file Y b \<and>
    (\<forall>db path. stored entries (b_dbs b' db) path \<in> {stored entries (b_dbs b db) path,
       session_text Y (b_files b) (\<lambda>db. stored entries (b_dbs b db)) db path}) \<and>
    (is_ok r \<and> idb_commits I entries \<longrightarrow>
      (\<forall>db. stored entries (b_dbs b' db) = session_text Y (b_files b) (\<lambda>db. stored entries (b_dbs b db)) db))"
proof -
  have "browser_inv b"
    using runs_refine [OF assms(1,2) _ assms(3), of False] assms(4) by (simp add: calls_ok_def)
  then show ?thesis
    using flush_all_spec [OF assms(1) _ _ assms(5), of "idb_commits I entries"] by (auto simp: disks_def read_file_texts)
qed

section \<open>A session\<close>

type_synonym demo_calls = "((string \<times> ustring) list, ustring) calls"

definition demo_file :: "ustring \<Rightarrow> nat \<Rightarrow> ustring browser_file" where
  "demo_file t n = (''db'', (mf_new t (plain_file ''a.cad'') Async)\<lparr>ops_since_save := n\<rparr>)"

definition demo_insert :: operation where
  "demo_insert = Insert \<lparr>ins_position = \<lparr>col = 0, line = 0\<rparr>, ins_content = [97]\<rparr>"

text \<open>The session with one file open, then with a key typed into it, and the database that has not seen it.\<close>

definition demo_open :: "ustring \<Rightarrow> nat \<Rightarrow> demo_calls" where
  "demo_open t n = \<lparr>browser_now = \<lparr>b_dbs = (\<lambda>_. [])(''db'' := [(''a.cad'', [98])]), b_store = Some ''db'',
     b_files = [(''a.cad'', demo_file t n)]\<rparr>, flying = (\<lambda>_. None)\<rparr>"

definition demo_in_hand :: "ustring \<Rightarrow> nat \<Rightarrow> operation list \<Rightarrow> demo_calls" where
  "demo_in_hand t n es = (demo_open t n)\<lparr>browser_now := (browser_now (demo_open t n))\<lparr>b_files := []\<rparr>,
     flying := (\<lambda>_. None)(1 \<mapsto> Editing ''a.cad'' (demo_file t n) es (Inr ()))\<rparr>"

abbreviation demo_events :: "event list" where
  "demo_events \<equiv> [Configure 0 ''db'', Finish 0 (Inr ()), Create 0 ''a.cad'' [98], Finish 0 (Inr ()),
     Edit 1 ''a.cad'' (Transaction [demo_insert]), Close ''a.cad'', Resume 1, Finish 1 (Inr ())]"

lemmas browser_eval = begin_from_string_def browser_store_def begin_open_def browser_save_def
  mf_save_def mf_contents_def mf_new_def from_string_def new_file_def build_file_def put_in_def hm_get_def hm_abs_def
  idb_file_io_def idb_write_file_def idb_eval idb_new_def list_yrs_def

abbreviation "demo_step \<equiv> call_step list_yrs (\<lambda>_ _. True) list_idb"

lemma runs_Cons: "step e s t \<Longrightarrow> runs step t es u \<Longrightarrow> runs step s (e # es) u"
proof (rotate_tac, induction rule: runs.induct)
  case none
  then show ?case using runs.more [OF runs.none, of step e s t] by simp
next
  case (more es v f u)
  then show ?case using runs.more [of step s "e # es" v f u] by simp
qed

text \<open>A file is configured and created; while a key typed into it waits for its save, the file is closed; then
  the edit puts it back.\<close>

lemma demo_runs:
  "runs demo_step (first_calls (\<lambda>_. [])) [Configure 0 ''db'', Finish 0 (Inr ()), Create 0 ''a.cad'' [98], Finish 0 (Inr ())]
     (demo_open [98] 0)"
  "runs demo_step (demo_open [98] 0) [Edit 1 ''a.cad'' (Transaction [demo_insert])] (demo_in_hand [98] 0 [demo_insert])"
  "runs demo_step (demo_in_hand [98] 0 [demo_insert]) [Close ''a.cad''] (demo_in_hand [98] 0 [demo_insert])"
  "runs demo_step (demo_in_hand [98] 0 [demo_insert]) [Resume 1] (demo_in_hand [97, 98] 1 [])"
  "runs demo_step (demo_in_hand [97, 98] 1 []) [Finish 1 (Inr ())] (demo_open [97, 98] 1)"
proof -
  let ?b0 = "\<lparr>b_dbs = (\<lambda>_. []), b_store = None, b_files = []\<rparr> :: ((string \<times> ustring) list, ustring) browser"
  define s1 :: demo_calls where "s1 = \<lparr>browser_now = ?b0, flying = (\<lambda>_. None)(0 \<mapsto> Configuring ''db'' (Inr ()))\<rparr>"
  define s2 :: demo_calls where "s2 = \<lparr>browser_now = ?b0\<lparr>b_store := Some ''db''\<rparr>, flying = (\<lambda>_. None)\<rparr>"
  define s3 :: demo_calls where "s3 = \<lparr>browser_now = (browser_now (demo_open [98] 0))\<lparr>b_files := []\<rparr>,
    flying = (\<lambda>_. None)(0 \<mapsto> Opening ''a.cad'' (demo_file [98] 0) (Inr ()))\<rparr>"
  have "launched 0 (begin_configure list_idb ''db'' ?b0) (first_calls (\<lambda>_. [])) = s1"
    by (simp add: launched_def begin_configure_def first_calls_def s1_def idb_new_def list_idb_def fun_eq_iff)
  then have 1: "demo_step (Configure 0 ''db'') (first_calls (\<lambda>_. [])) s1"
    using call_step.configure [of "first_calls (\<lambda>_. [])" 0 list_yrs "\<lambda>_ _. True" list_idb "''db''"]
    by (simp add: first_calls_def)
  have 2: "demo_step (Finish 0 (Inr ())) s1 s2"
    using call_step.finish [of s1 0 "Configuring ''db'' (Inr ())" list_yrs list_idb "Inr ()" "browser_now s2"]
    by (simp add: s1_def s2_def)
  obtain x where x: "begin_from_string list_yrs list_idb ''a.cad'' [98] (browser_now s2) = Some x" "launched 0 x s2 = s3"
    by (simp add: browser_eval s2_def s3_def launched_def demo_open_def demo_file_def plain_file_def)
  have 3: "demo_step (Create 0 ''a.cad'' [98]) s2 s3"
  proof -
    have "flying s2 0 = None" by (simp add: s2_def)
    from call_step.create [OF this x(1)] show ?thesis unfolding x(2) .
  qed
  have 4: "demo_step (Finish 0 (Inr ())) s3 (demo_open [98] 0)"
    using call_step.finish [of s3 0 "Opening ''a.cad'' (demo_file [98] 0) (Inr ())" list_yrs list_idb "Inr ()"
      "browser_now (demo_open [98] 0)"]
    by (simp add: s3_def demo_open_def put_in_def)
  show "runs demo_step (first_calls (\<lambda>_. [])) [Configure 0 ''db'', Finish 0 (Inr ()), Create 0 ''a.cad'' [98], Finish 0 (Inr ())]
     (demo_open [98] 0)"
    by (rule runs_Cons [of demo_step, OF 1] runs_Cons [of demo_step, OF 2] runs_Cons [of demo_step, OF 3]
        runs_Cons [of demo_step, OF 4] runs.none)+
  have begun: "launched 1 (begin_transaction ''a.cad'' (Transaction [demo_insert]) (browser_now (demo_open [98] 0))) (demo_open [98] 0) =
      demo_in_hand [98] 0 [demo_insert]"
    by (simp add: launched_def begin_transaction_def take_out_def demo_open_def demo_in_hand_def hm_get_def hm_abs_def hm_remove_def
        edit_steps_def demo_insert_def)
  have "demo_step (Edit 1 ''a.cad'' (Transaction [demo_insert])) (demo_open [98] 0) (demo_in_hand [98] 0 [demo_insert])"
    using call_step.edit [of "demo_open [98] 0" 1 list_yrs "\<lambda>_ _. True" list_idb "''a.cad''" "Transaction [demo_insert]"]
    unfolding begun by (simp add: demo_open_def)
  then show "runs demo_step (demo_open [98] 0) [Edit 1 ''a.cad'' (Transaction [demo_insert])] (demo_in_hand [98] 0 [demo_insert])"
    by (rule runs_Cons [of demo_step, OF _ runs.none])
  have "(demo_in_hand [98] 0 es)\<lparr>browser_now := remove_file list_yrs list_idb ''a.cad'' (browser_now (demo_in_hand [98] 0 es))\<rparr> =
      demo_in_hand [98] 0 es" for es
    by (simp add: demo_in_hand_def remove_file_def take_out_def hm_get_def hm_abs_def hm_remove_def)
  then show "runs demo_step (demo_in_hand [98] 0 [demo_insert]) [Close ''a.cad''] (demo_in_hand [98] 0 [demo_insert])"
    using runs_Cons [of demo_step, OF call_step.close runs.none] by metis
  have "demo_step (Resume 1) (demo_in_hand [98] 0 [demo_insert]) (demo_in_hand [97, 98] 1 [])"
  proof -
    let ?s = "demo_in_hand [98] 0 [demo_insert]"
    have "resume list_yrs list_idb (Editing ''a.cad'' (demo_file [98] 0) [demo_insert] (Inr ())) (browser_now ?s) =
        Some (Editing ''a.cad'' (demo_file [97, 98] 1) [] (Inr ()), browser_now (demo_in_hand [97, 98] 1 []))"
      by (simp add: demo_file_def demo_insert_def demo_in_hand_def demo_open_def browser_apply_insert_def apply_insert_def
          and_then_def mf_insert_char_def tx_insert_char_def line_col_to_byte_def line_start_byte_def record_single_edit_def
          save_threshold_def Let_def mf_contents_def mf_new_def list_yrs_def fun_upd_idem)
    then show ?thesis
      using call_step.resume [of ?s 1 _ list_yrs list_idb _ "browser_now (demo_in_hand [97, 98] 1 [])" "\<lambda>_ _. True"]
      by (simp add: demo_in_hand_def demo_open_def demo_file_def fits_def len_utf8_def mf_contents_def mf_new_def list_yrs_def
          del: resume.simps)
  qed
  then show "runs demo_step (demo_in_hand [98] 0 [demo_insert]) [Resume 1] (demo_in_hand [97, 98] 1 [])"
    by (rule runs_Cons [of demo_step, OF _ runs.none])
  have "demo_step (Finish 1 (Inr ())) (demo_in_hand [97, 98] 1 []) (demo_open [97, 98] 1)"
    using call_step.finish [of "demo_in_hand [97, 98] 1 []" 1 "Editing ''a.cad'' (demo_file [97, 98] 1) [] (Inr ())" list_yrs list_idb
      "Inr ()" "browser_now (demo_open [97, 98] 1)"]
    by (simp add: demo_in_hand_def demo_open_def put_in_def)
  then show "runs demo_step (demo_in_hand [97, 98] 1 []) [Finish 1 (Inr ())] (demo_open [97, 98] 1)"
    by (rule runs_Cons [of demo_step, OF _ runs.none])
qed

lemma runs_append: "runs step t fs u \<Longrightarrow> runs step s es t \<Longrightarrow> runs step s (es @ fs) u"
proof (induction rule: runs.induct)
  case (more fs u f v)
  then show ?case using runs.more [of step s "es @ fs" u f v] by simp
qed simp

lemma demo_run: "runs demo_step (first_calls (\<lambda>_. [])) demo_events (demo_open [97, 98] 1)"
  using runs_append [OF demo_runs(5) runs_append [OF demo_runs(4) runs_append [OF demo_runs(3)
    runs_append [OF demo_runs(2,1)]]]] by simp

lemma browser_calls_refine_witness:
  "runs (text_step True) \<lparr>shown = Map.empty, target_db = None, held = (\<lambda>_. None), stored_texts = (\<lambda>db. Map.empty)\<rparr> demo_events
     (texts_in list_yrs AList.clearjunk (demo_open [97, 98] 1)) \<and>
   read_file list_yrs (browser_now (demo_open [97, 98] 1)) ''a.cad'' = Some [97, 98]"
proof -
  have "stored AList.clearjunk [] = Map.empty" by (simp add: stored_def)
  moreover have "read_file list_yrs (browser_now (demo_open [97, 98] 1)) ''a.cad'' = Some [97, 98]"
    by (simp add: read_file_def demo_open_def demo_file_def hm_get_def hm_abs_def mf_new_def mf_contents_def list_yrs_def)
  ultimately show ?thesis
    using browser_calls_refine [OF list_idb_laws(1) list_yrs_laws _ demo_run, of True] list_idb_laws(2) by simp
qed

lemma flush_all_writes_the_session_witness:
  "\<exists>b'. flush_all list_yrs list_idb (browser_now (demo_open [97, 98] 1)) = (Inr (), b') \<and>
     stored AList.clearjunk (b_dbs b' ''db'') ''a.cad'' = Some [97, 98]"
proof -
  let ?b = "browser_now (demo_open [97, 98] 1)"
  obtain r b' where run: "flush_all list_yrs list_idb ?b = (r, b')" by fastforce
  moreover have "r = Inr ()" using run
    by (simp add: flush_all_def flush_take_def demo_open_def demo_file_def browser_eval plain_file_def)
  moreover have "session_text list_yrs (b_files ?b) M ''db'' ''a.cad'' = Some [97, 98]" for M
    by (simp add: session_text_def demo_open_def demo_file_def hm_get_def hm_abs_def mf_contents_def mf_new_def list_yrs_def)
  ultimately show ?thesis
    using flush_all_writes_the_session [OF list_idb_laws(1) list_yrs_laws demo_run refl run] list_idb_laws(2) by auto
qed

text \<open>A close that runs while an edit awaits its save is undone when the edit puts the buffer back.\<close>

lemma close_during_a_save_is_undone:
  "runs demo_step (demo_in_hand [98] 0 [demo_insert]) [Close ''a.cad'', Resume 1, Finish 1 (Inr ())] (demo_open [97, 98] 1)"
  using runs_append [OF demo_runs(5) runs_append [OF demo_runs(4,3)]] by simp

text \<open>A buffer that an edit has in its hands is not flushed, though the flush succeeds.\<close>

lemma flush_skips_buffers_in_hand:
  "flush_all list_yrs list_idb (browser_now (demo_in_hand t n es)) = (Inr (), browser_now (demo_in_hand t n es))"
  by (simp add: flush_all_def flush_take_def flush_put_def demo_in_hand_def)

text \<open>While a flush awaits a save, its files read as not open.\<close>

lemma flushed_files_read_as_closed: "read_file Y (snd (begin_flush b)) path = None"
  by (simp add: begin_flush_def flush_take_def read_file_def)

text \<open>
  Closing a file loses what was typed since the last save: the buffer is dropped, and dropping an
  async buffer writes nothing. The same holds of wiping the session.
\<close>

lemma closing_loses_edits:
  "stored AList.clearjunk (b_dbs (remove_file list_yrs list_idb ''a.cad'' (browser_now (demo_open [97, 98] 1))) ''db'') ''a.cad'' = Some [98]"
  "read_file list_yrs (remove_file list_yrs list_idb ''a.cad'' (browser_now (demo_open [97, 98] 1))) ''a.cad'' = None"
  by (simp_all add: remove_file_def take_out_def demo_open_def demo_file_def hm_get_def hm_abs_def hm_remove_def mf_new_def
      stored_def read_file_def)

end
