(* ===== verification/Streamer.thy ===== *)
theory Streamer
  imports Guard
begin

text \<open>
  The buffer stream of \<open>mem_files/streamer.rs\<close>: what a joining replica is sent of a guard's resident
  buffers, as pairs of relative path and document state. The order is the table's, which is any.
\<close>

section \<open>The stream\<close>

record 'doc streamer =
  streamed_guard :: "'doc file_map"

definition streamer_new :: "'doc file_map \<Rightarrow> 'doc streamer" where
  "streamer_new g = \<lparr>streamed_guard = g\<rparr>"

definition streamer_count :: "'doc streamer \<Rightarrow> nat" where
  "streamer_count st = length (streamed_guard st)"

definition streamer_is_empty :: "'doc streamer \<Rightarrow> bool" where
  "streamer_is_empty st = (streamed_guard st = [])"

definition streamer_states :: "('doc, 'u, 'v) yrs \<Rightarrow> 'doc streamer \<Rightarrow> (string \<times> nat list) list" where
  "streamer_states Y st =
     map (\<lambda>e. (relative_string (mf_path (snd e)), mf_encode_state Y (snd e))) (streamed_guard st)"

section \<open>A replica\<close>

text \<open>What a consumer makes of the stream: a buffer from each state, under the path it came with.\<close>

definition replica_text :: "('doc, 'u, 'v) yrs \<Rightarrow> file_path \<Rightarrow> nat list \<Rightarrow> ustring option" where
  "replica_text Y p state =
     (case from_state Y p state Blocking of Inl _ \<Rightarrow> None | Inr f \<Rightarrow> Some (mf_contents Y f))"

lemma replica_text_encoded: "yrs_laws Y ext \<Longrightarrow> replica_text Y p (mf_encode_state Y f) = Some (mf_contents Y f)"
  using from_state_ok [of Y ext p f Blocking] by (auto simp: replica_text_def)

definition one_root :: "string \<Rightarrow> 'doc file_map \<Rightarrow> bool" where
  "one_root root g \<longleftrightarrow> (\<forall>e \<in> set g. root_path (mf_path (snd e)) = root \<and> path_inv (mf_path (snd e)))"

lemma guard_entries:
  "guard_inv b g \<Longrightarrow> one_root root g \<Longrightarrow> e \<in> set g \<Longrightarrow>
     components (push root (relative_string (mf_path (snd e)))) = components (fst e) \<and>
     hm_abs components g (components (fst e)) = Some (snd e)"
proof (induction g)
  case (Cons a g)
  then have "components (fst e) \<noteq> components (fst a)" if "e \<in> set g"
    using that by (auto simp: guard_inv_Cons one_root_def)
  with Cons show ?case
    by (auto simp: guard_inv_Cons one_root_def hm_abs_Cons relative_string_def path_inv_def)
qed simp

lemma streamed_paths_distinct:
  "guard_inv b g \<Longrightarrow> one_root root g \<Longrightarrow> distinct (map (\<lambda>e. relative_string (mf_path (snd e))) g)"
proof (induction g)
  case (Cons e g)
  have "relative_string (mf_path (snd e)) \<noteq> relative_string (mf_path (snd e'))" if "e' \<in> set g" for e'
  proof
    assume same: "relative_string (mf_path (snd e)) = relative_string (mf_path (snd e'))"
    have "one_root root g" and g: "guard_inv b g" "hm_abs components g (components (fst e)) = None"
      using Cons.prems by (auto simp: guard_inv_Cons one_root_def)
    with guard_entries [OF Cons.prems, of e] guard_entries [OF g(1) _ that, of root] same
    show False by auto
  qed
  with Cons show ?case by (auto simp: guard_inv_Cons one_root_def)
qed simp

text \<open>C36: The stream of a guard whose files have one root carries exactly the session: as many pairs as
  announced, no two with the same relative path, one for every resident buffer; and the state under a
  relative path rebuilds, under whatever path the replica gives it, the text that the session has
  there, unsaved edits included, whatever the store behind the guard holds.\<close>

theorem stream_carries_the_session:
  assumes "yrs_laws Y ext" and "guard_inv b g" and "one_root root g"
    and "states = streamer_states Y (streamer_new g)"
  shows "streamer_count (streamer_new g) = length states
    \<and> (streamer_is_empty (streamer_new g) \<longleftrightarrow> states = [])
    \<and> distinct (map fst states)
    \<and> (\<lambda>e. components (push root (fst e))) ` set states = dom (hm_abs components g)
    \<and> (\<forall>e \<in> set states. replica_text Y q (snd e) = overlay Y content g s (components (push root (fst e))))"
proof (intro conjI ballI)
  note states = assms(4) [unfolded streamer_states_def streamer_new_def, simplified]
  note entry = guard_entries [OF assms(2,3)]
  show "streamer_count (streamer_new g) = length states" "streamer_is_empty (streamer_new g) \<longleftrightarrow> states = []"
    by (simp_all add: streamer_count_def streamer_is_empty_def streamer_new_def states)
  show "distinct (map fst states)"
    using streamed_paths_distinct [OF assms(2,3)] by (simp add: states o_def)
  have "(\<lambda>e. components (push root (fst e))) ` set states = (\<lambda>e. components (fst e)) ` set g"
    using entry by (auto simp: states image_image intro!: image_cong)
  also have "\<dots> = dom (hm_abs components g)" by (simp add: dom_hm_abs hm_keys_def image_image)
  finally show "(\<lambda>e. components (push root (fst e))) ` set states = dom (hm_abs components g)" .
  show "replica_text Y q (snd e) = overlay Y content g s (components (push root (fst e)))" if "e \<in> set states" for e
    using that entry by (auto simp: states overlay_def replica_text_encoded [OF assms(1)])
qed

definition demo_session_guard :: "ustring file_map" where
  "demo_session_guard = [(''p/a'', (mf_new [5] (demo_file ''p'' ''a'') Blocking)\<lparr>ops_since_save := 2\<rparr>),
     (''p/b'', mf_new [6] (demo_file ''p'' ''b'') Blocking)]"

lemma stream_carries_the_session_witness:
  "streamer_states list_yrs (streamer_new demo_session_guard) = [(''a'', [5]), (''b'', [6])] \<and>
   overlay list_yrs mem_content demo_session_guard demo_mem (components ''p/a'') = Some [5]"
proof -
  have states: "streamer_states list_yrs (streamer_new demo_session_guard) = [(''a'', [5]), (''b'', [6])]"
    by (simp add: streamer_states_def streamer_new_def demo_session_guard_def relative_string_def demo_file_def
        mf_encode_state_def mf_new_def list_yrs_def)
  have inv: "guard_inv Blocking demo_session_guard" "one_root ''p'' demo_session_guard"
    by (simp_all add: demo_session_guard_def guard_inv_Cons mf_new_def one_root_def demo_file_def path_inv_def
        hm_abs_Cons demo_defs push_def)
  have "replica_text list_yrs q [5] = Some [5]" for q
    using replica_text_encoded [OF list_yrs_laws, of q "mf_new [5] q Blocking"]
    by (simp add: mf_encode_state_def mf_new_def mf_contents_def list_yrs_def)
  moreover have "push ''p'' ''a'' = ''p/a''" by (simp add: push_def)
  ultimately show ?thesis
    using stream_carries_the_session [OF list_yrs_laws inv states [symmetric], of "plain_file ''a''" mem_content demo_mem] states
    by simp
qed

text \<open>Each path carries its own root, so that a guard over files of two roots can stream one relative
  path twice.\<close>

lemma streams_of_two_roots_collide:
  "map fst (streamer_states list_yrs (streamer_new
     [(''p/a'', mf_new [5] (demo_file ''p'' ''a'') Blocking), (''r/a'', mf_new [6] (demo_file ''r'' ''a'') Blocking)])) =
   [''a'', ''a'']"
  by (simp add: streamer_states_def streamer_new_def relative_string_def demo_file_def mf_new_def)

end
