(* ===== verification/Json.thy ===== *)
theory Json
  imports Prelude Complex_Main "HOL-Library.Char_ord" "HOL-Library.List_Lexorder"
begin

text \<open>
  JSON values (\<open>serde_json::Value\<close>) and the PostgreSQL \<open>jsonb\<close> operators the SQL of
  \<open>auth/dal/postgres_txs.rs\<close> uses on the \<open>meta\<close> column: \<open>->\<close>, \<open>@>\<close>, \<open>-\<close>, \<open>jsonb_set\<close> and
  \<open>jsonb_build_object\<close>. An object is its entries in the order of their keys, so that two
  objects with the same entries are the same value, as for Rust's map and for \<open>jsonb\<close>.
\<close>

section \<open>Values\<close>

datatype json =
    JNull
  | JBool bool
  | JNum rat
  | JStr string
  | JArr "json list"
  | JObj "(string \<times> json) list"

text \<open>Insertion into and removal from an object, keeping the keys in order.\<close>

fun obj_set :: "string \<Rightarrow> 'v \<Rightarrow> (string \<times> 'v) list \<Rightarrow> (string \<times> 'v) list" where
  "obj_set k v [] = [(k, v)]"
| "obj_set k v ((k', v') # es) =
     (if k < k' then (k, v) # (k', v') # es
      else if k = k' then (k, v) # es
      else (k', v') # obj_set k v es)"

definition obj_del :: "string \<Rightarrow> (string \<times> 'v) list \<Rightarrow> (string \<times> 'v) list" where
  "obj_del k es = filter (\<lambda>e. fst e \<noteq> k) es"

definition keys_ok :: "(string \<times> 'v) list \<Rightarrow> bool" where
  "keys_ok es = sorted_wrt (<) (map fst es)"

text \<open>A well-formed value: the keys of every object in it are distinct and in order.\<close>

fun json_ok :: "json \<Rightarrow> bool" where
  "json_ok (JArr vs) = list_all json_ok vs"
| "json_ok (JObj es) = (keys_ok es \<and> list_all (\<lambda>e. json_ok (snd e)) es)"
| "json_ok _ = True"

text \<open>\<open>meta.get(key)\<close> of \<open>serde_json\<close> and \<open>meta -> key\<close> of SQL: a member of an object.\<close>

fun json_get :: "json \<Rightarrow> string \<Rightarrow> json option" where
  "json_get (JObj es) k = map_of es k"
| "json_get _ k = None"

definition empty_object :: json where
  "empty_object = JObj []"

definition build_object :: "(string \<times> json) list \<Rightarrow> json" where
  "build_object kvs = JObj (fold (\<lambda>(k, v). obj_set k v) kvs [])"

section \<open>Containment\<close>

text \<open>
  \<open>a @> b\<close> for the cases the crate reaches: its right side is always built by
  \<open>jsonb_build_object\<close>, so the exception PostgreSQL makes for a bare scalar on the right of an
  array never applies at the top level, and does not apply below it.
\<close>

lemma size_obj_entry:
  "e \<in> set es \<Longrightarrow> size (snd e) < Suc (size_list (size_prod (\<lambda>x. 0) size) es)"
  by (induction es) auto

lemma size_arr_elem: "(w :: json) \<in> set vs \<Longrightarrow> size w < Suc (size_list size vs)"
  by (induction vs) auto

function (sequential) contains :: "json \<Rightarrow> json \<Rightarrow> bool" where
  "contains a (JObj q) =
     (case a of
        JObj p \<Rightarrow> list_all (\<lambda>e. case map_of p (fst e) of None \<Rightarrow> False | Some v \<Rightarrow> contains v (snd e)) q
      | _ \<Rightarrow> False)"
| "contains a (JArr q) =
     (case a of
        JArr p \<Rightarrow> list_all (\<lambda>w. list_ex (\<lambda>v. contains v w) p) q
      | _ \<Rightarrow> False)"
| "contains a b \<longleftrightarrow> a = b"
  by pat_completeness auto
termination
  by (relation "measure (\<lambda>(a, b). size b)")
    (auto dest: size_obj_entry size_arr_elem)

section \<open>Updates\<close>

datatype json_error = CannotSetPathInScalar | PathElementNotInteger | CannotDeleteFromScalar

text \<open>\<open>strtoint\<close> on a whole path element: leading white space, a sign, decimal digits, 32 bits.\<close>

definition digit_value :: "char \<Rightarrow> int option" where
  "digit_value c = (let n = of_char c in if 48 \<le> n \<and> n \<le> 57 then Some (n - 48) else None)"

fun read_digits :: "int \<Rightarrow> string \<Rightarrow> int option" where
  "read_digits acc [] = Some acc"
| "read_digits acc (c # cs) =
     (case digit_value c of None \<Rightarrow> None | Some d \<Rightarrow> read_digits (acc * 10 + d) cs)"

definition read_nat :: "string \<Rightarrow> int option" where
  "read_nat s = (if s = [] then None else read_digits 0 s)"

definition strtoint :: "string \<Rightarrow> int option" where
  "strtoint s =
     (let t = dropWhile is_space s;
          n = (case t of
                 c # r \<Rightarrow> if c = CHR ''-'' then map_option uminus (read_nat r)
                          else if c = CHR ''+'' then read_nat r else read_nat t
               | [] \<Rightarrow> None)
      in case n of None \<Rightarrow> None
         | Some i \<Rightarrow> if - (2 ^ 31) \<le> i \<and> i < 2 ^ 31 then Some i else None)"

text \<open>An index past the end appends, a negative one counts from the end, one before the start
  puts the value in front.\<close>

definition array_set :: "int \<Rightarrow> json \<Rightarrow> json list \<Rightarrow> json list" where
  "array_set i v xs =
     (let n = int (length xs) in
      if 0 \<le> i then (if i < n then xs[nat i := v] else xs @ [v])
      else if - i \<le> n then xs[nat (n + i) := v]
      else v # xs)"

text \<open>\<open>jsonb_set(target, ARRAY[key], value, true)\<close>.\<close>

fun jsonb_set :: "json \<Rightarrow> string \<Rightarrow> json \<Rightarrow> json_error + json" where
  "jsonb_set (JObj es) k v = Inr (JObj (obj_set k v es))"
| "jsonb_set (JArr xs) k v =
     (case strtoint k of
        None \<Rightarrow> Inl PathElementNotInteger
      | Some i \<Rightarrow> Inr (JArr (array_set i v xs)))"
| "jsonb_set _ k v = Inl CannotSetPathInScalar"

text \<open>\<open>target - key\<close>: an array loses the strings equal to the key.\<close>

fun jsonb_delete :: "json \<Rightarrow> string \<Rightarrow> json_error + json" where
  "jsonb_delete (JObj es) k = Inr (JObj (obj_del k es))"
| "jsonb_delete (JArr xs) k = Inr (JArr (filter (\<lambda>x. x \<noteq> JStr k) xs))"
| "jsonb_delete _ k = Inl CannotDeleteFromScalar"

section \<open>Objects as maps\<close>

lemma map_of_obj_set [simp]: "map_of (obj_set k v es) = (map_of es)(k \<mapsto> v)"
  by (induction k v es rule: obj_set.induct) auto

lemma map_of_obj_del [simp]: "map_of (obj_del k es) = (map_of es)(k := None)"
  by (rule ext) (simp add: obj_del_def map_of_filter_key [of "\<lambda>x. x \<noteq> k"])

lemma set_obj_set: "e \<in> set (obj_set k v es) \<Longrightarrow> e = (k, v) \<or> e \<in> set es"
  by (induction k v es rule: obj_set.induct) (auto split: if_splits)

lemma keys_ok_Nil [simp]: "keys_ok []"
  by (simp add: keys_ok_def)

lemma keys_ok_Cons: "keys_ok ((k, v) # es) \<longleftrightarrow> (\<forall>e \<in> set es. k < fst e) \<and> keys_ok es"
  by (auto simp: keys_ok_def)

lemma keys_ok_obj_set [simp]: "keys_ok es \<Longrightarrow> keys_ok (obj_set k v es)"
  by (induction k v es rule: obj_set.induct) (auto simp: keys_ok_Cons dest!: set_obj_set)

lemma keys_ok_obj_del [simp]: "keys_ok es \<Longrightarrow> keys_ok (obj_del k es)"
  by (induction es) (auto simp: keys_ok_Cons obj_del_def)

lemma keys_ok_distinct: "keys_ok es \<Longrightarrow> distinct (map fst es)"
  by (simp add: keys_ok_def strict_sorted_iff)

text \<open>Well-formed objects with the same members are the same object.\<close>

lemma keys_ok_head:
  assumes "keys_ok ((k, v) # es)" and "map_of ((k, v) # es) l = Some w" and "l \<noteq> k"
  shows "k < l"
  using assms by (auto simp: keys_ok_Cons dest!: map_of_SomeD)

lemma keys_ok_tail:
  assumes "keys_ok ((k, v) # es)"
  shows "map_of es = (map_of ((k, v) # es))(k := None)"
proof -
  from assms have "k \<notin> fst ` set es" by (auto simp: keys_ok_Cons)
  then show ?thesis by (auto simp: map_of_eq_None_iff)
qed

lemma keys_ok_ext: "keys_ok es \<Longrightarrow> keys_ok fs \<Longrightarrow> map_of es = map_of fs \<Longrightarrow> es = fs"
proof (induction es arbitrary: fs)
  case Nil
  then show ?case by (metis map_of_eq_empty_iff map_of.simps(1))
next
  case (Cons e es)
  obtain k v where e: "e = (k, v)" by (cases e)
  from Cons.prems(3) have "fs \<noteq> []" by (auto simp: e fun_eq_iff split: if_splits)
  then obtain l w fs' where fs: "fs = (l, w) # fs'" by (metis list.exhaust prod.exhaust)
  have "k = l"
  proof (rule ccontr)
    assume "k \<noteq> l"
    have "map_of (e # es) l = Some w" by (simp only: Cons.prems(3)) (simp add: fs)
    then have "k < l" using keys_ok_head Cons.prems(1) \<open>k \<noteq> l\<close> unfolding e by metis
    have "map_of fs k = Some v" by (simp only: Cons.prems(3) [symmetric]) (simp add: e)
    then have "l < k" using keys_ok_head Cons.prems(2) \<open>k \<noteq> l\<close> unfolding fs by metis
    with \<open>k < l\<close> show False by simp
  qed
  moreover from this have "v = w" using fun_cong [OF Cons.prems(3), of k] by (simp add: e fs)
  moreover have "map_of es = map_of fs'"
  proof -
    have "map_of es = (map_of (e # es))(k := None)"
      unfolding e using Cons.prems(1) by (intro keys_ok_tail) (simp add: e)
    also have "\<dots> = (map_of fs)(k := None)" by (simp only: Cons.prems(3))
    also have "\<dots> = map_of fs'"
      unfolding fs \<open>k = l\<close> using Cons.prems(2) by (intro keys_ok_tail [symmetric]) (simp add: fs)
    finally show ?thesis .
  qed
  moreover have "keys_ok es" and "keys_ok fs'"
    using Cons.prems by (auto simp: e fs keys_ok_Cons)
  ultimately have "es = fs'" by (intro Cons.IH)
  with \<open>k = l\<close> \<open>v = w\<close> show ?case unfolding e fs by metis
qed

lemma set_array_set: "x \<in> set (array_set i v xs) \<Longrightarrow> x = v \<or> x \<in> set xs"
  by (auto simp: array_set_def Let_def split: if_splits dest!: set_update_subset_insert [THEN subsetD])

lemma json_ok_set:
  assumes "json_ok j" and "json_ok v" and "jsonb_set j k v = Inr j'"
  shows "json_ok j'"
proof (cases j)
  case (JArr xs)
  with assms show ?thesis by (fastforce simp: list_all_iff dest: set_array_set split: option.splits)
next
  case (JObj es)
  with assms show ?thesis by (fastforce simp: list_all_iff dest: set_obj_set)
qed (use assms in auto)

lemma json_ok_delete:
  assumes "json_ok j" and "jsonb_delete j k = Inr j'"
  shows "json_ok j'"
proof (cases j)
  case (JObj es)
  have "keys_ok es" and "list_all (\<lambda>e. json_ok (snd e)) es" using assms(1) by (simp_all add: JObj)
  moreover from this have "list_all (\<lambda>e. json_ok (snd e)) (obj_del k es)"
    by (simp add: obj_del_def list_all_iff)
  moreover have "j' = JObj (obj_del k es)" using assms(2) by (simp add: JObj)
  ultimately show ?thesis by simp
qed (use assms in \<open>auto simp: list_all_iff\<close>)

lemma json_get_set: "jsonb_set (JObj es) k v = Inr j \<Longrightarrow> json_get j k' = (if k' = k then Some v else map_of es k')"
  by auto

section \<open>Laws of containment\<close>

definition scalar :: "json \<Rightarrow> bool" where
  "scalar v = (case v of JArr _ \<Rightarrow> False | JObj _ \<Rightarrow> False | _ \<Rightarrow> True)"

lemma contains_scalar: "scalar w \<Longrightarrow> contains v w \<longleftrightarrow> v = w"
  by (cases w) (auto simp: scalar_def)

lemma contains_build:
  "contains a (build_object [(k, v)]) \<longleftrightarrow> (\<exists>w. json_get a k = Some w \<and> contains w v)"
  by (cases a) (auto simp: build_object_def split: option.splits)

lemma contains_build_pair:
  assumes "k \<noteq> l"
  shows "contains a (build_object [(k, v), (l, w)]) \<longleftrightarrow>
    contains a (build_object [(k, v)]) \<and> contains a (build_object [(l, w)])"
  using assms by (cases a) (auto simp: build_object_def split: option.splits)

lemma contains_refl: "json_ok v \<Longrightarrow> contains v v"
proof (induction v)
  case (JArr vs)
  then show ?case by (auto simp: list_all_iff list_ex_iff)
next
  case (JObj es)
  then have "keys_ok es" and ok: "list_all (\<lambda>e. json_ok (snd e)) es" by simp_all
  then have "map_of es (fst e) = Some (snd e)" if "e \<in> set es" for e
    using that by (simp add: map_of_is_SomeI keys_ok_distinct)
  moreover have "contains (snd e) (snd e)" if "e \<in> set es" for e
  proof (rule JObj.IH [of e])
    show "snd e \<in> Basic_BNFs.snds e" by (simp add: snds.intros)
  qed (use that ok in \<open>auto simp: list_all_iff\<close>)
  ultimately show ?case by (simp add: list_all_iff)
qed simp_all

end
