(* ===== verification/Errors.thy ===== *)
theory Errors
  imports Json Paths "HOL-Library.Word"
begin

text \<open>
  \<open>errors/saps.rs\<close>: the error every server operation returns, its HTTP status and codes, and its
  conversions from the errors of the database client (\<open>sqlx\<close>) and of the file operations.
\<close>

section \<open>Errors and their status\<close>

datatype saps_error_status = NotFound | Forbidden | Unknown | BadRequest | Conflict | Unauthorized

record saps_error =
  err_message :: string
  err_status :: saps_error_status

fun from_code :: "16 word \<Rightarrow> saps_error_status" where
  "from_code code =
     (if code = 404 then NotFound
      else if code = 403 then Forbidden
      else if code = 400 then BadRequest
      else if code = 409 then Conflict
      else if code = 401 then Unauthorized
      else Unknown)"

fun to_code :: "saps_error_status \<Rightarrow> 32 word" where
  "to_code NotFound = 404"
| "to_code Forbidden = 403"
| "to_code BadRequest = 400"
| "to_code Conflict = 409"
| "to_code Unauthorized = 401"
| "to_code Unknown = 500"

definition err_new :: "string \<Rightarrow> saps_error_status \<Rightarrow> saps_error" where
  "err_new m s = \<lparr>err_message = m, err_status = s\<rparr>"

definition not_found :: "string \<Rightarrow> saps_error" where
  "not_found m = \<lparr>err_message = m, err_status = NotFound\<rparr>"

definition forbidden :: "string \<Rightarrow> saps_error" where
  "forbidden m = \<lparr>err_message = m, err_status = Forbidden\<rparr>"

definition unknown :: "string \<Rightarrow> saps_error" where
  "unknown m = \<lparr>err_message = m, err_status = Unknown\<rparr>"

definition bad_request :: "string \<Rightarrow> saps_error" where
  "bad_request m = \<lparr>err_message = m, err_status = BadRequest\<rparr>"

definition conflict :: "string \<Rightarrow> saps_error" where
  "conflict m = \<lparr>err_message = m, err_status = Conflict\<rparr>"

definition unauthorized :: "string \<Rightarrow> saps_error" where
  "unauthorized m = \<lparr>err_message = m, err_status = Unauthorized\<rparr>"

lemmas err_defs = err_new_def not_found_def forbidden_def unknown_def bad_request_def conflict_def
  unauthorized_def

lemma err_sel [simp]:
  "err_message (not_found m) = m" "err_status (not_found m) = NotFound"
  "err_message (forbidden m) = m" "err_status (forbidden m) = Forbidden"
  "err_message (unknown m) = m" "err_status (unknown m) = Unknown"
  "err_message (bad_request m) = m" "err_status (bad_request m) = BadRequest"
  "err_message (conflict m) = m" "err_status (conflict m) = Conflict"
  "err_message (unauthorized m) = m" "err_status (unauthorized m) = Unauthorized"
  by (simp_all add: err_defs)

text \<open>The HTTP response: the status code, and the message as a JSON string.\<close>

definition into_response :: "saps_error \<Rightarrow> 16 word \<times> json" where
  "into_response e =
     ((case err_status e of
         NotFound \<Rightarrow> 404
       | Forbidden \<Rightarrow> 403
       | Unknown \<Rightarrow> 500
       | BadRequest \<Rightarrow> 400
       | Conflict \<Rightarrow> 409
       | Unauthorized \<Rightarrow> 401), JStr (err_message e))"

definition into_u32 :: "saps_error \<Rightarrow> 32 word" where
  "into_u32 e =
     (case err_status e of
        NotFound \<Rightarrow> 404
      | Forbidden \<Rightarrow> 403
      | Unknown \<Rightarrow> 500
      | BadRequest \<Rightarrow> 400
      | Conflict \<Rightarrow> 409
      | Unauthorized \<Rightarrow> 401)"

section \<open>Conversions\<close>

text \<open>
  The errors of \<open>sqlx\<close> the crate tells apart: no row where one was asked for, an error the
  database reports with its SQLSTATE code, and the \<open>Protocol\<close> errors the crate makes itself. The
  text \<open>sqlx\<close> prints for an error is a parameter (\<open>disp\<close>).
\<close>

datatype sqlx_error =
    RowNotFound
  | Database "string option" string
  | Protocol string
  | OtherSqlx string

definition from_sqlx :: "(sqlx_error \<Rightarrow> string) \<Rightarrow> sqlx_error \<Rightarrow> saps_error" where
  "from_sqlx disp e =
     (case e of
        RowNotFound \<Rightarrow> not_found ''Resource not found''
      | Database c t \<Rightarrow>
          if c = Some ''23505'' then conflict ''Duplicate entry''
          else if c = Some ''23503'' then bad_request ''Foreign key constraint violation''
          else unknown (''Database error: '' @ disp e)
      | _ \<Rightarrow> unknown (''Database error: '' @ disp e))"

fun from_file_error :: "file_error \<Rightarrow> saps_error" where
  "from_file_error (Io p m) = unknown m"
| "from_file_error (PathError p m) = bad_request m"
| "from_file_error (MemFileError p m) = unknown m"
| "from_file_error (GraphError m) = unknown m"

section \<open>Properties\<close>

text \<open>Every status survives the trip through its code, the HTTP response and the numeric
  conversion of an error use that same code, and a code of no status reads as an internal error.\<close>

theorem error_codes_round_trip:
  "from_code (ucast (to_code s)) = s
   \<and> fst (into_response \<lparr>err_message = m, err_status = s\<rparr>) = ucast (to_code s)
   \<and> into_u32 \<lparr>err_message = m, err_status = s\<rparr> = to_code s
   \<and> (from_code c = Unknown \<or> ucast (to_code (from_code c)) = c)"
  by (cases s) (simp_all add: into_response_def into_u32_def)

end
