(* ===== verification/Auth_Session.thy ===== *)
theory Auth_Session
  imports Errors
begin

text \<open>
  Auth sessions: the table \<open>saps.auth_sessions\<close>, the stored procedure \<open>saps.ping\<close> and the
  migration of \<open>auth/dal/model.rs\<close>, and the transactions of \<open>auth/dal/postgres_txs.rs\<close>. One SQL
  statement (and one call of \<open>saps.ping\<close>) is one atomic step on the table. The SQL is modelled as
  written; UUID texts, the text of a JSON value (\<open>->>\<close>) and the texts of database errors are
  parameters (\<open>auth_lib\<close>), and so is the role type with its two conversions.
\<close>

named_theorems auth_defs \<open>the transactions on auth sessions\<close>

section \<open>Rows, sessions and the database\<close>

type_synonym uuid = "128 word"

text \<open>A row of \<open>saps.auth_sessions\<close>. Times are microseconds since the epoch.\<close>

record session_row =
  r_id :: uuid
  r_old_id :: uuid
  r_role :: string
  r_created :: int
  r_last :: int
  r_minted :: int
  r_meta :: "json option"

record 'u auth_session =
  s_id :: uuid
  s_role :: 'u
  s_created :: int
  s_last :: int
  s_meta :: "json option"

record 'u auth_lib =
  uuid_text :: "uuid \<Rightarrow> string"
  uuid_parse :: "string \<Rightarrow> string + uuid"
  role_text :: "'u \<Rightarrow> string"
  role_parse :: "string \<Rightarrow> saps_error + 'u"
  json_text :: "json \<Rightarrow> string"
  pg_text :: "string \<Rightarrow> string"

text \<open>
  The state of the database and of the sources the code draws from: the clock (\<open>NOW()\<close> and
  \<open>Utc::now()\<close>), the random UUIDs with the number drawn so far, the unique indexes on \<open>meta\<close>
  by name, and the error of the connection when the database cannot be reached.
\<close>

record auth_db =
  rows :: "session_row list"
  clock :: int
  uuids :: "nat \<Rightarrow> uuid"
  drawn :: nat
  indexes :: "(string \<times> string list) list"
  link :: "sqlx_error option"

definition draw :: "auth_db \<Rightarrow> uuid \<times> auth_db" where
  "draw s = (uuids s (drawn s), s\<lparr>drawn := Suc (drawn s)\<rparr>)"

definition minutes :: "int \<Rightarrow> int" where
  "minutes n = n * 60 * 1000000"

definition seconds :: "int \<Rightarrow> int" where
  "seconds n = n * 1000000"

definition pg_error :: "'u auth_lib \<Rightarrow> string \<Rightarrow> sqlx_error" where
  "pg_error L c = Database (Some c) (pg_text L c)"

section \<open>Sessions in memory\<close>

text \<open>\<open>AuthSession::from_row\<close>: the role is parsed first.\<close>

definition session_from_row :: "'u auth_lib \<Rightarrow> session_row \<Rightarrow> saps_error + 'u auth_session" where
  "session_from_row L r = res_bind (role_parse L (r_role r)) (\<lambda>u.
     Inr \<lparr>s_id = r_id r, s_role = u, s_created = r_created r, s_last = r_last r, s_meta = r_meta r\<rparr>)"

definition session_new :: "auth_db \<Rightarrow> 'u \<Rightarrow> 'u auth_session \<times> auth_db" where
  "session_new s u =
     (let now = clock s; (i, s') = draw s
      in (\<lparr>s_id = i, s_role = u, s_created = now, s_last = now, s_meta = None\<rparr>, s'))"

text \<open>\<open>with_meta\<close> takes the outcome of \<open>serde_json::to_value\<close>; the \<open>expect\<close> is the panic.\<close>

definition with_meta :: "'u auth_session \<Rightarrow> string + json \<Rightarrow> 'u auth_session option" where
  "with_meta a m = (case m of Inl _ \<Rightarrow> None | Inr j \<Rightarrow> Some (a\<lparr>s_meta := Some j\<rparr>))"

definition meta_get :: "'u auth_session \<Rightarrow> string \<Rightarrow> json option" where
  "meta_get a k = Option.bind (s_meta a) (\<lambda>m. json_get m k)"

definition meta_get_owned :: "'u auth_session \<Rightarrow> string \<Rightarrow> json option" where
  "meta_get_owned a k = meta_get a k"

definition meta_get_strict :: "'u auth_session \<Rightarrow> string \<Rightarrow> saps_error + json" where
  "meta_get_strict a k = ok_or (not_found (''meta key not found: '' @ k)) (meta_get a k)"

definition meta_get_strict_owned :: "'u auth_session \<Rightarrow> string \<Rightarrow> saps_error + json" where
  "meta_get_strict_owned a k = meta_get_strict a k"

text \<open>\<open>de\<close> is the \<open>Deserialize\<close> implementation of the type asked for.\<close>

definition de_error :: "string \<Rightarrow> string \<Rightarrow> saps_error" where
  "de_error k e = bad_request (''failed to deserialize meta key '' @ k @ '': '' @ e)"

definition meta_get_typed ::
    "(json \<Rightarrow> string + 'a) \<Rightarrow> 'u auth_session \<Rightarrow> string \<Rightarrow> saps_error + 'a option" where
  "meta_get_typed de a k =
     (case meta_get a k of
        Some v \<Rightarrow> map_err (de_error k) (res_bind (de v) (\<lambda>x. Inr (Some x)))
      | None \<Rightarrow> Inr None)"

definition meta_get_typed_owned ::
    "(json \<Rightarrow> string + 'a) \<Rightarrow> 'u auth_session \<Rightarrow> string \<Rightarrow> saps_error + 'a option" where
  "meta_get_typed_owned de a k =
     (case meta_get_owned a k of
        Some v \<Rightarrow> map_err (de_error k) (res_bind (de v) (\<lambda>x. Inr (Some x)))
      | None \<Rightarrow> Inr None)"

definition meta_get_typed_strict ::
    "(json \<Rightarrow> string + 'a) \<Rightarrow> 'u auth_session \<Rightarrow> string \<Rightarrow> saps_error + 'a" where
  "meta_get_typed_strict de a k =
     res_bind (meta_get_strict a k) (\<lambda>v. map_err (de_error k) (de v))"

definition meta_get_typed_strict_owned ::
    "(json \<Rightarrow> string + 'a) \<Rightarrow> 'u auth_session \<Rightarrow> string \<Rightarrow> saps_error + 'a" where
  "meta_get_typed_strict_owned de a k =
     res_bind (meta_get_strict_owned a k) (\<lambda>v. map_err (de_error k) (de v))"

section \<open>Unique indexes on meta\<close>

text \<open>\<open>meta ->> k\<close>: SQL \<open>NULL\<close> for a missing member and for a JSON null.\<close>

definition arrow_text :: "'u auth_lib \<Rightarrow> json \<Rightarrow> string \<Rightarrow> string option" where
  "arrow_text L m k =
     (case json_get m k of None \<Rightarrow> None | Some JNull \<Rightarrow> None | Some v \<Rightarrow> Some (json_text L v))"

text \<open>\<open>meta ? k\<close>: a key of an object, a string of an array, the string itself.\<close>

fun has_key :: "json \<Rightarrow> string \<Rightarrow> bool" where
  "has_key (JObj es) k = (k \<in> fst ` set es)"
| "has_key (JArr vs) k = (JStr k \<in> set vs)"
| "has_key (JStr t) k = (t = k)"
| "has_key _ k = False"

definition indexed :: "string list \<Rightarrow> session_row \<Rightarrow> bool" where
  "indexed ks r = (case r_meta r of None \<Rightarrow> False | Some m \<Rightarrow> list_all (has_key m) ks)"

definition index_texts :: "'u auth_lib \<Rightarrow> string list \<Rightarrow> session_row \<Rightarrow> string option list" where
  "index_texts L ks r = (case r_meta r of None \<Rightarrow> [] | Some m \<Rightarrow> map (arrow_text L m) ks)"

text \<open>Two rows collide when both are indexed and agree, \<open>NULL\<close> agreeing with nothing.\<close>

definition collide :: "'u auth_lib \<Rightarrow> string list \<Rightarrow> session_row \<Rightarrow> session_row \<Rightarrow> bool" where
  "collide L ks r r' \<longleftrightarrow>
     indexed ks r \<and> indexed ks r' \<and> index_texts L ks r = index_texts L ks r' \<and>
     None \<notin> set (index_texts L ks r)"

fun pairwise_apart :: "('a \<Rightarrow> 'a \<Rightarrow> bool) \<Rightarrow> 'a list \<Rightarrow> bool" where
  "pairwise_apart P [] = True"
| "pairwise_apart P (x # xs) = (list_all (\<lambda>y. \<not> P x y) xs \<and> pairwise_apart P xs)"

text \<open>What the table enforces: the primary key, and every unique index.\<close>

definition unique_ok :: "'u auth_lib \<Rightarrow> (string \<times> string list) list \<Rightarrow> session_row list \<Rightarrow> bool" where
  "unique_ok L ixs rs \<longleftrightarrow>
     distinct (map r_id rs) \<and> list_all (\<lambda>ix. pairwise_apart (collide L (snd ix)) rs) ixs"

text \<open>
  The SQL of \<open>generate_unique_meta_key_sql\<close>. \<open>None\<close> is the panic on an empty key or one with a
  single quote. \<open>safe_name\<close> maps \<open>char\<close>s, so the continuation bytes of UTF-8 are dropped.
\<close>

definition is_alnum :: "char \<Rightarrow> bool" where
  "is_alnum c = (let n = (of_char c :: nat) in
     48 \<le> n \<and> n \<le> 57 \<or> 65 \<le> n \<and> n \<le> 90 \<or> 97 \<le> n \<and> n \<le> 122)"

definition utf8_chars :: "string \<Rightarrow> string" where
  "utf8_chars s = filter (\<lambda>c. (of_char c :: nat) div 64 \<noteq> 2) s"

definition safe_name :: "string \<Rightarrow> string" where
  "safe_name k = map (\<lambda>c. if is_alnum c then c else CHR ''_'') (utf8_chars k)"

abbreviation quote :: char where "quote \<equiv> CHR 0x27"

definition key_ok :: "string \<Rightarrow> bool" where
  "key_ok k \<longleftrightarrow> k \<noteq> [] \<and> quote \<notin> set k"

definition generate_unique_meta_key_sql :: "string \<Rightarrow> string option" where
  "generate_unique_meta_key_sql k =
     (if key_ok k then Some
        (''CREATE UNIQUE INDEX IF NOT EXISTS idx_saps_auth_sessions_meta_'' @ safe_name k
         @ '' ON saps.auth_sessions ((meta->>'' @ [quote] @ k @ [quote] @ '')) WHERE meta ? ''
         @ [quote] @ k @ [quote] @ '';'' @ [CHR 0x0A])
      else None)"

definition generate_unique_meta_key_pair_sql :: "string \<Rightarrow> string \<Rightarrow> string option" where
  "generate_unique_meta_key_pair_sql k l =
     (if k \<noteq> [] \<and> l \<noteq> [] \<and> quote \<notin> set k \<and> quote \<notin> set l then Some
        (''CREATE UNIQUE INDEX IF NOT EXISTS idx_saps_auth_sessions_meta_'' @ safe_name k
         @ ''_'' @ safe_name l
         @ '' ON saps.auth_sessions ((meta->>'' @ [quote] @ k @ [quote] @ ''), (meta->>''
         @ [quote] @ l @ [quote] @ '')) WHERE meta ? '' @ [quote] @ k @ [quote]
         @ '' AND meta ? '' @ [quote] @ l @ [quote] @ '';'' @ [CHR 0x0A])
      else None)"

text \<open>What PostgreSQL makes of that statement: an unquoted identifier is folded to lower case
  and cut at 63 bytes, an index whose name exists is not created again, and rows that collide
  already make the statement fail.\<close>

definition index_name :: "string \<Rightarrow> string" where
  "index_name n = take 63 (to_lower (''idx_saps_auth_sessions_meta_'' @ n))"

definition create_unique_index ::
    "'u auth_lib \<Rightarrow> auth_db \<Rightarrow> string \<Rightarrow> string list \<Rightarrow> (sqlx_error + unit) \<times> auth_db" where
  "create_unique_index L s n ks =
     (case link s of
        Some e \<Rightarrow> (Inl e, s)
      | None \<Rightarrow>
          if index_name n \<in> fst ` set (indexes s) then (Inr (), s)
          else if pairwise_apart (collide L ks) (rows s)
            then (Inr (), s\<lparr>indexes := indexes s @ [(index_name n, ks)]\<rparr>)
            else (Inl (pg_error L ''23505''), s))"

text \<open>\<open>run_migration_with_pool\<close> on a migrated database: the first script changes no row, then
  one index per key, stopping at the first error (\<open>None\<close>: at the first panic).\<close>

fun create_indexes ::
    "'u auth_lib \<Rightarrow> auth_db \<Rightarrow> string list \<Rightarrow> ((sqlx_error + unit) \<times> auth_db) option" where
  "create_indexes L s [] = Some (Inr (), s)"
| "create_indexes L s (k # ks) =
     (case generate_unique_meta_key_sql k of
        None \<Rightarrow> None
      | Some _ \<Rightarrow>
          (case create_unique_index L s (safe_name k) [k] of
             (Inl e, s') \<Rightarrow> Some (Inl e, s')
           | (Inr _, s') \<Rightarrow> create_indexes L s' ks))"

definition run_migration_with_pool ::
    "'u auth_lib \<Rightarrow> auth_db \<Rightarrow> string list \<Rightarrow> ((sqlx_error + unit) \<times> auth_db) option" where
  "run_migration_with_pool L s ks =
     (case link s of Some e \<Rightarrow> Some (Inl e, s) | None \<Rightarrow> create_indexes L s ks)"

section \<open>Statements\<close>

text \<open>\<open>UPDATE ... WHERE P SET f RETURNING\<close>: the new table and the rows that changed; the first
  failing expression fails the statement.\<close>

fun update_rows ::
    "(session_row \<Rightarrow> bool) \<Rightarrow> (session_row \<Rightarrow> sqlx_error + session_row) \<Rightarrow> session_row list
     \<Rightarrow> sqlx_error + session_row list \<times> session_row list" where
  "update_rows P f [] = Inr ([], [])"
| "update_rows P f (r # rs) =
     (if P r
      then res_bind (f r) (\<lambda>r'. res_bind (update_rows P f rs) (\<lambda>(t, u). Inr (r' # t, r' # u)))
      else res_bind (update_rows P f rs) (\<lambda>(t, u). Inr (r # t, u)))"

definition sql_update ::
    "'u auth_lib \<Rightarrow> auth_db \<Rightarrow> (session_row \<Rightarrow> bool) \<Rightarrow> (session_row \<Rightarrow> sqlx_error + session_row)
     \<Rightarrow> (sqlx_error + session_row list) \<times> auth_db" where
  "sql_update L s P f =
     (case link s of
        Some e \<Rightarrow> (Inl e, s)
      | None \<Rightarrow>
          (case update_rows P f (rows s) of
             Inl e \<Rightarrow> (Inl e, s)
           | Inr (t, u) \<Rightarrow>
               if unique_ok L (indexes s) t then (Inr u, s\<lparr>rows := t\<rparr>)
               else (Inl (pg_error L ''23505''), s)))"

definition sql_select :: "auth_db \<Rightarrow> (session_row \<Rightarrow> bool) \<Rightarrow> sqlx_error + session_row list" where
  "sql_select s P = (case link s of Some e \<Rightarrow> Inl e | None \<Rightarrow> Inr (filter P (rows s)))"

definition sql_delete ::
    "auth_db \<Rightarrow> (session_row \<Rightarrow> bool) \<Rightarrow> (sqlx_error + nat) \<times> auth_db" where
  "sql_delete s P =
     (case link s of
        Some e \<Rightarrow> (Inl e, s)
      | None \<Rightarrow> (Inr (length (filter P (rows s))), s\<lparr>rows := filter (\<lambda>r. \<not> P r) (rows s)\<rparr>))"

definition sql_insert ::
    "'u auth_lib \<Rightarrow> auth_db \<Rightarrow> session_row \<Rightarrow> (sqlx_error + session_row) \<times> auth_db" where
  "sql_insert L s r =
     (case link s of
        Some e \<Rightarrow> (Inl e, s)
      | None \<Rightarrow>
          if 255 < length (utf8_chars (r_role r)) then (Inl (pg_error L ''22001''), s)
          else if unique_ok L (indexes s) (rows s @ [r])
            then (Inr r, s\<lparr>rows := rows s @ [r]\<rparr>)
            else (Inl (pg_error L ''23505''), s))"

text \<open>\<open>fetch_optional\<close> and \<open>fetch_one\<close> take the first row; then the row is read as a session.\<close>

definition read_session :: "'u auth_lib \<Rightarrow> session_row \<Rightarrow> sqlx_error + 'u auth_session" where
  "read_session L r = map_err (\<lambda>e. Protocol (err_message e)) (session_from_row L r)"

definition read_optional ::
    "'u auth_lib \<Rightarrow> session_row list \<Rightarrow> sqlx_error + 'u auth_session option" where
  "read_optional L rs =
     (case rs of [] \<Rightarrow> Inr None | r # _ \<Rightarrow> res_bind (read_session L r) (\<lambda>a. Inr (Some a)))"

definition read_one :: "'u auth_lib \<Rightarrow> session_row list \<Rightarrow> sqlx_error + 'u auth_session" where
  "read_one L rs = (case rs of [] \<Rightarrow> Inl RowNotFound | r # _ \<Rightarrow> read_session L r)"

fun read_all :: "'u auth_lib \<Rightarrow> session_row list \<Rightarrow> sqlx_error + 'u auth_session list" where
  "read_all L [] = Inr []"
| "read_all L (r # rs) =
     res_bind (read_session L r) (\<lambda>a. res_bind (read_all L rs) (\<lambda>as. Inr (a # as)))"

definition parse_session_id :: "'u auth_lib \<Rightarrow> string \<Rightarrow> sqlx_error + uuid" where
  "parse_session_id L i = map_err (\<lambda>e. Protocol (''invalid session_id UUID: '' @ e)) (uuid_parse L i)"

end
