(* ===== verification/Tasks.thy ===== *)
theory Tasks
  imports Auth_Session
begin

text \<open>
  The background queue and the scheduler. \<open>background_tasks\<close>: the table \<open>saps.queued_tasks\<close> with
  its stored procedures and transactions, the parameters a \<open>#[background_task]\<close> function packs
  and unpacks, and the cycle of a worker. \<open>scheduled_tasks\<close>: the table of cron schedules, its
  transactions and the scheduler's cycle. One SQL statement or transaction is one atomic step;
  the handlers of tasks, the JSON conversion of their parameters and the cron crate are parameters.
\<close>

section \<open>Background tasks\<close>

datatype task_status = Pending | InProgress | Completed | Exited

fun task_status_text :: "task_status \<Rightarrow> string" where
  "task_status_text Pending = ''pending''"
| "task_status_text InProgress = ''in_progress''"
| "task_status_text Completed = ''completed''"
| "task_status_text Exited = ''exited''"

definition task_status_try_from :: "string \<Rightarrow> saps_error + task_status" where
  "task_status_try_from value =
     (let t = to_lower value in
      if t = ''pending'' then Inr Pending
      else if t = ''in_progress'' then Inr InProgress
      else if t = ''completed'' then Inr Completed
      else if t = ''exited'' then Inr Exited
      else Inl (bad_request (''Unknown task status: '' @ value)))"

text \<open>The columns of a queued task; the status is a text in the table, a \<open>TaskStatus\<close> in Rust.\<close>

record 'st queued_task =
  q_id :: uuid
  q_function :: string
  q_params :: json
  q_status :: 'st
  q_posted :: int
  q_started :: "int option"
  q_finished :: "int option"
  q_locked :: bool

record scheduled_task =
  c_id :: int
  c_function :: string
  c_params :: json
  c_task_id :: "uuid option"
  c_scheduled :: "int option"
  c_completed :: "int option"
  c_cron :: string
  c_locked :: bool

record task_db =
  queue :: "string queued_task list"
  schedule :: "scheduled_task list"
  t_clock :: int
  t_uuids :: "nat \<Rightarrow> uuid"
  t_drawn :: nat
  t_serial :: int
  t_link :: "sqlx_error option"

definition t_draw :: "task_db \<Rightarrow> uuid \<times> task_db" where
  "t_draw s = (t_uuids s (t_drawn s), s\<lparr>t_drawn := Suc (t_drawn s)\<rparr>)"

definition task_from_row :: "string queued_task \<Rightarrow> saps_error + task_status queued_task" where
  "task_from_row r = res_bind (task_status_try_from (q_status r)) (\<lambda>st.
     Inr \<lparr>q_id = q_id r, q_function = q_function r, q_params = q_params r, q_status = st,
          q_posted = q_posted r, q_started = q_started r, q_finished = q_finished r, q_locked = q_locked r\<rparr>)"

definition task_to_row :: "task_status queued_task \<Rightarrow> string queued_task" where
  "task_to_row a = \<lparr>q_id = q_id a, q_function = q_function a, q_params = q_params a,
     q_status = task_status_text (q_status a), q_posted = q_posted a, q_started = q_started a,
     q_finished = q_finished a, q_locked = q_locked a\<rparr>"

definition task_new :: "task_db \<Rightarrow> string \<Rightarrow> json \<Rightarrow> task_status queued_task \<times> task_db" where
  "task_new s f ps =
     (case t_draw s of (i, s') \<Rightarrow>
       (\<lparr>q_id = i, q_function = f, q_params = ps, q_status = Pending, q_posted = t_clock s,
         q_started = None, q_finished = None, q_locked = False\<rparr>, s'))"

text \<open>The texts of the database's errors are a parameter of the statements that can fail.\<close>

type_synonym error_text = "string \<Rightarrow> string"

definition task_error :: "error_text \<Rightarrow> string \<Rightarrow> sqlx_error" where
  "task_error E c = Database (Some c) (E c)"

definition insert_row :: "error_text \<Rightarrow> task_db \<Rightarrow> string queued_task \<Rightarrow> (sqlx_error + bool) \<times> task_db" where
  "insert_row E s r =
     (case t_link s of
        Some e \<Rightarrow> (Inl e, s)
      | None \<Rightarrow>
          if 255 < length (utf8_chars (q_function r)) then (Inl (task_error E ''22001''), s)
          else if q_id r \<in> q_id ` set (queue s) then (Inl (task_error E ''23505''), s)
          else (Inr True, s\<lparr>queue := queue s @ [r]\<rparr>))"

definition insert_background_task ::
    "error_text \<Rightarrow> task_db \<Rightarrow> task_status queued_task \<Rightarrow> (sqlx_error + bool) \<times> task_db" where
  "insert_background_task E s a = insert_row E s (task_to_row a)"

text \<open>\<open>ORDER BY time_posted ASC LIMIT 1\<close>: the first of the oldest rows.\<close>

fun oldest :: "'st queued_task list \<Rightarrow> 'st queued_task option" where
  "oldest [] = None"
| "oldest (r # rs) =
     (case oldest rs of
        None \<Rightarrow> Some r
      | Some r' \<Rightarrow> if q_posted r \<le> q_posted r' then Some r else Some r')"

definition set_row :: "uuid \<Rightarrow> ('st queued_task \<Rightarrow> 'st queued_task) \<Rightarrow> 'st queued_task list \<Rightarrow> 'st queued_task list" where
  "set_row i f rs = map (\<lambda>r. if q_id r = i then f r else r) rs"

text \<open>\<open>saps.get_next_task()\<close>; \<open>busy\<close> are the rows other open transactions hold (\<open>SKIP LOCKED\<close>).\<close>

definition next_row :: "uuid list \<Rightarrow> task_db \<Rightarrow> string queued_task option" where
  "next_row busy s = oldest (filter (\<lambda>r. \<not> q_locked r \<and> q_id r \<notin> set busy) (queue s))"

definition get_next_task :: "uuid list \<Rightarrow> task_db \<Rightarrow> (sqlx_error + string queued_task option) \<times> task_db" where
  "get_next_task busy s =
     (case t_link s of
        Some e \<Rightarrow> (Inl e, s)
      | None \<Rightarrow>
          (case next_row busy s of
             None \<Rightarrow> (Inr None, s)
           | Some r \<Rightarrow> (Inr (Some (r\<lparr>q_locked := True\<rparr>)),
                         s\<lparr>queue := set_row (q_id r) (\<lambda>r. r\<lparr>q_locked := True\<rparr>) (queue s)\<rparr>)))"

definition claim_task ::
    "uuid list \<Rightarrow> task_db \<Rightarrow> string \<Rightarrow> (sqlx_error + string queued_task option) \<times> task_db" where
  "claim_task busy s f =
     (case t_link s of
        Some e \<Rightarrow> (Inl e, s)
      | None \<Rightarrow>
          (case oldest (filter (\<lambda>r. q_function r = f \<and> q_status r = ''pending'' \<and> q_id r \<notin> set busy) (queue s)) of
             None \<Rightarrow> (Inr None, s)
           | Some r \<Rightarrow>
               (let g = (\<lambda>r. r\<lparr>q_status := ''in_progress'', q_started := Some (t_clock s)\<rparr>)
                in (Inr (Some (g r)), s\<lparr>queue := set_row (q_id r) g (queue s)\<rparr>))))"

definition read_task :: "string queued_task \<Rightarrow> sqlx_error + task_status queued_task" where
  "read_task r = map_err (\<lambda>e. Protocol (err_message e)) (task_from_row r)"

definition get_next_background_task ::
    "uuid list \<Rightarrow> task_db \<Rightarrow> (sqlx_error + task_status queued_task option) \<times> task_db" where
  "get_next_background_task busy s = st_bind (get_next_task busy s) (\<lambda>r s'. (case r of
       None \<Rightarrow> (Inr None, s')
     | Some r \<Rightarrow> (res_bind (read_task r) (\<lambda>a. Inr (Some a)), s')))"

definition mark_finished :: "string \<Rightarrow> task_db \<Rightarrow> uuid \<Rightarrow> (sqlx_error + bool) \<times> task_db" where
  "mark_finished st s i =
     (case t_link s of
        Some e \<Rightarrow> (Inl e, s)
      | None \<Rightarrow> (Inr (i \<in> q_id ` set (queue s)),
                  s\<lparr>queue := set_row i (\<lambda>r. r\<lparr>q_status := st, q_finished := Some (t_clock s)\<rparr>) (queue s)\<rparr>))"

definition mark_background_task_as_completed :: "task_db \<Rightarrow> uuid \<Rightarrow> (sqlx_error + bool) \<times> task_db" where
  "mark_background_task_as_completed s i = mark_finished ''completed'' s i"

definition mark_background_task_as_exited :: "task_db \<Rightarrow> uuid \<Rightarrow> (sqlx_error + bool) \<times> task_db" where
  "mark_background_task_as_exited s i = mark_finished ''exited'' s i"

definition mark_background_task_by_id :: "task_db \<Rightarrow> uuid \<Rightarrow> sqlx_error + task_status queued_task option" where
  "mark_background_task_by_id s i =
     (case t_link s of
        Some e \<Rightarrow> Inl e
      | None \<Rightarrow> (case filter (\<lambda>r. q_id r = i) (queue s) of
            [] \<Rightarrow> Inr None
          | r # _ \<Rightarrow> res_bind (read_task r) (\<lambda>a. Inr (Some a))))"

section \<open>Parameters of a task\<close>

text \<open>What \<open>#[background_task]\<close> generates: the interface function packs its named parameters into an
  object, the handler takes them out again by name. \<open>None\<close> is the panic of an \<open>expect\<close>.\<close>

fun package_inputs :: "('a \<Rightarrow> json option) \<Rightarrow> (string \<times> 'a) list \<Rightarrow> (string \<times> json) list \<Rightarrow> (string \<times> json) list option" where
  "package_inputs ser [] es = Some es"
| "package_inputs ser ((n, a) # ps) es =
     (case ser a of None \<Rightarrow> None | Some v \<Rightarrow> package_inputs ser ps (obj_set n v es))"

fun extract_inputs :: "(json \<Rightarrow> 'a option) \<Rightarrow> string list \<Rightarrow> json \<Rightarrow> (string \<times> 'a) list option" where
  "extract_inputs de [] input = Some []"
| "extract_inputs de (n # ns) input =
     (case json_get input n of
        None \<Rightarrow> None
      | Some v \<Rightarrow> (case de v of
            None \<Rightarrow> None
          | Some a \<Rightarrow> map_option (\<lambda>as. (n, a) # as) (extract_inputs de ns input)))"

text \<open>The generated interface function: pack, make the task, insert it.\<close>

definition post_task ::
    "error_text \<Rightarrow> (sqlx_error \<Rightarrow> string) \<Rightarrow> ('a \<Rightarrow> json option) \<Rightarrow> task_db \<Rightarrow> string \<Rightarrow> (string \<times> 'a) list
     \<Rightarrow> (saps_error + bool) option \<times> task_db" where
  "post_task E disp ser s f ps =
     (case package_inputs ser ps [] of
        None \<Rightarrow> (None, s)
      | Some es \<Rightarrow>
          (case task_new s f (JObj es) of (a, s') \<Rightarrow>
            (case insert_background_task E s' a of
               (x, s'') \<Rightarrow> (Some (map_err (from_sqlx disp) x), s''))))"

section \<open>Workers\<close>

text \<open>How the blocking task that drives a handler ends: the handler's own result, or a panic.\<close>

datatype run_result = Returned "saps_error + unit" | Panicked

definition finish_task :: "task_db \<Rightarrow> uuid \<Rightarrow> run_result \<Rightarrow> task_db" where
  "finish_task s i out =
     (case out of
        Returned _ \<Rightarrow> snd (mark_background_task_as_completed s i)
      | Panicked \<Rightarrow> snd (mark_background_task_as_exited s i))"

text \<open>One turn of \<open>worker_cycle\<close>: the registry knows the handlers by name, and a handler may act on
  the database. The turn says which task it ran, if any, and whether it found the queue empty.\<close>

datatype turn = Failed | Unregistered uuid | Ran uuid run_result | Slept

type_synonym registry = "string \<Rightarrow> (json \<Rightarrow> task_db \<Rightarrow> run_result \<times> task_db) option"

definition worker_turn :: "registry \<Rightarrow> uuid list \<Rightarrow> task_db \<Rightarrow> turn \<times> task_db" where
  "worker_turn reg busy s =
     (case get_next_background_task busy s of
        (Inl e, s') \<Rightarrow> (Failed, s')
      | (Inr None, s') \<Rightarrow> (Slept, s')
      | (Inr (Some a), s') \<Rightarrow>
          (case reg (q_function a) of
             None \<Rightarrow> (Unregistered (q_id a), s')
           | Some handler \<Rightarrow>
               (case handler (q_params a) s' of
                  (out, s'') \<Rightarrow> (Ran (q_id a) out, finish_task s'' (q_id a) out))))"

section \<open>Scheduled tasks\<close>

datatype sched_status = Scheduled | SchedInProgress | SchedCompleted | SchedExited

fun sched_status_text :: "sched_status \<Rightarrow> string" where
  "sched_status_text Scheduled = ''scheduled''"
| "sched_status_text SchedInProgress = ''in_progress''"
| "sched_status_text SchedCompleted = ''completed''"
| "sched_status_text SchedExited = ''exited''"

definition sched_status_try_from :: "string \<Rightarrow> saps_error + sched_status" where
  "sched_status_try_from value =
     (let t = to_lower value in
      if t = ''scheduled'' then Inr Scheduled
      else if t = ''in_progress'' then Inr SchedInProgress
      else if t = ''completed'' then Inr SchedCompleted
      else if t = ''exited'' then Inr SchedExited
      else Inl (bad_request (''Unknown task status: '' @ value)))"

text \<open>The cron crate: a cron text is ill-formed, or has a next firing after a time, or has none.\<close>

type_synonym cron = "string \<Rightarrow> string + (int \<Rightarrow> int option)"

definition scheduled_new ::
    "cron \<Rightarrow> int \<Rightarrow> string \<Rightarrow> json \<Rightarrow> string \<Rightarrow> saps_error + scheduled_task" where
  "scheduled_new C now f ps cs =
     (case C cs of
        Inl e \<Rightarrow> Inl (bad_request (''invalid cron '' @ [quote] @ cs @ [quote] @ '': '' @ e))
      | Inr upcoming \<Rightarrow>
          (case upcoming now of
             None \<Rightarrow> Inl (bad_request (''cron '' @ [quote] @ cs @ [quote] @ '' has no upcoming firing''))
           | Some next \<Rightarrow> Inr \<lparr>c_id = 0, c_function = f, c_params = ps, c_task_id = None,
                 c_scheduled = Some next, c_completed = None, c_cron = cs, c_locked = False\<rparr>))"

definition insert_scheduled_task ::
    "error_text \<Rightarrow> task_db \<Rightarrow> scheduled_task \<Rightarrow> (sqlx_error + bool) \<times> task_db" where
  "insert_scheduled_task E s a =
     (case t_link s of
        Some e \<Rightarrow> (Inl e, s)
      | None \<Rightarrow>
          if 255 < length (utf8_chars (c_function a)) \<or> 255 < length (utf8_chars (c_cron a))
          then (Inl (task_error E ''22001''), s\<lparr>t_serial := t_serial s + 1\<rparr>)
          else (Inr True, s\<lparr>schedule := schedule s @ [a\<lparr>c_id := t_serial s\<rparr>], t_serial := t_serial s + 1\<rparr>))"

definition register_scheduled_task ::
    "cron \<Rightarrow> error_text \<Rightarrow> (sqlx_error \<Rightarrow> string) \<Rightarrow> task_db \<Rightarrow> string \<Rightarrow> json \<Rightarrow> string
     \<Rightarrow> (saps_error + bool) \<times> task_db" where
  "register_scheduled_task C E disp s f ps cs =
     (case scheduled_new C (t_clock s) f ps cs of
        Inl e \<Rightarrow> (Inl e, s)
      | Inr a \<Rightarrow> (case insert_scheduled_task E s a of (x, s') \<Rightarrow> (map_err (\<lambda>e. unknown (disp e)) x, s')))"

text \<open>\<open>saps.claim_due_scheduled_tasks()\<close>: every due, unlocked row that nobody holds.\<close>

definition due :: "int list \<Rightarrow> task_db \<Rightarrow> scheduled_task \<Rightarrow> bool" where
  "due busy s r \<longleftrightarrow> \<not> c_locked r \<and> c_id r \<notin> set busy \<and>
     (case c_scheduled r of None \<Rightarrow> False | Some t \<Rightarrow> t \<le> t_clock s)"

definition claim_due_scheduled_tasks :: "int list \<Rightarrow> task_db \<Rightarrow> scheduled_task list \<times> task_db" where
  "claim_due_scheduled_tasks busy s =
     (map (\<lambda>r. r\<lparr>c_locked := True\<rparr>) (filter (due busy s) (schedule s)),
      s\<lparr>schedule := map (\<lambda>r. if due busy s r then r\<lparr>c_locked := True\<rparr> else r) (schedule s)\<rparr>)"

definition get_due_scheduled_task ::
    "int list \<Rightarrow> task_db \<Rightarrow> (sqlx_error + scheduled_task list) \<times> task_db" where
  "get_due_scheduled_task busy s =
     (case t_link s of
        Some e \<Rightarrow> (Inl e, s)
      | None \<Rightarrow> (case claim_due_scheduled_tasks busy s of (claimed, s') \<Rightarrow> (Inr claimed, s')))"

text \<open>\<open>post_scheduled_task\<close>: one transaction; an error of the insertion rolls it back.\<close>

definition post_scheduled_task ::
    "error_text \<Rightarrow> task_db \<Rightarrow> scheduled_task \<Rightarrow> (sqlx_error + bool) \<times> task_db" where
  "post_scheduled_task E s a =
     (case t_link s of
        Some e \<Rightarrow> (Inl e, s)
      | None \<Rightarrow>
          (case (case c_task_id a of Some i \<Rightarrow> (i, s) | None \<Rightarrow> t_draw s) of (i, s1) \<Rightarrow>
             (case insert_row E s1 \<lparr>q_id = i, q_function = c_function a, q_params = c_params a,
                 q_status = ''pending'', q_posted = t_clock s, q_started = None, q_finished = None,
                 q_locked = False\<rparr> of
                (Inl e, _) \<Rightarrow> (Inl e, s1)
              | (Inr _, s2) \<Rightarrow>
                  (Inr (c_id a \<in> c_id ` set (schedule s2)),
                   s2\<lparr>schedule := map (\<lambda>r. if c_id r = c_id a
                       then r\<lparr>c_scheduled := c_scheduled a, c_completed := c_completed a,
                              c_task_id := Some i, c_locked := False\<rparr> else r) (schedule s2)\<rparr>))))"

text \<open>One turn of \<open>scheduler_cycle\<close>: the rows it claimed, one after the other.\<close>

definition schedule_one :: "cron \<Rightarrow> error_text \<Rightarrow> task_db \<Rightarrow> scheduled_task \<Rightarrow> task_db" where
  "schedule_one C E s a =
     (case C (c_cron a) of
        Inl _ \<Rightarrow> s
      | Inr upcoming \<Rightarrow>
          (case t_draw s of (i, s') \<Rightarrow>
             snd (post_scheduled_task E s' (a\<lparr>c_task_id := Some i, c_scheduled := upcoming (t_clock s),
                    c_completed := Some (t_clock s)\<rparr>))))"

definition scheduler_turn :: "cron \<Rightarrow> error_text \<Rightarrow> int list \<Rightarrow> task_db \<Rightarrow> task_db" where
  "scheduler_turn C E busy s =
     (case get_due_scheduled_task busy s of
        (Inl _, s') \<Rightarrow> s'
      | (Inr as, s') \<Rightarrow> foldl (schedule_one C E) s' as)"

end
