(* ===== verification/Task_Queue.thy ===== *)
theory Task_Queue
  imports Tasks
begin

text \<open>
  What the queue and the scheduler guarantee: parameters arrive as they were posted, a task is
  started by at most one worker however workers, posters and the scheduler interleave, and a turn
  of the scheduler posts each due schedule once and moves it on. A handler that returns an error
  leaves its task completed.
\<close>

section \<open>Parameters\<close>

lemma package_inputs_spec:
  assumes "package_inputs ser ps es = Some fs" and "distinct (map fst ps)" and "\<And>a v. ser a = Some v \<Longrightarrow> de v = Some a"
  shows "(\<forall>(n, a) \<in> set ps. \<exists>v. map_of fs n = Some v \<and> de v = Some a) \<and>
    (\<forall>n. n \<notin> fst ` set ps \<longrightarrow> map_of fs n = map_of es n)"
  using assms(1,2)
proof (induction ps arbitrary: es)
  case (Cons p ps)
  obtain n a where p: "p = (n, a)" by fastforce
  obtain v where v: "ser a = Some v" using Cons.prems by (auto simp: p split: option.splits)
  have "package_inputs ser ps (obj_set n v es) = Some fs" using Cons.prems by (simp add: p v)
  from Cons.IH [OF this] Cons.prems have
    IH: "\<forall>(n, a) \<in> set ps. \<exists>v. map_of fs n = Some v \<and> de v = Some a"
        "\<forall>m. m \<notin> fst ` set ps \<longrightarrow> map_of fs m = map_of (obj_set n v es) m" by auto
  moreover have "n \<notin> fst ` set ps" using Cons.prems by (simp add: p)
  ultimately show ?case using assms(3) [OF v] by (auto simp: p)
qed simp

lemma extract_inputs_spec:
  assumes "\<And>n a. (n, a) \<in> set ps \<Longrightarrow> \<exists>v. map_of fs n = Some v \<and> de v = Some a"
  shows "extract_inputs de (map fst ps) (JObj fs) = Some ps"
  using assms
proof (induction ps)
  case (Cons p ps)
  then show ?case by (cases p) fastforce
qed simp

text \<open>C38: the arguments of a background task survive the queue. When posting succeeds, the row it
  inserted is pending and unlocked, names the function, and its parameters unpack to the
  arguments of the call, for any conversion to JSON that its inverse undoes.\<close>

theorem posted_arguments_arrive:
  assumes "post_task E disp ser s f ps = (Some (Inr b), t)" and "distinct (map fst ps)"
    and "\<And>a v. ser a = Some v \<Longrightarrow> de v = Some a"
  shows "\<exists>r. queue t = queue s @ [r] \<and> q_id r \<notin> q_id ` set (queue s) \<and> q_function r = f \<and>
    q_status r = ''pending'' \<and> \<not> q_locked r \<and> extract_inputs de (map fst ps) (q_params r) = Some ps"
proof -
  obtain es where es: "package_inputs ser ps [] = Some es"
    using assms(1) by (auto simp: post_task_def split: option.splits)
  have "extract_inputs de (map fst ps) (JObj es) = Some ps"
    using package_inputs_spec [OF es assms(2), of de] assms(3) by (intro extract_inputs_spec) blast
  then show ?thesis
    using assms(1) es
    by (auto simp: post_task_def task_new_def t_draw_def insert_background_task_def insert_row_def
        task_to_row_def map_err_Inr_iff split: option.splits if_splits)
qed

section \<open>Claims\<close>

lemma oldest_mem: "oldest rs = Some r \<Longrightarrow> r \<in> set rs"
  by (induction rs arbitrary: r) (auto split: option.splits if_splits)

lemma oldest_le: "oldest rs = Some r \<Longrightarrow> x \<in> set rs \<Longrightarrow> q_posted r \<le> q_posted x"
proof (induction rs arbitrary: r x)
  case (Cons a rs)
  show ?case
  proof (cases "oldest rs")
    case None
    then have "rs = []" by (cases rs) (auto split: option.splits if_splits)
    with Cons.prems show ?thesis by simp
  next
    case (Some b)
    with Cons.prems Cons.IH [OF Some] show ?thesis by (force split: if_splits)
  qed
qed simp

lemma oldest_None: "oldest rs = None \<longleftrightarrow> rs = []"
  by (cases rs) (auto split: option.splits if_splits)

lemma set_row_ids [simp]: "(\<And>r. q_id (f r) = q_id r) \<Longrightarrow> map q_id (set_row i f rs) = map q_id rs"
  by (auto simp: set_row_def)

definition locked_in :: "task_db \<Rightarrow> uuid \<Rightarrow> bool" where
  "locked_in s i \<longleftrightarrow> (\<exists>r \<in> set (queue s). q_id r = i \<and> q_locked r)"

text \<open>What every step keeps: ids stay distinct, and a locked row stays locked.\<close>

definition keeps_locks :: "task_db \<Rightarrow> task_db \<Rightarrow> bool" where
  "keeps_locks s t \<longleftrightarrow> (distinct (map q_id (queue s)) \<longrightarrow> distinct (map q_id (queue t))) \<and>
     (\<forall>i. locked_in s i \<longrightarrow> locked_in t i)"

lemma keeps_locks_refl [simp]: "keeps_locks s s"
  by (simp add: keeps_locks_def)

lemma keeps_locks_trans: "keeps_locks s t \<Longrightarrow> keeps_locks t u \<Longrightarrow> keeps_locks s u"
  by (simp add: keeps_locks_def)

lemma keeps_locks_queue: "queue t = queue s \<Longrightarrow> keeps_locks s t"
  by (simp add: keeps_locks_def locked_in_def)

lemma keeps_locks_set_row:
  assumes "queue t = set_row i f (queue s)" and "\<And>r. q_id (f r) = q_id r" and "\<And>r. q_locked r \<Longrightarrow> q_locked (f r)"
  shows "keeps_locks s t"
proof -
  have "locked_in t j" if locked: "locked_in s j" for j
  proof -
    obtain r where r: "r \<in> set (queue s)" "q_id r = j" "q_locked r" using locked by (auto simp: locked_in_def)
    then have "(if q_id r = i then f r else r) \<in> set (queue t)" by (auto simp: assms(1) set_row_def)
    with r show ?thesis using assms(2,3) by (auto simp: locked_in_def split: if_splits)
  qed
  then show ?thesis using assms(2) by (simp add: keeps_locks_def assms(1))
qed

lemma keeps_locks_insert: "keeps_locks s (snd (insert_row E s r))"
  by (auto simp: insert_row_def keeps_locks_def locked_in_def split: option.split)

lemma keeps_locks_next: "get_next_background_task busy s = (x, t) \<Longrightarrow> keeps_locks s t"
proof -
  have "keeps_locks s (snd (get_next_task busy s))"
    by (auto simp: get_next_task_def split: option.split
        intro!: keeps_locks_set_row [where f = "\<lambda>r. r\<lparr>q_locked := True\<rparr>"])
  moreover have "snd (get_next_background_task busy s) = snd (get_next_task busy s)"
    by (cases "get_next_task busy s"; cases "fst (get_next_task busy s)")
      (auto simp: get_next_background_task_def split: option.split)
  ultimately show "get_next_background_task busy s = (x, t) \<Longrightarrow> keeps_locks s t" by simp
qed

lemma keeps_locks_mark: "keeps_locks s (snd (mark_finished st s i))"
  by (auto simp: mark_finished_def split: option.split
      intro!: keeps_locks_set_row [where f = "\<lambda>r. r\<lparr>q_status := st, q_finished := Some (t_clock s)\<rparr>"])

lemma keeps_locks_finish: "keeps_locks s (finish_task s i out)"
  by (simp add: finish_task_def mark_background_task_as_completed_def mark_background_task_as_exited_def
      keeps_locks_mark split: run_result.split)

lemma keeps_locks_claim: "keeps_locks s (snd (claim_task busy s f))"
  by (auto simp: claim_task_def Let_def split: option.split
      intro!: keeps_locks_set_row [where f = "\<lambda>r. r\<lparr>q_status := ''in_progress'', q_started := Some (t_clock s)\<rparr>"])

lemma keeps_locks_post: "keeps_locks s (snd (post_scheduled_task E s a))"
proof (cases "t_link s")
  case None
  obtain i s1 where i: "(case c_task_id a of Some i \<Rightarrow> (i, s) | None \<Rightarrow> t_draw s) = (i, s1)" by fastforce
  then have s1: "queue s1 = queue s" by (auto simp: t_draw_def split: option.splits)
  define row where "row = \<lparr>q_id = i, q_function = c_function a, q_params = c_params a,
                 q_status = ''pending'', q_posted = t_clock s, q_started = None, q_finished = None,
                 q_locked = False\<rparr>"
  obtain x s2 where x: "insert_row E s1 row = (x, s2)" by fastforce
  then have "keeps_locks s1 s2" using keeps_locks_insert [of s1 E row] by simp
  moreover have "keeps_locks s s1" using s1 by (simp add: keeps_locks_queue)
  ultimately have "keeps_locks s s2" by (metis keeps_locks_trans)
  then have "keeps_locks s (s2\<lparr>schedule := c\<rparr>)" for c by (simp add: keeps_locks_def locked_in_def)
  with \<open>keeps_locks s s1\<close> show ?thesis
    using x by (cases x) (simp_all add: post_scheduled_task_def None i row_def [symmetric])
qed (simp add: post_scheduled_task_def)

lemma keeps_locks_schedule_one: "keeps_locks s (schedule_one C E s a)"
proof (cases "C (c_cron a)")
  case (Inr up)
  obtain i s' where i: "t_draw s = (i, s')" by fastforce
  then have "keeps_locks s s'" by (auto simp: t_draw_def intro: keeps_locks_queue)
  with keeps_locks_post [of s'] show ?thesis by (auto simp: schedule_one_def Inr i intro: keeps_locks_trans)
qed (simp add: schedule_one_def)

lemma keeps_locks_scheduler: "keeps_locks s (scheduler_turn C E busy s)"
proof -
  obtain x s' where x: "get_due_scheduled_task busy s = (x, s')" by fastforce
  then have "keeps_locks s s'"
    by (auto simp: get_due_scheduled_task_def claim_due_scheduled_tasks_def intro: keeps_locks_queue split: option.splits)
  moreover have "keeps_locks s' (foldl (schedule_one C E) s' as)" for as
    by (rule foldl_inv [of "keeps_locks s'"]) (auto intro: keeps_locks_trans keeps_locks_schedule_one)
  ultimately show ?thesis by (cases x) (auto simp: scheduler_turn_def x intro: keeps_locks_trans)
qed

lemma keeps_locks_post_task:
  assumes "post_task E disp ser s f ps = (x, t)"
  shows "keeps_locks s t"
proof (cases "package_inputs ser ps []")
  case None
  with assms show ?thesis by (simp add: post_task_def)
next
  case (Some es)
  obtain a s' where a: "task_new s f (JObj es) = (a, s')" by fastforce
  then have "keeps_locks s s'" by (auto simp: task_new_def t_draw_def intro: keeps_locks_queue)
  moreover have "t = snd (insert_row E s' (task_to_row a))"
    using assms by (auto simp: post_task_def Some a insert_background_task_def split: prod.splits)
  ultimately show ?thesis using keeps_locks_insert by (metis keeps_locks_trans)
qed

section \<open>A pool of workers\<close>

text \<open>Workers that share the database: what each of them is running, and which tasks were started.
  Posters, the scheduler, the stored procedure \<open>claim_task\<close>, the clock and the connection act
  between any two steps of the workers.\<close>

record pool =
  base :: task_db
  running :: "nat \<Rightarrow> uuid option"
  started :: "uuid list"

inductive pool_step :: "registry \<Rightarrow> pool \<Rightarrow> pool \<Rightarrow> bool" for reg where
  start: "running p w = None \<Longrightarrow> get_next_background_task busy (base p) = (Inr (Some a), s) \<Longrightarrow>
    reg (q_function a) \<noteq> None \<Longrightarrow>
    pool_step reg p (p\<lparr>base := s, running := (running p)(w \<mapsto> q_id a), started := started p @ [q_id a]\<rparr>)"
| idle_turn: "running p w = None \<Longrightarrow> get_next_background_task busy (base p) = (x, s) \<Longrightarrow>
    (\<forall>a. x = Inr (Some a) \<longrightarrow> reg (q_function a) = None) \<Longrightarrow> pool_step reg p (p\<lparr>base := s\<rparr>)"
| finish: "running p w = Some i \<Longrightarrow>
    pool_step reg p (p\<lparr>base := finish_task (base p) i out, running := (running p)(w := None)\<rparr>)"
| post: "post_task E disp (ser :: json \<Rightarrow> json option) (base p) f ps = (x, s) \<Longrightarrow> pool_step reg p (p\<lparr>base := s\<rparr>)"
| insert_task: "insert_background_task E (base p) a = (x, s) \<Longrightarrow> pool_step reg p (p\<lparr>base := s\<rparr>)"
| register: "register_scheduled_task C E disp (base p) f js cs = (x, s) \<Longrightarrow> pool_step reg p (p\<lparr>base := s\<rparr>)"
| schedule_turn: "pool_step reg p (p\<lparr>base := scheduler_turn C E sbusy (base p)\<rparr>)"
| claim: "claim_task busy (base p) f = (x, s) \<Longrightarrow> pool_step reg p (p\<lparr>base := s\<rparr>)"
| tick: "t_clock (base p) \<le> now \<Longrightarrow> pool_step reg p (p\<lparr>base := (base p)\<lparr>t_clock := now\<rparr>\<rparr>)"
| connection: "pool_step reg p (p\<lparr>base := (base p)\<lparr>t_link := e\<rparr>\<rparr>)"

inductive pool_reach :: "registry \<Rightarrow> pool \<Rightarrow> pool \<Rightarrow> bool" for reg p where
  here: "pool_reach reg p p"
| there: "pool_reach reg p q \<Longrightarrow> pool_step reg q r \<Longrightarrow> pool_reach reg p r"

definition pool_inv :: "pool \<Rightarrow> bool" where
  "pool_inv p \<longleftrightarrow> distinct (map q_id (queue (base p))) \<and> distinct (started p) \<and>
     (\<forall>i \<in> set (started p). locked_in (base p) i) \<and>
     (\<forall>w i. running p w = Some i \<longrightarrow> i \<in> set (started p)) \<and>
     (\<forall>w v i. running p w = Some i \<longrightarrow> running p v = Some i \<longrightarrow> v = w)"

lemma pool_inv_base: "pool_inv p \<Longrightarrow> keeps_locks (base p) s \<Longrightarrow> pool_inv (p\<lparr>base := s\<rparr>)"
  by (auto simp: pool_inv_def keeps_locks_def)

lemma next_task:
  assumes "get_next_background_task busy s = (Inr (Some a), t)" and "distinct (map q_id (queue s))"
  shows "\<not> locked_in s (q_id a) \<and> locked_in t (q_id a)"
proof -
  obtain r where r: "next_row busy s = Some r" "q_id a = q_id r"
    and t: "t = s\<lparr>queue := set_row (q_id r) (\<lambda>r. r\<lparr>q_locked := True\<rparr>) (queue s)\<rparr>"
    using assms(1)
    by (auto simp: get_next_background_task_def get_next_task_def read_task_def task_from_row_def
        res_bind_Inr_iff map_err_Inr_iff split: option.splits)
  have mem: "r \<in> set (queue s)" "\<not> q_locked r"
    using oldest_mem r(1) by (force simp: next_row_def)+
  then have "x = r" if "x \<in> set (queue s)" "q_id x = q_id r" for x
    using that assms(2) by (auto simp: distinct_map dest: inj_onD)
  with mem r(2) have "\<not> locked_in s (q_id a)" by (auto simp: locked_in_def)
  moreover have "r\<lparr>q_locked := True\<rparr> \<in> set (queue t)" using mem(1) by (auto simp: t set_row_def)
  then have "locked_in t (q_id a)" using r(2) unfolding locked_in_def by (intro bexI) auto
  ultimately show ?thesis by simp
qed

lemma pool_step_inv: "pool_step reg p q \<Longrightarrow> pool_inv p \<Longrightarrow> pool_inv q"
proof (induction rule: pool_step.induct)
  case (start p w busy a s)
  have new: "\<not> locked_in (base p) (q_id a)" "locked_in s (q_id a)"
    using next_task [OF start(2)] start.prems by (auto simp: pool_inv_def)
  have keeps: "keeps_locks (base p) s" by (rule keeps_locks_next [OF start(2)])
  have "q_id a \<notin> set (started p)" using new start.prems by (auto simp: pool_inv_def)
  with new keeps start.prems show ?case by (auto simp: pool_inv_def keeps_locks_def)
next
  case (finish p w i out)
  with keeps_locks_finish [of "base p" i out] show ?case by (auto simp: pool_inv_def keeps_locks_def)
next
  case (post E disp ser p f ps x s)
  then show ?case by (simp add: pool_inv_base keeps_locks_post_task)
next
  case (insert_task E p a x s)
  then show ?case using keeps_locks_insert [of "base p" E "task_to_row a"]
    by (simp add: pool_inv_base insert_background_task_def)
next
  case (register C E disp p f js cs x s)
  have "queue s = queue (base p)"
    using register(1) by (auto simp: register_scheduled_task_def insert_scheduled_task_def
        split: sum.splits option.splits if_splits prod.splits)
  with register show ?case by (simp add: pool_inv_base keeps_locks_queue)
next
  case (claim busy p f x s)
  then show ?case using keeps_locks_claim [of "base p" busy f] by (simp add: pool_inv_base)
next
  case (tick p now)
  then show ?case by (simp add: pool_inv_base keeps_locks_queue)
next
  case (connection p e)
  then show ?case by (simp add: pool_inv_base keeps_locks_queue)
qed (auto intro: pool_inv_base keeps_locks_next keeps_locks_scheduler)

text \<open>C4: however any number of workers, posters and schedulers interleave on one queue, no task is
  started twice, no two workers run the same task at once, and every started task stays locked
  in the table.\<close>

theorem tasks_start_at_most_once:
  assumes "pool_reach reg p q" and "distinct (map q_id (queue (base p)))" and "started p = []"
    and "running p = (\<lambda>_. None)"
  shows "distinct (started q) \<and> (\<forall>i \<in> set (started q). locked_in (base q) i) \<and>
    (\<forall>w v i. running q w = Some i \<longrightarrow> running q v = Some i \<longrightarrow> v = w)"
proof -
  have "pool_inv p" using assms(2-4) by (simp add: pool_inv_def)
  with assms(1) have "pool_inv q" by (induction rule: pool_reach.induct) (auto intro: pool_step_inv)
  then show ?thesis by (simp add: pool_inv_def)
qed

section \<open>A turn of the scheduler\<close>

definition good :: "cron \<Rightarrow> scheduled_task \<Rightarrow> bool" where
  "good C a \<longleftrightarrow> is_ok (C (c_cron a))"

definition next_fire :: "cron \<Rightarrow> int \<Rightarrow> scheduled_task \<Rightarrow> int option" where
  "next_fire C now a = (case C (c_cron a) of Inr up \<Rightarrow> up now | Inl _ \<Rightarrow> None)"

text \<open>The queue row that a claimed schedule posts, and what becomes of the schedule row.\<close>

definition posts :: "int \<Rightarrow> scheduled_task \<Rightarrow> string queued_task \<Rightarrow> bool" where
  "posts now a q \<longleftrightarrow> q = \<lparr>q_id = q_id q, q_function = c_function a, q_params = c_params a,
     q_status = ''pending'', q_posted = now, q_started = None, q_finished = None, q_locked = False\<rparr>"

definition moved_on :: "cron \<Rightarrow> int \<Rightarrow> string queued_task \<Rightarrow> scheduled_task \<Rightarrow> scheduled_task" where
  "moved_on C now q r = r\<lparr>c_scheduled := next_fire C now r, c_completed := Some now,
     c_task_id := Some (q_id q), c_locked := False\<rparr>"

definition fresh_ids :: "nat \<Rightarrow> task_db \<Rightarrow> bool" where
  "fresh_ids n s \<longleftrightarrow> inj_on (t_uuids s) {..<n} \<and> q_id ` set (queue s) \<subseteq> t_uuids s ` {..<t_drawn s}"

lemma schedule_one_good:
  assumes "good C a" and "t_link s = None" and "fresh_ids n s" and "t_drawn s < n"
    and "\<not> 255 < length (utf8_chars (c_function a))"
  shows "\<exists>q. posts (t_clock s) a q \<and> q_id q \<notin> q_id ` set (queue s) \<and>
    schedule_one C E s a = s\<lparr>t_drawn := Suc (t_drawn s), queue := queue s @ [q],
      schedule := map (\<lambda>r. if c_id r = c_id a then r\<lparr>c_scheduled := next_fire C (t_clock s) a,
          c_completed := Some (t_clock s), c_task_id := Some (q_id q), c_locked := False\<rparr> else r) (schedule s)\<rparr> \<and>
    fresh_ids n (schedule_one C E s a)"
proof -
  obtain up where up: "C (c_cron a) = Inr up" using assms(1) by (auto simp: good_def is_ok_iff)
  have new: "t_uuids s (t_drawn s) \<notin> q_id ` set (queue s)"
  proof
    assume "t_uuids s (t_drawn s) \<in> q_id ` set (queue s)"
    then obtain k where "k < t_drawn s" "t_uuids s (t_drawn s) = t_uuids s k"
      using assms(3) by (auto simp: fresh_ids_def dest!: subsetD)
    with assms(3,4) show False by (auto simp: fresh_ids_def dest!: inj_onD)
  qed
  define q where "q = \<lparr>q_id = t_uuids s (t_drawn s), q_function = c_function a, q_params = c_params a,
     q_status = ''pending'', q_posted = t_clock s, q_started = None, q_finished = None, q_locked = False\<rparr>"
  have eq: "schedule_one C E s a = s\<lparr>t_drawn := Suc (t_drawn s), queue := queue s @ [q],
      schedule := map (\<lambda>r. if c_id r = c_id a then r\<lparr>c_scheduled := next_fire C (t_clock s) a,
          c_completed := Some (t_clock s), c_task_id := Some (q_id q), c_locked := False\<rparr> else r) (schedule s)\<rparr>"
    using new assms(2,5)
    by (simp add: schedule_one_def up t_draw_def post_scheduled_task_def insert_row_def q_def next_fire_def)
  moreover have "fresh_ids n (schedule_one C E s a)"
    using assms(3) by (auto simp: eq fresh_ids_def q_def lessThan_Suc)
  moreover have "posts (t_clock s) a q" "q_id q \<notin> q_id ` set (queue s)"
    using new by (simp_all add: posts_def q_def)
  ultimately show ?thesis by blast
qed

text \<open>What a run over claimed rows does to one row of the schedule.\<close>

definition row_after ::
    "cron \<Rightarrow> int \<Rightarrow> scheduled_task list \<Rightarrow> string queued_task list \<Rightarrow> scheduled_task \<Rightarrow> scheduled_task \<Rightarrow> bool" where
  "row_after C now as new r r' \<longleftrightarrow> c_id r' = c_id r \<and> c_cron r' = c_cron r \<and>
     (if \<exists>a \<in> set as. good C a \<and> c_id a = c_id r
      then \<exists>a \<in> set as. \<exists>q \<in> set new. c_id a = c_id r \<and> posts now a q \<and>
        r' = r\<lparr>c_scheduled := next_fire C now a, c_completed := Some now, c_task_id := Some (q_id q), c_locked := False\<rparr>
      else r' = r)"

lemma scheduler_fold:
  assumes "t_link s = None" and "fresh_ids n s" and "t_drawn s + length as \<le> n" and "distinct (map c_id as)"
    and "\<forall>a \<in> set as. \<not> 255 < length (utf8_chars (c_function a))"
  shows "\<exists>new. queue (foldl (schedule_one C E) s as) = queue s @ new \<and>
      list_all2 (posts (t_clock s)) (filter (good C) as) new \<and>
      list_all2 (row_after C (t_clock s) as new) (schedule s) (schedule (foldl (schedule_one C E) s as))"
  using assms
proof (induction as arbitrary: s)
  case Nil
  then show ?case by (auto simp: row_after_def list_all2_same)
next
  case (Cons a as)
  show ?case
  proof (cases "good C a")
    case False
    then have "schedule_one C E s a = s" by (auto simp: schedule_one_def good_def split: sum.splits)
    moreover obtain new where "queue (foldl (schedule_one C E) s as) = queue s @ new"
      "list_all2 (posts (t_clock s)) (filter (good C) as) new"
      and rows: "list_all2 (row_after C (t_clock s) as new) (schedule s) (schedule (foldl (schedule_one C E) s as))"
      using Cons.IH [of s] Cons.prems by auto
    moreover from rows have
      "list_all2 (row_after C (t_clock s) (a # as) new) (schedule s) (schedule (foldl (schedule_one C E) s as))"
      by (rule list_all2_mono) (use False in \<open>auto simp: row_after_def split: if_splits\<close>)
    ultimately show ?thesis using False by auto
  next
    case True
    let ?now = "t_clock s"
    obtain q where q: "posts ?now a q"
      and eq: "schedule_one C E s a = s\<lparr>t_drawn := Suc (t_drawn s), queue := queue s @ [q],
        schedule := map (\<lambda>r. if c_id r = c_id a then r\<lparr>c_scheduled := next_fire C ?now a,
          c_completed := Some ?now, c_task_id := Some (q_id q), c_locked := False\<rparr> else r) (schedule s)\<rparr>"
      and fresh: "fresh_ids n (schedule_one C E s a)"
      using schedule_one_good [OF True, of s n E] Cons.prems by auto
    define t where "t = schedule_one C E s a"
    obtain new where new: "queue (foldl (schedule_one C E) t as) = queue t @ new"
      "list_all2 (posts ?now) (filter (good C) as) new"
      and rows: "list_all2 (row_after C ?now as new) (schedule t) (schedule (foldl (schedule_one C E) t as))"
      using Cons.IH [of t] Cons.prems fresh by (auto simp: t_def eq)
    have "list_all2 (row_after C ?now (a # as) (q # new)) (schedule s) (schedule (foldl (schedule_one C E) t as))"
      unfolding list_all2_conv_all_nth
    proof (intro conjI allI impI)
      show "length (schedule s) = length (schedule (foldl (schedule_one C E) t as))"
        using rows by (auto simp: t_def eq dest: list_all2_lengthD)
      fix i assume i: "i < length (schedule s)"
      define r where "r = schedule s ! i"
      define r1 where "r1 = schedule t ! i"
      define r2 where "r2 = schedule (foldl (schedule_one C E) t as) ! i"
      have r1: "r1 = (if c_id r = c_id a then r\<lparr>c_scheduled := next_fire C ?now a,
          c_completed := Some ?now, c_task_id := Some (q_id q), c_locked := False\<rparr> else r)"
        using i by (simp add: r1_def r_def t_def eq)
      have r2: "row_after C ?now as new r1 r2"
        using list_all2_nthD2 [OF rows, of i] rows i by (auto simp: r1_def r2_def t_def eq dest: list_all2_lengthD)
      have other: "\<not> (\<exists>b \<in> set as. good C b \<and> c_id b = c_id r)" if "c_id r = c_id a"
        using Cons.prems(4) that by (metis distinct.simps(2) list.simps(9) image_eqI list.set_map)
      show "row_after C ?now (a # as) (q # new) (schedule s ! i) (schedule (foldl (schedule_one C E) t as) ! i)"
        using r2 other q True unfolding r_def [symmetric] r2_def [symmetric] row_after_def r1
        by (auto split: if_splits)
    qed
    with new q True show ?thesis by (intro exI [of _ "q # new"]) (simp add: t_def eq)
  qed
qed

text \<open>What a turn does to the queue and to each row of the schedule.\<close>

lemma scheduler_turn_rows:
  assumes "t_link s = None" and "fresh_ids n s" and "t_drawn s + length (schedule s) \<le> n"
    and "distinct (map c_id (schedule s))"
    and "\<forall>a \<in> set (schedule s). \<not> 255 < length (utf8_chars (c_function a))"
    and "t = scheduler_turn C E [] s"
  shows "\<exists>new. queue t = queue s @ new \<and>
    list_all2 (posts (t_clock s)) (filter (\<lambda>r. due [] s r \<and> good C r) (schedule s)) new \<and>
    list_all2 (\<lambda>r r'. if \<not> due [] s r then r' = r
        else if good C r then \<exists>q \<in> set new. posts (t_clock s) r q \<and> r' = moved_on C (t_clock s) q r
        else r' = r\<lparr>c_locked := True\<rparr>) (schedule s) (schedule t)"
proof -
  define lock :: "scheduled_task \<Rightarrow> scheduled_task" where "lock = (\<lambda>r. r\<lparr>c_locked := True\<rparr>)"
  define s1 where "s1 = s\<lparr>schedule := map (\<lambda>r. if due [] s r then lock r else r) (schedule s)\<rparr>"
  define as where "as = map lock (filter (due [] s) (schedule s))"
  have t: "t = foldl (schedule_one C E) s1 as"
    using assms(1,6) by (simp add: scheduler_turn_def get_due_scheduled_task_def claim_due_scheduled_tasks_def s1_def as_def lock_def cong: if_cong)
  have lock: "c_id (lock r) = c_id r" "good C (lock r) = good C r" "posts now (lock r) q = posts now r q" for r now q
    by (simp_all add: lock_def good_def posts_def)
  have "map c_id as = map c_id (filter (due [] s) (schedule s))" by (simp add: as_def lock o_def)
  then have "distinct (map c_id as)" using assms(4) by (simp add: distinct_map_filter)
  moreover have "length as \<le> length (schedule s)" by (simp add: as_def)
  then have "t_drawn s1 + length as \<le> n" using assms(3) by (simp add: s1_def)
  moreover have "t_link s1 = None" "fresh_ids n s1" using assms(1,2) by (simp_all add: s1_def fresh_ids_def)
  moreover have "\<forall>a \<in> set as. \<not> 255 < length (utf8_chars (c_function a))"
    using assms(5) by (simp add: as_def lock_def)
  ultimately have "\<exists>new. queue (foldl (schedule_one C E) s1 as) = queue s1 @ new \<and>
      list_all2 (posts (t_clock s1)) (filter (good C) as) new \<and>
      list_all2 (row_after C (t_clock s1) as new) (schedule s1) (schedule (foldl (schedule_one C E) s1 as))"
    by (intro scheduler_fold)
  then obtain new where new: "queue t = queue s1 @ new"
    "list_all2 (posts (t_clock s1)) (filter (good C) as) new"
    and rows: "list_all2 (row_after C (t_clock s1) as new) (schedule s1) (schedule t)"
    unfolding t by blast
  have "filter (good C) as = map lock (filter (\<lambda>r. due [] s r \<and> good C r) (schedule s))"
    by (simp add: as_def filter_map o_def lock conj_commute)
  then have posted: "list_all2 (posts (t_clock s)) (filter (\<lambda>r. due [] s r \<and> good C r) (schedule s)) new"
    using new(2) by (simp add: list_all2_map1 lock s1_def)
  have inj: "r = r'" if "r \<in> set (schedule s)" "r' \<in> set (schedule s)" "c_id r = c_id r'" for r r'
    using that assms(4) by (auto simp: distinct_map dest: inj_onD)
  have "list_all2 (\<lambda>r r'. row_after C (t_clock s) as new (if due [] s r then lock r else r) r') (schedule s) (schedule t)"
    using rows by (simp add: s1_def list_all2_map1)
  then have "list_all2 (\<lambda>r r'. if \<not> due [] s r then r' = r
        else if good C r then \<exists>q \<in> set new. posts (t_clock s) r q \<and> r' = moved_on C (t_clock s) q r
        else r' = r\<lparr>c_locked := True\<rparr>) (schedule s) (schedule t)"
  proof (rule list.rel_mono_strong)
    fix r r' assume r: "r \<in> set (schedule s)"
      and after: "row_after C (t_clock s) as new (if due [] s r then lock r else r) r'"
    have claimed: "a \<in> set as \<and> c_id a = c_id r \<longleftrightarrow> due [] s r \<and> a = lock r" for a
    proof
      assume a: "a \<in> set as \<and> c_id a = c_id r"
      then obtain x where x: "x \<in> set (schedule s)" "due [] s x" "a = lock x" by (auto simp: as_def)
      with a lock(1) have "c_id x = c_id r" by simp
      from inj [OF x(1) r this] x show "due [] s r \<and> a = lock r" by simp
    next
      assume "due [] s r \<and> a = lock r"
      then show "a \<in> set as \<and> c_id a = c_id r" using r by (simp add: as_def lock)
    qed
    show "if \<not> due [] s r then r' = r
        else if good C r then \<exists>q \<in> set new. posts (t_clock s) r q \<and> r' = moved_on C (t_clock s) q r
        else r' = r\<lparr>c_locked := True\<rparr>"
    proof (cases "due [] s r")
      case False
      then have "\<not> (\<exists>a \<in> set as. good C a \<and> c_id a = c_id r)" using claimed by blast
      with False after show ?thesis by (auto simp: row_after_def)
    next
      case True
      have ex: "(\<exists>a \<in> set as. good C a \<and> c_id a = c_id (lock r)) \<longleftrightarrow> good C r"
        using claimed True lock(1,2) by metis
      have nf: "next_fire C now (lock r) = next_fire C now r" for now by (simp add: next_fire_def lock_def)
      show ?thesis
      proof (cases "good C r")
        case False
        with after True ex show ?thesis by (simp add: row_after_def lock_def)
      next
        case good: True
        with after True ex obtain a q where a: "a \<in> set as" "c_id a = c_id (lock r)"
          and q: "q \<in> set new" "posts (t_clock s) a q"
          and r': "r' = (lock r)\<lparr>c_scheduled := next_fire C (t_clock s) a, c_completed := Some (t_clock s),
            c_task_id := Some (q_id q), c_locked := False\<rparr>"
          unfolding row_after_def by auto
        from a claimed [of a] lock(1) have "a = lock r" by simp
        with q r' have "posts (t_clock s) r q" "r' = moved_on C (t_clock s) q r"
          by (simp_all add: lock(3) nf) (simp add: moved_on_def lock_def)
        with True good q(1) show ?thesis by auto
      qed
    qed
  qed
  with new(1) posted show ?thesis by (auto simp: s1_def)
qed

text \<open>C11: one turn of the scheduler posts exactly one pending task, with the schedule's function and
  parameters, for every due schedule whose cron text parses; it moves each of those rows on to its
  next firing and unlocks it, naming the task it posted. A due row with an ill-formed cron text
  posts nothing and stays locked, and rows that are not due are left alone.\<close>

theorem scheduler_turn_posts_due:
  assumes "t_link s = None" and "fresh_ids n s" and "t_drawn s + length (schedule s) \<le> n"
    and "distinct (map c_id (schedule s))"
    and "\<forall>a \<in> set (schedule s). \<not> 255 < length (utf8_chars (c_function a))"
    and "t = scheduler_turn C E [] s"
  shows "\<exists>new. queue t = queue s @ new \<and>
    list_all2 (posts (t_clock s)) (filter (\<lambda>r. due [] s r \<and> good C r) (schedule s)) new \<and>
    list_all2 (\<lambda>r r'. if \<not> due [] s r then r' = r
        else if good C r then \<exists>q \<in> set new. posts (t_clock s) r q \<and> r' = moved_on C (t_clock s) q r
        else r' = r\<lparr>c_locked := True\<rparr>) (schedule s) (schedule t)"
  by (rule scheduler_turn_rows [OF assms])

text \<open>The outcome that is recorded is the one of the blocking task that drives the handler: a handler
  that returns an error is recorded as completed.\<close>

lemma failed_handler_is_completed:
  "t_link s = None \<Longrightarrow> queue (finish_task s i (Returned (Inl e))) =
    set_row i (\<lambda>r. r\<lparr>q_status := ''completed'', q_finished := Some (t_clock s)\<rparr>) (queue s)"
  by (simp add: finish_task_def mark_background_task_as_completed_def mark_finished_def)

end
