(* ===== verification/Cycles.thy ===== *)
theory Cycles
  imports Task_Queue "HOL-Library.Multiset"
begin

text \<open>
  The loops around the turns of \<open>Tasks\<close>: \<open>background_tasks/worker_pool.rs\<close> and
  \<open>scheduled_tasks/scheduler.rs\<close>, the pool and the scheduler that spawn them, and how long a loop
  sleeps. A loop is run for a number of turns; \<open>world k\<close> is what others do to the database before its
  turn \<open>k\<close> (posting, other workers, registrations, the passing of time, a connection that fails or
  comes back). A spawned loop is known by its arguments. The clock counts microseconds. A turn of the
  scheduler takes time: so much before each posting and at its end (\<open>timed_turn\<close>); with no time taken it is
  the \<open>scheduler_turn\<close> of \<open>Tasks\<close>. Shown are when a schedule fires, and that a worker drains the queue.
\<close>

section \<open>The pool of workers\<close>

record worker_pool =
  worker_num :: nat
  worker_handles :: "(nat \<times> nat) list"
  wp_interval :: nat

definition worker_pool_new :: worker_pool where
  "worker_pool_new = \<lparr>worker_num = 1, worker_handles = [], wp_interval = 10\<rparr>"

definition with_workers :: "worker_pool \<Rightarrow> nat \<Rightarrow> worker_pool" where
  "with_workers p workers = p\<lparr>worker_num := workers\<rparr>"

text \<open>\<open>init_workers\<close>: the handle of \<open>worker_cycle(i, interval)\<close> for each worker.\<close>

definition init_workers :: "worker_pool \<Rightarrow> worker_pool" where
  "init_workers p =
     (let interval = wp_interval p in
      foldl (\<lambda>p i. p\<lparr>worker_handles := worker_handles p @ [(i, interval)]\<rparr>) p [0..<worker_num p])"

definition sleep :: "nat \<Rightarrow> task_db \<Rightarrow> task_db" where
  "sleep secs s = s\<lparr>t_clock := t_clock s + int secs * 1000000\<rparr>"

type_synonym world = "nat \<Rightarrow> task_db \<Rightarrow> task_db"

text \<open>\<open>worker_cycle\<close>: a turn, and a sleep only when the queue was empty.\<close>

fun worker_cycle :: "registry \<Rightarrow> world \<Rightarrow> (nat \<Rightarrow> uuid list) \<Rightarrow> nat \<Rightarrow> nat \<Rightarrow> nat \<Rightarrow> task_db \<Rightarrow> turn list \<times> task_db" where
  "worker_cycle reg world busy interval k 0 s = ([], s)"
| "worker_cycle reg world busy interval k (Suc turns) s =
     (case worker_turn reg (busy k) (world k s) of (t, s1) \<Rightarrow>
       let s2 = (case t of Slept \<Rightarrow> sleep interval s1 | _ \<Rightarrow> s1) in
       (case worker_cycle reg world busy interval (Suc k) turns s2 of (ts, s3) \<Rightarrow> (t # ts, s3)))"

section \<open>The scheduler\<close>

record scheduler =
  sc_interval :: nat
  sc_handle :: "nat option"

definition scheduler_new :: scheduler where
  "scheduler_new = \<lparr>sc_interval = 300, sc_handle = None\<rparr>"

definition with_interval :: "scheduler \<Rightarrow> nat \<Rightarrow> scheduler" where
  "with_interval p secs = p\<lparr>sc_interval := secs\<rparr>"

definition scheduler_init :: "scheduler \<Rightarrow> scheduler" where
  "scheduler_init p = (let interval = sc_interval p in p\<lparr>sc_handle := Some interval\<rparr>)"

text \<open>A turn takes time: \<open>lag j\<close> microseconds pass before its posting \<open>j\<close>, and once more after the last one.\<close>

definition elapse :: "nat \<Rightarrow> task_db \<Rightarrow> task_db" where
  "elapse d s = s\<lparr>t_clock := t_clock s + int d\<rparr>"

fun post_due :: "cron \<Rightarrow> error_text \<Rightarrow> (nat \<Rightarrow> nat) \<Rightarrow> nat \<Rightarrow> task_db \<Rightarrow> scheduled_task list \<Rightarrow> task_db" where
  "post_due C E lag j s [] = elapse (lag j) s"
| "post_due C E lag j s (a # as) = post_due C E lag (Suc j) (schedule_one C E (elapse (lag j) s) a) as"

definition timed_turn :: "cron \<Rightarrow> error_text \<Rightarrow> (nat \<Rightarrow> nat) \<Rightarrow> int list \<Rightarrow> task_db \<Rightarrow> task_db" where
  "timed_turn C E lag busy s =
     (case get_due_scheduled_task busy s of
        (Inl _, s') \<Rightarrow> elapse (lag 0) s'
      | (Inr as, s') \<Rightarrow> post_due C E lag 0 s' as)"

text \<open>\<open>scheduler_cycle\<close>: a turn and a sleep, after an error too; \<open>lag k\<close> is the time its turn \<open>k\<close> takes.\<close>

fun scheduler_cycle :: "cron \<Rightarrow> error_text \<Rightarrow> world \<Rightarrow> (nat \<Rightarrow> int list) \<Rightarrow> (nat \<Rightarrow> nat \<Rightarrow> nat) \<Rightarrow> nat \<Rightarrow> nat \<Rightarrow> nat \<Rightarrow> task_db
    \<Rightarrow> task_db" where
  "scheduler_cycle C E world busy lag interval k 0 s = s"
| "scheduler_cycle C E world busy lag interval k (Suc turns) s =
     scheduler_cycle C E world busy lag interval (Suc k) turns
       (sleep interval (timed_turn C E (lag k) (busy k) (world k s)))"

section \<open>What a timed turn does\<close>

lemma elapse_simps [simp]:
  "t_clock (elapse d s) = t_clock s + int d" "queue (elapse d s) = queue s" "schedule (elapse d s) = schedule s"
  "t_link (elapse d s) = t_link s" "t_drawn (elapse d s) = t_drawn s" "t_uuids (elapse d s) = t_uuids s"
  "fresh_ids n (elapse d s) = fresh_ids n s"
  by (simp_all add: elapse_def fresh_ids_def)

lemma sleep_simps [simp]:
  "t_clock (sleep d s) = t_clock s + int d * 1000000" "queue (sleep d s) = queue s" "schedule (sleep d s) = schedule s"
  "t_link (sleep d s) = t_link s" "t_drawn (sleep d s) = t_drawn s" "fresh_ids n (sleep d s) = fresh_ids n s"
  by (simp_all add: sleep_def fresh_ids_def)

text \<open>When no time passes it is the turn of \<open>Tasks\<close>.\<close>

lemma timed_turn_at_once: "timed_turn C E (\<lambda>_. 0) busy s = scheduler_turn C E busy s"
proof -
  have "elapse 0 s = s" for s by (simp add: elapse_def)
  then have "post_due C E (\<lambda>_. 0) j s as = foldl (schedule_one C E) s as" for j s as
    by (induction as arbitrary: j s) simp_all
  then show ?thesis using \<open>\<And>s. elapse 0 s = s\<close> by (simp add: timed_turn_def scheduler_turn_def split: prod.split sum.split)
qed

lemma schedule_one_frame:
  assumes "fresh_ids n s"
  shows "t_clock (schedule_one C E s a) = t_clock s" "t_link (schedule_one C E s a) = t_link s"
    "t_drawn (schedule_one C E s a) \<le> Suc (t_drawn s)" "fresh_ids n (schedule_one C E s a)"
    "map c_id (schedule (schedule_one C E s a)) = map c_id (schedule s)"
    "map c_function (schedule (schedule_one C E s a)) = map c_function (schedule s)"
    "set (queue s) \<subseteq> set (queue (schedule_one C E s a))"
    "r \<in> set (schedule s) \<Longrightarrow> c_id r \<noteq> c_id a \<Longrightarrow> r \<in> set (schedule (schedule_one C E s a))"
  using assms
  by (auto simp: schedule_one_def t_draw_def post_scheduled_task_def insert_row_def fresh_ids_def lessThan_Suc image_iff
      split: sum.splits option.splits if_splits)

lemma post_due_frame:
  "fresh_ids n s \<Longrightarrow> t_clock (post_due C E lag j s as) = t_clock s + int (\<Sum>i \<in> {j..j + length as}. lag i) \<and>
    t_link (post_due C E lag j s as) = t_link s \<and> t_drawn (post_due C E lag j s as) \<le> t_drawn s + length as \<and>
    fresh_ids n (post_due C E lag j s as) \<and> map c_id (schedule (post_due C E lag j s as)) = map c_id (schedule s) \<and>
    map c_function (schedule (post_due C E lag j s as)) = map c_function (schedule s) \<and>
    set (queue s) \<subseteq> set (queue (post_due C E lag j s as)) \<and>
    (\<forall>r \<in> set (schedule s). c_id r \<notin> c_id ` set as \<longrightarrow> r \<in> set (schedule (post_due C E lag j s as)))"
proof (induction as arbitrary: j s)
  case (Cons a as)
  let ?s = "elapse (lag j) s"
  have "fresh_ids n ?s" using Cons.prems by simp
  note one = schedule_one_frame [OF this, where C = C and E = E and a = a] and rest = Cons.IH [of "schedule_one C E ?s a" "Suc j"]
  have "{j..j + length (a # as)} = insert j {Suc j..Suc j + length as}" by auto
  then have "(\<Sum>i \<in> {j..j + length (a # as)}. lag i) = lag j + (\<Sum>i \<in> {Suc j..Suc j + length as}. lag i)" by simp
  then show ?case using rest [OF one(4)] one by (auto simp del: sum.cl_ivl_Suc of_nat_sum)
qed simp

text \<open>A claimed row with a well-formed cron text is posted and moved on, within the turn.\<close>

lemma post_due_posts:
  assumes "a \<in> set as" and "distinct (map c_id as)" and "good C a" and "t_link s = None" and "fresh_ids n s"
    and "t_drawn s + length as \<le> n" and "\<not> 255 < length (utf8_chars (c_function a))" and "a \<in> set (schedule s)"
  shows "\<exists>q \<in> set (queue (post_due C E lag j s as)). q_id q \<notin> q_id ` set (queue s) \<and> posts (q_posted q) a q \<and>
    t_clock s \<le> q_posted q \<and> q_posted q \<le> t_clock (post_due C E lag j s as) \<and>
    moved_on C (q_posted q) q a \<in> set (schedule (post_due C E lag j s as))"
  using assms
proof (induction as arbitrary: j s)
  case (Cons b as)
  let ?s = "elapse (lag j) s" and ?t = "schedule_one C E (elapse (lag j) s) b"
  have pre: "fresh_ids n ?s" "t_link ?s = None" "t_drawn ?s < n" using Cons.prems(4-6) by simp_all
  note one = schedule_one_frame [OF pre(1), where C = C and E = E and a = b]
  note rest = post_due_frame [OF one(4), of C E lag "Suc j" as]
  show ?case
  proof (cases "b = a")
    case True
    obtain q where q: "posts (t_clock ?s) a q" "q_id q \<notin> q_id ` set (queue ?s)"
      and t: "?t = ?s\<lparr>t_drawn := Suc (t_drawn ?s), queue := queue ?s @ [q],
        schedule := map (\<lambda>r. if c_id r = c_id a then r\<lparr>c_scheduled := next_fire C (t_clock ?s) a,
          c_completed := Some (t_clock ?s), c_task_id := Some (q_id q), c_locked := False\<rparr> else r) (schedule ?s)\<rparr>"
      using schedule_one_good [OF Cons.prems(3) pre(2,1,3) Cons.prems(7), of E] True by blast
    have at: "q_posted q = t_clock ?s" using q(1) unfolding posts_def by (metis queued_task.select_convs(5))
    have "q \<in> set (queue ?t)" "moved_on C (t_clock ?s) q a \<in> set (schedule ?t)"
      using Cons.prems(8) unfolding t by (auto simp: moved_on_def image_iff intro!: bexI [of _ a])
    moreover have "c_id (moved_on C (t_clock ?s) q a) \<notin> c_id ` set as"
      using Cons.prems(2) True by (simp add: moved_on_def)
    ultimately have "q \<in> set (queue (post_due C E lag j s (b # as)))"
      "moved_on C (t_clock ?s) q a \<in> set (schedule (post_due C E lag j s (b # as)))"
      using rest by auto
    moreover have "t_clock ?s \<le> t_clock (post_due C E lag j s (b # as))" using rest one(1) by (simp del: of_nat_sum sum.cl_ivl_Suc)
    ultimately show ?thesis using q at by (intro bexI [of _ q]) simp_all
  next
    case False
    then have a: "a \<in> set as" using Cons.prems(1) by simp
    then have a: "a \<in> set as" "c_id a \<noteq> c_id b" using Cons.prems(2) by (auto simp: image_iff)
    have "\<exists>q \<in> set (queue (post_due C E lag (Suc j) ?t as)). q_id q \<notin> q_id ` set (queue ?t) \<and> posts (q_posted q) a q \<and>
      t_clock ?t \<le> q_posted q \<and> q_posted q \<le> t_clock (post_due C E lag (Suc j) ?t as) \<and>
      moved_on C (q_posted q) q a \<in> set (schedule (post_due C E lag (Suc j) ?t as))"
    proof (rule Cons.IH [OF a(1) _ Cons.prems(3) _ one(4) _ Cons.prems(7)])
      show "distinct (map c_id as)" "t_link ?t = None" "t_drawn ?t + length as \<le> n" "a \<in> set (schedule ?t)"
        using Cons.prems(2,4,6,8) one(2,3) one(8) a(2) by simp_all
    qed
    then show ?thesis using one(1,7) by fastforce
  qed
qed simp

text \<open>A whole turn, nobody holding a row.\<close>

lemma timed_turn_facts:
  assumes "t_link s = None" and "fresh_ids n s" and "t_drawn s + length (schedule s) \<le> n"
    and "distinct (map c_id (schedule s))" and "(\<Sum>i \<le> length (schedule s). lag i) \<le> D" and "t = timed_turn C E lag [] s"
  shows "t_link t = None" "fresh_ids n t" "t_drawn t \<le> t_drawn s + length (schedule s)"
    "map c_id (schedule t) = map c_id (schedule s)" "map c_function (schedule t) = map c_function (schedule s)"
    "t_clock s \<le> t_clock t" "t_clock t \<le> t_clock s + int D" "set (queue s) \<subseteq> set (queue t)"
    "r \<in> set (schedule s) \<Longrightarrow> \<not> due [] s r \<Longrightarrow> r \<in> set (schedule t)"
    "r \<in> set (schedule s) \<Longrightarrow> due [] s r \<Longrightarrow> good C r \<Longrightarrow> \<not> 255 < length (utf8_chars (c_function r)) \<Longrightarrow>
      \<exists>q \<in> set (queue t). q_id q \<notin> q_id ` set (queue s) \<and> posts (q_posted q) r q \<and> t_clock s \<le> q_posted q \<and>
        q_posted q \<le> t_clock t \<and> moved_on C (q_posted q) q r \<in> set (schedule t)"
proof -
  define lock :: "scheduled_task \<Rightarrow> scheduled_task" where "lock = (\<lambda>r. r\<lparr>c_locked := True\<rparr>)"
  define u where "u = s\<lparr>schedule := map (\<lambda>r. if due [] s r then lock r else r) (schedule s)\<rparr>"
  define as where "as = map lock (filter (due [] s) (schedule s))"
  have t: "t = post_due C E lag 0 u as"
    using assms(1,6) by (simp add: timed_turn_def get_due_scheduled_task_def claim_due_scheduled_tasks_def u_def as_def lock_def
        cong: if_cong)
  have lock: "c_id (lock r) = c_id r" "c_function (lock r) = c_function r" "good C (lock r) = good C r" for r
    by (simp_all add: lock_def good_def)
  have len: "length as \<le> length (schedule s)" by (simp add: as_def)
  have u: "fresh_ids n u" "t_link u = None" "t_clock u = t_clock s" "t_drawn u = t_drawn s" "queue u = queue s"
    "map c_id (schedule u) = map c_id (schedule s)" "map c_function (schedule u) = map c_function (schedule s)"
    using assms(1,2) by (simp_all add: u_def fresh_ids_def lock)
  note frame = post_due_frame [OF u(1), of C E lag 0 as, folded t]
  have "{0..0 + length as} \<subseteq> {..length (schedule s)}" using len by auto
  then have lags: "(\<Sum>i \<in> {0..0 + length as}. lag i) \<le> D"
    by (rule order_trans [OF sum_mono2 [OF _ _ zero_le] assms(5), OF finite_atMost])
  show "t_link t = None" "fresh_ids n t" "t_drawn t \<le> t_drawn s + length (schedule s)"
    "map c_id (schedule t) = map c_id (schedule s)" "map c_function (schedule t) = map c_function (schedule s)"
    "set (queue s) \<subseteq> set (queue t)" "t_clock s \<le> t_clock t" "t_clock t \<le> t_clock s + int D"
    using frame u len lags by (simp_all del: of_nat_sum)
  have inj: "r = r'" if "r \<in> set (schedule s)" "r' \<in> set (schedule s)" "c_id r = c_id r'" for r r'
    using that assms(4) by (auto simp: distinct_map dest: inj_onD)
  show "r \<in> set (schedule t)" if r: "r \<in> set (schedule s)" "\<not> due [] s r"
  proof -
    have "r \<in> set (schedule u)" using r by (auto simp: u_def)
    moreover have "c_id r \<notin> c_id ` set as" using inj [OF r(1)] r(2) by (auto simp: as_def lock)
    ultimately show ?thesis using frame by blast
  qed
  show "\<exists>q \<in> set (queue t). q_id q \<notin> q_id ` set (queue s) \<and> posts (q_posted q) r q \<and> t_clock s \<le> q_posted q \<and>
      q_posted q \<le> t_clock t \<and> moved_on C (q_posted q) q r \<in> set (schedule t)"
    if r: "r \<in> set (schedule s)" "due [] s r" "good C r" "\<not> 255 < length (utf8_chars (c_function r))"
  proof -
    have mem: "lock r \<in> set as" "lock r \<in> set (schedule u)" using r(1,2) by (auto simp: as_def u_def)
    have "map c_id as = map c_id (filter (due [] s) (schedule s))" by (simp add: as_def lock o_def)
    then have dist: "distinct (map c_id as)" using assms(4) by (simp add: distinct_map_filter)
    have same: "posts now (lock r) q = posts now r q" "moved_on C now q (lock r) = moved_on C now q r" for now q
      by (simp_all add: posts_def moved_on_def next_fire_def lock_def)
    show ?thesis
      using post_due_posts [OF mem(1) dist _ u(2,1) _ _ mem(2), of C E lag 0] r(3,4) len assms(3) u(3-5)
      unfolding t [symmetric] by (simp add: lock same)
  qed
qed

section \<open>Schedules fire on time\<close>

text \<open>A database with room for the ids of so many turns.\<close>

definition ready :: "nat \<Rightarrow> nat \<Rightarrow> task_db \<Rightarrow> bool" where
  "ready n turns s \<longleftrightarrow> t_link s = None \<and> fresh_ids n s \<and> t_drawn s + turns * length (schedule s) \<le> n \<and>
     distinct (map c_id (schedule s)) \<and> (\<forall>f \<in> set (map c_function (schedule s)). \<not> 255 < length (utf8_chars f))"

text \<open>Turn \<open>k\<close> takes no more than so many microseconds, on a database with so many schedules.\<close>

definition turns_within :: "nat \<Rightarrow> (nat \<Rightarrow> nat \<Rightarrow> nat) \<Rightarrow> nat \<Rightarrow> bool" where
  "turns_within n lag D \<longleftrightarrow> (\<forall>k. (\<Sum>i \<le> n. lag k i) \<le> D)"

abbreviation poll :: "cron \<Rightarrow> error_text \<Rightarrow> (nat \<Rightarrow> nat) \<Rightarrow> nat \<Rightarrow> task_db \<Rightarrow> task_db" where
  "poll C E lag interval s \<equiv> sleep interval (timed_turn C E lag [] s)"

lemma ready_poll:
  assumes "ready n (Suc turns) s" and "turns_within (length (schedule s)) lag D" and "t = poll C E (lag k) interval s"
  shows "ready n turns t" and "length (schedule t) = length (schedule s)"
    and "t_clock s + int interval * 1000000 \<le> t_clock t" and "t_clock t \<le> t_clock s + int D + int interval * 1000000"
    and "set (queue s) \<subseteq> set (queue t)"
    and "r \<in> set (schedule s) \<Longrightarrow> \<not> due [] s r \<Longrightarrow> r \<in> set (schedule t)"
    and "r \<in> set (schedule s) \<Longrightarrow> due [] s r \<Longrightarrow> good C r \<Longrightarrow>
      \<exists>q \<in> set (queue t). q_id q \<notin> q_id ` set (queue s) \<and> posts (q_posted q) r q \<and> t_clock s \<le> q_posted q \<and>
        q_posted q \<le> t_clock s + int D \<and> moved_on C (q_posted q) q r \<in> set (schedule t)"
proof -
  have pre: "t_link s = None" "fresh_ids n s" "t_drawn s + length (schedule s) \<le> n" "distinct (map c_id (schedule s))"
    "(\<Sum>i \<le> length (schedule s). lag k i) \<le> D" "\<forall>f \<in> c_function ` set (schedule s). \<not> 255 < length (utf8_chars f)"
    using assms(1,2) by (auto simp: ready_def turns_within_def)
  note T = timed_turn_facts [OF pre(1-5) refl, where C = C and E = E]
  show len: "length (schedule t) = length (schedule s)" using T(4) unfolding assms(3) by (metis length_map sleep_simps(3))
  show "ready n turns t"
    using T(1-5) pre(4) len assms(1) unfolding assms(3) by (simp add: ready_def del: set_map)
  show "t_clock s + int interval * 1000000 \<le> t_clock t" "t_clock t \<le> t_clock s + int D + int interval * 1000000"
    "set (queue s) \<subseteq> set (queue t)" "r \<in> set (schedule s) \<Longrightarrow> \<not> due [] s r \<Longrightarrow> r \<in> set (schedule t)"
    using T(6-9) unfolding assms(3) by simp_all
  show "\<exists>q \<in> set (queue t). q_id q \<notin> q_id ` set (queue s) \<and> posts (q_posted q) r q \<and> t_clock s \<le> q_posted q \<and>
      q_posted q \<le> t_clock s + int D \<and> moved_on C (q_posted q) q r \<in> set (schedule t)"
    if r: "r \<in> set (schedule s)" "due [] s r" "good C r"
    using T(10) [OF r] T(7) pre(6) r(1) unfolding assms(3) by fastforce
qed

abbreviation alone :: world where
  "alone \<equiv> \<lambda>_ s. s"

lemma cycle_keeps_queue:
  "ready n turns s \<Longrightarrow> turns_within (length (schedule s)) lag D \<Longrightarrow>
    set (queue s) \<subseteq> set (queue (scheduler_cycle C E alone (\<lambda>_. []) lag interval k turns s))"
proof (induction turns arbitrary: k s)
  case (Suc turns)
  note p = ready_poll [OF Suc.prems refl, where C = C and E = E and k = k and interval = interval]
  show ?case using Suc.IH [OF p(1), of "Suc k"] p(2,5) Suc.prems(2) by fastforce
qed simp

text \<open>That a row is posted by turn \<open>m\<close> of so many, and no earlier.\<close>

definition fires :: "cron \<Rightarrow> nat \<Rightarrow> nat \<Rightarrow> (nat \<Rightarrow> task_db) \<Rightarrow> nat \<Rightarrow> scheduled_task \<Rightarrow> int \<Rightarrow> nat \<Rightarrow> bool" where
  "fires C D interval run turns r t m \<longleftrightarrow> m < turns \<and> (\<forall>j < m. t_clock (run j) < t) \<and> t \<le> t_clock (run m) \<and>
     (m = 0 \<or> t_clock (run m) < t + int D + int interval * 1000000) \<and> r \<in> set (schedule (run m)) \<and>
     (\<exists>q \<in> set (queue (run (Suc m))). q_id q \<notin> q_id ` set (queue (run m)) \<and> posts (q_posted q) r q \<and>
       t_clock (run m) \<le> q_posted q \<and> q_posted q \<le> t_clock (run m) + int D \<and>
       moved_on C (q_posted q) q r \<in> set (schedule (run (Suc m))) \<and> q \<in> set (queue (run turns)))"

lemma cycle_fires:
  "ready n turns s \<Longrightarrow> turns_within (length (schedule s)) lag D \<Longrightarrow> r \<in> set (schedule s) \<Longrightarrow> \<not> c_locked r \<Longrightarrow>
    c_scheduled r = Some t \<Longrightarrow> good C r \<Longrightarrow> t \<le> t_clock s + int (turns - 1) * (int interval * 1000000) \<Longrightarrow> 0 < turns \<Longrightarrow>
    \<exists>m. fires C D interval (\<lambda>j. scheduler_cycle C E alone (\<lambda>_. []) lag interval k j s) turns r t m"
proof (induction turns arbitrary: k s)
  case (Suc turns)
  let ?s = "poll C E (lag k) interval s" and ?run = "\<lambda>j. scheduler_cycle C E alone (\<lambda>_. []) lag interval k j s"
  let ?run' = "\<lambda>j. scheduler_cycle C E alone (\<lambda>_. []) lag interval (Suc k) j ?s"
  note p = ready_poll [OF Suc.prems(1,2) refl, where C = C and E = E and k = k and interval = interval]
  have within: "turns_within (length (schedule ?s)) lag D" using Suc.prems(2) p(2) by simp
  show ?case
  proof (cases "t \<le> t_clock s")
    case True
    then have "due [] s r" using Suc.prems(4,5) by (simp add: due_def)
    then obtain q where q: "q \<in> set (queue ?s)" "q_id q \<notin> q_id ` set (queue s)" "posts (q_posted q) r q"
      "t_clock s \<le> q_posted q" "q_posted q \<le> t_clock s + int D" "moved_on C (q_posted q) q r \<in> set (schedule ?s)"
      using p(7) [OF Suc.prems(3) _ Suc.prems(6)] by blast
    have "q \<in> set (queue (?run' turns))" using q(1) cycle_keeps_queue [OF p(1) within] by blast
    then show ?thesis using q True Suc.prems(3) by (intro exI [of _ 0]) (auto simp: fires_def)
  next
    case False
    then have nd: "\<not> due [] s r" using Suc.prems(5) by (simp add: due_def)
    have "0 < turns" using False Suc.prems(7) by (cases turns) auto
    moreover from this have "t \<le> t_clock ?s + int (turns - 1) * (int interval * 1000000)"
      using Suc.prems(7) p(3) by (cases turns) (simp_all add: algebra_simps)
    ultimately obtain m where "fires C D interval ?run' turns r t m"
      using Suc.IH [OF p(1) within p(6) [OF Suc.prems(3) nd] Suc.prems(4-6), of "Suc k"] by blast
    then have "fires C D interval ?run (Suc turns) r t (Suc m)"
      using False p(4) by (auto simp: fires_def less_Suc_eq_0_disj)
    then show ?thesis by blast
  qed
qed simp

text \<open>C12: A schedule fires at the first poll at or after the time it is due, and not before. While the scheduler
  polls undisturbed often enough, each of its turns taking up to a known time, an unlocked row with a
  well-formed cron text is untouched in the table up to the first turn that begins at or after its due time;
  that turn puts one new pending task of its function and parameters into the queue, where it stays,
  and moves the row on to the next firing, unlocked and naming the task. The task is posted at or after the
  due time and, unless the row was due before the first poll, less than one interval and two turns
  after it.\<close>

theorem schedules_fire_on_time:
  assumes "ready n turns s" and "turns_within (length (schedule s)) lag D" and "r \<in> set (schedule s)" and "\<not> c_locked r"
    and "c_scheduled r = Some t" and "is_ok (C (c_cron r))"
    and "t \<le> t_clock s + int (turns - 1) * (int interval * 1000000)" and "0 < turns"
    and "run = (\<lambda>j. scheduler_cycle C E (\<lambda>_ s. s) (\<lambda>_. []) lag interval 0 j s)"
  shows "\<exists>m < turns. (\<forall>j < m. t_clock (run j) < t) \<and> t \<le> t_clock (run m) \<and> r \<in> set (schedule (run m)) \<and>
    (\<exists>q \<in> set (queue (run (Suc m))). q_id q \<notin> q_id ` set (queue (run m)) \<and> q \<in> set (queue (run turns)) \<and>
      q_function q = c_function r \<and> q_params q = c_params r \<and> q_status q = ''pending'' \<and> \<not> q_locked q \<and>
      t \<le> q_posted q \<and> (m = 0 \<or> q_posted q < t + int interval * 1000000 + 2 * int D) \<and>
      r\<lparr>c_scheduled := next_fire C (q_posted q) r, c_completed := Some (q_posted q), c_task_id := Some (q_id q),
        c_locked := False\<rparr> \<in> set (schedule (run (Suc m))))"
proof -
  have "good C r" using assms(6) by (simp add: good_def)
  then obtain m where m: "fires C D interval run turns r t m"
    using cycle_fires [OF assms(1-5) _ assms(7,8), where E = E and k = 0] unfolding assms(9) by blast
  then obtain q where q: "q \<in> set (queue (run (Suc m)))" "posts (q_posted q) r q" "q_id q \<notin> q_id ` set (queue (run m))"
    "t_clock (run m) \<le> q_posted q" "q_posted q \<le> t_clock (run m) + int D" "q \<in> set (queue (run turns))"
    "moved_on C (q_posted q) q r \<in> set (schedule (run (Suc m)))"
    unfolding fires_def by blast
  have "q_function q = c_function r" "q_params q = c_params r" "q_status q = ''pending''" "\<not> q_locked q"
    using q(2) unfolding posts_def by (metis queued_task.select_convs)+
  then show ?thesis
    using m q by (intro exI [of _ m] conjI bexI [of _ q]) (auto simp: fires_def moved_on_def)
qed

definition daily_db :: task_db where
  "daily_db = \<lparr>queue = [], schedule = [\<lparr>c_id = 1, c_function = ''f'', c_params = JObj [], c_task_id = None,
     c_scheduled = Some 400000000, c_completed = None, c_cron = ''d'', c_locked = False\<rparr>],
     t_clock = 0, t_uuids = (\<lambda>k. of_nat k), t_drawn = 0, t_serial = 2, t_link = None\<rparr>"

text \<open>Each posting takes two milliseconds, each end of a turn one.\<close>

abbreviation daily_run :: "nat \<Rightarrow> task_db" where
  "daily_run j \<equiv> scheduler_cycle (\<lambda>_. Inr (\<lambda>t. Some (t + 1))) (\<lambda>c. c) (\<lambda>_ s. s) (\<lambda>_. [])
     (\<lambda>_ i. if i = 0 then 2000 else 1000) 300 0 j daily_db"

lemma schedules_fire_on_time_witness:
  "\<exists>m < 3. (\<forall>j < m. t_clock (daily_run j) < 400000000) \<and> hd (schedule daily_db) \<in> set (schedule (daily_run m)) \<and>
    (\<exists>q \<in> set (queue (daily_run 3)). q_function q = ''f'' \<and> 400000000 \<le> q_posted q \<and>
      (m = 0 \<or> q_posted q < 700006000))"
proof -
  let ?r = "hd (schedule daily_db)"
  have "inj_on (\<lambda>k. of_nat k :: uuid) {..<3}" by (auto simp: inj_on_def numeral_3_eq_3 less_Suc_eq)
  then have ready: "ready 3 3 daily_db" by (simp add: ready_def daily_db_def fresh_ids_def utf8_chars_def)
  have row: "?r \<in> set (schedule daily_db)" "\<not> c_locked ?r" "c_scheduled ?r = Some 400000000" by (simp_all add: daily_db_def)
  have within: "turns_within (length (schedule daily_db)) (\<lambda>_ i. if i = 0 then 2000 else 1000) 3000"
    by (simp add: turns_within_def daily_db_def)
  have time: "(400000000::int) \<le> t_clock daily_db + int (3 - 1) * (int 300 * 1000000)" by (simp add: daily_db_def)
  have cron: "is_ok ((\<lambda>_. Inr (\<lambda>t. Some (t + 1)) :: string + (int \<Rightarrow> int option)) (c_cron ?r))" by (simp add: is_ok_iff)
  have f: "c_function ?r = ''f''" by (simp add: daily_db_def)
  obtain m q where "m < 3" "\<forall>j < m. t_clock (daily_run j) < 400000000" "?r \<in> set (schedule (daily_run m))"
    "q \<in> set (queue (daily_run 3))" "q_function q = c_function ?r" "400000000 \<le> q_posted q"
    "m = 0 \<or> q_posted q < 400000000 + int 300 * 1000000 + 2 * int 3000"
    using schedules_fire_on_time [OF ready within row, of "\<lambda>_. Inr (\<lambda>t. Some (t + 1))", OF cron time _ refl, of "\<lambda>c. c"] by auto
  then show ?thesis using f by (intro exI [of _ m] conjI bexI [of _ q]) auto
qed

section \<open>A worker drains the queue\<close>

text \<open>A handler that runs to an end, with an outcome that depends on its parameters only, and to the database
  does nothing but take time.\<close>

definition steady :: "registry \<Rightarrow> (string \<Rightarrow> json \<Rightarrow> run_result) \<Rightarrow> string \<Rightarrow> bool" where
  "steady reg run f \<longleftrightarrow> (\<exists>h. reg f = Some h \<and> (\<forall>ps s. \<exists>d. h ps s = (run f ps, elapse d s)))"

definition finished :: "run_result \<Rightarrow> int \<Rightarrow> string queued_task \<Rightarrow> string queued_task" where
  "finished out now r = r\<lparr>q_locked := True, q_status := (if out = Panicked then ''exited'' else ''completed''),
     q_finished := Some now\<rparr>"

lemma finished_sel [simp]: "q_id (finished out now r) = q_id r" "q_locked (finished out now r)"
  by (simp_all add: finished_def)

lemma set_row_twice: "(\<And>r. q_id (g r) = q_id r) \<Longrightarrow> set_row i f (set_row i g rs) = set_row i (f \<circ> g) rs"
  by (simp add: set_row_def)

lemma worker_turn_runs:
  assumes "t_link s = None" and "distinct (map q_id (queue s))" and nx: "next_row [] s = Some r"
    and "task_status_try_from (q_status r) = Inr st" and "steady reg run (q_function r)"
  shows "\<exists>d. worker_turn reg [] s = (Ran (q_id r) (run (q_function r) (q_params r)),
    (elapse d s)\<lparr>queue := map (\<lambda>x. if x = r then finished (run (q_function r) (q_params r)) (t_clock s + int d) r else x)
      (queue s)\<rparr>)"
proof -
  let ?s = "s\<lparr>queue := set_row (q_id r) (\<lambda>r. r\<lparr>q_locked := True\<rparr>) (queue s)\<rparr>" and ?out = "run (q_function r) (q_params r)"
  obtain h d where h: "reg (q_function r) = Some h" "h (q_params r) ?s = (?out, elapse d ?s)"
    using assms(5) by (fastforce simp: steady_def)
  have mem: "r \<in> set (queue s)" using oldest_mem nx by (force simp: next_row_def)
  have one: "q_id x = q_id r \<longleftrightarrow> x = r" if "x \<in> set (queue s)" for x
    using that mem assms(2) by (auto simp: distinct_map dest: inj_onD)
  have sets: "set_row (q_id r) f (queue s) = map (\<lambda>x. if x = r then f r else x) (queue s)" for f
    using one by (auto simp: set_row_def)
  have twice: "set_row (q_id r) f (set_row (q_id r) (\<lambda>r. r\<lparr>q_locked := True\<rparr>) (queue s)) =
      map (\<lambda>x. if x = r then f (r\<lparr>q_locked := True\<rparr>) else x) (queue s)" for f
    by (subst set_row_twice) (simp_all add: sets)
  have fin: "finish_task (elapse d ?s) (q_id r) ?out =
    (elapse d s)\<lparr>queue := map (\<lambda>x. if x = r then finished ?out (t_clock s + int d) r else x) (queue s)\<rparr>"
    using assms(1)
    by (cases ?out) (simp_all add: finish_task_def mark_background_task_as_completed_def
        mark_background_task_as_exited_def mark_finished_def twice finished_def elapse_def)
  have "get_next_background_task [] s = (Inr (Some \<lparr>q_id = q_id r, q_function = q_function r,
      q_params = q_params r, q_status = st, q_posted = q_posted r, q_started = q_started r,
      q_finished = q_finished r, q_locked = True\<rparr>), ?s)"
    using assms(1,4) nx
    by (simp add: get_next_background_task_def get_next_task_def read_task_def task_from_row_def)
  then show ?thesis using h fin by (intro exI [of _ d]) (simp add: worker_turn_def)
qed

text \<open>What the run leaves of a row, between two times.\<close>

definition drained :: "(string \<Rightarrow> json \<Rightarrow> run_result) \<Rightarrow> int \<Rightarrow> int \<Rightarrow> string queued_task \<Rightarrow> string queued_task \<Rightarrow> bool" where
  "drained run before after r r' \<longleftrightarrow> (if q_locked r then r' = r
     else \<exists>now. before \<le> now \<and> now \<le> after \<and> r' = finished (run (q_function r) (q_params r)) now r)"

abbreviation waiting :: "task_db \<Rightarrow> string queued_task list" where
  "waiting s \<equiv> filter (\<lambda>r. \<not> q_locked r) (queue s)"

lemma waiting_after:
  assumes "distinct qs" and "r \<in> set qs" and "\<not> q_locked r"
  shows "mset (filter (\<lambda>r. \<not> q_locked r) qs) =
    add_mset r (mset (filter (\<lambda>r. \<not> q_locked r) (map (\<lambda>x. if x = r then finished out now r else x) qs)))"
  using assms
proof (induction qs)
  case (Cons x qs)
  show ?case
  proof (cases "x = r")
    case True
    then have "map (\<lambda>x. if x = r then finished out now r else x) qs = qs" using Cons.prems(1) by (intro map_idI) auto
    then show ?thesis using True Cons.prems(3) by simp
  next
    case False
    then show ?thesis using Cons by simp
  qed
qed simp

lemma drain_aux:
  assumes "length (waiting s) = n" and "t_link s = None" and "distinct (map q_id (queue s))"
    and "\<And>r. r \<in> set (waiting s) \<Longrightarrow> (\<exists>st. task_status_try_from (q_status r) = Inr st) \<and> steady reg run (q_function r)"
  shows "\<exists>rs t. worker_cycle reg (\<lambda>k. elapse (wait k)) (\<lambda>_. []) interval k (Suc n) s =
      (map (\<lambda>r. Ran (q_id r) (run (q_function r) (q_params r))) rs @ [Slept], t) \<and>
    mset rs = mset (waiting s) \<and> sorted (map q_posted rs) \<and> t_clock s \<le> t_clock t \<and>
    list_all2 (drained run (t_clock s) (t_clock t)) (queue s) (queue t)"
  using assms
proof (induction n arbitrary: s k)
  case 0
  let ?s = "elapse (wait k) s"
  have "next_row [] ?s = None" using 0(1) by (auto simp: next_row_def oldest_None filter_empty_conv)
  then have turn: "worker_turn reg [] ?s = (Slept, ?s)"
    using 0(2) by (simp add: worker_turn_def get_next_background_task_def get_next_task_def)
  have "list_all2 (drained run (t_clock s) (t_clock (sleep interval ?s))) (queue s) (queue (sleep interval ?s))"
    using 0(1) by (auto simp: list_all2_same drained_def filter_empty_conv)
  then show ?case using turn 0(1) by (intro exI [of _ "[]"] exI [of _ "sleep interval ?s"]) (simp add: Let_def)
next
  case (Suc n)
  let ?s = "elapse (wait k) s"
  have "waiting ?s \<noteq> []" using Suc.prems(1) by auto
  then obtain r where r: "next_row [] ?s = Some r" using oldest_None by (fastforce simp: next_row_def)
  then have mem: "r \<in> set (queue s)" "\<not> q_locked r" using oldest_mem by (force simp: next_row_def)+
  then obtain st where st: "task_status_try_from (q_status r) = Inr st" and q: "steady reg run (q_function r)"
    using Suc.prems(4) [of r] by auto
  let ?out = "run (q_function r) (q_params r)"
  have link: "t_link ?s = None" "distinct (map q_id (queue ?s))" using Suc.prems(2,3) by simp_all
  obtain d where turn: "worker_turn reg [] ?s = (Ran (q_id r) ?out, (elapse d ?s)\<lparr>queue :=
      map (\<lambda>x. if x = r then finished ?out (t_clock ?s + int d) r else x) (queue ?s)\<rparr>)"
    using worker_turn_runs [OF link r st q] by blast
  define u where "u = (elapse d ?s)\<lparr>queue := map (\<lambda>x. if x = r then finished ?out (t_clock ?s + int d) r else x) (queue ?s)\<rparr>"
  have dist: "distinct (queue s)" using Suc.prems(3) by (auto simp: distinct_map)
  have u: "t_link u = None" "t_clock u = t_clock ?s + int d"
    "queue u = map (\<lambda>x. if x = r then finished ?out (t_clock ?s + int d) r else x) (queue s)"
    "map q_id (queue u) = map q_id (queue s)"
    using Suc.prems(2) by (auto simp: u_def)
  note left = waiting_after [OF dist mem, where out = ?out and now = "t_clock ?s + int d", folded u(3)]
  have len: "length (waiting u) = n" using left Suc.prems(1) by (metis diff_Suc_1 size_add_mset size_mset)
  have sub: "set (waiting u) \<subseteq> set (waiting s)"
    using left by (metis set_mset_add_mset_insert set_mset_mset subset_insertI)
  obtain rs t where IH: "worker_cycle reg (\<lambda>k. elapse (wait k)) (\<lambda>_. []) interval (Suc k) (Suc n) u =
      (map (\<lambda>r. Ran (q_id r) (run (q_function r) (q_params r))) rs @ [Slept], t)"
    "mset rs = mset (waiting u)" "sorted (map q_posted rs)" "t_clock u \<le> t_clock t"
    and rows: "list_all2 (drained run (t_clock u) (t_clock t)) (queue u) (queue t)"
    using Suc.IH [OF len u(1) _ Suc.prems(4) [OF subsetD [OF sub]], of "Suc k"] Suc.prems(3) u(4) by auto
  have "q_posted r \<le> q_posted x" if "x \<in> set rs" for x
  proof -
    have "x \<in> set (waiting s)" using that mset_eq_setD [OF IH(2)] sub by blast
    then show ?thesis using oldest_le [of "waiting s" r x] r by (simp add: next_row_def)
  qed
  then have order: "sorted (map q_posted (r # rs))" using IH(3) by auto
  have "list_all2 (\<lambda>x x'. drained run (t_clock u) (t_clock t) (if x = r then finished ?out (t_clock ?s + int d) r else x) x')
      (queue s) (queue t)"
    using rows by (simp add: u(3) list_all2_map1)
  then have "list_all2 (drained run (t_clock s) (t_clock t)) (queue s) (queue t)"
  proof (rule list_all2_mono)
    fix x x' assume x: "drained run (t_clock u) (t_clock t) (if x = r then finished ?out (t_clock ?s + int d) r else x) x'"
    show "drained run (t_clock s) (t_clock t) x x'"
    proof (cases "x = r")
      case True
      then have "x' = finished ?out (t_clock u) r" using x u(2) by (simp add: drained_def)
      then show ?thesis using True mem(2) IH(4) u(2) by (auto simp: drained_def intro!: exI [of _ "t_clock u"])
    next
      case False
      have "t_clock s \<le> t_clock u" using u(2) by simp
      then show ?thesis using x False unfolding drained_def by (auto split: if_splits intro: order_trans)
    qed
  qed
  moreover have "worker_cycle reg (\<lambda>k. elapse (wait k)) (\<lambda>_. []) interval k (Suc (Suc n)) s =
      (map (\<lambda>r. Ran (q_id r) (run (q_function r) (q_params r))) (r # rs) @ [Slept], t)"
    by (subst worker_cycle.simps(2)) (simp only: turn [folded u_def] IH(1) Let_def prod.case turn.case list.map append_Cons)
  ultimately show ?case
    using IH(2,4) left order u(2) by (intro exI [of _ "r # rs"] exI [of _ t]) auto
qed

text \<open>C13: A worker alone on the queue, whose handlers return \<open>Ok\<close> or panic, runs every unlocked task, one in
  each turn and the oldest first, and then finds the queue empty and sleeps; the handlers, and whatever
  happens between the turns, may take any time. Each of these tasks ends locked, completed when its handler
  returned and exited when it panicked, with a finishing time during the run; nothing else of its row
  changes, and rows that were locked before are left alone.\<close>

theorem worker_drains_queue:
  assumes "t_link s = None" and "distinct (map q_id (queue s))"
    and "\<forall>r \<in> set (queue s). \<not> q_locked r \<longrightarrow>
      (\<exists>st. task_status_try_from (q_status r) = Inr st) \<and> steady reg run (q_function r) \<and>
      run (q_function r) (q_params r) \<in> {Returned (Inr ()), Panicked}"
    and "n = length (filter (\<lambda>r. \<not> q_locked r) (queue s))"
  shows "\<exists>rs t. worker_cycle reg (\<lambda>k. elapse (wait k)) (\<lambda>_. []) interval 0 (Suc n) s =
      (map (\<lambda>r. Ran (q_id r) (run (q_function r) (q_params r))) rs @ [Slept], t) \<and>
    mset rs = mset (filter (\<lambda>r. \<not> q_locked r) (queue s)) \<and> sorted (map q_posted rs) \<and>
    list_all2 (\<lambda>r r'. if q_locked r then r' = r
      else \<exists>now. t_clock s \<le> now \<and> now \<le> t_clock t \<and> r' = r\<lparr>q_locked := True,
        q_status := (if run (q_function r) (q_params r) = Returned (Inr ()) then ''completed'' else ''exited''),
        q_finished := Some now\<rparr>) (queue s) (queue t)"
proof -
  have pre: "(\<exists>st. task_status_try_from (q_status r) = Inr st) \<and> steady reg run (q_function r)"
    if "r \<in> set (waiting s)" for r using that assms(3) by auto
  obtain rs t where run: "worker_cycle reg (\<lambda>k. elapse (wait k)) (\<lambda>_. []) interval 0 (Suc n) s =
      (map (\<lambda>r. Ran (q_id r) (run (q_function r) (q_params r))) rs @ [Slept], t)"
    "mset rs = mset (waiting s)" "sorted (map q_posted rs)"
    and rows: "list_all2 (drained run (t_clock s) (t_clock t)) (queue s) (queue t)"
    using drain_aux [OF assms(4) [symmetric] assms(1,2) pre] by blast
  have "list_all2 (\<lambda>r r'. if q_locked r then r' = r
      else \<exists>now. t_clock s \<le> now \<and> now \<le> t_clock t \<and> r' = r\<lparr>q_locked := True,
        q_status := (if run (q_function r) (q_params r) = Returned (Inr ()) then ''completed'' else ''exited''),
        q_finished := Some now\<rparr>) (queue s) (queue t)"
    using rows by (rule list.rel_mono_strong) (use assms(3) in \<open>auto simp: drained_def finished_def split: if_splits\<close>)
  then show ?thesis using run by blast
qed

section \<open>A worker without a database\<close>

text \<open>When the connection is gone, a worker asks again at once, for ever: no turn sleeps. The scheduler
  waits for its interval.\<close>

lemma worker_spins_without_database:
  assumes "t_link s = Some e"
  shows "worker_cycle reg (\<lambda>_ s. s) busy interval k turns s = (replicate turns Failed, s)"
proof (induction turns arbitrary: k)
  case (Suc turns)
  have "worker_turn reg (busy k) s = (Failed, s)"
    using assms by (simp add: worker_turn_def get_next_background_task_def get_next_task_def)
  then show ?case using Suc [of "Suc k"] by (simp add: Let_def)
qed simp

lemma init_workers_handles:
  "worker_handles (init_workers p) = worker_handles p @ map (\<lambda>i. (i, wp_interval p)) [0..<worker_num p]"
proof -
  have "worker_handles (foldl (\<lambda>p i. p\<lparr>worker_handles := worker_handles p @ [(i, v)]\<rparr>) p is) =
      worker_handles p @ map (\<lambda>i. (i, v)) is" for p v "is"
    by (induction "is" arbitrary: p) simp_all
  then show ?thesis by (simp add: init_workers_def Let_def)
qed

end
