(* ===== verification/Task_Demo.thy ===== *)
theory Task_Demo
  imports Cycles
begin

text \<open>
  A small task database, registry and cron on which the properties of the queue, the workers and
  the scheduler are applied.
\<close>

section \<open>Instances\<close>

definition demo_row :: "uuid \<Rightarrow> string \<Rightarrow> int \<Rightarrow> bool \<Rightarrow> string queued_task" where
  "demo_row i f posted l = \<lparr>q_id = i, q_function = f, q_params = JObj [], q_status = ''pending'', q_posted = posted,
     q_started = None, q_finished = None, q_locked = l\<rparr>"

definition demo_schedule :: "int \<Rightarrow> string \<Rightarrow> int option \<Rightarrow> scheduled_task" where
  "demo_schedule i cs due_at = \<lparr>c_id = i, c_function = ''mail'', c_params = JObj [], c_task_id = None,
     c_scheduled = due_at, c_completed = None, c_cron = cs, c_locked = False\<rparr>"

definition demo_tasks :: task_db where
  "demo_tasks = \<lparr>queue = [demo_row 0 ''mail'' 5 False, demo_row 1 ''crash'' 3 False, demo_row 2 ''mail'' 1 True],
     schedule = [demo_schedule 1 ''every minute'' (Some 50), demo_schedule 2 ''nonsense'' (Some 60),
       demo_schedule 3 ''every minute'' (Some 500)],
     t_clock = 100, t_uuids = word_of_nat, t_drawn = 3, t_serial = 4, t_link = None\<rparr>"

definition demo_run :: "string \<Rightarrow> json \<Rightarrow> run_result" where
  "demo_run f ps = (if f = ''mail'' then Returned (Inr ()) else Panicked)"

definition demo_registry :: registry where
  "demo_registry f = (if f = ''mail'' \<or> f = ''crash'' then Some (\<lambda>ps s. (demo_run f ps, elapse 7 s)) else None)"

definition demo_cron :: cron where
  "demo_cron cs = (if cs = ''nonsense'' then Inl ''expected a field'' else Inr (\<lambda>now. Some (now + 60)))"

definition demo_pool :: pool where
  "demo_pool = \<lparr>base = demo_tasks, running = (\<lambda>_. None), started = []\<rparr>"

lemmas demo_defs = demo_row_def demo_schedule_def demo_tasks_def demo_run_def demo_registry_def
  demo_cron_def demo_pool_def

lemmas take_defs = get_next_background_task_def get_next_task_def next_row_def read_task_def
  task_from_row_def set_row_def res_bind_def map_err_def

lemma pending [simp]: "task_status_try_from ''pending'' = Inr Pending"
  by code_simp

lemma below: "{..<8::nat} = {0,1,2,3,4,5,6,7}" "{..<3::nat} = {0,1,2}"
  by auto

lemma demo_fresh: "fresh_ids 8 demo_tasks"
proof -
  have "inj_on (word_of_nat :: nat \<Rightarrow> 128 word) {..<8}" unfolding below by simp
  then show ?thesis by (simp add: fresh_ids_def demo_defs below)
qed

section \<open>The properties at work\<close>

definition posted_demo :: "(saps_error + bool) option \<times> task_db" where
  "posted_demo = post_task (\<lambda>c. c) (\<lambda>e. ''database'') Some demo_tasks ''mail''
     [(''to'', JStr ''ada''), (''retries'', JNum 3)]"

lemma posted_arguments_arrive_witness:
  "fst posted_demo = Some (Inr True) \<and>
   (\<exists>r. queue (snd posted_demo) = queue demo_tasks @ [r] \<and> q_id r \<notin> q_id ` set (queue demo_tasks) \<and>
     q_function r = ''mail'' \<and> q_status r = ''pending'' \<and> \<not> q_locked r \<and>
     extract_inputs Some [''to'', ''retries''] (q_params r) = Some [(''to'', JStr ''ada''), (''retries'', JNum 3)])"
proof -
  have ok: "fst posted_demo = Some (Inr True)"
    by (simp add: posted_demo_def post_task_def task_new_def t_draw_def insert_background_task_def
        insert_row_def task_to_row_def demo_defs utf8_chars_def)
  then have "post_task (\<lambda>c. c) (\<lambda>e. ''database'') Some demo_tasks ''mail''
     [(''to'', JStr ''ada''), (''retries'', JNum 3)] = (Some (Inr True), snd posted_demo)"
    unfolding posted_demo_def by (metis prod.collapse)
  from posted_arguments_arrive [OF this, of Some] ok show ?thesis by simp
qed

lemma tasks_start_at_most_once_witness:
  "\<exists>q. pool_reach demo_registry demo_pool q \<and> running q 0 = Some 1 \<and> running q 7 = Some 0 \<and>
    started q = [1, 0] \<and> distinct (started q) \<and> list_all (locked_in (base q)) (started q)"
proof -
  define lock where "lock = (\<lambda>r :: string queued_task. r\<lparr>q_locked := True\<rparr>)"
  define s1 where "s1 = demo_tasks\<lparr>queue := set_row 1 lock (queue demo_tasks)\<rparr>"
  define s2 where "s2 = s1\<lparr>queue := set_row 0 lock (queue s1)\<rparr>"
  define p1 where "p1 = demo_pool\<lparr>base := s1, running := (running demo_pool)(0 \<mapsto> 1), started := started demo_pool @ [1]\<rparr>"
  define p2 where "p2 = p1\<lparr>base := s2, running := (running p1)(7 \<mapsto> 0), started := started p1 @ [0]\<rparr>"
  obtain a where a: "get_next_background_task [] (base demo_pool) = (Inr (Some a), s1)"
      "q_id a = 1" "q_function a = ''crash''"
    by (simp add: take_defs demo_defs s1_def lock_def)
  obtain b where b: "get_next_background_task [] (base p1) = (Inr (Some b), s2)" "q_id b = 0" "q_function b = ''mail''"
    by (simp add: take_defs demo_defs s1_def s2_def p1_def lock_def)
  have "pool_step demo_registry demo_pool p1"
    unfolding p1_def a(2) [symmetric] using a by (intro pool_step.start) (simp_all add: demo_defs)
  moreover have "pool_step demo_registry p1 p2"
    unfolding p2_def b(2) [symmetric] using b by (intro pool_step.start) (simp_all add: demo_defs p1_def)
  ultimately have "pool_reach demo_registry demo_pool p2" by (blast intro: pool_reach.intros)
  moreover from tasks_start_at_most_once [OF this] have
    "distinct (started p2) \<and> list_all (locked_in (base p2)) (started p2)"
    by (simp add: demo_defs list_all_iff)
  moreover have "running p2 0 = Some 1" "running p2 7 = Some 0" "started p2 = [1, 0]"
    by (simp_all add: p2_def p1_def demo_pool_def)
  ultimately show ?thesis by blast
qed

text \<open>The handlers of this registry take seven microseconds, and three pass before each turn.\<close>

definition demo_drained :: "turn list \<times> task_db" where
  "demo_drained = worker_cycle demo_registry (\<lambda>_. elapse 3) (\<lambda>_. []) 10 0 3 demo_tasks"

lemma worker_drains_queue_witness:
  "fst demo_drained = [Ran 1 Panicked, Ran 0 (Returned (Inr ())), Slept] \<and>
   map (\<lambda>r. (q_status r, q_locked r)) (queue (snd demo_drained)) =
     [(''completed'', True), (''exited'', True), (''pending'', True)]"
proof -
  have steady: "steady demo_registry demo_run f" if "f = ''mail'' \<or> f = ''crash''" for f
    using that by (auto simp: steady_def demo_registry_def)
  have out: "demo_run f ps \<in> {Returned (Inr ()), Panicked}" for f ps by (simp add: demo_run_def)
  have "\<exists>rs t. worker_cycle demo_registry (\<lambda>k. elapse ((\<lambda>_. 3) k)) (\<lambda>_. []) 10 0 (Suc 2) demo_tasks =
      (map (\<lambda>r. Ran (q_id r) (demo_run (q_function r) (q_params r))) rs @ [Slept], t) \<and>
    mset rs = mset (filter (\<lambda>r. \<not> q_locked r) (queue demo_tasks)) \<and> sorted (map q_posted rs) \<and>
    list_all2 (\<lambda>r r'. if q_locked r then r' = r
      else \<exists>now. t_clock demo_tasks \<le> now \<and> now \<le> t_clock t \<and> r' = r\<lparr>q_locked := True,
        q_status := (if demo_run (q_function r) (q_params r) = Returned (Inr ()) then ''completed'' else ''exited''),
        q_finished := Some now\<rparr>) (queue demo_tasks) (queue t)"
    by (rule worker_drains_queue) (use out in \<open>simp_all add: steady demo_row_def demo_tasks_def\<close>)
  then obtain rs t where run: "demo_drained = (map (\<lambda>r. Ran (q_id r) (demo_run (q_function r) (q_params r))) rs @ [Slept], t)"
    "mset rs = {#demo_row 0 ''mail'' 5 False, demo_row 1 ''crash'' 3 False#}" "sorted (map q_posted rs)"
    and rows: "list_all2 (\<lambda>r r'. if q_locked r then r' = r
      else \<exists>now. t_clock demo_tasks \<le> now \<and> now \<le> t_clock t \<and> r' = r\<lparr>q_locked := True,
        q_status := (if demo_run (q_function r) (q_params r) = Returned (Inr ()) then ''completed'' else ''exited''),
        q_finished := Some now\<rparr>) (queue demo_tasks) (queue t)"
    by (auto simp: demo_drained_def demo_tasks_def demo_row_def numeral_3_eq_3 numeral_2_eq_2)
  have "length rs = 2" using run(2) by (metis size_mset size_add_mset size_empty One_nat_def Suc_1)
  then obtain a b where ab: "rs = [a, b]" by (auto simp: numeral_2_eq_2 length_Suc_conv)
  then have "a = demo_row 1 ''crash'' 3 False \<and> b = demo_row 0 ''mail'' 5 False"
    using run(2,3) by (auto simp: add_eq_conv_ex demo_row_def)
  then have "fst demo_drained = [Ran 1 Panicked, Ran 0 (Returned (Inr ())), Slept]"
    unfolding run(1) ab by (simp add: demo_row_def demo_run_def)
  moreover have "map (\<lambda>r. (q_status r, q_locked r)) (queue t) = [(''completed'', True), (''exited'', True), (''pending'', True)]"
    using rows by (auto simp: demo_tasks_def demo_row_def demo_run_def list_all2_Cons1)
  moreover have "snd demo_drained = t" unfolding run(1) by simp
  ultimately show ?thesis by simp
qed

lemma scheduler_turn_posts_due_witness:
  "\<exists>q. queue (scheduler_turn demo_cron (\<lambda>c. c) [] demo_tasks) = queue demo_tasks @ [q] \<and>
     posts 100 (demo_schedule 1 ''every minute'' (Some 50)) q \<and>
     schedule (scheduler_turn demo_cron (\<lambda>c. c) [] demo_tasks) =
       [moved_on demo_cron 100 q (demo_schedule 1 ''every minute'' (Some 50)),
        (demo_schedule 2 ''nonsense'' (Some 60))\<lparr>c_locked := True\<rparr>,
        demo_schedule 3 ''every minute'' (Some 500)]"
proof -
  define t where "t = scheduler_turn demo_cron (\<lambda>c. c) [] demo_tasks"
  have h: "t_link demo_tasks = None" "t_drawn demo_tasks + length (schedule demo_tasks) \<le> 8"
    "distinct (map c_id (schedule demo_tasks))"
    "\<forall>a \<in> set (schedule demo_tasks). \<not> 255 < length (utf8_chars (c_function a))"
    by (simp_all add: demo_tasks_def demo_schedule_def utf8_chars_def)
  note scheduler_turn_posts_due [OF h(1) demo_fresh h(2-4) t_def]
  then show ?thesis unfolding t_def [symmetric]
    by (fastforce simp: due_def good_def demo_tasks_def demo_schedule_def demo_cron_def posts_def
        list_all2_Cons1 split: if_splits)
qed

section \<open>Two edges of the queue\<close>

text \<open>\<open>claim_task\<close> hands out a row that a worker holds.\<close>

lemma claim_task_takes_a_locked_row:
  "\<exists>r. fst (claim_task [] demo_tasks ''mail'') = Inr (Some r) \<and> q_id r = 2 \<and> q_locked r"
  by (simp add: claim_task_def Let_def demo_defs)

text \<open>A task without a handler is left locked and pending, and later turns do not see it.\<close>

lemma unregistered_task_stays_locked:
  "fst (worker_turn (\<lambda>f. None) [] demo_tasks) = Unregistered 1 \<and>
   (let s = snd (worker_turn (\<lambda>f. None) [] demo_tasks); t = snd (worker_turn demo_registry [] s)
    in map (\<lambda>r. (q_id r, q_status r, q_locked r)) (queue t) =
         [(0, ''completed'', True), (1, ''pending'', True), (2, ''pending'', True)] \<and>
       fst (worker_turn demo_registry [] t) = Slept)"
  by (simp add: worker_turn_def take_defs demo_defs finish_task_def
      mark_background_task_as_completed_def mark_finished_def)

end
