(* ===== verification/Frontend.thy ===== *)
theory Frontend
  imports Prelude
begin

text \<open>
  \<open>src/macros/frontend/src/lib.rs\<close>: what the code that \<open>mount_frontend!\<close> generates answers to a GET
  request. The embedded files are a map from relative paths to bytes (\<open>RustEmbed\<close>), the guess of a MIME
  type from a path is a parameter (\<open>mime_guess\<close>), and the routes the application mounted before are a
  map from paths to responses. Bytes are characters.
\<close>

section \<open>The macro's arguments\<close>

fun decimal :: "nat \<Rightarrow> string" where
  "decimal n = (if n < 10 then [char_of (48 + n)] else decimal (n div 10) @ [char_of (48 + n mod 10)])"

declare decimal.simps [simp del]

definition cache_header_value :: "nat \<Rightarrow> string" where
  "cache_header_value cache_value = ''public, max-age='' @ decimal cache_value"

text \<open>\<open>None\<close> is a panic at expansion time: the literal is no \<open>u64\<close>, or the folder does not exist.\<close>

definition cache_lit :: "int \<Rightarrow> string option" where
  "cache_lit cache_seconds =
     (if 0 \<le> cache_seconds \<and> cache_seconds < 2 ^ 64
      then Some (cache_header_value (nat cache_seconds)) else None)"

section \<open>Responses\<close>

record web_response =
  w_status :: nat
  w_content_type :: "string option"
  w_cache_control :: "string option"
  w_body :: string

definition plain_response :: "nat \<Rightarrow> string \<Rightarrow> web_response" where
  "plain_response code text = \<lparr>w_status = code, w_content_type = None, w_cache_control = None, w_body = text\<rparr>"

text \<open>\<open>HeaderValue::from_str\<close>: no control characters but the tab.\<close>

definition header_value :: "string \<Rightarrow> string option" where
  "header_value s =
     (if list_all (\<lambda>c. (of_char c :: nat) \<ge> 32 \<and> (of_char c :: nat) \<noteq> 127 \<or> (of_char c :: nat) = 9) s
      then Some s else None)"

type_synonym assets = "string \<Rightarrow> string option"

definition ends_with :: "string \<Rightarrow> string \<Rightarrow> bool" where
  "ends_with s t = suffix t s"

definition embedded_file_response :: "(string \<Rightarrow> string) \<Rightarrow> string \<Rightarrow> assets \<Rightarrow> string \<Rightarrow> web_response option" where
  "embedded_file_response mime_guess cache_value embedded path =
     (case embedded path of
        None \<Rightarrow> None
      | Some bytes \<Rightarrow>
          let mime = (if ends_with path ''.wasm'' then ''application/wasm'' else mime_guess path) in
          (case header_value mime of
             None \<Rightarrow> None
           | Some content_type \<Rightarrow>
               let cache = (if path = ''index.html'' then ''no-cache'' else cache_value) in
               Some \<lparr>w_status = 200, w_content_type = Some content_type, w_cache_control = Some cache,
                 w_body = bytes\<rparr>))"

definition index :: "(string \<Rightarrow> string) \<Rightarrow> string \<Rightarrow> assets \<Rightarrow> web_response" where
  "index mime_guess cache_value embedded =
     (case embedded_file_response mime_guess cache_value embedded ''index.html'' of
        Some resp \<Rightarrow> resp
      | None \<Rightarrow> plain_response 500 ''index.html missing from embedded assets'')"

text \<open>\<open>str::rsplit_once\<close>.\<close>

definition rsplit_once :: "char \<Rightarrow> string \<Rightarrow> (string \<times> string) option" where
  "rsplit_once c s = map_option (\<lambda>(a, b). (rev b, rev a)) (split_once c (rev s))"

definition static_or_spa_fallback :: "(string \<Rightarrow> string) \<Rightarrow> string \<Rightarrow> assets \<Rightarrow> string \<Rightarrow> web_response" where
  "static_or_spa_fallback mime_guess cache_value embedded uri_path =
     (let path = dropWhile (\<lambda>c. c = CHR ''/'') uri_path in
      if prefix ''/api/'' uri_path then plain_response 404 ''Not Found''
      else if path = [] then index mime_guess cache_value embedded
      else (case embedded_file_response mime_guess cache_value embedded path of
          Some resp \<Rightarrow> resp
        | None \<Rightarrow>
            if rsplit_once CHR ''.'' path \<noteq> None then plain_response 404 ''404 Not Found''
            else index mime_guess cache_value embedded))"

text \<open>The router after the macro: what the application has mounted wins, then \<open>/\<close>, then the fallback.\<close>

definition mount_routes :: "(string \<Rightarrow> string) \<Rightarrow> string \<Rightarrow> assets \<Rightarrow>
    (string \<Rightarrow> web_response option) \<Rightarrow> string \<Rightarrow> web_response" where
  "mount_routes mime_guess cache_value embedded app uri_path =
     (case app uri_path of
        Some resp \<Rightarrow> resp
      | None \<Rightarrow>
          if uri_path = ''/'' then index mime_guess cache_value embedded
          else static_or_spa_fallback mime_guess cache_value embedded uri_path)"

definition mount_frontend :: "(string \<Rightarrow> string) \<Rightarrow> (string \<Rightarrow> assets option) \<Rightarrow> string \<Rightarrow> int \<Rightarrow>
    (string \<Rightarrow> web_response option) \<Rightarrow> (string \<Rightarrow> web_response) option" where
  "mount_frontend mime_guess folders path cache_seconds app =
     (case cache_lit cache_seconds of
        None \<Rightarrow> None
      | Some cache_value \<Rightarrow>
          (case folders path of
             None \<Rightarrow> None
           | Some embedded \<Rightarrow> Some (mount_routes mime_guess cache_value embedded app)))"

section \<open>What is served\<close>

lemma rsplit_once_None: "rsplit_once c s = None \<longleftrightarrow> c \<notin> set s"
  by (simp add: rsplit_once_def split_once_None)

lemma split_once_content: "split_once c s = Some (a, b) \<Longrightarrow> s = a @ c # b"
  by (simp add: split_once_Some)

lemma embedded_None: "embedded path = None \<Longrightarrow> embedded_file_response mg cv embedded path = None"
  by (simp add: embedded_file_response_def)

lemma embedded_status: "embedded_file_response mg cv embedded path = Some r \<Longrightarrow> w_status r = 200"
  by (auto simp: embedded_file_response_def Let_def split: option.splits if_splits)

abbreviation served :: "string \<Rightarrow> string \<Rightarrow> string \<Rightarrow> web_response" where
  "served mime cache bytes \<equiv>
     \<lparr>w_status = 200, w_content_type = Some mime, w_cache_control = Some cache, w_body = bytes\<rparr>"

lemma embedded_Some:
  assumes "embedded path = Some bytes" and "header_value (mime_guess path) \<noteq> None"
  shows "embedded_file_response mime_guess cv embedded path =
    Some (served (if ends_with path ''.wasm'' then ''application/wasm'' else mime_guess path)
      (if path = ''index.html'' then ''no-cache'' else cv) bytes)"
proof -
  have "header_value (mime_guess path) = Some (mime_guess path)"
    using assms(2) by (simp add: header_value_def split: if_split_asm)
  moreover have "header_value ''application/wasm'' = Some ''application/wasm''" by (simp add: header_value_def)
  ultimately show ?thesis using assms(1) by (simp add: embedded_file_response_def)
qed

lemma index_home:
  assumes "embedded ''index.html'' = Some home" and "header_value (mime_guess ''index.html'') \<noteq> None"
  shows "index mime_guess cv embedded = served (mime_guess ''index.html'') ''no-cache'' home"
proof -
  have "\<not> ends_with ''index.html'' ''.wasm''" by (simp add: ends_with_def suffix_to_prefix)
  then show ?thesis
    unfolding index_def embedded_Some [of embedded "''index.html''" home mime_guess cv, OF assms] by simp
qed

lemma frontend_cascade:
  assumes "mount_frontend mime_guess folders path secs app = Some serve" and "app uri = None"
    and "folders path = Some embedded" and "p = dropWhile (\<lambda>c. c = CHR ''/'') uri"
    and "embedded ''index.html'' = Some home" and "\<forall>f. header_value (mime_guess f) \<noteq> None"
  shows "serve uri =
    (if prefix ''/api/'' uri then plain_response 404 ''Not Found''
     else if p \<notin> {[], ''index.html''} \<and> embedded p \<noteq> None then
       served (if ends_with p ''.wasm'' then ''application/wasm'' else mime_guess p)
         (cache_header_value (nat secs)) (the (embedded p))
     else if p \<noteq> ''index.html'' \<and> CHR ''.'' \<in> set p then plain_response 404 ''404 Not Found''
     else served (mime_guess ''index.html'') ''no-cache'' home)"
proof -
  let ?cv = "cache_header_value (nat secs)"
  have serve: "serve uri = (if uri = ''/'' then index mime_guess ?cv embedded
      else static_or_spa_fallback mime_guess ?cv embedded uri)"
    using assms(1-3) by (auto simp: mount_frontend_def mount_routes_def cache_lit_def split: if_split_asm)
  note home = index_home [of embedded home mime_guess ?cv, OF assms(5) assms(6) [rule_format]]
  have file_resp: "embedded_file_response mime_guess ?cv embedded p = (case embedded p of None \<Rightarrow> None
      | Some bytes \<Rightarrow> Some (served (if ends_with p ''.wasm'' then ''application/wasm'' else mime_guess p)
          (if p = ''index.html'' then ''no-cache'' else ?cv) bytes))"
    using embedded_Some [of embedded p _ mime_guess ?cv, OF _ assms(6) [rule_format]] embedded_None
    by (auto split: option.split)
  have wasm: "\<not> ends_with ''index.html'' ''.wasm''" by (simp add: ends_with_def suffix_to_prefix)
  show ?thesis
  proof (cases "uri = ''/''")
    case True
    then have "p = []" "\<not> prefix ''/api/'' uri" using assms(4) by simp_all
    then show ?thesis using True serve home by simp
  next
    case False
    then show ?thesis
      using serve home file_resp wasm assms(5)
      unfolding static_or_spa_fallback_def Let_def assms(4) [symmetric] rsplit_once_None
      by (cases "embedded p"; cases "p = ''index.html''") simp_all
  qed
qed

text \<open>What follows the last slash.\<close>

definition last_segment :: "string \<Rightarrow> string" where
  "last_segment p = last (split_on CHR ''/'' p)"

lemma set_split_on: "x \<in> set (split_on c s) \<Longrightarrow> set x \<subseteq> set s"
  by (induction s arbitrary: x) (fastforce split: list.splits if_splits)+

lemma set_last_segment: "set (last_segment p) \<subseteq> set p"
  unfolding last_segment_def by (rule set_split_on [of _ "CHR ''/''"]) simp

text \<open>C40: A mounted frontend answers every path no route of the application takes. A path under \<open>/api/\<close> gets 404.
  A path that names an embedded file gets its bytes, its type and the cache time the macro was given. A
  path that names none gets 404 when its last segment has a dot; it gets \<open>index.html\<close> when it has no dot
  and is not beneath \<open>api\<close>, as does the root, and \<open>index.html\<close> is never cached.\<close>

theorem mounted_frontend_answers:
  assumes "mount_frontend mime_guess folders path secs app = Some serve" and "app uri = None"
    and "folders path = Some embedded" and "p = dropWhile (\<lambda>c. c = CHR ''/'') uri"
    and "embedded ''index.html'' = Some home" and "\<forall>f. header_value (mime_guess f) \<noteq> None"
  shows "(prefix ''/api/'' uri \<longrightarrow> w_status (serve uri) = 404)
    \<and> (\<forall>bytes. \<not> prefix ''/api/'' uri \<longrightarrow> p \<notin> {[], ''index.html''} \<longrightarrow> embedded p = Some bytes \<longrightarrow>
        serve uri = served (if ends_with p ''.wasm'' then ''application/wasm'' else mime_guess p)
          (cache_header_value (nat secs)) bytes)
    \<and> (embedded p = None \<longrightarrow> CHR ''.'' \<in> set (last_segment p) \<longrightarrow> w_status (serve uri) = 404)
    \<and> (\<not> prefix ''api/'' p \<longrightarrow> p \<in> {[], ''index.html''} \<or> embedded p = None \<and> CHR ''.'' \<notin> set p \<longrightarrow>
        serve uri = served (mime_guess ''index.html'') ''no-cache'' home)"
proof -
  have cascade: "serve uri =
    (if prefix ''/api/'' uri then plain_response 404 ''Not Found''
     else if p \<notin> {[], ''index.html''} \<and> embedded p \<noteq> None then
       served (if ends_with p ''.wasm'' then ''application/wasm'' else mime_guess p)
         (cache_header_value (nat secs)) (the (embedded p))
     else if p \<noteq> ''index.html'' \<and> CHR ''.'' \<in> set p then plain_response 404 ''404 Not Found''
     else served (mime_guess ''index.html'') ''no-cache'' home)"
    by (rule frontend_cascade [OF assms])
  have "p \<noteq> ''index.html''" if "embedded p = None" using that assms(5) by auto
  moreover have "prefix ''api/'' p" if "prefix ''/api/'' uri" using that assms(4) by (auto simp: prefix_def)
  ultimately show ?thesis using set_last_segment [of p] unfolding cascade
    by (auto simp: plain_response_def split: if_splits)
qed

lemma mounted_frontend_answers_witness:
  "(case mount_frontend (\<lambda>_. ''text/html'') (\<lambda>_. Some [''index.html'' \<mapsto> ''x'']) ''dist'' 60 (\<lambda>_. None) of
     Some serve \<Rightarrow> serve ''/users'' = served ''text/html'' ''no-cache'' ''x'' \<and>
       w_status (serve ''/main.js'') = 404 \<and> w_status (serve ''/api/users'') = 404
   | None \<Rightarrow> False)"
proof -
  let ?files = "[''index.html'' \<mapsto> ''x'']"
  obtain serve where serve: "mount_frontend (\<lambda>_. ''text/html'') (\<lambda>_. Some ?files) ''dist'' 60 (\<lambda>_. None) =
      Some serve" by (simp add: mount_frontend_def cache_lit_def)
  note answers = mounted_frontend_answers [OF serve, where embedded = ?files and home = "''x''"]
  have "serve ''/users'' = served ''text/html'' ''no-cache'' ''x''"
    using answers [where uri = "''/users''" and p = "''users''"] by (simp add: header_value_def)
  moreover have "w_status (serve ''/main.js'') = 404"
    using answers [where uri = "''/main.js''" and p = "''main.js''"] by (simp add: header_value_def last_segment_def)
  moreover have "w_status (serve ''/api/users'') = 404"
    using answers [where uri = "''/api/users''" and p = "''api/users''"] by (simp add: header_value_def)
  ultimately show ?thesis using serve by simp
qed

text \<open>The test for a file name looks at the whole path, not at its last segment.\<close>

lemma dotted_folder_is_not_found:
  "static_or_spa_fallback (\<lambda>_. ''text/html'') (cache_header_value 60) [''index.html'' \<mapsto> ''x''] ''/v1.2/users'' =
    plain_response 404 ''404 Not Found''"
  by (simp add: static_or_spa_fallback_def Let_def embedded_file_response_def rsplit_once_None)

text \<open>A second slash in front hides an API path from the test for one.\<close>

lemma doubled_slash_serves_index:
  "static_or_spa_fallback (\<lambda>_. ''text/html'') (cache_header_value 60) [''index.html'' \<mapsto> ''x''] ''//api/users'' =
    served ''text/html'' ''no-cache'' ''x''"
  by (simp add: static_or_spa_fallback_def Let_def embedded_file_response_def rsplit_once_None index_def
      header_value_def ends_with_def suffix_to_prefix)

end
