(* ===== verification/Sql_Schema.thy ===== *)
theory Sql_Schema
  imports Tasks
begin

text \<open>
  The statements of PostgreSQL that the migrations use, on a database of typed tables: schemas, tables
  with their columns and rows, indexes and stored procedures by name. A statement fails with an
  SQLSTATE code or gives a new database; a script sent in one message is one transaction. \<open>NOW()\<close> is
  the time of that transaction.
\<close>

section \<open>Types and values\<close>

datatype sql_type = TUuid | TVarchar "nat option" | TTimestamp | TJsonb | TBoolean | TInteger

datatype sql_value =
    VNull
  | VUuid uuid
  | VText string
  | VTime int
  | VJson json
  | VBool bool
  | VInt int

fun of_type :: "sql_type \<Rightarrow> sql_value \<Rightarrow> bool" where
  "of_type _ VNull = True"
| "of_type TUuid (VUuid _) = True"
| "of_type (TVarchar m) (VText t) = (case m of None \<Rightarrow> True | Some n \<Rightarrow> length (utf8_chars t) \<le> n)"
| "of_type TTimestamp (VTime _) = True"
| "of_type TJsonb (VJson _) = True"
| "of_type TBoolean (VBool _) = True"
| "of_type TInteger (VInt _) = True"
| "of_type _ _ = False"

datatype sql_default = GenRandomUuid | DefaultNow | Constant sql_value | NextVal

record column =
  cn_name :: string
  cn_type :: sql_type
  cn_not_null :: bool
  cn_default :: "sql_default option"

type_synonym sql_row = "string \<rightharpoonup> sql_value"

text \<open>\<open>tb_serial\<close> is the next value of the sequence a \<open>SERIAL\<close> column owns.\<close>

record sql_table =
  tb_columns :: "column list"
  tb_key :: string
  tb_rows :: "sql_row list"
  tb_serial :: int

record sql_index =
  ix_table :: string
  ix_column :: string
  ix_where :: "(string \<times> sql_value) option"

text \<open>A stored procedure, known by its name and the types of its arguments, with the names of those and
  the table whose rows it returns. Its body is modelled where it is used.\<close>

record sql_function =
  fn_params :: "string list"
  fn_setof :: bool
  fn_returns :: string

record pg =
  pg_schemas :: "string list"
  pg_tables :: "string \<rightharpoonup> sql_table"
  pg_indexes :: "string \<rightharpoonup> sql_index"
  pg_functions :: "string \<times> sql_type list \<rightharpoonup> sql_function"
  pg_now :: int
  pg_uuids :: "nat \<Rightarrow> uuid"
  pg_drawn :: nat
  pg_link :: "sqlx_error option"

section \<open>Statements\<close>

datatype statement =
    CreateSchema string
  | CreateTable bool string string "column list"
  | DropTableCascade string
  | AddColumn string column
  | FillNulls string string string
  | SetNotNull string string
  | SetDefault string string sql_default
  | CreateIndex bool string string string "(string \<times> sql_value) option"
  | CreateFunction string "(string \<times> sql_type) list" bool string

definition schema_of :: "string \<Rightarrow> string" where
  "schema_of n = takeWhile (\<lambda>c. c \<noteq> CHR ''.'') n"

text \<open>Tables and indexes of a schema share their names.\<close>

definition relation_exists :: "pg \<Rightarrow> string \<Rightarrow> bool" where
  "relation_exists s n \<longleftrightarrow> pg_tables s n \<noteq> None \<or> pg_indexes s n \<noteq> None"

definition column_names :: "sql_table \<Rightarrow> string list" where
  "column_names t = map cn_name (tb_columns t)"

definition set_column :: "string \<Rightarrow> (column \<Rightarrow> column) \<Rightarrow> sql_table \<Rightarrow> sql_table" where
  "set_column c f t = t\<lparr>tb_columns := map (\<lambda>k. if cn_name k = c then f k else k) (tb_columns t)\<rparr>"

definition put_table :: "string \<Rightarrow> sql_table \<Rightarrow> pg \<Rightarrow> pg" where
  "put_table n t s = s\<lparr>pg_tables := (pg_tables s)(n \<mapsto> t)\<rparr>"

definition on_table :: "pg \<Rightarrow> string \<Rightarrow> (sql_table \<Rightarrow> string + pg) \<Rightarrow> string + pg" where
  "on_table s n f = (case pg_tables s n of None \<Rightarrow> Inl ''42P01'' | Some t \<Rightarrow> f t)"

text \<open>The values a new column gives to \<open>n\<close> rows, with the numbers of UUIDs and of serials drawn.\<close>

definition default_values :: "pg \<Rightarrow> sql_table \<Rightarrow> sql_default option \<Rightarrow> nat \<Rightarrow> sql_value list \<times> nat \<times> nat" where
  "default_values s t d n =
     (case d of
        None \<Rightarrow> (replicate n VNull, 0, 0)
      | Some (Constant v) \<Rightarrow> (replicate n v, 0, 0)
      | Some DefaultNow \<Rightarrow> (replicate n (VTime (pg_now s)), 0, 0)
      | Some GenRandomUuid \<Rightarrow> (map (\<lambda>k. VUuid (pg_uuids s (pg_drawn s + k))) [0..<n], n, 0)
      | Some NextVal \<Rightarrow> (map (\<lambda>k. VInt (tb_serial t + int k)) [0..<n], 0, n))"

definition add_column :: "pg \<Rightarrow> string \<Rightarrow> sql_table \<Rightarrow> column \<Rightarrow> string + pg" where
  "add_column s n t c =
     (case default_values s t (cn_default c) (length (tb_rows t)) of (vs, u, k) \<Rightarrow>
        if cn_not_null c \<and> VNull \<in> set vs then Inl ''23502''
        else if \<not> list_all (of_type (cn_type c)) vs then Inl ''42804''
        else Inr (put_table n
          (t\<lparr>tb_columns := tb_columns t @ [c], tb_rows := map2 (\<lambda>r v. r(cn_name c \<mapsto> v)) (tb_rows t) vs,
             tb_serial := tb_serial t + int k\<rparr>) (s\<lparr>pg_drawn := pg_drawn s + u\<rparr>)))"

definition column_of :: "sql_table \<Rightarrow> string \<Rightarrow> column option" where
  "column_of t c = find (\<lambda>k. cn_name k = c) (tb_columns t)"

fun exec :: "pg \<Rightarrow> statement \<Rightarrow> string + pg" where
  "exec s (CreateSchema n) =
     Inr (if n \<in> set (pg_schemas s) then s else s\<lparr>pg_schemas := pg_schemas s @ [n]\<rparr>)"
| "exec s (CreateTable if_not_exists n key cs) =
     (if schema_of n \<notin> set (pg_schemas s) then Inl ''3F000''
      else if relation_exists s n then (if if_not_exists then Inr s else Inl ''42P07'')
      else Inr (put_table n \<lparr>tb_columns = cs, tb_key = key, tb_rows = [], tb_serial = 1\<rparr> s))"
| "exec s (DropTableCascade n) =
     (case pg_tables s n of
        None \<Rightarrow> Inr s
      | Some _ \<Rightarrow> Inr (s\<lparr>pg_tables := (pg_tables s)(n := None),
          pg_indexes := (\<lambda>i. Option.bind (pg_indexes s i) (\<lambda>x. if ix_table x = n then None else Some x)),
          pg_functions := (\<lambda>f. Option.bind (pg_functions s f) (\<lambda>x. if fn_returns x = n then None else Some x))\<rparr>))"
| "exec s (AddColumn n c) = on_table s n (\<lambda>t.
     if cn_name c \<in> set (column_names t) then Inr s else add_column s n t c)"
| "exec s (FillNulls n c c') = on_table s n (\<lambda>t.
     case (column_of t c, column_of t c') of
       (Some k, Some k') \<Rightarrow>
         if cn_type k \<noteq> cn_type k' then Inl ''42804''
         else (let rs = map (\<lambda>r. if r c = Some VNull then r(c := r c') else r) (tb_rows t) in
           if distinct (map (\<lambda>r. r (tb_key t)) rs) then Inr (put_table n (t\<lparr>tb_rows := rs\<rparr>) s)
           else Inl ''23505'')
     | _ \<Rightarrow> Inl ''42703'')"
| "exec s (SetNotNull n c) = on_table s n (\<lambda>t.
     if c \<notin> set (column_names t) then Inl ''42703''
     else if \<exists>r \<in> set (tb_rows t). r c = Some VNull then Inl ''23502''
     else Inr (put_table n (set_column c (\<lambda>k. k\<lparr>cn_not_null := True\<rparr>) t) s))"
| "exec s (SetDefault n c d) = on_table s n (\<lambda>t.
     if c \<notin> set (column_names t) then Inl ''42703''
     else Inr (put_table n (set_column c (\<lambda>k. k\<lparr>cn_default := Some d\<rparr>) t) s))"
| "exec s (CreateIndex if_not_exists n tn c w) = on_table s tn (\<lambda>t.
     if c \<notin> set (column_names t) \<or> (case w of None \<Rightarrow> False | Some (k, _) \<Rightarrow> k \<notin> set (column_names t))
       then Inl ''42703''
     else if relation_exists s n then (if if_not_exists then Inr s else Inl ''42P07'')
     else Inr (s\<lparr>pg_indexes := (pg_indexes s)(n \<mapsto> \<lparr>ix_table = tn, ix_column = c, ix_where = w\<rparr>)\<rparr>))"
| "exec s (CreateFunction n ps setof ret) =
     (if schema_of n \<notin> set (pg_schemas s) then Inl ''3F000''
      else if pg_tables s ret = None then Inl ''42704''
      else (let g = \<lparr>fn_params = map fst ps, fn_setof = setof, fn_returns = ret\<rparr>; k = (n, map snd ps) in
        case pg_functions s k of
          Some h \<Rightarrow> if h = g then Inr s else Inl ''42P13''
        | None \<Rightarrow> Inr (s\<lparr>pg_functions := (pg_functions s)(k \<mapsto> g)\<rparr>)))"

fun run_script :: "pg \<Rightarrow> statement list \<Rightarrow> string + pg" where
  "run_script s [] = Inr s"
| "run_script s (q # qs) = res_bind (exec s q) (\<lambda>s'. run_script s' qs)"

text \<open>\<open>pool.execute(sql)\<close>: the statements of one message are one transaction.\<close>

definition pg_execute :: "error_text \<Rightarrow> pg \<Rightarrow> statement list \<Rightarrow> (sqlx_error + unit) \<times> pg" where
  "pg_execute E s script =
     (case pg_link s of
        Some e \<Rightarrow> (Inl e, s)
      | None \<Rightarrow>
          (case run_script s script of
             Inl c \<Rightarrow> (Inl (task_error E c), s)
           | Inr t \<Rightarrow> (Inr (), t)))"

section \<open>Well-typed tables\<close>

definition row_ok :: "column list \<Rightarrow> sql_row \<Rightarrow> bool" where
  "row_ok cs r \<longleftrightarrow> dom r = cn_name ` set cs \<and>
     (\<forall>c \<in> set cs. \<forall>v. r (cn_name c) = Some v \<longrightarrow> of_type (cn_type c) v \<and> (cn_not_null c \<longrightarrow> v \<noteq> VNull))"

definition table_ok :: "sql_table \<Rightarrow> bool" where
  "table_ok t \<longleftrightarrow> distinct (column_names t) \<and> tb_key t \<in> set (column_names t) \<and>
     (\<forall>r \<in> set (tb_rows t). row_ok (tb_columns t) r) \<and> distinct (map (\<lambda>r. r (tb_key t)) (tb_rows t))"

definition index_ok :: "pg \<Rightarrow> sql_index \<Rightarrow> bool" where
  "index_ok s x \<longleftrightarrow> (\<exists>t. pg_tables s (ix_table x) = Some t \<and> ix_column x \<in> set (column_names t))"

definition pg_ok :: "pg \<Rightarrow> bool" where
  "pg_ok s \<longleftrightarrow> (\<forall>n t. pg_tables s n = Some t \<longrightarrow> table_ok t) \<and>
     (\<forall>i x. pg_indexes s i = Some x \<longrightarrow> index_ok s x) \<and>
     (\<forall>f g. pg_functions s f = Some g \<longrightarrow> pg_tables s (fn_returns g) \<noteq> None)"

text \<open>What a statement must satisfy by itself: the columns of a new table have different names and its key is
  one of them.\<close>

fun statement_ok :: "statement \<Rightarrow> bool" where
  "statement_ok (CreateTable _ _ key cs) = (distinct (map cn_name cs) \<and> key \<in> cn_name ` set cs)"
| "statement_ok _ = True"

lemma column_names_set_column [simp]:
  "(\<And>k. cn_name (f k) = cn_name k) \<Longrightarrow> column_names (set_column c f t) = column_names t"
  by (auto simp: column_names_def set_column_def)

lemma put_table_simps [simp]:
  "pg_tables (put_table n t s) = (pg_tables s)(n \<mapsto> t)" "pg_indexes (put_table n t s) = pg_indexes s"
  "pg_functions (put_table n t s) = pg_functions s" "pg_schemas (put_table n t s) = pg_schemas s"
  "pg_now (put_table n t s) = pg_now s" "pg_uuids (put_table n t s) = pg_uuids s"
  "pg_drawn (put_table n t s) = pg_drawn s" "pg_link (put_table n t s) = pg_link s"
  by (simp_all add: put_table_def)

lemma pg_ok_put:
  assumes "pg_ok s" and "table_ok t"
    and "\<And>t0. pg_tables s n = Some t0 \<Longrightarrow> set (column_names t0) \<subseteq> set (column_names t)"
  shows "pg_ok (put_table n t s)"
  using assms unfolding pg_ok_def index_ok_def by (auto split: if_splits) (metis subsetD option.inject)+

lemma column_of_Some: "column_of t c = Some k \<Longrightarrow> k \<in> set (tb_columns t) \<and> cn_name k = c"
  by (auto simp: column_of_def find_Some_iff)

lemma row_ok_map:
  assumes "row_ok cs r" and "\<And>k. cn_name (f k) = cn_name k" and "\<And>k. cn_type (f k) = cn_type k"
    and "\<And>k v. k \<in> set cs \<Longrightarrow> r (cn_name k) = Some v \<Longrightarrow> cn_not_null (f k) \<Longrightarrow> v \<noteq> VNull"
  shows "row_ok (map f cs) r"
  using assms unfolding row_ok_def by (auto simp: image_image)

lemma set_column_ok:
  assumes "table_ok t" and "\<And>k. cn_name (f k) = cn_name k" and "\<And>k. cn_type (f k) = cn_type k"
    and "\<And>k r v. k \<in> set (tb_columns t) \<Longrightarrow> r \<in> set (tb_rows t) \<Longrightarrow> r (cn_name k) = Some v \<Longrightarrow> cn_name k = c \<Longrightarrow>
      cn_not_null (f k) \<Longrightarrow> v \<noteq> VNull"
  shows "table_ok (set_column c f t)"
proof -
  have "column_names (set_column c f t) = column_names t" using assms(2) by simp
  moreover have "row_ok (tb_columns (set_column c f t)) r" if "r \<in> set (tb_rows t)" for r
  proof -
    have ok: "row_ok (tb_columns t) r" using assms(1) that by (simp add: table_ok_def)
    let ?g = "\<lambda>k. if cn_name k = c then f k else k"
    have "row_ok (map ?g (tb_columns t)) r"
    proof (rule row_ok_map [OF ok])
      show "v \<noteq> VNull" if "k \<in> set (tb_columns t)" "r (cn_name k) = Some v" "cn_not_null (?g k)" for k v
        using ok that assms(4) [OF that(1) \<open>r \<in> set (tb_rows t)\<close> that(2)] unfolding row_ok_def
        by (cases "cn_name k = c") auto
    qed (simp_all add: assms(2,3))
    then show ?thesis by (simp add: set_column_def)
  qed
  ultimately show ?thesis using assms(1) by (simp add: table_ok_def set_column_def)
qed

lemma fill_nulls_ok:
  assumes "table_ok t" and "column_of t c = Some k" and "column_of t c' = Some k'" and "cn_type k = cn_type k'"
    and "distinct (map (\<lambda>r. r (tb_key t)) rs)"
    and "rs = map (\<lambda>r. if r c = Some VNull then r(c := r c') else r) (tb_rows t)"
  shows "table_ok (t\<lparr>tb_rows := rs\<rparr>)"
proof -
  note k = column_of_Some [OF assms(2)] and k' = column_of_Some [OF assms(3)]
  have inj: "k1 = k2" if "k1 \<in> set (tb_columns t)" "k2 \<in> set (tb_columns t)" "cn_name k1 = cn_name k2" for k1 k2
    using assms(1) that by (auto simp: table_ok_def column_names_def distinct_map inj_on_def)
  have "row_ok (tb_columns t) (r(c := r c'))" if r: "r \<in> set (tb_rows t)" "r c = Some VNull" for r
  proof -
    have ok: "row_ok (tb_columns t) r" using assms(1) r(1) by (simp add: table_ok_def)
    then have dom: "dom r = cn_name ` set (tb_columns t)" by (simp add: row_ok_def)
    then obtain v where v: "r c' = Some v" using k' by blast
    have "dom (r(c := r c')) = dom r" using v r(2) by auto
    moreover have "of_type (cn_type k1) w \<and> (cn_not_null k1 \<longrightarrow> w \<noteq> VNull)"
      if "k1 \<in> set (tb_columns t)" "(r(c := r c')) (cn_name k1) = Some w" for k1 w
    proof (cases "cn_name k1 = c")
      case True
      then have "k1 = k" using inj [OF that(1), of k] k by simp
      moreover have "\<not> cn_not_null k" using ok r(2) k unfolding row_ok_def by blast
      moreover have "of_type (cn_type k') v" using ok v k' unfolding row_ok_def by blast
      ultimately show ?thesis using True that(2) v assms(4) by simp
    next
      case False
      then show ?thesis using ok that unfolding row_ok_def by auto
    qed
    ultimately show ?thesis using dom unfolding row_ok_def by blast
  qed
  then show ?thesis using assms(1,5) unfolding assms(6) by (auto simp: table_ok_def column_names_def)
qed

lemma default_values_length: "default_values s t d n = (vs, u, k) \<Longrightarrow> length vs = n"
  by (auto simp: default_values_def split: option.splits sql_default.splits)

lemma add_column_ok:
  assumes "pg_ok s" and "pg_tables s n = Some t" and "cn_name c \<notin> set (column_names t)" and "add_column s n t c = Inr s'"
  shows "pg_ok s'"
proof -
  obtain vs u k where d: "default_values s t (cn_default c) (length (tb_rows t)) = (vs, u, k)"
    by (metis prod_cases3)
  let ?t = "t\<lparr>tb_columns := tb_columns t @ [c], tb_rows := map2 (\<lambda>r v. r(cn_name c \<mapsto> v)) (tb_rows t) vs,
             tb_serial := tb_serial t + int k\<rparr>"
  have s': "s' = put_table n ?t (s\<lparr>pg_drawn := pg_drawn s + u\<rparr>)"
    and vs: "list_all (of_type (cn_type c)) vs" "cn_not_null c \<Longrightarrow> VNull \<notin> set vs"
    using assms(4) by (auto simp: add_column_def d split: if_splits)
  have len: "length vs = length (tb_rows t)" using default_values_length [OF d] .
  have t: "table_ok t" using assms(1,2) by (auto simp: pg_ok_def)
  have key: "cn_name c \<noteq> tb_key t" using t assms(3) by (auto simp: table_ok_def)
  have "row_ok (tb_columns t @ [c]) (r(cn_name c \<mapsto> v))" if "r \<in> set (tb_rows t)" "v \<in> set vs" for r v
    using t that vs assms(3) unfolding table_ok_def row_ok_def column_names_def list_all_iff
    by (auto simp: image_iff split: if_splits)
  then have "\<forall>r \<in> set (map2 (\<lambda>r v. r(cn_name c \<mapsto> v)) (tb_rows t) vs). row_ok (tb_columns t @ [c]) r"
    by (auto dest: set_zip_leftD set_zip_rightD)
  moreover have "map (\<lambda>r. r (tb_key t)) (map2 (\<lambda>r v. r(cn_name c \<mapsto> v)) (tb_rows t) vs) = map (\<lambda>r. r (tb_key t)) (tb_rows t)"
    using len key by (auto intro!: nth_equalityI)
  ultimately have "table_ok ?t" using t assms(3) by (simp add: table_ok_def column_names_def)
  moreover have "pg_ok (s\<lparr>pg_drawn := pg_drawn s + u\<rparr>)" using assms(1) by (simp add: pg_ok_def index_ok_def)
  ultimately show ?thesis unfolding s' using assms(2) by (intro pg_ok_put) (auto simp: column_names_def)
qed

text \<open>Every statement keeps every table well-typed, whatever it is applied to.\<close>

lemma exec_ok:
  assumes "pg_ok s" and "statement_ok q" and "exec s q = Inr s'"
  shows "pg_ok s'"
proof (cases q)
  case (CreateSchema n)
  then show ?thesis using assms by (auto simp: pg_ok_def index_ok_def split: if_splits)
next
  case (CreateTable ine n key cs)
  then show ?thesis using assms
    by (auto simp: relation_exists_def table_ok_def column_names_def split: if_splits intro!: pg_ok_put)
next
  case (DropTableCascade n)
  then show ?thesis using assms
    by (auto simp: pg_ok_def index_ok_def bind_eq_Some_conv split: option.splits if_splits)
next
  case (AddColumn n c)
  then show ?thesis using assms add_column_ok [of s n _ c s']
    by (auto simp: on_table_def split: option.splits if_splits)
next
  case (FillNulls n c c')
  then show ?thesis using assms
    by (auto simp: on_table_def Let_def column_names_def split: option.splits if_splits
        intro!: pg_ok_put fill_nulls_ok [OF _ _ _ _ _ refl]) (simp add: pg_ok_def)
next
  case (SetNotNull n c)
  have "table_ok (set_column c (\<lambda>k. k\<lparr>cn_not_null := True\<rparr>) t)"
    if "pg_tables s n = Some t" "\<forall>r \<in> set (tb_rows t). r c \<noteq> Some VNull" for t
    using assms(1) that by (intro set_column_ok) (auto simp: pg_ok_def)
  then show ?thesis using assms SetNotNull
    by (auto simp: on_table_def split: option.splits if_splits intro!: pg_ok_put)
next
  case (SetDefault n c d)
  have "table_ok (set_column c (\<lambda>k. k\<lparr>cn_default := Some d\<rparr>) t)" if t: "pg_tables s n = Some t" for t
  proof -
    have ok: "table_ok t" using assms(1) t by (auto simp: pg_ok_def)
    then show ?thesis by (intro set_column_ok) (auto simp: table_ok_def row_ok_def)
  qed
  then show ?thesis using assms SetDefault
    by (auto simp: on_table_def split: option.splits if_splits intro!: pg_ok_put)
next
  case (CreateIndex ine n tn c w)
  then show ?thesis using assms
    by (auto simp: on_table_def pg_ok_def index_ok_def split: option.splits if_splits)
next
  case (CreateFunction n ps setof ret)
  then show ?thesis using assms
    by (auto simp: Let_def pg_ok_def index_ok_def split: option.splits if_splits)
qed

lemma run_script_ok:
  "pg_ok s \<Longrightarrow> list_all statement_ok qs \<Longrightarrow> run_script s qs = Inr t \<Longrightarrow> pg_ok t"
  by (induction s qs rule: run_script.induct) (auto simp: res_bind_Inr_iff intro: exec_ok)

lemma pg_execute_ok:
  "pg_ok s \<Longrightarrow> list_all statement_ok qs \<Longrightarrow> pg_execute E s qs = (out, t) \<Longrightarrow> pg_ok t"
  by (auto simp: pg_execute_def split: option.splits sum.splits dest: run_script_ok)

lemma run_script_append: "run_script s (qs @ rs) = res_bind (run_script s qs) (\<lambda>t. run_script t rs)"
  by (induction s qs rule: run_script.induct) (simp_all add: res_bind_def split: sum.split)

end
