(* ===== verification/Auth_Txs.thy ===== *)
theory Auth_Txs
  imports Auth_Session
begin

text \<open>
  The transactions of \<open>auth/dal/postgres_txs.rs\<close> and the stored procedure \<open>saps.ping\<close>, the step
  relation of a database that serves them, its invariant, and what the life of a session is:
  which credentials a ping accepts, rotation and its grace period, and that a retired or deleted
  credential never comes back.
\<close>

section \<open>The transactions\<close>

definition create_auth_session ::
    "'u auth_lib \<Rightarrow> auth_db \<Rightarrow> 'u auth_session \<Rightarrow> (sqlx_error + 'u auth_session) \<times> auth_db" where
  "create_auth_session L s a = st_bind
     (sql_insert L s \<lparr>r_id = s_id a, r_old_id = s_id a, r_role = role_text L (s_role a),
        r_created = s_created a, r_last = s_last a, r_minted = s_created a, r_meta = s_meta a\<rparr>)
     (\<lambda>r s'. (read_session L r, s'))"

text \<open>
  \<open>saps.ping\<close>. \<open>None\<close> is the NULL record. The lookup takes the first row of the table that
  matches; \<open>RETURNING\<close> the first row that changed.
\<close>

definition pings :: "uuid \<Rightarrow> session_row \<Rightarrow> bool" where
  "pings p r \<longleftrightarrow> r_id r = p \<or> r_old_id r = p"

definition ping_returning ::
    "(sqlx_error + session_row list) \<times> auth_db \<Rightarrow> (sqlx_error + session_row option) \<times> auth_db" where
  "ping_returning q = st_bind q (\<lambda>u s'. (Inr (case u of [] \<Rightarrow> None | r # _ \<Rightarrow> Some r), s'))"

definition saps_ping ::
    "'u auth_lib \<Rightarrow> auth_db \<Rightarrow> int \<Rightarrow> uuid \<Rightarrow> (sqlx_error + session_row option) \<times> auth_db" where
  "saps_ping L s mins p = st_bind
     (sql_delete s (\<lambda>r. pings p r \<and> r_last r < clock s - minutes mins))
     (\<lambda>affected s.
        if 0 < affected then (Inr None, s)
        else case find (pings p) (rows s) of
          None \<Rightarrow> (Inr None, s)
        | Some session \<Rightarrow>
            if r_id session \<noteq> p \<and> r_old_id session = p then
              (if r_minted session < clock s - seconds 10 then (Inr None, s)
               else ping_returning (sql_update L s (\<lambda>r. r_id r = r_id session)
                      (\<lambda>r. Inr (r\<lparr>r_last := clock s\<rparr>))))
            else if r_created session < clock s - minutes 5 then
              (case draw s of (fresh, s) \<Rightarrow>
                 ping_returning (sql_update L s (\<lambda>r. r_id r = p)
                   (\<lambda>r. Inr (r\<lparr>r_old_id := r_id r, r_id := fresh, r_created := clock s,
                               r_last := clock s, r_minted := clock s\<rparr>))))
            else ping_returning (sql_update L s (\<lambda>r. r_id r = p)
                   (\<lambda>r. Inr (r\<lparr>r_last := clock s\<rparr>))))"

definition ping_auth_session ::
    "'u auth_lib \<Rightarrow> auth_db \<Rightarrow> int \<Rightarrow> string \<Rightarrow> (sqlx_error + 'u auth_session option) \<times> auth_db" where
  "ping_auth_session L s mins i =
     (case parse_session_id L i of
        Inl e \<Rightarrow> (Inl e, s)
      | Inr p \<Rightarrow> st_bind (saps_ping L s mins p) (\<lambda>r s'. (case r of
            None \<Rightarrow> (Inr None, s')
          | Some r \<Rightarrow> (res_bind (read_session L r) (\<lambda>a. Inr (Some a)), s'))))"

definition get_all_auth_sessions :: "'u auth_lib \<Rightarrow> auth_db \<Rightarrow> sqlx_error + 'u auth_session list" where
  "get_all_auth_sessions L s = res_bind (sql_select s (\<lambda>r. True)) (read_all L)"

definition get_auth_session ::
    "'u auth_lib \<Rightarrow> auth_db \<Rightarrow> string \<Rightarrow> sqlx_error + 'u auth_session option" where
  "get_auth_session L s i = res_bind (parse_session_id L i) (\<lambda>p.
     res_bind (sql_select s (\<lambda>r. r_id r = p)) (read_optional L))"

definition get_auth_session_strict ::
    "'u auth_lib \<Rightarrow> auth_db \<Rightarrow> string \<Rightarrow> sqlx_error + 'u auth_session" where
  "get_auth_session_strict L s i = res_bind (parse_session_id L i) (\<lambda>p.
     res_bind (sql_select s (\<lambda>r. r_id r = p)) (read_one L))"

definition update_auth_session_meta ::
    "'u auth_lib \<Rightarrow> auth_db \<Rightarrow> string \<Rightarrow> json \<Rightarrow> (sqlx_error + unit) \<times> auth_db" where
  "update_auth_session_meta L s i m =
     (case parse_session_id L i of
        Inl e \<Rightarrow> (Inl e, s)
      | Inr p \<Rightarrow> st_bind (sql_update L s (\<lambda>r. r_id r = p) (\<lambda>r. Inr (r\<lparr>r_meta := Some m\<rparr>)))
          (\<lambda>_ s'. (Inr (), s')))"

text \<open>The failures of \<open>jsonb_set\<close> and \<open>-\<close> as database errors.\<close>

definition json_pg :: "'u auth_lib \<Rightarrow> json_error + json \<Rightarrow> sqlx_error + json" where
  "json_pg L x = map_err (\<lambda>e. pg_error L (case e of PathElementNotInteger \<Rightarrow> ''22P02''
       | CannotSetPathInScalar \<Rightarrow> ''22023'' | CannotDeleteFromScalar \<Rightarrow> ''22023'')) x"

text \<open>\<open>SET meta = jsonb_set(COALESCE(meta, '{}'), ARRAY[k], v, true)\<close>.\<close>

definition set_meta_key ::
    "'u auth_lib \<Rightarrow> string \<Rightarrow> json \<Rightarrow> session_row \<Rightarrow> sqlx_error + session_row" where
  "set_meta_key L k v r = res_bind
     (json_pg L (jsonb_set (case r_meta r of None \<Rightarrow> empty_object | Some m \<Rightarrow> m) k v))
     (\<lambda>m. Inr (r\<lparr>r_meta := Some m\<rparr>))"

definition upsert_auth_session_meta_key ::
    "'u auth_lib \<Rightarrow> auth_db \<Rightarrow> string \<Rightarrow> string \<Rightarrow> json
     \<Rightarrow> (sqlx_error + 'u auth_session option) \<times> auth_db" where
  "upsert_auth_session_meta_key L s i k v =
     (case parse_session_id L i of
        Inl e \<Rightarrow> (Inl e, s)
      | Inr p \<Rightarrow> st_bind (sql_update L s (\<lambda>r. r_id r = p) (set_meta_key L k v))
          (\<lambda>u s'. (read_optional L u, s')))"

text \<open>\<open>meta -> k = expected\<close>: a NULL on the left is not equal to anything.\<close>

definition meta_key_is :: "string \<Rightarrow> json \<Rightarrow> session_row \<Rightarrow> bool" where
  "meta_key_is k v r = (case r_meta r of None \<Rightarrow> False | Some m \<Rightarrow> json_get m k = Some v)"

definition compare_and_swap_auth_session_meta ::
    "'u auth_lib \<Rightarrow> auth_db \<Rightarrow> string \<Rightarrow> string \<Rightarrow> json \<Rightarrow> json
     \<Rightarrow> (sqlx_error + 'u auth_session option) \<times> auth_db" where
  "compare_and_swap_auth_session_meta L s i k expected new =
     (case parse_session_id L i of
        Inl e \<Rightarrow> (Inl e, s)
      | Inr p \<Rightarrow> st_bind
          (sql_update L s (\<lambda>r. r_id r = p \<and> meta_key_is k expected r) (set_meta_key L k new))
          (\<lambda>u s'. (read_optional L u, s')))"

definition session_compare_and_swap_meta ::
    "'u auth_lib \<Rightarrow> auth_db \<Rightarrow> 'u auth_session \<Rightarrow> string \<Rightarrow> json \<Rightarrow> json
     \<Rightarrow> (sqlx_error + 'u auth_session option) \<times> auth_db" where
  "session_compare_and_swap_meta L s a k expected new =
     compare_and_swap_auth_session_meta L s (uuid_text L (s_id a)) k expected new"

definition drop_meta_key ::
    "'u auth_lib \<Rightarrow> string \<Rightarrow> session_row \<Rightarrow> sqlx_error + session_row" where
  "drop_meta_key L k r =
     (case r_meta r of
        None \<Rightarrow> Inr r
      | Some m \<Rightarrow> res_bind (json_pg L (jsonb_delete m k)) (\<lambda>m. Inr (r\<lparr>r_meta := Some m\<rparr>)))"

definition delete_auth_session_meta_key ::
    "'u auth_lib \<Rightarrow> auth_db \<Rightarrow> string \<Rightarrow> string
     \<Rightarrow> (sqlx_error + 'u auth_session option) \<times> auth_db" where
  "delete_auth_session_meta_key L s i k =
     (case parse_session_id L i of
        Inl e \<Rightarrow> (Inl e, s)
      | Inr p \<Rightarrow> st_bind (sql_update L s (\<lambda>r. r_id r = p) (drop_meta_key L k))
          (\<lambda>u s'. (read_optional L u, s')))"

text \<open>\<open>meta @> jsonb_build_object(...)\<close>: a NULL \<open>meta\<close> never matches.\<close>

definition meta_holds :: "(string \<times> json) list \<Rightarrow> session_row \<Rightarrow> bool" where
  "meta_holds kvs r =
     (case r_meta r of None \<Rightarrow> False | Some m \<Rightarrow> contains m (build_object kvs))"

definition get_auth_sessions_by_meta_key ::
    "'u auth_lib \<Rightarrow> auth_db \<Rightarrow> string \<Rightarrow> json \<Rightarrow> sqlx_error + 'u auth_session list" where
  "get_auth_sessions_by_meta_key L s k v =
     res_bind (sql_select s (meta_holds [(k, v)])) (read_all L)"

definition get_auth_session_by_meta_key ::
    "'u auth_lib \<Rightarrow> auth_db \<Rightarrow> string \<Rightarrow> json \<Rightarrow> sqlx_error + 'u auth_session option" where
  "get_auth_session_by_meta_key L s k v =
     res_bind (sql_select s (meta_holds [(k, v)])) (\<lambda>rs. read_optional L (take 1 rs))"

definition get_auth_session_by_meta_key_strict ::
    "'u auth_lib \<Rightarrow> auth_db \<Rightarrow> string \<Rightarrow> json \<Rightarrow> sqlx_error + 'u auth_session" where
  "get_auth_session_by_meta_key_strict L s k v =
     res_bind (sql_select s (meta_holds [(k, v)])) (\<lambda>rs. read_one L (take 1 rs))"

definition get_auth_sessions_by_meta_key_pair ::
    "'u auth_lib \<Rightarrow> auth_db \<Rightarrow> string \<Rightarrow> json \<Rightarrow> string \<Rightarrow> json
     \<Rightarrow> sqlx_error + 'u auth_session list" where
  "get_auth_sessions_by_meta_key_pair L s k1 v1 k2 v2 =
     res_bind (sql_select s (meta_holds [(k1, v1), (k2, v2)])) (read_all L)"

definition upsert_auth_sessions_meta_key_by_meta ::
    "'u auth_lib \<Rightarrow> auth_db \<Rightarrow> string \<Rightarrow> json \<Rightarrow> string \<Rightarrow> json \<Rightarrow> (sqlx_error + nat) \<times> auth_db" where
  "upsert_auth_sessions_meta_key_by_meta L s mk mv k v = st_bind
     (sql_update L s (meta_holds [(mk, mv)]) (set_meta_key L k v)) (\<lambda>u s'. (Inr (length u), s'))"

definition upsert_auth_sessions_meta_key_by_meta_key_pair ::
    "'u auth_lib \<Rightarrow> auth_db \<Rightarrow> string \<Rightarrow> json \<Rightarrow> string \<Rightarrow> json \<Rightarrow> string \<Rightarrow> json
     \<Rightarrow> (sqlx_error + nat) \<times> auth_db" where
  "upsert_auth_sessions_meta_key_by_meta_key_pair L s k1 v1 k2 v2 k v = st_bind
     (sql_update L s (meta_holds [(k1, v1), (k2, v2)]) (set_meta_key L k v))
     (\<lambda>u s'. (Inr (length u), s'))"

definition delete_auth_sessions_by_meta_key ::
    "auth_db \<Rightarrow> string \<Rightarrow> json \<Rightarrow> (sqlx_error + nat) \<times> auth_db" where
  "delete_auth_sessions_by_meta_key s k v = sql_delete s (meta_holds [(k, v)])"

definition delete_auth_sessions_by_meta_key_pair ::
    "auth_db \<Rightarrow> string \<Rightarrow> json \<Rightarrow> string \<Rightarrow> json \<Rightarrow> (sqlx_error + nat) \<times> auth_db" where
  "delete_auth_sessions_by_meta_key_pair s k1 v1 k2 v2 =
     sql_delete s (meta_holds [(k1, v1), (k2, v2)])"

definition delete_auth_session :: "auth_db \<Rightarrow> uuid \<Rightarrow> (sqlx_error + bool) \<times> auth_db" where
  "delete_auth_session s p = st_bind (sql_delete s (\<lambda>r. r_id r = p)) (\<lambda>n s'. (Inr (0 < n), s'))"

lemmas txs_defs = create_auth_session_def update_auth_session_meta_def
  upsert_auth_session_meta_key_def compare_and_swap_auth_session_meta_def
  delete_auth_session_meta_key_def upsert_auth_sessions_meta_key_by_meta_def
  upsert_auth_sessions_meta_key_by_meta_key_pair_def delete_auth_sessions_by_meta_key_def
  delete_auth_sessions_by_meta_key_pair_def delete_auth_session_def

section \<open>Facts about statements\<close>

definition creds :: "session_row \<Rightarrow> uuid set" where
  "creds r = {r_id r, r_old_id r}"

definition frame :: "session_row \<Rightarrow> uuid \<times> uuid \<times> int" where
  "frame r = (r_id r, r_old_id r, r_minted r)"

lemma pings_creds: "pings p r \<longleftrightarrow> p \<in> creds r"
  by (auto simp: pings_def creds_def)

lemma pairwise_apart_filter: "pairwise_apart P xs \<Longrightarrow> pairwise_apart P (filter Q xs)"
  by (induction xs) (auto simp: list_all_iff)

lemma pairwise_apart_append1:
  "pairwise_apart P (xs @ [y]) \<longleftrightarrow> pairwise_apart P xs \<and> (\<forall>x \<in> set xs. \<not> P x y)"
  by (induction xs) (auto simp: list_all_iff)

lemma pairwise_apart_cong:
  assumes "list_all2 (\<lambda>x y. \<forall>a b. R a b \<longrightarrow> (P x a \<longleftrightarrow> Q y b)) xs ys" and "list_all2 R xs ys"
  shows "pairwise_apart P xs \<longleftrightarrow> pairwise_apart Q ys"
  using assms
proof (induction xs arbitrary: ys)
  case (Cons x xs)
  then obtain y ys' where ys: "ys = y # ys'" by (cases ys) auto
  with Cons.prems have "list_all2 R xs ys'" and xy: "\<forall>a b. R a b \<longrightarrow> (P x a \<longleftrightarrow> Q y b)" by auto
  then have "list_all (\<lambda>a. \<not> P x a) xs \<longleftrightarrow> list_all (\<lambda>b. \<not> Q y b) ys'"
    by (induction rule: list_all2_induct) auto
  moreover have "pairwise_apart P xs \<longleftrightarrow> pairwise_apart Q ys'"
    using Cons ys by simp
  ultimately show ?case by (simp add: ys)
qed simp

lemma pairwise_apart_D:
  "pairwise_apart P xs \<Longrightarrow> i < j \<Longrightarrow> j < length xs \<Longrightarrow> \<not> P (xs ! i) (xs ! j)"
proof (induction xs arbitrary: i j)
  case (Cons x xs)
  then show ?case by (cases i; cases j) (auto simp: list_all_iff)
qed simp

lemma collide_meta: "r_meta r = r_meta q \<Longrightarrow> r_meta r' = r_meta q' \<Longrightarrow> collide L ks r r' \<longleftrightarrow> collide L ks q q'"
  by (simp add: collide_def indexed_def index_texts_def)

lemma unique_ok_meta:
  assumes "unique_ok L ixs rs" and "map r_meta ts = map r_meta rs" and "distinct (map r_id ts)"
  shows "unique_ok L ixs ts"
proof -
  have same: "list_all2 (\<lambda>a b. r_meta a = r_meta b) rs ts"
    using assms(2) by (simp add: list_all2_conv_all_nth list_eq_iff_nth_eq)
  have "pairwise_apart (collide L ks) rs \<longleftrightarrow> pairwise_apart (collide L ks) ts" for ks
  proof (rule pairwise_apart_cong [OF _ same])
    show "list_all2 (\<lambda>x y. \<forall>a b. r_meta a = r_meta b \<longrightarrow> collide L ks x a = collide L ks y b) rs ts"
      by (rule list_all2_mono [OF same]) (blast dest: collide_meta)
  qed
  with assms show ?thesis by (simp add: unique_ok_def)
qed

lemma unique_ok_filter: "unique_ok L ixs rs \<Longrightarrow> unique_ok L ixs (filter P rs)"
  by (auto simp: unique_ok_def list_all_iff distinct_map_filter pairwise_apart_filter)

lemma update_rows_spec:
  "update_rows P f rs = Inr (t, u) \<Longrightarrow>
     list_all2 (\<lambda>r r'. (P r \<longrightarrow> f r = Inr r') \<and> (P r \<or> r' = r)) rs t \<and>
     list_all2 (\<lambda>r r'. f r = Inr r') (filter P rs) u"
  by (induction rs arbitrary: t u) (auto simp: res_bind_Inr_iff split: if_splits)

lemma update_rows_frame:
  assumes "update_rows P f rs = Inr (t, u)" and "\<And>r r'. f r = Inr r' \<Longrightarrow> frame r' = frame r"
  shows "map frame t = map frame rs"
  using assms(1)
  by (induction rs arbitrary: t u) (auto simp: res_bind_Inr_iff assms(2) split: if_splits)

lemma update_rows_total:
  "update_rows P (\<lambda>r. Inr (g r)) rs = Inr (map (\<lambda>r. if P r then g r else r) rs, map g (filter P rs))"
  by (induction rs) auto

lemma sql_update_snd:
  "snd (sql_update L s P f) = s \<or>
   (\<exists>t u. update_rows P f (rows s) = Inr (t, u) \<and> unique_ok L (indexes s) t \<and>
     snd (sql_update L s P f) = s\<lparr>rows := t\<rparr>)"
  by (auto simp: sql_update_def split: option.split sum.split)

lemma sql_delete_snd:
  "snd (sql_delete s P) = s \<or> snd (sql_delete s P) = s\<lparr>rows := filter (\<lambda>r. \<not> P r) (rows s)\<rparr>"
  by (auto simp: sql_delete_def split: option.split)

lemma sql_insert_snd:
  "snd (sql_insert L s r) = s \<or>
   unique_ok L (indexes s) (rows s @ [r]) \<and> snd (sql_insert L s r) = s\<lparr>rows := rows s @ [r]\<rparr>"
  by (auto simp: sql_insert_def split: option.split)

text \<open>A read after a statement does not change its state.\<close>

lemma snd_st_bind_id: "(\<And>a t. snd (g a t) = t) \<Longrightarrow> snd (st_bind q g) = snd q"
  by (cases q; cases "fst q") auto

lemma set_meta_key_frame: "set_meta_key L k v r = Inr r' \<Longrightarrow> frame r' = frame r"
  by (auto simp: set_meta_key_def frame_def res_bind_Inr_iff)

lemma drop_meta_key_frame: "drop_meta_key L k r = Inr r' \<Longrightarrow> frame r' = frame r"
  by (auto simp: drop_meta_key_def frame_def res_bind_Inr_iff split: option.splits)

section \<open>Steps of the database\<close>

text \<open>
  Whatever a server does to the table is a sequence of these steps. A created session carries
  an id the code drew for it (\<open>AuthSession::new\<close> or the token of a login); the draws are counted
  in the step that inserts it. Times in it are the caller's.
\<close>

inductive auth_step :: "'u auth_lib \<Rightarrow> auth_db \<Rightarrow> auth_db \<Rightarrow> bool" for L where
  tick: "clock s \<le> t \<Longrightarrow> auth_step L s (s\<lparr>clock := t\<rparr>)"
| connection: "auth_step L s (s\<lparr>link := e\<rparr>)"
| migrate: "run_migration_with_pool L s ks = Some (x, t) \<Longrightarrow> auth_step L s t"
| create: "drawn s \<le> k \<Longrightarrow> k < m \<Longrightarrow> s_id a = uuids s k \<Longrightarrow>
    auth_step L s (snd (create_auth_session L (s\<lparr>drawn := m\<rparr>) a))"
| ping: "auth_step L s (snd (ping_auth_session L s mins i))"
| update_meta: "auth_step L s (snd (update_auth_session_meta L s i j))"
| upsert_key: "auth_step L s (snd (upsert_auth_session_meta_key L s i key v))"
| swap: "auth_step L s (snd (compare_and_swap_auth_session_meta L s i key v w))"
| delete_key: "auth_step L s (snd (delete_auth_session_meta_key L s i key))"
| upsert_by: "auth_step L s (snd (upsert_auth_sessions_meta_key_by_meta L s key1 v1 key v))"
| upsert_by_pair:
    "auth_step L s (snd (upsert_auth_sessions_meta_key_by_meta_key_pair L s key1 v1 key2 v2 key v))"
| delete_by: "auth_step L s (snd (delete_auth_sessions_by_meta_key s key v))"
| delete_by_pair: "auth_step L s (snd (delete_auth_sessions_by_meta_key_pair s key1 v1 key2 v2))"
| delete: "auth_step L s (snd (delete_auth_session s p))"

text \<open>Reachability while at most \<open>n\<close> UUIDs have been drawn.\<close>

inductive auth_reach :: "'u auth_lib \<Rightarrow> nat \<Rightarrow> auth_db \<Rightarrow> auth_db \<Rightarrow> bool" for L n s where
  here: "auth_reach L n s s"
| there: "auth_reach L n s t \<Longrightarrow> auth_step L t u \<Longrightarrow> drawn u \<le> n \<Longrightarrow> auth_reach L n s u"

text \<open>The invariant: the first \<open>n\<close> random UUIDs are distinct, every id in the table was drawn, no
  two rows share a credential, and the table satisfies its constraints.\<close>

definition auth_inv :: "'u auth_lib \<Rightarrow> nat \<Rightarrow> auth_db \<Rightarrow> bool" where
  "auth_inv L n s \<longleftrightarrow>
     inj_on (uuids s) {..<n} \<and> drawn s \<le> n \<and>
     (\<forall>r \<in> set (rows s). creds r \<subseteq> uuids s ` {..<drawn s}) \<and>
     pairwise_apart (\<lambda>r r'. creds r \<inter> creds r' \<noteq> {}) (rows s) \<and>
     unique_ok L (indexes s) (rows s)"

text \<open>What one step does to the rows, up to the columns the invariant does not look at: rows may
  go, one row with a new id may come, or one row may be rotated to a new id.\<close>

definition keeps_rows :: "auth_db \<Rightarrow> auth_db \<Rightarrow> bool" where
  "keeps_rows s t \<longleftrightarrow> (\<exists>P. map frame (rows t) = map frame (filter P (rows s)))"

definition adds_row :: "auth_db \<Rightarrow> auth_db \<Rightarrow> bool" where
  "adds_row s t \<longleftrightarrow> (\<exists>r k. rows t = rows s @ [r] \<and> creds r = {uuids s k} \<and> drawn s \<le> k \<and> k < drawn t)"

definition rotated :: "uuid \<Rightarrow> uuid \<Rightarrow> int \<Rightarrow> uuid \<times> uuid \<times> int \<Rightarrow> uuid \<times> uuid \<times> int" where
  "rotated p fresh now x = (if fst x = p then (fresh, p, now) else x)"

definition rotates_row :: "auth_db \<Rightarrow> auth_db \<Rightarrow> bool" where
  "rotates_row s t \<longleftrightarrow> (\<exists>p. drawn s < drawn t \<and>
     map frame (rows t) = map (rotated p (uuids s (drawn s)) (clock s)) (map frame (rows s)))"

definition step_effect :: "'u auth_lib \<Rightarrow> auth_db \<Rightarrow> auth_db \<Rightarrow> bool" where
  "step_effect L s t \<longleftrightarrow>
     uuids t = uuids s \<and> drawn s \<le> drawn t \<and> clock s \<le> clock t \<and>
     set (indexes s) \<subseteq> set (indexes t) \<and>
     (unique_ok L (indexes s) (rows s) \<longrightarrow> unique_ok L (indexes t) (rows t)) \<and>
     (keeps_rows s t \<or> adds_row s t \<or> rotates_row s t)"

lemma keeps_same: "map frame (rows t) = map frame (rows s) \<Longrightarrow> keeps_rows s t"
  unfolding keeps_rows_def by (rule exI [of _ "\<lambda>_. True"]) simp

lemma keeps_filter: "rows t = filter P (rows s) \<Longrightarrow> keeps_rows s t"
  unfolding keeps_rows_def by (rule exI [of _ P]) simp

lemma effect_same: "uuids t = uuids s \<Longrightarrow> drawn s \<le> drawn t \<Longrightarrow> clock s \<le> clock t \<Longrightarrow>
    indexes t = indexes s \<Longrightarrow> rows t = rows s \<Longrightarrow> step_effect L s t"
  by (simp add: step_effect_def keeps_same)

lemma effect_refl [simp]: "step_effect L s s"
  by (simp add: effect_same)

lemma effect_update:
  assumes "\<And>r r'. f r = Inr r' \<Longrightarrow> frame r' = frame r"
  shows "step_effect L s (snd (sql_update L s P f))"
proof -
  consider "snd (sql_update L s P f) = s"
    | t u where "update_rows P f (rows s) = Inr (t, u)" and "unique_ok L (indexes s) t"
      and "snd (sql_update L s P f) = s\<lparr>rows := t\<rparr>"
    using sql_update_snd by metis
  then show ?thesis
  proof cases
    case 2
    then have "map frame t = map frame (rows s)"
      by (simp add: update_rows_frame assms)
    with 2 show ?thesis by (simp add: step_effect_def keeps_same)
  qed simp
qed

lemma effect_delete: "step_effect L s (snd (sql_delete s P))"
  using sql_delete_snd [of s P]
  by (auto simp: step_effect_def keeps_filter keeps_same unique_ok_filter)

lemma effect_insert:
  assumes "creds r = {uuids s k}" and "drawn s \<le> k" and "k < m"
  shows "step_effect L s (snd (sql_insert L (s\<lparr>drawn := m\<rparr>) r))"
  using sql_insert_snd [of L "s\<lparr>drawn := m\<rparr>" r] assms
  by (auto simp: step_effect_def adds_row_def keeps_same)

lemma effect_rotate:
  assumes "draw s = (fresh, s')"
  shows "step_effect L s (snd (sql_update L s' (\<lambda>r. r_id r = p)
    (\<lambda>r. Inr (r\<lparr>r_old_id := r_id r, r_id := fresh, r_created := now, r_last := now, r_minted := clock s'\<rparr>))))"
    (is "step_effect L s (snd (sql_update L s' ?P (\<lambda>r. Inr (?g r))))")
proof -
  have s': "s' = s\<lparr>drawn := Suc (drawn s)\<rparr>" and fresh: "fresh = uuids s (drawn s)"
    using assms by (simp_all add: draw_def)
  have frames: "map frame (map (\<lambda>r. if ?P r then ?g r else r) rs) = map (rotated p fresh (clock s)) (map frame rs)"
    for rs by (auto simp: frame_def rotated_def s')
  show ?thesis
    using sql_update_snd [of L s' ?P "\<lambda>r. Inr (?g r)"]
  proof (elim disjE)
    assume "snd (sql_update L s' ?P (\<lambda>r. Inr (?g r))) = s'"
    then show ?thesis by (simp add: s' effect_same)
  next
    assume "\<exists>t u. update_rows ?P (\<lambda>r. Inr (?g r)) (rows s') = Inr (t, u) \<and>
      unique_ok L (indexes s') t \<and> snd (sql_update L s' ?P (\<lambda>r. Inr (?g r))) = s'\<lparr>rows := t\<rparr>"
    then have "unique_ok L (indexes s') (map (\<lambda>r. if ?P r then ?g r else r) (rows s))"
      and "snd (sql_update L s' ?P (\<lambda>r. Inr (?g r))) = s'\<lparr>rows := map (\<lambda>r. if ?P r then ?g r else r) (rows s)\<rparr>"
      by (auto simp: update_rows_total s' cong: if_cong)
    moreover have "clock s' = clock s" by (simp add: s')
    ultimately show ?thesis using frames [of "rows s"]
      by (simp add: step_effect_def rotates_row_def s' fresh del: map_map) metis
  qed
qed

lemma ping_returning_snd [simp]: "snd (ping_returning q) = snd q"
  by (auto simp: ping_returning_def intro: snd_st_bind_id)

lemma sql_delete_none:
  assumes "sql_delete s P = (Inr 0, t)"
  shows "t = s"
proof -
  from assms have "filter P (rows s) = []" and "t = s\<lparr>rows := filter (\<lambda>r. \<not> P r) (rows s)\<rparr>"
    by (auto simp: sql_delete_def split: option.splits)
  moreover from this(1) have "filter (\<lambda>r. \<not> P r) (rows s) = rows s"
    by (auto simp: filter_empty_conv intro: filter_True)
  ultimately show ?thesis by simp
qed

lemma effect_saps_ping: "step_effect L s (snd (saps_ping L s mins p))"
proof (cases "fst (sql_delete s (\<lambda>r. pings p r \<and> r_last r < clock s - minutes mins))")
  case (Inl e)
  then have "sql_delete s (\<lambda>r. pings p r \<and> r_last r < clock s - minutes mins) = (Inl e, s)"
    by (auto simp: sql_delete_def split: option.splits)
  then show ?thesis by (simp add: saps_ping_def)
next
  case (Inr affected)
  define t where "t = snd (sql_delete s (\<lambda>r. pings p r \<and> r_last r < clock s - minutes mins))"
  have del: "sql_delete s (\<lambda>r. pings p r \<and> r_last r < clock s - minutes mins) = (Inr affected, t)"
    by (simp add: t_def Inr [symmetric])
  show ?thesis
  proof (cases "0 < affected")
    case True
    then have "snd (saps_ping L s mins p) = t" by (simp add: saps_ping_def del)
    then show ?thesis unfolding t_def by (simp add: effect_delete)
  next
    case False
    then have [simp]: "t = s" using del sql_delete_none by auto
    have upd: "step_effect L s (snd (sql_update L s P (\<lambda>r. Inr (r\<lparr>r_last := clock s\<rparr>))))" for P
      by (rule effect_update) (auto simp: frame_def)
    show ?thesis
      using False
      by (auto simp: saps_ping_def del split: option.split prod.split intro: upd effect_rotate)
  qed
qed

lemma effect_ping: "step_effect L s (snd (ping_auth_session L s mins i))"
proof (cases "parse_session_id L i")
  case (Inr p)
  have "snd (ping_auth_session L s mins i) = snd (saps_ping L s mins p)"
    by (simp add: ping_auth_session_def Inr) (rule snd_st_bind_id, simp split: option.split)
  then show ?thesis by (simp add: effect_saps_ping)
qed (simp add: ping_auth_session_def)

lemma effect_migrate_aux:
  "create_indexes L s ks = Some (x, t) \<Longrightarrow>
     uuids t = uuids s \<and> drawn t = drawn s \<and> clock t = clock s \<and> rows t = rows s \<and>
     set (indexes s) \<subseteq> set (indexes t) \<and>
     (unique_ok L (indexes s) (rows s) \<longrightarrow> unique_ok L (indexes t) (rows t))"
proof (induction L s ks rule: create_indexes.induct)
  case (2 L s k ks)
  obtain v u where u: "create_unique_index L s (safe_name k) [k] = (v, u)" by fastforce
  then have one: "uuids u = uuids s \<and> drawn u = drawn s \<and> clock u = clock s \<and> rows u = rows s \<and>
     set (indexes s) \<subseteq> set (indexes u) \<and>
     (unique_ok L (indexes s) (rows s) \<longrightarrow> unique_ok L (indexes u) (rows u))"
    by (auto simp: create_unique_index_def unique_ok_def split: option.splits if_splits)
  obtain q where q: "generate_unique_meta_key_sql k = Some q"
    using "2.prems" by (auto split: option.splits)
  show ?case using "2.prems" "2.IH" [OF q u [symmetric]] one q
    by (cases v) (auto simp: u)
qed auto

lemma effect_migrate: "run_migration_with_pool L s ks = Some (x, t) \<Longrightarrow> step_effect L s t"
  by (auto simp: run_migration_with_pool_def step_effect_def split: option.splits
      dest!: effect_migrate_aux intro: keeps_same)

lemma effect_create:
  assumes "drawn s \<le> k" and "k < m" and "s_id a = uuids s k"
  shows "step_effect L s (snd (create_auth_session L (s\<lparr>drawn := m\<rparr>) a))"
proof -
  have "snd (create_auth_session L t a) = snd (sql_insert L t \<lparr>r_id = s_id a, r_old_id = s_id a,
      r_role = role_text L (s_role a), r_created = s_created a, r_last = s_last a,
      r_minted = s_created a, r_meta = s_meta a\<rparr>)" for t
    unfolding create_auth_session_def by (rule snd_st_bind_id) simp
  with assms show ?thesis by (simp add: effect_insert creds_def)
qed

text \<open>Every step of the database has one of these effects.\<close>

lemma auth_step_effect: "auth_step L s t \<Longrightarrow> step_effect L s t"
proof (induction rule: auth_step.induct)
  case (update_meta s i j)
  show ?case unfolding update_auth_session_meta_def
    by (auto split: sum.split simp: snd_st_bind_id frame_def intro!: effect_update)
next
  case (upsert_key s i key v)
  show ?case unfolding upsert_auth_session_meta_key_def
    by (auto split: sum.split simp: snd_st_bind_id intro!: effect_update set_meta_key_frame)
next
  case (swap s i key v w)
  show ?case unfolding compare_and_swap_auth_session_meta_def
    by (auto split: sum.split simp: snd_st_bind_id intro!: effect_update set_meta_key_frame)
next
  case (delete_key s i key)
  show ?case unfolding delete_auth_session_meta_key_def
    by (auto split: sum.split simp: snd_st_bind_id intro!: effect_update drop_meta_key_frame)
next
  case (upsert_by s key1 v1 key v)
  show ?case unfolding upsert_auth_sessions_meta_key_by_meta_def
    by (auto simp: snd_st_bind_id intro!: effect_update set_meta_key_frame)
next
  case (upsert_by_pair s key1 v1 key2 v2 key v)
  show ?case unfolding upsert_auth_sessions_meta_key_by_meta_key_pair_def
    by (auto simp: snd_st_bind_id intro!: effect_update set_meta_key_frame)
qed (auto simp: effect_same effect_migrate effect_create effect_ping effect_delete snd_st_bind_id
    delete_auth_sessions_by_meta_key_def delete_auth_sessions_by_meta_key_pair_def delete_auth_session_def)

section \<open>The invariant is kept\<close>

definition fcreds :: "uuid \<times> uuid \<times> int \<Rightarrow> uuid set" where
  "fcreds x = {fst x, fst (snd x)}"

definition shares :: "uuid \<times> uuid \<times> int \<Rightarrow> uuid \<times> uuid \<times> int \<Rightarrow> bool" where
  "shares x y \<longleftrightarrow> fcreds x \<inter> fcreds y \<noteq> {}"

lemma fcreds_frame: "fcreds (frame r) = creds r"
  by (simp add: fcreds_def frame_def creds_def)

lemma pairwise_apart_map:
  "pairwise_apart P (map f xs) \<longleftrightarrow> pairwise_apart (\<lambda>x y. P (f x) (f y)) xs"
  by (induction xs) (auto simp: list_all_iff)

lemma pairwise_apart_mono:
  assumes "pairwise_apart P xs" and "\<And>x y. x \<in> set xs \<Longrightarrow> y \<in> set xs \<Longrightarrow> \<not> P x y \<Longrightarrow> \<not> Q x y"
  shows "pairwise_apart Q xs"
  using assms by (induction xs) (auto simp: list_all_iff)

text \<open>The invariant over the frames of the rows.\<close>

lemma auth_inv_frames:
  "auth_inv L n s \<longleftrightarrow>
     inj_on (uuids s) {..<n} \<and> drawn s \<le> n \<and>
     (\<forall>x \<in> set (map frame (rows s)). fcreds x \<subseteq> uuids s ` {..<drawn s}) \<and>
     pairwise_apart shares (map frame (rows s)) \<and> unique_ok L (indexes s) (rows s)"
  by (auto simp: auth_inv_def pairwise_apart_map shares_def fcreds_frame)

lemma drawn_later:
  assumes "inj_on (uuids s) {..<n}" and "drawn s \<le> k" and "k < n"
  shows "uuids s k \<notin> uuids s ` {..<drawn s}"
proof
  assume "uuids s k \<in> uuids s ` {..<drawn s}"
  then obtain j where "j < drawn s" and "uuids s k = uuids s j" by auto
  with assms show False by (auto dest!: inj_onD)
qed

lemma pairwise_shares_filter:
  assumes "pairwise_apart shares (map frame rs)"
  shows "pairwise_apart shares (map frame (filter P rs))"
  using assms by (induction rs) (auto simp: list_all_iff)

lemma rotated_creds:
  assumes "pairwise_apart shares xs" and "\<And>x. x \<in> set xs \<Longrightarrow> u \<notin> fcreds x"
  shows "pairwise_apart shares (map (rotated p u now) xs)"
  unfolding pairwise_apart_map
  using assms(1)
proof (rule pairwise_apart_mono)
  fix x y assume "x \<in> set xs" "y \<in> set xs" "\<not> shares x y"
  with assms(2) [of x] assms(2) [of y] show "\<not> shares (rotated p u now x) (rotated p u now y)"
    by (auto simp: shares_def fcreds_def rotated_def)
qed

lemma effect_inv:
  assumes inv: "auth_inv L n s" and eff: "step_effect L s t" and le: "drawn t \<le> n"
  shows "auth_inv L n t"
proof -
  have inj: "inj_on (uuids s) {..<n}" and apart: "pairwise_apart shares (map frame (rows s))"
    and used: "\<forall>x \<in> set (map frame (rows s)). fcreds x \<subseteq> uuids s ` {..<drawn s}"
    using inv by (auto simp: auth_inv_frames)
  have same: "uuids t = uuids s" and more: "drawn s \<le> drawn t"
    and uniq: "unique_ok L (indexes t) (rows t)"
    using eff inv by (auto simp: step_effect_def auth_inv_def)
  have used': "\<forall>x \<in> set (map frame (rows s)). fcreds x \<subseteq> uuids s ` {..<drawn t}"
    using used image_mono [OF lessThan_subset_iff [THEN iffD2, OF more]] subset_trans by meson
  have "pairwise_apart shares (map frame (rows t)) \<and>
    (\<forall>x \<in> set (map frame (rows t)). fcreds x \<subseteq> uuids s ` {..<drawn t})"
    using eff unfolding step_effect_def
  proof (elim conjE disjE)
    assume "keeps_rows s t"
    then obtain P where P: "map frame (rows t) = map frame (filter P (rows s))"
      by (auto simp: keeps_rows_def)
    show ?thesis unfolding P using used' apart by (auto simp: pairwise_shares_filter)
  next
    assume "adds_row s t"
    then obtain r k where r: "rows t = rows s @ [r]" "creds r = {uuids s k}" "drawn s \<le> k" "k < drawn t"
      by (auto simp: adds_row_def)
    then have "uuids s k \<notin> uuids s ` {..<drawn s}" using drawn_later [OF inj] le by simp
    then have "\<forall>x \<in> set (map frame (rows s)). \<not> shares x (frame r)"
      using used r(2) by (auto simp: shares_def fcreds_frame)
    with apart used' r show ?thesis by (auto simp: pairwise_apart_append1 fcreds_frame)
  next
    assume "rotates_row s t"
    then obtain p where p: "drawn s < drawn t"
      "map frame (rows t) = map (rotated p (uuids s (drawn s)) (clock s)) (map frame (rows s))"
      unfolding rotates_row_def by blast
    then have new: "uuids s (drawn s) \<notin> fcreds x" if "x \<in> set (map frame (rows s))" for x
      using drawn_later [OF inj, of "drawn s"] le used that by auto
    have "fcreds (rotated p (uuids s (drawn s)) (clock s) x) \<subseteq> uuids s ` {..<drawn t}"
      if "x \<in> set (map frame (rows s))" for x
    proof -
      have "fcreds x \<subseteq> uuids s ` {..<drawn t}" using used' that by blast
      then show ?thesis using p(1) by (auto simp: rotated_def fcreds_def)
    qed
    with rotated_creds [OF apart new] show ?thesis unfolding p(2) by auto
  qed
  with inj same uniq le show ?thesis by (simp add: auth_inv_frames)
qed

lemma reach_drawn: "auth_reach L n s t \<Longrightarrow> drawn s \<le> n \<Longrightarrow> drawn t \<le> n"
  by (induction rule: auth_reach.induct) auto

lemma reach_indexes: "auth_reach L n s t \<Longrightarrow> set (indexes s) \<subseteq> set (indexes t)"
proof (induction rule: auth_reach.induct)
  case (there t u)
  from auth_step_effect [OF there(2)] have "set (indexes t) \<subseteq> set (indexes u)" by (simp add: step_effect_def)
  with there.IH show ?case by simp
qed simp

lemma reach_inv: "auth_reach L n s t \<Longrightarrow> auth_inv L n s \<Longrightarrow> auth_inv L n t"
  by (induction rule: auth_reach.induct) (auto intro: effect_inv auth_step_effect)

section \<open>Retired credentials\<close>

definition retired :: "uuid \<Rightarrow> int \<Rightarrow> auth_db \<Rightarrow> bool" where
  "retired p t0 s \<longleftrightarrow> p \<in> uuids s ` {..<drawn s} \<and>
     (\<forall>x \<in> set (map frame (rows s)). fst x \<noteq> p \<and> (fst (snd x) = p \<longrightarrow> snd (snd x) \<le> t0))"

lemma effect_retired:
  assumes inv: "auth_inv L n s" and eff: "step_effect L s t" and le: "drawn t \<le> n" and ret: "retired p t0 s"
  shows "retired p t0 t"
proof -
  have inj: "inj_on (uuids s) {..<n}" using inv by (simp add: auth_inv_def)
  have same: "uuids t = uuids s" and more: "drawn s \<le> drawn t" using eff by (auto simp: step_effect_def)
  have drawn: "p \<in> uuids s ` {..<drawn s}"
    and rows: "\<forall>x \<in> set (map frame (rows s)). fst x \<noteq> p \<and> (fst (snd x) = p \<longrightarrow> snd (snd x) \<le> t0)"
    using ret by (auto simp: retired_def)
  have new: "uuids s k \<noteq> p" if "drawn s \<le> k" "k < n" for k
    using drawn_later [OF inj that] drawn by auto
  have "\<forall>x \<in> set (map frame (rows t)). fst x \<noteq> p \<and> (fst (snd x) = p \<longrightarrow> snd (snd x) \<le> t0)"
    using eff unfolding step_effect_def
  proof (elim conjE disjE)
    assume "keeps_rows s t"
    then obtain P where P: "map frame (rows t) = map frame (filter P (rows s))"
      by (auto simp: keeps_rows_def)
    show ?thesis unfolding P using rows by auto
  next
    assume "adds_row s t"
    then obtain r k where r: "rows t = rows s @ [r]" "creds r = {uuids s k}" "drawn s \<le> k" "k < drawn t"
      by (auto simp: adds_row_def)
    then have "r_id r \<noteq> p" "r_old_id r \<noteq> p" using new [of k] le by (auto simp: creds_def)
    then show ?thesis using rows by (simp add: r(1) frame_def)
  next
    assume "rotates_row s t"
    then obtain q where q: "drawn s < drawn t"
      "map frame (rows t) = map (rotated q (uuids s (drawn s)) (clock s)) (map frame (rows s))"
      unfolding rotates_row_def by blast
    then have "uuids s (drawn s) \<noteq> p" using new [of "drawn s"] le by simp
    then show ?thesis unfolding q(2) using rows by (auto simp: rotated_def)
  qed
  moreover have "p \<in> uuids s ` {..<drawn t}" using drawn more by fastforce
  ultimately show ?thesis by (simp add: retired_def same)
qed

lemma reach_retired:
  "auth_reach L n s t \<Longrightarrow> auth_inv L n s \<Longrightarrow> retired p t0 s \<Longrightarrow> retired p t0 t"
  by (induction rule: auth_reach.induct) (auto intro: effect_retired auth_step_effect reach_inv)

end
