(* ===== verification/Auth_Life.thy ===== *)
theory Auth_Life
  imports Auth_Txs
begin

text \<open>
  The life of a session: which credentials \<open>ping_auth_session\<close> accepts and what it changes,
  rotation with its ten-second grace period, logout, and the guarantees of the operations on
  \<open>meta\<close> (compare-and-swap, upsert, unique keys).
\<close>

section \<open>The row a credential belongs to\<close>

lemma pairwise_apart_eq:
  assumes "pairwise_apart P xs" and "\<And>x y. P x y \<Longrightarrow> P y x"
  shows "x \<in> set xs \<Longrightarrow> y \<in> set xs \<Longrightarrow> P x y \<Longrightarrow> x = y"
  using assms(1) by (induction xs) (auto simp: list_all_iff dest: assms(2))

lemma owner_unique:
  assumes "auth_inv L n s" and "r \<in> set (rows s)" and "q \<in> set (rows s)" and "p \<in> creds r" and "p \<in> creds q"
  shows "q = r"
proof -
  have "pairwise_apart (\<lambda>r r'. creds r \<inter> creds r' \<noteq> {}) (rows s)" using assms(1) by (simp add: auth_inv_def)
  then show ?thesis using assms(2-) by (auto intro: pairwise_apart_eq [of _ "rows s"])
qed

lemma id_in_creds [simp]: "r_id r \<in> creds r" "r_old_id r \<in> creds r"
  by (simp_all add: creds_def)

lemma find_owner:
  assumes "auth_inv L n s" and "r \<in> set (rows s)" and "p \<in> creds r"
  shows "find (pings p) (rows s) = Some r"
proof (cases "find (pings p) (rows s)")
  case None
  with assms show ?thesis by (auto simp: find_None_iff pings_creds)
next
  case (Some q)
  then have "q \<in> set (rows s)" and "p \<in> creds q" by (auto simp: find_Some_iff pings_creds)
  with Some owner_unique [OF assms(1,2)] assms(3) show ?thesis by simp
qed

lemma rows_distinct: "auth_inv L n s \<Longrightarrow> distinct (rows s)"
  by (auto simp: auth_inv_def unique_ok_def distinct_map)

lemma filter_one: "distinct xs \<Longrightarrow> x \<in> set xs \<Longrightarrow> (\<And>y. y \<in> set xs \<Longrightarrow> P y \<longleftrightarrow> y = x) \<Longrightarrow> filter P xs = [x]"
  by (induction xs) (auto simp: filter_empty_conv)

definition with_row :: "auth_db \<Rightarrow> session_row \<Rightarrow> session_row \<Rightarrow> session_row list" where
  "with_row s r r' = map (\<lambda>q. if q = r then r' else q) (rows s)"

lemma with_row_mem [simp]: "r \<in> set (rows s) \<Longrightarrow> r' \<in> set (with_row s r r')"
  by (auto simp: with_row_def)

lemma with_row_drawn [simp]: "with_row (s\<lparr>drawn := m\<rparr>) r r' = with_row s r r'"
  by (simp add: with_row_def)

text \<open>A statement whose condition selects one row changes just that row.\<close>

lemma update_rows_one:
  assumes "distinct rs" and "r \<in> set rs" and "\<And>q. q \<in> set rs \<Longrightarrow> P q \<longleftrightarrow> q = r" and "f r = Inr r'"
  shows "update_rows P f rs = Inr (map (\<lambda>q. if q = r then r' else q) rs, [r'])"
  using assms(1-3)
proof (induction rs)
  case (Cons x rs)
  show ?case
  proof (cases "x = r")
    case True
    have none: "update_rows P f ts = Inr (ts, [])" if "\<And>q. q \<in> set ts \<Longrightarrow> \<not> P q" for ts
      using that by (induction ts) auto
    have "r \<notin> set rs" using Cons.prems True by simp
    then have "\<not> P q" if "q \<in> set rs" for q using that Cons.prems by auto
    then have "update_rows P f rs = Inr (rs, [])" by (rule none)
    moreover have "map (\<lambda>q. if q = r then r' else q) rs = rs"
      using \<open>r \<notin> set rs\<close> by (auto intro: map_idI)
    ultimately show ?thesis using Cons.prems True by (simp add: assms(4))
  next
    case False
    with Cons show ?thesis by simp
  qed
qed simp

lemma update_one:
  assumes "link s = None" and "distinct (rows s)" and "r \<in> set (rows s)"
    and "\<And>q. q \<in> set (rows s) \<Longrightarrow> P q \<longleftrightarrow> q = r" and "f r = Inr r'"
    and "unique_ok L (indexes s) (with_row s r r')"
  shows "sql_update L s P f = (Inr [r'], s\<lparr>rows := with_row s r r'\<rparr>)"
  using assms by (simp add: sql_update_def update_rows_one with_row_def)

lemma unique_with_row:
  assumes "unique_ok L (indexes s) (rows s)" and "r \<in> set (rows s)" and "r_meta r' = r_meta r"
    and "r_id r' = r_id r \<or> r_id r' \<notin> r_id ` set (rows s)"
  shows "unique_ok L (indexes s) (with_row s r r')"
proof (rule unique_ok_meta [OF assms(1)])
  show "map r_meta (with_row s r r') = map r_meta (rows s)"
    using assms(3) by (auto simp: with_row_def)
  have inj: "inj_on r_id (set (rows s))" and dist: "distinct (rows s)"
    using assms(1) by (auto simp: unique_ok_def distinct_map)
  have "inj_on (\<lambda>q. r_id (if q = r then r' else q)) (set (rows s))"
  proof (rule inj_onI)
    fix x y assume xy: "x \<in> set (rows s)" "y \<in> set (rows s)"
      and eq: "r_id (if x = r then r' else x) = r_id (if y = r then r' else y)"
    have "r_id r' \<noteq> r_id q" if "q \<in> set (rows s)" "q \<noteq> r" for q
      using that assms(2,4) inj_onD [OF inj, of q r] by force
    with xy eq show "x = y"
      using inj_onD [OF inj, of x y] by (cases "x = r"; cases "y = r") fastforce+
  qed
  then show "distinct (map r_id (with_row s r r'))"
    using dist by (auto simp: with_row_def distinct_map o_def)
qed

section \<open>What a ping does\<close>

definition idle :: "auth_db \<Rightarrow> int \<Rightarrow> session_row \<Rightarrow> bool" where
  "idle s mins r \<longleftrightarrow> r_last r < clock s - minutes mins"

definition rotates :: "auth_db \<Rightarrow> uuid \<Rightarrow> session_row \<Rightarrow> bool" where
  "rotates s p r \<longleftrightarrow> r_id r = p \<and> r_created r < clock s - minutes 5"

definition pinged :: "auth_db \<Rightarrow> uuid \<Rightarrow> session_row \<Rightarrow> session_row" where
  "pinged s p r =
     (if rotates s p r
      then r\<lparr>r_old_id := p, r_id := uuids s (drawn s), r_created := clock s, r_last := clock s,
             r_minted := clock s\<rparr>
      else r\<lparr>r_last := clock s\<rparr>)"

text \<open>The contract of a credential: the current id of a session, or its previous id for ten
  seconds after the rotation, of a session that is not idle.\<close>

definition accepted :: "auth_db \<Rightarrow> int \<Rightarrow> uuid \<Rightarrow> bool" where
  "accepted s mins p \<longleftrightarrow> (\<exists>r \<in> set (rows s).
     (r_id r = p \<or> r_old_id r = p \<and> clock s - seconds 10 \<le> r_minted r) \<and>
     clock s - minutes mins \<le> r_last r)"

lemma saps_ping_unknown:
  assumes "link s = None" and "\<And>r. r \<in> set (rows s) \<Longrightarrow> p \<notin> creds r"
  shows "saps_ping L s mins p = (Inr None, s)"
proof -
  have "filter (\<lambda>r. pings p r \<and> r_last r < clock s - minutes mins) (rows s) = []"
    and "filter (\<lambda>r. \<not> (pings p r \<and> r_last r < clock s - minutes mins)) (rows s) = rows s"
    and "find (pings p) (rows s) = None"
    using assms(2) by (auto simp: pings_creds filter_empty_conv find_None_iff intro: filter_True)
  with assms(1) show ?thesis by (simp add: saps_ping_def sql_delete_def)
qed

lemma saps_ping_idle:
  assumes "auth_inv L n s" and "link s = None" and "r \<in> set (rows s)" and "p \<in> creds r" and "idle s mins r"
  shows "saps_ping L s mins p = (Inr None, s\<lparr>rows := filter (\<lambda>r. \<not> (p \<in> creds r \<and> idle s mins r)) (rows s)\<rparr>)"
proof -
  have "filter (\<lambda>r. pings p r \<and> r_last r < clock s - minutes mins) (rows s) \<noteq> []"
    using assms(3-5) by (auto simp: pings_creds filter_empty_conv idle_def)
  with assms(2) show ?thesis by (simp add: saps_ping_def sql_delete_def pings_creds idle_def)
qed

lemma saps_ping_alive:
  assumes inv: "auth_inv L n s" and room: "drawn s < n" and up: "link s = None"
    and r: "r \<in> set (rows s)" "p \<in> creds r" and alive: "\<not> idle s mins r"
  shows "saps_ping L s mins p =
    (if r_id r \<noteq> p \<and> r_minted r < clock s - seconds 10 then (Inr None, s)
     else (Inr (Some (pinged s p r)), s\<lparr>rows := with_row s r (pinged s p r),
             drawn := (if rotates s p r then Suc (drawn s) else drawn s)\<rparr>))"
proof -
  have uniq: "unique_ok L (indexes s) (rows s)" and inj: "inj_on (uuids s) {..<n}"
    and used: "\<forall>r \<in> set (rows s). creds r \<subseteq> uuids s ` {..<drawn s}"
    using inv by (auto simp: auth_inv_def)
  have none: "filter (\<lambda>r. pings p r \<and> r_last r < clock s - minutes mins) (rows s) = []"
    using owner_unique [OF inv r(1) _ r(2)] alive by (auto simp: filter_empty_conv idle_def pings_creds)
  then have "filter (\<lambda>r. \<not> (pings p r \<and> r_last r < clock s - minutes mins)) (rows s) = rows s"
    by (intro filter_True) (simp add: filter_empty_conv)
  with none have del: "sql_delete s (\<lambda>r. pings p r \<and> r_last r < clock s - minutes mins) = (Inr 0, s)"
    using up by (simp add: sql_delete_def)
  have one: "r_id q = r_id r \<longleftrightarrow> q = r" if "q \<in> set (rows s)" for q
    using that uniq r(1) by (auto simp: unique_ok_def distinct_map inj_on_def)
  have fresh: "uuids s (drawn s) \<notin> r_id ` set (rows s)"
  proof
    assume "uuids s (drawn s) \<in> r_id ` set (rows s)"
    then obtain q where "q \<in> set (rows s)" and "uuids s (drawn s) = r_id q" by auto
    then have "uuids s (drawn s) \<in> uuids s ` {..<drawn s}" using used id_in_creds(1) [of q] by (metis subsetD)
    with drawn_later [OF inj order_refl room] show False by simp
  qed
  have touch: "sql_update L s (\<lambda>q. r_id q = r_id r) (\<lambda>r. Inr (r\<lparr>r_last := clock s\<rparr>)) =
      (Inr [r\<lparr>r_last := clock s\<rparr>], s\<lparr>rows := with_row s r (r\<lparr>r_last := clock s\<rparr>)\<rparr>)"
    by (rule update_one) (simp_all add: up r(1) rows_distinct [OF inv] one unique_with_row uniq)
  have rotate: "sql_update L (s\<lparr>drawn := Suc (drawn s)\<rparr>) (\<lambda>q. r_id q = p)
      (\<lambda>r. Inr (r\<lparr>r_old_id := r_id r, r_id := uuids s (drawn s), r_created := clock s,
         r_last := clock s, r_minted := clock s\<rparr>)) =
      (Inr [pinged s p r], s\<lparr>drawn := Suc (drawn s), rows := with_row s r (pinged s p r)\<rparr>)"
    if "rotates s p r"
  proof -
    have "unique_ok L (indexes s) (with_row s r (pinged s p r))"
      using that fresh by (intro unique_with_row uniq r(1)) (auto simp: pinged_def)
    moreover have "r_id q = p \<longleftrightarrow> q = r" if "q \<in> set (rows s)" for q
      using one [OF that] \<open>rotates s p r\<close> by (simp add: rotates_def)
    ultimately have "sql_update L (s\<lparr>drawn := Suc (drawn s)\<rparr>) (\<lambda>q. r_id q = p)
      (\<lambda>r. Inr (r\<lparr>r_old_id := r_id r, r_id := uuids s (drawn s), r_created := clock s,
         r_last := clock s, r_minted := clock s\<rparr>)) =
      (Inr [pinged s p r], s\<lparr>drawn := Suc (drawn s)\<rparr>\<lparr>rows := with_row (s\<lparr>drawn := Suc (drawn s)\<rparr>) r (pinged s p r)\<rparr>)"
      using that by (intro update_one) (simp_all add: up r(1) rows_distinct [OF inv] pinged_def rotates_def)
    then show ?thesis by simp
  qed
  show ?thesis
    using r(2) touch rotate
    by (auto simp: saps_ping_def del find_owner [OF inv r] ping_returning_def draw_def pinged_def
        rotates_def creds_def)
qed

section \<open>Pinging by credential\<close>

definition roles_ok :: "'u auth_lib \<Rightarrow> auth_db \<Rightarrow> bool" where
  "roles_ok L s \<longleftrightarrow> (\<forall>r \<in> set (rows s). \<exists>u. role_parse L (r_role r) = Inr u)"

lemma read_session_ok: "role_parse L (r_role r) = Inr u \<Longrightarrow> read_session L r =
    Inr \<lparr>s_id = r_id r, s_role = u, s_created = r_created r, s_last = r_last r, s_meta = r_meta r\<rparr>"
  by (simp add: read_session_def session_from_row_def)

lemma pinged_sel [simp]:
  "r_role (pinged s p r) = r_role r" "r_meta (pinged s p r) = r_meta r" "r_last (pinged s p r) = clock s"
  by (simp_all add: pinged_def)

lemma accepted_owner:
  assumes "auth_inv L n s" and "r \<in> set (rows s)" and "p \<in> creds r"
  shows "accepted s mins p \<longleftrightarrow>
    (r_id r = p \<or> clock s - seconds 10 \<le> r_minted r) \<and> clock s - minutes mins \<le> r_last r"
proof
  assume "accepted s mins p"
  then obtain q where q: "q \<in> set (rows s)" "r_id q = p \<or> r_old_id q = p \<and> clock s - seconds 10 \<le> r_minted q"
    "clock s - minutes mins \<le> r_last q" by (auto simp: accepted_def)
  then have "p \<in> creds q" by (auto simp: creds_def)
  then have "q = r" by (rule owner_unique [OF assms(1,2) q(1) assms(3)])
  with q show "(r_id r = p \<or> clock s - seconds 10 \<le> r_minted r) \<and> clock s - minutes mins \<le> r_last r" by auto
qed (use assms in \<open>auto simp: accepted_def creds_def\<close>)

definition ping_meets :: "'u auth_lib \<Rightarrow> auth_db \<Rightarrow> int \<Rightarrow> uuid
    \<Rightarrow> (sqlx_error + 'u auth_session option) \<times> auth_db \<Rightarrow> bool" where
  "ping_meets L s mins p out =
     (case out of
        (Inl e, t) \<Rightarrow> False
      | (Inr None, t) \<Rightarrow> \<not> accepted s mins p \<and>
          t = s\<lparr>rows := filter (\<lambda>r. \<not> (p \<in> creds r \<and> idle s mins r)) (rows s)\<rparr>
      | (Inr (Some a), t) \<Rightarrow> accepted s mins p \<and> (\<exists>r \<in> set (rows s). p \<in> creds r \<and>
          role_parse L (r_role r) = Inr (s_role a) \<and> s_meta a = r_meta r \<and> s_last a = clock s \<and>
          s_id a = (if rotates s p r then uuids s (drawn s) else r_id r) \<and>
          s_created a = (if rotates s p r then clock s else r_created r) \<and>
          t = s\<lparr>rows := with_row s r (pinged s p r),
                drawn := (if rotates s p r then Suc (drawn s) else drawn s)\<rparr>))"

lemma ping_auth_session_meets:
  assumes inv: "auth_inv L n s" and room: "drawn s < n" and up: "link s = None"
    and parse: "uuid_parse L i = Inr p" and roles: "roles_ok L s"
  shows "ping_meets L s mins p (ping_auth_session L s mins i)"
proof (cases "\<exists>r \<in> set (rows s). p \<in> creds r")
  case False
  then have "saps_ping L s mins p = (Inr None, s)" using saps_ping_unknown [OF up] by blast
  moreover have "\<not> accepted s mins p" using False by (auto simp: accepted_def creds_def)
  moreover have "filter (\<lambda>r. \<not> (p \<in> creds r \<and> idle s mins r)) (rows s) = rows s"
    using False by (intro filter_True) auto
  ultimately show ?thesis by (simp add: ping_meets_def ping_auth_session_def parse_session_id_def parse)
next
  case True
  then obtain r where r: "r \<in> set (rows s)" "p \<in> creds r" by blast
  note acc = accepted_owner [OF inv r]
  have alone: "q = r" if "q \<in> set (rows s)" "p \<in> creds q" for q by (rule owner_unique [OF inv r(1) that(1) r(2) that(2)])
  obtain u where u: "role_parse L (r_role r) = Inr u" using roles r(1) by (auto simp: roles_ok_def)
  show ?thesis
  proof (cases "idle s mins r")
    case True
    then show ?thesis using saps_ping_idle [OF inv up r True] acc
      by (simp add: ping_meets_def ping_auth_session_def parse_session_id_def parse idle_def)
  next
    case False
    have keep: "filter (\<lambda>r. \<not> (p \<in> creds r \<and> idle s mins r)) (rows s) = rows s"
      using False alone by (intro filter_True) auto
    show ?thesis
    proof (cases "r_id r \<noteq> p \<and> r_minted r < clock s - seconds 10")
      case True
      then show ?thesis using saps_ping_alive [OF inv room up r False] acc keep
        by (simp add: ping_meets_def ping_auth_session_def parse_session_id_def parse)
    next
      case fresh: False
      then have "accepted s mins p" using acc False by (auto simp: idle_def)
      moreover have "saps_ping L s mins p = (Inr (Some (pinged s p r)), s\<lparr>rows := with_row s r (pinged s p r),
             drawn := (if rotates s p r then Suc (drawn s) else drawn s)\<rparr>)"
        using saps_ping_alive [OF inv room up r False] fresh by (simp only: if_False)
      moreover have "read_session L (pinged s p r) = Inr \<lparr>s_id = r_id (pinged s p r), s_role = u,
          s_created = r_created (pinged s p r), s_last = clock s, s_meta = r_meta r\<rparr>"
        using read_session_ok [of L "pinged s p r" u] u by simp
      ultimately show ?thesis using r u
        by (auto simp: ping_meets_def ping_auth_session_def parse_session_id_def parse pinged_def
            simp del: pinged_sel intro!: bexI [of _ r])
    qed
  qed
qed

text \<open>C6: a ping accepts a credential exactly when it is the current id of a session that is not
  idle, or its previous id within ten seconds of the rotation. It then returns that session with
  its role and meta, touches only its row, and gives it a new id just when the current id was used
  and the session is older than five minutes. Otherwise it returns nothing and only removes the
  session when that session is idle.\<close>

theorem ping_accepts:
  assumes "auth_inv L n s" and "drawn s < n" and "link s = None"
    and "uuid_parse L i = Inr p" and "roles_ok L s"
  shows "ping_meets L s mins p (ping_auth_session L s mins i)"
  using assms by (rule ping_auth_session_meets)

lemma ping_some:
  assumes "auth_inv L n s" and "drawn s < n" and "link s = None" and "uuid_parse L i = Inr p" and "roles_ok L s"
    and "ping_auth_session L s mins i = (Inr (Some a), t)"
  obtains r where "r \<in> set (rows s)" and "p \<in> creds r" and "accepted s mins p"
    and "role_parse L (r_role r) = Inr (s_role a)" and "s_meta a = r_meta r" and "s_id a = r_id (pinged s p r)"
    and "t = s\<lparr>rows := with_row s r (pinged s p r), drawn := (if rotates s p r then Suc (drawn s) else drawn s)\<rparr>"
  using ping_auth_session_meets [OF assms(1-5), of mins]
  by (auto simp: ping_meets_def assms(6) pinged_def)


section \<open>Rotated and deleted credentials\<close>

lemma retired_ping:
  assumes "retired p t0 s" and "t0 + seconds 10 < clock s" and "uuid_parse L i = Inr p"
  shows "fst (ping_auth_session L s mins i) \<noteq> Inr (Some a)"
proof -
  have row: "r_id r \<noteq> p \<and> (r_old_id r = p \<longrightarrow> r_minted r < clock s - seconds 10)" if "r \<in> set (rows s)" for r
    using assms(1,2) that by (auto simp: retired_def frame_def)
  have "fst (saps_ping L s mins p) \<noteq> Inr (Some r)" for r
  proof (cases "fst (sql_delete s (\<lambda>r. pings p r \<and> r_last r < clock s - minutes mins))")
    case (Inl e)
    then show ?thesis by (auto simp: saps_ping_def sql_delete_def split: option.splits)
  next
    case (Inr n)
    define t where "t = snd (sql_delete s (\<lambda>r. pings p r \<and> r_last r < clock s - minutes mins))"
    have del: "sql_delete s (\<lambda>r. pings p r \<and> r_last r < clock s - minutes mins) = (Inr n, t)"
      by (simp add: t_def Inr [symmetric])
    have t: "clock t = clock s" "set (rows t) \<subseteq> set (rows s)"
      by (auto simp: t_def sql_delete_def split: option.split)
    show ?thesis
    proof (cases "find (pings p) (rows t)")
      case (Some q)
      then have q: "q \<in> set (rows t)" "pings p q" by (auto simp: find_Some_iff)
      then have "r_id q \<noteq> p" "r_old_id q = p" "r_minted q < clock t - seconds 10"
        using row [of q] t by (auto simp: pings_def)
      then show ?thesis by (simp add: saps_ping_def del Some)
    qed (simp add: saps_ping_def del)
  qed
  then show ?thesis
    by (cases "saps_ping L s mins p"; cases "fst (saps_ping L s mins p)")
      (auto simp: ping_auth_session_def parse_session_id_def assms(3) res_bind_Inr_iff split: option.splits)
qed

lemma retired_get:
  assumes "retired p t0 s" and "uuid_parse L i = Inr p"
  shows "get_auth_session L s i \<noteq> Inr (Some a)" and "get_auth_session_strict L s i \<noteq> Inr b"
proof -
  have "filter (\<lambda>r. r_id r = p) (rows s) = []"
    using assms(1) by (auto simp: retired_def frame_def filter_empty_conv)
  then show "get_auth_session L s i \<noteq> Inr (Some a)" and "get_auth_session_strict L s i \<noteq> Inr b"
    by (auto simp: get_auth_session_def get_auth_session_strict_def parse_session_id_def assms(2)
        sql_select_def read_optional_def read_one_def split: option.splits)
qed

lemma drawn_creds:
  assumes "auth_inv L n s" and "r \<in> set (rows s)" and "p \<in> creds r"
  shows "p \<in> uuids s ` {..<drawn s}"
  using assms by (auto simp: auth_inv_def dest!: bspec [OF _ assms(2)])

lemma rotation_retires:
  assumes inv: "auth_inv L n s" and room: "drawn s < n" and r: "r \<in> set (rows s)" and rot: "rotates s p r"
    and t: "uuids t = uuids s" "rows t = with_row s r (pinged s p r)" "drawn t = Suc (drawn s)"
  shows "retired p (clock s) t"
proof -
  have p: "p \<in> creds r" using rot by (auto simp: rotates_def creds_def)
  have inj: "inj_on (uuids s) {..<n}" using inv by (simp add: auth_inv_def)
  have drawn: "p \<in> uuids s ` {..<drawn s}" by (rule drawn_creds [OF inv r p])
  then have new: "uuids s (drawn s) \<noteq> p" using drawn_later [OF inj order_refl room] by blast
  have "r_id q \<noteq> p \<and> (r_old_id q = p \<longrightarrow> r_minted q \<le> clock s)" if q: "q \<in> set (rows t)" for q
  proof (cases "q = pinged s p r")
    case True
    with rot new show ?thesis by (simp add: pinged_def)
  next
    case False
    with q have "q \<in> set (rows s)" "q \<noteq> r" by (auto simp: t with_row_def split: if_splits)
    then have "p \<notin> creds q" using owner_unique [OF inv r _ p] by blast
    then show ?thesis by (auto simp: creds_def)
  qed
  then show ?thesis using drawn by (auto simp: retired_def frame_def t lessThan_Suc)
qed

text \<open>C8: once a ping has rotated a session to a new id, the old id is no key of the table, and
  ten seconds later no ping accepts it, whatever the database has served in between.\<close>

theorem rotated_credential_dies:
  assumes "auth_inv L n s" and "drawn s < n" and "link s = None"
    and "uuid_parse L i = Inr p" and "roles_ok L s"
    and "ping_auth_session L s mins i = (Inr (Some a), t)"
    and "\<exists>r \<in> set (rows s). r_id r = p" and "s_id a \<noteq> p"
    and "auth_reach L n t u"
  shows "get_auth_session L u i \<noteq> Inr (Some b) \<and>
    (clock s + seconds 10 < clock u \<longrightarrow> fst (ping_auth_session L u mins' i) \<noteq> Inr (Some b))"
proof -
  obtain r where r: "r \<in> set (rows s)" "p \<in> creds r" and a: "s_id a = r_id (pinged s p r)"
    and t: "t = s\<lparr>rows := with_row s r (pinged s p r), drawn := (if rotates s p r then Suc (drawn s) else drawn s)\<rparr>"
    by (rule ping_some [OF assms(1-6)])
  have "r_id r = p" using assms(7) owner_unique [OF assms(1) r(1)] r(2) by (auto simp: creds_def)
  with a assms(8) have rot: "rotates s p r" by (auto simp: pinged_def split: if_splits)
  then have "retired p (clock s) t"
    using rotation_retires [OF assms(1,2) r(1) rot] by (simp add: t)
  moreover have "auth_inv L n t"
    using effect_inv [OF assms(1) effect_ping [of L s mins i]] assms(2,6) rot by (simp add: t)
  ultimately have "retired p (clock s) u" by (intro reach_retired [OF assms(9)])
  then show ?thesis using retired_ping retired_get(1) assms(4) by metis
qed

text \<open>C19: logging out is final. After a session has been deleted by its id, neither that id nor its
  previous id is accepted by a ping again or found by a lookup, whatever happens afterwards.\<close>

theorem logout_is_final:
  assumes "auth_inv L n s" and "r \<in> set (rows s)" and "delete_auth_session s (r_id r) = (Inr True, t)"
    and "auth_reach L n t u" and "p = r_id r \<or> p = r_old_id r" and "uuid_parse L i = Inr p"
  shows "fst (ping_auth_session L u mins i) \<noteq> Inr (Some a) \<and> get_auth_session L u i \<noteq> Inr (Some a)"
proof -
  have p: "p \<in> creds r" using assms(5) by (auto simp: creds_def)
  have t: "t = s\<lparr>rows := filter (\<lambda>q. r_id q \<noteq> r_id r) (rows s)\<rparr>"
    using assms(3) by (auto simp: delete_auth_session_def sql_delete_def split: option.splits)
  have "p \<notin> creds q" if "q \<in> set (rows t)" for q
    using that owner_unique [OF assms(1,2) _ p] by (auto simp: t)
  then have "\<forall>q \<in> set (rows t). r_id q \<noteq> p \<and> r_old_id q \<noteq> p" by (auto simp: creds_def)
  moreover have "uuids t = uuids s" "drawn t = drawn s" by (simp_all add: t)
  ultimately have "retired p t0 t" for t0
    using drawn_creds [OF assms(1,2) p] by (simp add: retired_def frame_def)
  moreover have "snd (sql_delete s (\<lambda>q. r_id q = r_id r)) = t"
    using assms(3) by (auto simp: delete_auth_session_def sql_delete_def split: option.splits)
  then have "auth_inv L n t"
    using effect_inv [OF assms(1) effect_delete [of L s "\<lambda>q. r_id q = r_id r"]] assms(1)
    by (simp add: auth_inv_def t)
  ultimately have "retired p t0 u" for t0 by (intro reach_retired [OF assms(4)])
  then have "retired p (clock u - seconds 10 - 1) u" and "retired p 0 u" by blast+
  then show ?thesis using retired_ping [OF _ _ assms(6)] retired_get(1) [OF _ assms(6)] by force
qed

end
