(* ===== verification/Migrations.thy ===== *)
theory Migrations
  imports Sql_Schema Auth_Life
begin

text \<open>
  The migrations: the SQL of \<open>AuthSession\<close>, \<open>QueuedTask\<close> and \<open>ScheduledTask::generate_migration_sql\<close> as
  lists of statements, \<open>dal/migrations.rs\<close>, and how the tables they leave are read by the models of
  \<open>Auth_Session\<close> and \<open>Tasks\<close>.
\<close>

section \<open>The scripts\<close>

definition auth_sessions :: string where "auth_sessions = ''saps.auth_sessions''"
definition queued_tasks :: string where "queued_tasks = ''saps.queued_tasks''"
definition scheduled_tasks :: string where "scheduled_tasks = ''saps.scheduled_tasks''"

abbreviation col :: "string \<Rightarrow> sql_type \<Rightarrow> bool \<Rightarrow> sql_default option \<Rightarrow> column" where
  "col n ty nn d \<equiv> \<lparr>cn_name = n, cn_type = ty, cn_not_null = nn, cn_default = d\<rparr>"

abbreviation varchar :: "nat \<Rightarrow> sql_type" where "varchar n \<equiv> TVarchar (Some n)"

definition auth_columns :: "column list" where
  "auth_columns =
     [col ''id'' TUuid True (Some GenRandomUuid),
      col ''old_id'' TUuid True (Some GenRandomUuid),
      col ''role'' (varchar 255) True None,
      col ''date_created'' TTimestamp True (Some DefaultNow),
      col ''last_interacted'' TTimestamp True (Some DefaultNow),
      col ''time_minted'' TTimestamp True (Some DefaultNow),
      col ''meta'' TJsonb False None]"

definition auth_migration :: "statement list" where
  "auth_migration =
     [CreateSchema ''saps'',
      CreateTable True auth_sessions ''id'' auth_columns,
      AddColumn auth_sessions (col ''old_id'' TUuid False None),
      FillNulls auth_sessions ''old_id'' ''id'',
      SetNotNull auth_sessions ''old_id'',
      SetDefault auth_sessions ''old_id'' GenRandomUuid,
      AddColumn auth_sessions (col ''time_minted'' TTimestamp True (Some DefaultNow)),
      CreateIndex True ''saps.idx_saps_auth_sessions_last_interacted'' auth_sessions ''last_interacted'' None,
      CreateIndex True ''saps.idx_saps_auth_sessions_old_id'' auth_sessions ''old_id'' None,
      CreateFunction ''saps.ping'' [(''p_minutes'', TInteger), (''p_session_id'', TUuid)] False auth_sessions]"

definition queue_columns :: "column list" where
  "queue_columns =
     [col ''id'' TUuid True (Some GenRandomUuid),
      col ''function_name'' (varchar 255) True None,
      col ''params'' TJsonb True (Some (Constant (VJson (JObj [])))),
      col ''status'' (varchar 50) True (Some (Constant (VText ''pending''))),
      col ''time_posted'' TTimestamp True (Some DefaultNow),
      col ''time_started'' TTimestamp False None,
      col ''time_finished'' TTimestamp False None,
      col ''locked'' TBoolean True (Some (Constant (VBool False)))]"

definition queue_migration :: "statement list" where
  "queue_migration =
     [CreateSchema ''saps'',
      CreateTable True queued_tasks ''id'' queue_columns,
      CreateIndex True ''saps.idx_saps_queued_tasks_status'' queued_tasks ''status'' None,
      CreateIndex True ''saps.idx_saps_queued_tasks_function_name'' queued_tasks ''function_name'' None,
      CreateFunction ''saps.claim_task'' [(''p_function_name'', TVarchar None)] False queued_tasks,
      CreateFunction ''saps.get_next_task'' [] False queued_tasks]"

definition schedule_columns :: "column list" where
  "schedule_columns =
     [col ''id'' TInteger True (Some NextVal),
      col ''function_name'' (varchar 255) True None,
      col ''params'' TJsonb True (Some (Constant (VJson (JObj [])))),
      col ''task_id'' TUuid False None,
      col ''time_scheduled'' TTimestamp False None,
      col ''time_completed'' TTimestamp False None,
      col ''cron_string'' (varchar 255) True None,
      col ''locked'' TBoolean True (Some (Constant (VBool False)))]"

definition schedule_migration :: "statement list" where
  "schedule_migration =
     [CreateSchema ''saps'',
      DropTableCascade scheduled_tasks,
      CreateTable False scheduled_tasks ''id'' schedule_columns,
      CreateIndex False ''saps.idx_saps_scheduled_tasks_due'' scheduled_tasks ''time_scheduled''
        (Some (''locked'', VBool False)),
      CreateFunction ''saps.claim_due_scheduled_tasks'' [] True scheduled_tasks]"

text \<open>\<open>run_migrations\<close>: each script is a message of its own, so what ran before a panic stays. \<open>None\<close> is
  the panic.\<close>

definition run_migrations :: "error_text \<Rightarrow> pg \<Rightarrow> unit option \<times> pg" where
  "run_migrations E s =
     (case pg_execute E s auth_migration of
        (Inl _, s) \<Rightarrow> (None, s)
      | (Inr _, s) \<Rightarrow>
          (case pg_execute E s queue_migration of
             (Inl _, s) \<Rightarrow> (None, s)
           | (Inr _, s) \<Rightarrow>
               (case pg_execute E s schedule_migration of
                  (Inl _, s) \<Rightarrow> (None, s)
                | (Inr _, s) \<Rightarrow> (Some (), s))))"

section \<open>Reading the tables\<close>

fun get_uuid :: "sql_value option \<Rightarrow> uuid option" where
  "get_uuid (Some (VUuid u)) = Some u" | "get_uuid _ = None"

fun get_text :: "sql_value option \<Rightarrow> string option" where
  "get_text (Some (VText t)) = Some t" | "get_text _ = None"

fun get_time :: "sql_value option \<Rightarrow> int option" where
  "get_time (Some (VTime t)) = Some t" | "get_time _ = None"

fun get_json :: "sql_value option \<Rightarrow> json option" where
  "get_json (Some (VJson j)) = Some j" | "get_json _ = None"

fun get_bool :: "sql_value option \<Rightarrow> bool" where
  "get_bool (Some (VBool b)) = b" | "get_bool _ = False"

fun get_int :: "sql_value option \<Rightarrow> int" where
  "get_int (Some (VInt i)) = i" | "get_int _ = 0"

text \<open>A row of \<open>saps.auth_sessions\<close>. A column that is missing or null gives no particular value: only
  rows of the migrated table are read.\<close>

definition read_session_row :: "sql_row \<Rightarrow> session_row" where
  "read_session_row r =
     \<lparr>r_id = the (get_uuid (r ''id'')), r_old_id = the (get_uuid (r ''old_id'')),
      r_role = the (get_text (r ''role'')), r_created = the (get_time (r ''date_created'')),
      r_last = the (get_time (r ''last_interacted'')), r_minted = the (get_time (r ''time_minted'')),
      r_meta = get_json (r ''meta'')\<rparr>"

definition table_rows :: "pg \<Rightarrow> string \<Rightarrow> sql_row list" where
  "table_rows s n = (case pg_tables s n of None \<Rightarrow> [] | Some t \<Rightarrow> tb_rows t)"

definition auth_db_of :: "pg \<Rightarrow> auth_db" where
  "auth_db_of s = \<lparr>rows = map read_session_row (table_rows s auth_sessions), clock = pg_now s,
     uuids = pg_uuids s, drawn = pg_drawn s, indexes = [], link = pg_link s\<rparr>"

definition read_queue_row :: "sql_row \<Rightarrow> string queued_task" where
  "read_queue_row r =
     \<lparr>q_id = the (get_uuid (r ''id'')), q_function = the (get_text (r ''function_name'')),
      q_params = the (get_json (r ''params'')), q_status = the (get_text (r ''status'')),
      q_posted = the (get_time (r ''time_posted'')), q_started = get_time (r ''time_started''),
      q_finished = get_time (r ''time_finished''), q_locked = get_bool (r ''locked'')\<rparr>"

definition read_schedule_row :: "sql_row \<Rightarrow> scheduled_task" where
  "read_schedule_row r =
     \<lparr>c_id = get_int (r ''id''), c_function = the (get_text (r ''function_name'')),
      c_params = the (get_json (r ''params'')), c_task_id = get_uuid (r ''task_id''),
      c_scheduled = get_time (r ''time_scheduled''), c_completed = get_time (r ''time_completed''),
      c_cron = the (get_text (r ''cron_string'')), c_locked = get_bool (r ''locked'')\<rparr>"

definition task_db_of :: "pg \<Rightarrow> task_db" where
  "task_db_of s = \<lparr>queue = map read_queue_row (table_rows s queued_tasks),
     schedule = map read_schedule_row (table_rows s scheduled_tasks), t_clock = pg_now s, t_uuids = pg_uuids s,
     t_drawn = pg_drawn s,
     t_serial = (case pg_tables s scheduled_tasks of None \<Rightarrow> 1 | Some t \<Rightarrow> tb_serial t), t_link = pg_link s\<rparr>"

section \<open>What the scripts expect\<close>

text \<open>The table of sessions as this or an earlier version left it.\<close>

definition older_auth :: "sql_table \<Rightarrow> bool" where
  "older_auth t \<longleftrightarrow> tb_key t = ''id'' \<and> ''last_interacted'' \<in> set (column_names t) \<and>
     (case column_of t ''id'' of None \<Rightarrow> False | Some k \<Rightarrow> cn_type k = TUuid \<and> cn_not_null k) \<and>
     (case column_of t ''old_id'' of None \<Rightarrow> True | Some k \<Rightarrow> cn_type k = TUuid) \<and>
     (case column_of t ''time_minted'' of None \<Rightarrow> True | Some k \<Rightarrow> cn_type k = TTimestamp \<and> cn_not_null k)"

definition free_or :: "'a option \<Rightarrow> 'a \<Rightarrow> bool" where
  "free_or x a \<longleftrightarrow> x = None \<or> x = Some a"

abbreviation proc :: "string list \<Rightarrow> bool \<Rightarrow> string \<Rightarrow> sql_function" where
  "proc ps setof t \<equiv> \<lparr>fn_params = ps, fn_setof = setof, fn_returns = t\<rparr>"

abbreviation due_index :: string where "due_index \<equiv> ''saps.idx_saps_scheduled_tasks_due''"

text \<open>An index of that name is an index of that table.\<close>

definition owns :: "pg \<Rightarrow> string \<Rightarrow> string \<Rightarrow> bool" where
  "owns s tn i \<longleftrightarrow> (case pg_indexes s i of None \<Rightarrow> True | Some x \<Rightarrow> ix_table x = tn)"

definition auth_ready :: "pg \<Rightarrow> bool" where
  "auth_ready s \<longleftrightarrow> pg_indexes s auth_sessions = None \<and>
     owns s auth_sessions ''saps.idx_saps_auth_sessions_last_interacted'' \<and>
     owns s auth_sessions ''saps.idx_saps_auth_sessions_old_id'' \<and>
     (case pg_tables s auth_sessions of None \<Rightarrow> True | Some t \<Rightarrow> older_auth t) \<and>
     free_or (pg_functions s (''saps.ping'', [TInteger, TUuid])) (proc [''p_minutes'', ''p_session_id''] False auth_sessions)"

definition queue_ready :: "pg \<Rightarrow> bool" where
  "queue_ready s \<longleftrightarrow> pg_indexes s queued_tasks = None \<and>
     owns s queued_tasks ''saps.idx_saps_queued_tasks_status'' \<and>
     owns s queued_tasks ''saps.idx_saps_queued_tasks_function_name'' \<and>
     (case pg_tables s queued_tasks of None \<Rightarrow> True | Some t \<Rightarrow> {''status'', ''function_name''} \<subseteq> set (column_names t)) \<and>
     free_or (pg_functions s (''saps.claim_task'', [TVarchar None])) (proc [''p_function_name''] False queued_tasks) \<and>
     free_or (pg_functions s (''saps.get_next_task'', [])) (proc [] False queued_tasks)"

definition schedule_ready :: "pg \<Rightarrow> bool" where
  "schedule_ready s \<longleftrightarrow> pg_indexes s scheduled_tasks = None \<and> pg_tables s due_index = None \<and>
     owns s scheduled_tasks due_index \<and>
     free_or (pg_functions s (''saps.claim_due_scheduled_tasks'', [])) (proc [] True scheduled_tasks)"

definition migratable :: "pg \<Rightarrow> bool" where
  "migratable s \<longleftrightarrow> pg_ok s \<and> pg_link s = None \<and> auth_ready s \<and> queue_ready s \<and> schedule_ready s"

lemma table_names [simp]:
  "auth_sessions \<noteq> queued_tasks" "queued_tasks \<noteq> auth_sessions" "auth_sessions \<noteq> scheduled_tasks"
  "scheduled_tasks \<noteq> auth_sessions" "queued_tasks \<noteq> scheduled_tasks" "scheduled_tasks \<noteq> queued_tasks"
  "schema_of auth_sessions = ''saps''" "schema_of queued_tasks = ''saps''" "schema_of scheduled_tasks = ''saps''"
  by (simp_all add: auth_sessions_def queued_tasks_def scheduled_tasks_def schema_of_def)

section \<open>The sessions' table is upgraded\<close>

lemma map2_replicate [simp]: "map2 f xs (replicate (length xs) v) = map (\<lambda>x. f x v) xs"
  by (induction xs) simp_all

lemma column_of_names: "column_of t c = None \<longleftrightarrow> c \<notin> set (column_names t)"
  by (auto simp: column_of_def column_names_def find_None_iff)

definition add_old_id :: "sql_table \<Rightarrow> sql_table" where
  "add_old_id t = (if ''old_id'' \<in> set (column_names t) then t
     else t\<lparr>tb_columns := tb_columns t @ [col ''old_id'' TUuid False None],
            tb_rows := map (\<lambda>r. r(''old_id'' \<mapsto> VNull)) (tb_rows t)\<rparr>)"

definition fill_old_id :: "sql_table \<Rightarrow> sql_table" where
  "fill_old_id t = t\<lparr>tb_rows := map (\<lambda>r. if r ''old_id'' = Some VNull then r(''old_id'' := r ''id'') else r) (tb_rows t)\<rparr>"

definition require_old_id :: "sql_table \<Rightarrow> sql_table" where
  "require_old_id t = set_column ''old_id'' (\<lambda>k. k\<lparr>cn_not_null := True, cn_default := Some GenRandomUuid\<rparr>) t"

definition add_minted :: "int \<Rightarrow> sql_table \<Rightarrow> sql_table" where
  "add_minted now t = (if ''time_minted'' \<in> set (column_names t) then t
     else t\<lparr>tb_columns := tb_columns t @ [col ''time_minted'' TTimestamp True (Some DefaultNow)],
            tb_rows := map (\<lambda>r. r(''time_minted'' \<mapsto> VTime now)) (tb_rows t)\<rparr>)"

definition upgrade_table :: "int \<Rightarrow> sql_table \<Rightarrow> sql_table" where
  "upgrade_table now t = add_minted now (require_old_id (fill_old_id (add_old_id t)))"

lemma put_table_twice [simp]: "put_table n t (put_table n t' s) = put_table n t s"
  by (simp add: put_table_def)

lemma put_table_same: "pg_tables s n = Some t \<Longrightarrow> put_table n t s = s"
  by (simp add: put_table_def fun_upd_idem)

lemma pg_drawn_same [simp]: "s\<lparr>pg_drawn := pg_drawn s\<rparr> = s" by simp

lemma exec_add_old_id:
  assumes "pg_tables s n = Some t"
  shows "exec s (AddColumn n (col ''old_id'' TUuid False None)) = Inr (put_table n (add_old_id t) s)"
  using assms by (auto simp: on_table_def add_column_def default_values_def add_old_id_def put_table_same list_all_iff
      in_set_replicate)

lemma exec_add_minted:
  assumes "pg_tables s n = Some t"
  shows "exec s (AddColumn n (col ''time_minted'' TTimestamp True (Some DefaultNow))) =
    Inr (put_table n (add_minted (pg_now s) t) s)"
  using assms by (auto simp: on_table_def add_column_def default_values_def add_minted_def put_table_same list_all_iff
      in_set_replicate)

lemma add_old_id_names: "set (column_names (add_old_id t)) = insert ''old_id'' (set (column_names t))"
  by (auto simp: add_old_id_def column_names_def)

lemma set_column_twice: "set_column c f (set_column c g t) = set_column c (f \<circ> g) t"
  if "\<And>k. cn_name (g k) = cn_name k"
  using that by (simp add: set_column_def)

lemma find_app: "find P (xs @ ys) = (case find P xs of None \<Rightarrow> find P ys | Some x \<Rightarrow> Some x)"
  by (induction xs) simp_all

lemma column_of_add_old_id:
  assumes "older_auth t"
  shows "\<exists>k k'. column_of (add_old_id t) ''old_id'' = Some k \<and> column_of (add_old_id t) ''id'' = Some k' \<and>
    cn_type k = cn_type k'"
proof (cases "''old_id'' \<in> set (column_names t)")
  case True
  then obtain k where "column_of t ''old_id'' = Some k" by (metis column_of_names not_None_eq)
  then show ?thesis using assms True by (auto simp: older_auth_def add_old_id_def split: option.splits)
next
  case False
  then have "find (\<lambda>k. cn_name k = ''old_id'') (tb_columns t) = None"
    using column_of_names [of t] by (simp add: column_of_def)
  then show ?thesis using assms False
    by (auto simp: older_auth_def add_old_id_def column_of_def find_app split: option.splits)
qed

lemma row_has: "table_ok t \<Longrightarrow> r \<in> set (tb_rows t) \<Longrightarrow> (\<exists>v. r c = Some v) \<longleftrightarrow> c \<in> set (column_names t)"
  by (auto simp: table_ok_def row_ok_def column_names_def domIff) (metis domIff imageI not_None_eq)

lemma row_lacks: "table_ok t \<Longrightarrow> r \<in> set (tb_rows t) \<Longrightarrow> c \<notin> set (column_names t) \<Longrightarrow> r c = None"
  using row_has by (metis not_None_eq)

lemma row_typed:
  assumes "table_ok t" and "r \<in> set (tb_rows t)" and "column_of t c = Some k" and "r c = Some v"
  shows "of_type (cn_type k) v" "cn_not_null k \<Longrightarrow> v \<noteq> VNull"
  using assms column_of_Some [OF assms(3)] by (auto simp: table_ok_def row_ok_def)

lemma row_filled:
  assumes "table_ok t" and "r \<in> set (tb_rows t)" and "column_of t c = Some k" and "cn_not_null k"
  shows "\<exists>v. r c = Some v \<and> of_type (cn_type k) v \<and> v \<noteq> VNull"
  using row_has [OF assms(1,2), of c] row_typed [OF assms(1-3)] assms(3,4) column_of_names [of t c] by fastforce

text \<open>An id that is there and a UUID, in every row.\<close>

lemma ids_are_uuids:
  assumes "table_ok t" and "older_auth t" and "r \<in> set (tb_rows t)"
  shows "\<exists>i. r ''id'' = Some (VUuid i)"
proof -
  obtain k where k: "column_of t ''id'' = Some k" "cn_type k = TUuid" "cn_not_null k"
    using assms(2) by (auto simp: older_auth_def split: option.splits)
  then obtain v where v: "r ''id'' = Some v" "of_type TUuid v" "v \<noteq> VNull"
    using row_filled [OF assms(1,3) k(1,3)] by auto
  then show ?thesis using v by (cases v) simp_all
qed

lemma old_ids_are_uuids:
  assumes "table_ok t" and "older_auth t" and "r \<in> set (tb_rows t)" and "r ''old_id'' = Some v"
  shows "v = VNull \<or> (\<exists>o'. v = VUuid o')"
proof -
  have "''old_id'' \<in> set (column_names t)" using row_has [OF assms(1,3)] assms(4) by blast
  then obtain k where k: "column_of t ''old_id'' = Some k" by (metis column_of_names not_None_eq)
  then have "of_type TUuid v" using assms(2) row_typed(1) [OF assms(1,3) k assms(4)] by (simp add: older_auth_def)
  then show ?thesis by (cases v) simp_all
qed

lemma exec_fill:
  assumes "pg_tables s n = Some t" and "older_auth t0" and "table_ok t0" and "t = add_old_id t0"
  shows "exec s (FillNulls n ''old_id'' ''id'') = Inr (put_table n (fill_old_id t) s)"
proof -
  obtain k k' where k: "column_of t ''old_id'' = Some k" "column_of t ''id'' = Some k'" "cn_type k = cn_type k'"
    using column_of_add_old_id [OF assms(2)] assms(4) by blast
  have key: "tb_key t = ''id''" using assms(2,4) by (simp add: older_auth_def add_old_id_def)
  have "distinct (map (\<lambda>r. r ''id'') (tb_rows t))"
    using assms(2,3,4) by (auto simp: table_ok_def older_auth_def add_old_id_def o_def)
  then have "distinct (map (\<lambda>r. r ''id'') (tb_rows (fill_old_id t)))"
    by (simp add: fill_old_id_def o_def if_distrib [of "\<lambda>r. r _"] cong: if_cong)
  then show ?thesis using assms(1) k key by (simp add: on_table_def Let_def fill_old_id_def)
qed

lemma rows_filled:
  assumes "older_auth t" and "table_ok t" and "r \<in> set (tb_rows (fill_old_id (add_old_id t)))"
  shows "\<exists>i. r ''id'' = Some (VUuid i)" and "\<exists>o'. r ''old_id'' = Some (VUuid o')"
proof -
  obtain r0 where r0: "r0 \<in> set (tb_rows t)"
    and r: "r = (let r1 = (if ''old_id'' \<in> set (column_names t) then r0 else r0(''old_id'' \<mapsto> VNull))
      in if r1 ''old_id'' = Some VNull then r1(''old_id'' := r1 ''id'') else r1)"
    using assms(3) by (auto simp: fill_old_id_def add_old_id_def split: if_splits)
  obtain i where i: "r0 ''id'' = Some (VUuid i)" using ids_are_uuids [OF assms(2,1) r0] by blast
  then show "\<exists>i. r ''id'' = Some (VUuid i)" unfolding r by (auto simp: Let_def)
  have "''old_id'' \<in> set (column_names t) \<Longrightarrow> \<exists>v. r0 ''old_id'' = Some v"
    using row_has [OF assms(2) r0] by blast
  then show "\<exists>o'. r ''old_id'' = Some (VUuid o')"
    unfolding r using i old_ids_are_uuids [OF assms(2,1) r0] by (auto simp: Let_def)
qed

lemma upgrade_statements:
  assumes "pg_tables s n = Some t" and "table_ok t" and "older_auth t"
  shows "run_script s [AddColumn n (col ''old_id'' TUuid False None), FillNulls n ''old_id'' ''id'',
      SetNotNull n ''old_id'', SetDefault n ''old_id'' GenRandomUuid,
      AddColumn n (col ''time_minted'' TTimestamp True (Some DefaultNow))] =
    Inr (put_table n (upgrade_table (pg_now s) t) s)"
proof -
  let ?t1 = "add_old_id t" and ?nn = "\<lambda>k. k\<lparr>cn_not_null := True\<rparr>" and ?df = "\<lambda>k. k\<lparr>cn_default := Some GenRandomUuid\<rparr>"
  let ?t2 = "fill_old_id ?t1"
  have names: "''old_id'' \<in> set (column_names ?t2)" using add_old_id_names [of t] by (simp add: fill_old_id_def column_names_def)
  have no_null: "\<not> (\<exists>r \<in> set (tb_rows ?t2). r ''old_id'' = Some VNull)"
    using rows_filled(2) [OF assms(3,2)] by fastforce
  have fill: "exec (put_table n ?t1 s) (FillNulls n ''old_id'' ''id'') = Inr (put_table n ?t2 s)"
    using exec_fill [of "put_table n ?t1 s" n ?t1 t, OF _ assms(3,2)] by simp
  have nn: "exec (put_table n ?t2 s) (SetNotNull n ''old_id'') = Inr (put_table n (set_column ''old_id'' ?nn ?t2) s)"
    using names no_null by (simp add: on_table_def)
  have req: "set_column ''old_id'' ?df (set_column ''old_id'' ?nn ?t2) = require_old_id ?t2"
    by (simp add: set_column_twice require_old_id_def o_def)
  have df: "exec (put_table n (set_column ''old_id'' ?nn ?t2) s) (SetDefault n ''old_id'' GenRandomUuid) =
      Inr (put_table n (require_old_id ?t2) s)"
    using names req by (simp add: on_table_def)
  have minted: "exec (put_table n (require_old_id ?t2) s) (AddColumn n (col ''time_minted'' TTimestamp True (Some DefaultNow))) =
      Inr (put_table n (upgrade_table (pg_now s) t) s)"
    using exec_add_minted [of "put_table n (require_old_id ?t2) s" n] by (simp add: upgrade_table_def)
  show ?thesis
    by (simp only: run_script.simps exec_add_old_id [OF assms(1)] fill nn df minted res_bind_simps)
qed

lemma upgrade_names:
  "set (column_names (upgrade_table now t)) = insert ''time_minted'' (insert ''old_id'' (set (column_names t)))"
proof -
  have "column_names (require_old_id (fill_old_id (add_old_id t))) = column_names (add_old_id t)"
    by (simp add: require_old_id_def fill_old_id_def) (simp add: column_names_def)
  moreover have "set (column_names (add_minted now t)) = insert ''time_minted'' (set (column_names t))" for t
    by (auto simp: add_minted_def column_names_def)
  ultimately show ?thesis by (simp add: upgrade_table_def add_old_id_names)
qed

text \<open>What the upgrade is to make of a row of an older table: its own id where it has no previous id, the
  time of the migration where it has no time of minting, and nothing else touched.\<close>

definition upgraded_row :: "int \<Rightarrow> sql_row \<Rightarrow> sql_row" where
  "upgraded_row now r = (\<lambda>c.
     if c = ''old_id'' \<and> (r c = None \<or> r c = Some VNull) then r ''id''
     else if c = ''time_minted'' \<and> r c = None then Some (VTime now)
     else r c)"

lemma upgrade_rows:
  assumes "table_ok t" and "older_auth t"
  shows "tb_rows (upgrade_table now t) = map (upgraded_row now) (tb_rows t)"
proof -
  let ?one = "\<lambda>r. if ''old_id'' \<in> set (column_names t) then r else r(''old_id'' \<mapsto> VNull)"
  let ?two = "\<lambda>r. if r ''old_id'' = Some VNull then r(''old_id'' := r ''id'') else r"
  let ?three = "\<lambda>r. if ''time_minted'' \<in> set (column_names t) then r else r(''time_minted'' \<mapsto> VTime now)"
  have names: "''time_minted'' \<in> set (column_names (require_old_id (fill_old_id (add_old_id t)))) \<longleftrightarrow>
      ''time_minted'' \<in> set (column_names t)"
    using add_old_id_names [of t] by (simp add: require_old_id_def) (simp add: fill_old_id_def column_names_def)
  have "tb_rows (upgrade_table now t) = map (\<lambda>r. ?three (?two (?one r))) (tb_rows t)"
    by (simp add: upgrade_table_def add_minted_def names)
      (simp add: require_old_id_def set_column_def fill_old_id_def add_old_id_def o_def)
  moreover have "?three (?two (?one r)) = upgraded_row now r" if r: "r \<in> set (tb_rows t)" for r
  proof -
    have "''old_id'' \<in> set (column_names t) \<longleftrightarrow> r ''old_id'' \<noteq> None"
      "''time_minted'' \<in> set (column_names t) \<longleftrightarrow> r ''time_minted'' \<noteq> None"
      using row_has [OF assms(1) r, of "''old_id''"] row_has [OF assms(1) r, of "''time_minted''"] by blast+
    then show ?thesis by (auto simp: upgraded_row_def fun_eq_iff)
  qed
  ultimately show ?thesis by simp
qed

section \<open>What the scripts leave\<close>

definition add_schema :: "string \<Rightarrow> pg \<Rightarrow> pg" where
  "add_schema n s = (if n \<in> set (pg_schemas s) then s else s\<lparr>pg_schemas := pg_schemas s @ [n]\<rparr>)"

definition add_index :: "string \<Rightarrow> string \<Rightarrow> string \<Rightarrow> (string \<times> sql_value) option \<Rightarrow> pg \<Rightarrow> pg" where
  "add_index n tn c w s = (if relation_exists s n then s
     else s\<lparr>pg_indexes := (pg_indexes s)(n \<mapsto> \<lparr>ix_table = tn, ix_column = c, ix_where = w\<rparr>)\<rparr>)"

definition add_function :: "string \<Rightarrow> sql_type list \<Rightarrow> sql_function \<Rightarrow> pg \<Rightarrow> pg" where
  "add_function n tys g s = s\<lparr>pg_functions := (pg_functions s)((n, tys) \<mapsto> g)\<rparr>"

lemma add_simps [simp]:
  "pg_tables (add_schema n s) = pg_tables s" "pg_tables (add_index n tn c w s) = pg_tables s"
  "pg_tables (add_function n tys g s) = pg_tables s"
  "pg_now (add_schema n s) = pg_now s" "pg_now (add_index n tn c w s) = pg_now s" "pg_now (add_function n tys g s) = pg_now s"
  "pg_uuids (add_schema n s) = pg_uuids s" "pg_uuids (add_index n tn c w s) = pg_uuids s"
  "pg_uuids (add_function n tys g s) = pg_uuids s"
  "pg_drawn (add_schema n s) = pg_drawn s" "pg_drawn (add_index n tn c w s) = pg_drawn s"
  "pg_drawn (add_function n tys g s) = pg_drawn s"
  "pg_link (add_schema n s) = pg_link s" "pg_link (add_index n tn c w s) = pg_link s" "pg_link (add_function n tys g s) = pg_link s"
  "pg_schemas (add_index n tn c w s) = pg_schemas s" "pg_schemas (add_function n tys g s) = pg_schemas s"
  "pg_indexes (add_schema n s) = pg_indexes s" "pg_indexes (add_function n tys g s) = pg_indexes s"
  "pg_functions (add_schema n s) = pg_functions s" "pg_functions (add_index n tn c w s) = pg_functions s"
  by (simp_all add: add_schema_def add_index_def add_function_def)

lemma add_schema_in [simp]: "n \<in> set (pg_schemas (add_schema n s))" "n \<in> set (pg_schemas s) \<Longrightarrow> add_schema n s = s"
  by (simp_all add: add_schema_def)

lemma add_index_other [simp]: "m \<noteq> n \<Longrightarrow> pg_indexes (add_index n tn c w s) m = pg_indexes s m"
  by (simp add: add_index_def)

lemma add_index_there [simp]: "relation_exists s n \<Longrightarrow> add_index n tn c w s = s"
  by (simp add: add_index_def)

lemma exists_add [simp]:
  "relation_exists (add_index m tn c w s) n \<longleftrightarrow> n = m \<or> relation_exists s n"
  "relation_exists (add_function k tys g s) n \<longleftrightarrow> relation_exists s n"
  "relation_exists (add_schema k s) n \<longleftrightarrow> relation_exists s n"
  "relation_exists (put_table k t s) n \<longleftrightarrow> n = k \<or> relation_exists s n"
  by (auto simp: relation_exists_def add_index_def)

lemma add_function_lookup [simp]:
  "pg_functions (add_function n tys g s) = (pg_functions s)((n, tys) \<mapsto> g)" by (simp add: add_function_def)

lemma add_function_there: "pg_functions s (n, tys) = Some g \<Longrightarrow> add_function n tys g s = s"
  by (simp add: add_function_def fun_upd_idem)

lemma exec_schema: "exec s (CreateSchema n) = Inr (add_schema n s)"
  by (simp add: add_schema_def)

lemma exec_index:
  assumes "pg_tables s tn = Some t" and "c \<in> set (column_names t)"
  shows "exec s (CreateIndex True n tn c None) = Inr (add_index n tn c None s)"
  using assms by (simp add: on_table_def add_index_def)

lemma exec_function:
  assumes "schema_of n \<in> set (pg_schemas s)" and "pg_tables s ret \<noteq> None"
    and "free_or (pg_functions s (n, map snd ps)) (proc (map fst ps) setof ret)"
  shows "exec s (CreateFunction n ps setof ret) = Inr (add_function n (map snd ps) (proc (map fst ps) setof ret) s)"
  using assms by (auto simp: free_or_def Let_def fun_upd_idem add_function_def)

lemma exec_table:
  assumes "schema_of n \<in> set (pg_schemas s)" and "pg_indexes s n = None"
  shows "exec s (CreateTable True n key cs) = Inr (put_table n (case pg_tables s n of Some t \<Rightarrow> t
    | None \<Rightarrow> \<lparr>tb_columns = cs, tb_key = key, tb_rows = [], tb_serial = 1\<rparr>) s)"
  using assms by (auto simp: relation_exists_def put_table_same split: option.split)

definition auth_table :: "pg \<Rightarrow> sql_table" where
  "auth_table s = (case pg_tables s auth_sessions of Some t \<Rightarrow> t
     | None \<Rightarrow> \<lparr>tb_columns = auth_columns, tb_key = ''id'', tb_rows = [], tb_serial = 1\<rparr>)"

definition auth_migrated :: "pg \<Rightarrow> pg" where
  "auth_migrated s =
     add_function ''saps.ping'' [TInteger, TUuid] (proc [''p_minutes'', ''p_session_id''] False auth_sessions)
       (add_index ''saps.idx_saps_auth_sessions_old_id'' auth_sessions ''old_id'' None
         (add_index ''saps.idx_saps_auth_sessions_last_interacted'' auth_sessions ''last_interacted'' None
           (put_table auth_sessions (upgrade_table (pg_now s) (auth_table s)) (add_schema ''saps'' s))))"

lemma auth_table_older:
  assumes "pg_ok s" and "auth_ready s"
  shows "table_ok (auth_table s)" "older_auth (auth_table s)"
  using assms by (auto simp: auth_ready_def auth_table_def pg_ok_def older_auth_def table_ok_def auth_columns_def
      column_names_def column_of_def split: option.splits)

lemma auth_script_runs:
  assumes "pg_ok s" and "auth_ready s"
  shows "run_script s auth_migration = Inr (auth_migrated s)"
proof -
  note older = auth_table_older [OF assms]
  let ?s1 = "add_schema ''saps'' s" and ?t = "upgrade_table (pg_now s) (auth_table s)"
  let ?s2 = "put_table auth_sessions (auth_table s) ?s1" and ?s3 = "put_table auth_sessions ?t ?s1"
  have create: "exec ?s1 (CreateTable True auth_sessions ''id'' auth_columns) = Inr ?s2"
    using assms(2) by (subst exec_table) (simp_all add: auth_ready_def auth_table_def)
  have up: "run_script ?s2 [AddColumn auth_sessions (col ''old_id'' TUuid False None), FillNulls auth_sessions ''old_id'' ''id'',
      SetNotNull auth_sessions ''old_id'', SetDefault auth_sessions ''old_id'' GenRandomUuid,
      AddColumn auth_sessions (col ''time_minted'' TTimestamp True (Some DefaultNow))] = Inr ?s3"
    using upgrade_statements [of ?s2 auth_sessions "auth_table s", OF _ older] by simp
  have cols: "{''last_interacted'', ''old_id''} \<subseteq> set (column_names ?t)"
    using older(2) by (auto simp: upgrade_names older_auth_def)
  let ?s4 = "add_index ''saps.idx_saps_auth_sessions_last_interacted'' auth_sessions ''last_interacted'' None ?s3"
  let ?s5 = "add_index ''saps.idx_saps_auth_sessions_old_id'' auth_sessions ''old_id'' None ?s4"
  have i1: "exec ?s3 (CreateIndex True ''saps.idx_saps_auth_sessions_last_interacted'' auth_sessions ''last_interacted'' None) = Inr ?s4"
    and i2: "exec ?s4 (CreateIndex True ''saps.idx_saps_auth_sessions_old_id'' auth_sessions ''old_id'' None) = Inr ?s5"
    using cols by (simp_all only: insert_subset exec_index [of _ auth_sessions ?t] put_table_simps add_simps fun_upd_same)
  have f: "exec ?s5 (CreateFunction ''saps.ping'' [(''p_minutes'', TInteger), (''p_session_id'', TUuid)] False auth_sessions) =
      Inr (auth_migrated s)"
    using assms(2) by (subst exec_function) (simp_all add: auth_ready_def schema_of_def auth_migrated_def)
  have split: "auth_migration = [CreateSchema ''saps'', CreateTable True auth_sessions ''id'' auth_columns] @
      [AddColumn auth_sessions (col ''old_id'' TUuid False None), FillNulls auth_sessions ''old_id'' ''id'',
      SetNotNull auth_sessions ''old_id'', SetDefault auth_sessions ''old_id'' GenRandomUuid,
      AddColumn auth_sessions (col ''time_minted'' TTimestamp True (Some DefaultNow))] @
      [CreateIndex True ''saps.idx_saps_auth_sessions_last_interacted'' auth_sessions ''last_interacted'' None,
      CreateIndex True ''saps.idx_saps_auth_sessions_old_id'' auth_sessions ''old_id'' None,
      CreateFunction ''saps.ping'' [(''p_minutes'', TInteger), (''p_session_id'', TUuid)] False auth_sessions]"
    by (simp add: auth_migration_def)
  have start: "run_script s [CreateSchema ''saps'', CreateTable True auth_sessions ''id'' auth_columns] = Inr ?s2"
    by (simp only: run_script.simps exec_schema create res_bind_simps)
  have last: "run_script ?s3 [CreateIndex True ''saps.idx_saps_auth_sessions_last_interacted'' auth_sessions ''last_interacted'' None,
      CreateIndex True ''saps.idx_saps_auth_sessions_old_id'' auth_sessions ''old_id'' None,
      CreateFunction ''saps.ping'' [(''p_minutes'', TInteger), (''p_session_id'', TUuid)] False auth_sessions] = Inr (auth_migrated s)"
    by (simp only: run_script.simps i1 i2 f res_bind_simps)
  show ?thesis unfolding split run_script_append start up last by (simp only: res_bind_simps up last)
qed

definition queue_table :: "pg \<Rightarrow> sql_table" where
  "queue_table s = (case pg_tables s queued_tasks of Some t \<Rightarrow> t
     | None \<Rightarrow> \<lparr>tb_columns = queue_columns, tb_key = ''id'', tb_rows = [], tb_serial = 1\<rparr>)"

definition queue_migrated :: "pg \<Rightarrow> pg" where
  "queue_migrated s =
     add_function ''saps.get_next_task'' [] (proc [] False queued_tasks)
       (add_function ''saps.claim_task'' [TVarchar None] (proc [''p_function_name''] False queued_tasks)
         (add_index ''saps.idx_saps_queued_tasks_function_name'' queued_tasks ''function_name'' None
           (add_index ''saps.idx_saps_queued_tasks_status'' queued_tasks ''status'' None
             (put_table queued_tasks (queue_table s) (add_schema ''saps'' s)))))"

lemma queue_script_runs:
  assumes "queue_ready s"
  shows "run_script s queue_migration = Inr (queue_migrated s)"
proof -
  let ?s1 = "add_schema ''saps'' s" and ?t = "queue_table s"
  let ?s2 = "put_table queued_tasks ?t ?s1"
  let ?s3 = "add_index ''saps.idx_saps_queued_tasks_status'' queued_tasks ''status'' None ?s2"
  let ?s4 = "add_index ''saps.idx_saps_queued_tasks_function_name'' queued_tasks ''function_name'' None ?s3"
  let ?s5 = "add_function ''saps.claim_task'' [TVarchar None] (proc [''p_function_name''] False queued_tasks) ?s4"
  have create: "exec ?s1 (CreateTable True queued_tasks ''id'' queue_columns) = Inr ?s2"
    using assms by (subst exec_table) (simp_all add: queue_ready_def queue_table_def)
  have cols: "''status'' \<in> set (column_names ?t)" "''function_name'' \<in> set (column_names ?t)"
    using assms by (auto simp: queue_ready_def queue_table_def queue_columns_def column_names_def split: option.splits)
  have i: "exec ?s2 (CreateIndex True ''saps.idx_saps_queued_tasks_status'' queued_tasks ''status'' None) = Inr ?s3"
    "exec ?s3 (CreateIndex True ''saps.idx_saps_queued_tasks_function_name'' queued_tasks ''function_name'' None) = Inr ?s4"
    using cols by (simp_all only: exec_index [of _ queued_tasks ?t] put_table_simps add_simps fun_upd_same)
  have f: "exec ?s4 (CreateFunction ''saps.claim_task'' [(''p_function_name'', TVarchar None)] False queued_tasks) = Inr ?s5"
    "exec ?s5 (CreateFunction ''saps.get_next_task'' [] False queued_tasks) = Inr (queue_migrated s)"
    using assms by (subst exec_function; simp add: queue_ready_def schema_of_def queue_migrated_def)+
  show ?thesis
    unfolding queue_migration_def
    by (simp only: run_script.simps exec_schema create i f res_bind_simps)
qed

definition drop_cascade :: "string \<Rightarrow> pg \<Rightarrow> pg" where
  "drop_cascade n s = (case pg_tables s n of
     None \<Rightarrow> s
   | Some _ \<Rightarrow> s\<lparr>pg_tables := (pg_tables s)(n := None),
       pg_indexes := (\<lambda>i. Option.bind (pg_indexes s i) (\<lambda>x. if ix_table x = n then None else Some x)),
       pg_functions := (\<lambda>f. Option.bind (pg_functions s f) (\<lambda>x. if fn_returns x = n then None else Some x))\<rparr>)"

lemma exec_drop: "exec s (DropTableCascade n) = Inr (drop_cascade n s)"
  by (simp add: drop_cascade_def split: option.split)

lemma drop_cascade_simps [simp]:
  "pg_tables (drop_cascade n s) = (pg_tables s)(n := None)" "pg_schemas (drop_cascade n s) = pg_schemas s"
  "pg_now (drop_cascade n s) = pg_now s" "pg_uuids (drop_cascade n s) = pg_uuids s"
  "pg_drawn (drop_cascade n s) = pg_drawn s" "pg_link (drop_cascade n s) = pg_link s"
  by (auto simp: drop_cascade_def split: option.split)

text \<open>On a well-formed database the cascade removes the same things whether or not the table is there.\<close>

lemma drop_cascade_indexes:
  assumes "pg_ok s"
  shows "pg_indexes (drop_cascade n s) i = Option.bind (pg_indexes s i) (\<lambda>x. if ix_table x = n then None else Some x)"
proof (cases "pg_tables s n")
  case None
  then have "ix_table x \<noteq> n" if "pg_indexes s i = Some x" for x using assms that unfolding pg_ok_def index_ok_def by (metis option.distinct(1))
  then show ?thesis using None by (cases "pg_indexes s i") (auto simp: drop_cascade_def)
qed (simp add: drop_cascade_def)

lemma drop_cascade_functions:
  assumes "pg_ok s"
  shows "pg_functions (drop_cascade n s) f = Option.bind (pg_functions s f) (\<lambda>x. if fn_returns x = n then None else Some x)"
proof (cases "pg_tables s n")
  case None
  then have "fn_returns x \<noteq> n" if "pg_functions s f = Some x" for x using assms that unfolding pg_ok_def by metis
  then show ?thesis using None by (cases "pg_functions s f") (auto simp: drop_cascade_def)
qed (simp add: drop_cascade_def)

definition schedule_migrated :: "pg \<Rightarrow> pg" where
  "schedule_migrated s =
     add_function ''saps.claim_due_scheduled_tasks'' [] (proc [] True scheduled_tasks)
       (add_index due_index scheduled_tasks ''time_scheduled'' (Some (''locked'', VBool False))
         (put_table scheduled_tasks \<lparr>tb_columns = schedule_columns, tb_key = ''id'', tb_rows = [], tb_serial = 1\<rparr>
           (drop_cascade scheduled_tasks (add_schema ''saps'' s))))"

lemma schedule_script_runs:
  assumes "pg_ok s" and "schedule_ready s"
  shows "run_script s schedule_migration = Inr (schedule_migrated s)"
proof -
  let ?t = "\<lparr>tb_columns = schedule_columns, tb_key = ''id'', tb_rows = [], tb_serial = 1\<rparr> :: sql_table"
  let ?s1 = "add_schema ''saps'' s"
  let ?s2 = "drop_cascade scheduled_tasks ?s1"
  let ?s3 = "put_table scheduled_tasks ?t ?s2"
  let ?s4 = "add_index due_index scheduled_tasks ''time_scheduled'' (Some (''locked'', VBool False)) ?s3"
  have ok: "pg_ok ?s1" using assms(1) by (simp add: pg_ok_def index_ok_def)
  have "pg_indexes ?s2 scheduled_tasks = None" "pg_indexes ?s2 due_index = None" "pg_tables ?s2 due_index = None"
    using assms(2) by (auto simp: drop_cascade_indexes [OF ok] schedule_ready_def owns_def bind_eq_None_conv split: option.splits)
  then have create: "exec ?s2 (CreateTable False scheduled_tasks ''id'' schedule_columns) = Inr ?s3"
    and free: "\<not> relation_exists ?s3 due_index"
    by (simp_all add: relation_exists_def) (simp add: scheduled_tasks_def)
  have i: "exec ?s3 (CreateIndex False due_index scheduled_tasks ''time_scheduled'' (Some (''locked'', VBool False))) = Inr ?s4"
    using free by (simp add: on_table_def add_index_def column_names_def schedule_columns_def)
  have "free_or (pg_functions ?s2 (''saps.claim_due_scheduled_tasks'', [])) (proc [] True scheduled_tasks)"
    using assms(2) by (auto simp: drop_cascade_functions [OF ok] schedule_ready_def free_or_def)
  then have f: "exec ?s4 (CreateFunction ''saps.claim_due_scheduled_tasks'' [] True scheduled_tasks) = Inr (schedule_migrated s)"
    by (subst exec_function; simp add: schema_of_def schedule_migrated_def)
  show ?thesis
    unfolding schedule_migration_def
    by (simp only: run_script.simps exec_schema exec_drop create i f res_bind_simps)
qed

section \<open>The whole migration\<close>

lemma scripts_ok: "list_all statement_ok auth_migration" "list_all statement_ok queue_migration"
    "list_all statement_ok schedule_migration"
  by (simp_all add: auth_migration_def queue_migration_def schedule_migration_def auth_columns_def queue_columns_def
      schedule_columns_def)

lemma later_ready:
  "queue_ready (auth_migrated s) = queue_ready s" "schedule_ready (auth_migrated s) = schedule_ready s"
  "schedule_ready (queue_migrated s) = schedule_ready s"
  by (simp_all add: queue_ready_def schedule_ready_def auth_migrated_def queue_migrated_def owns_def auth_sessions_def
      queued_tasks_def scheduled_tasks_def)

definition migrated :: "pg \<Rightarrow> pg" where
  "migrated s = schedule_migrated (queue_migrated (auth_migrated s))"

lemma pg_execute_runs: "pg_link s = None \<Longrightarrow> run_script s q = Inr t \<Longrightarrow> pg_execute E s q = (Inr (), t)"
  by (simp add: pg_execute_def)

lemma migrated_link [simp]: "pg_link (auth_migrated s) = pg_link s" "pg_link (queue_migrated s) = pg_link s"
  by (simp_all add: auth_migrated_def queue_migrated_def)

lemma migrations_run:
  assumes "migratable s"
  shows "run_migrations E s = (Some (), migrated s)" and "pg_ok (migrated s)"
proof -
  have s: "pg_ok s" "pg_link s = None" "auth_ready s" "queue_ready s" "schedule_ready s"
    using assms by (simp_all add: migratable_def)
  note a = auth_script_runs [OF s(1,3)]
  note ok1 = run_script_ok [OF s(1) scripts_ok(1) a]
  have q: "run_script (auth_migrated s) queue_migration = Inr (queue_migrated (auth_migrated s))"
    using s(4) by (simp add: queue_script_runs later_ready)
  note ok2 = run_script_ok [OF ok1 scripts_ok(2) q]
  have c: "run_script (queue_migrated (auth_migrated s)) schedule_migration = Inr (migrated s)"
    using s(5) schedule_script_runs [OF ok2] by (simp add: later_ready migrated_def)
  show "pg_ok (migrated s)" by (rule run_script_ok [OF ok2 scripts_ok(3) c])
  show "run_migrations E s = (Some (), migrated s)"
    using a q c s(2) by (simp add: run_migrations_def pg_execute_runs)
qed

lemma migrated_tables:
  "pg_tables (migrated s) auth_sessions = Some (upgrade_table (pg_now s) (auth_table s))"
  "pg_tables (migrated s) queued_tasks = Some (queue_table s)"
  "pg_tables (migrated s) scheduled_tasks = Some \<lparr>tb_columns = schedule_columns, tb_key = ''id'', tb_rows = [], tb_serial = 1\<rparr>"
  "pg_now (migrated s) = pg_now s" "pg_uuids (migrated s) = pg_uuids s" "pg_drawn (migrated s) = pg_drawn s"
  "pg_link (migrated s) = pg_link s"
  by (simp_all add: migrated_def schedule_migrated_def queue_migrated_def auth_migrated_def queue_table_def)

text \<open>The sessions are upgraded row by row, in a table that cannot hold a session without a previous id; the
  queue reads as before; the schedules are gone.\<close>

lemma migrated_sessions:
  assumes "migratable s"
  shows "table_rows (migrated s) auth_sessions = map (upgraded_row (pg_now s)) (table_rows s auth_sessions)"
    and "task_db_of (migrated s) = (task_db_of s)\<lparr>schedule := [], t_serial := 1\<rparr>"
proof -
  have "pg_ok s" "auth_ready s" using assms by (simp_all add: migratable_def)
  note older = auth_table_older [OF this]
  have "tb_rows (auth_table s) = table_rows s auth_sessions"
    by (simp add: auth_table_def table_rows_def split: option.split)
  then show "table_rows (migrated s) auth_sessions = map (upgraded_row (pg_now s)) (table_rows s auth_sessions)"
    using upgrade_rows [OF older, of "pg_now s"] by (simp add: table_rows_def migrated_tables)
  show "task_db_of (migrated s) = (task_db_of s)\<lparr>schedule := [], t_serial := 1\<rparr>"
    by (simp add: task_db_of_def table_rows_def migrated_tables queue_table_def split: option.split)
qed

section \<open>Running it again\<close>

lemma find_set_column:
  "(\<And>k. cn_name (f k) = cn_name k) \<Longrightarrow>
    find (\<lambda>k. cn_name k = d) (map (\<lambda>k. if cn_name k = c then f k else k) cs) =
    map_option (\<lambda>k. if d = c then f k else k) (find (\<lambda>k. cn_name k = d) cs)"
  by (induction cs) auto

lemma column_of_set_column:
  "(\<And>k. cn_name (f k) = cn_name k) \<Longrightarrow>
    column_of (set_column c f t) d = map_option (\<lambda>k. if d = c then f k else k) (column_of t d)"
  by (simp add: column_of_def set_column_def find_set_column)

lemma column_of_upgrade:
  "column_of (upgrade_table now t) d = (case column_of t d of
      Some k \<Rightarrow> Some (if d = ''old_id'' then k\<lparr>cn_not_null := True, cn_default := Some GenRandomUuid\<rparr> else k)
    | None \<Rightarrow> if d = ''old_id'' then Some (col ''old_id'' TUuid True (Some GenRandomUuid))
        else if d = ''time_minted'' then Some (col ''time_minted'' TTimestamp True (Some DefaultNow)) else None)"
proof -
  have names: "''time_minted'' \<in> set (column_names (require_old_id (fill_old_id (add_old_id t)))) \<longleftrightarrow>
      ''time_minted'' \<in> set (column_names t)"
    using add_old_id_names [of t] by (simp add: require_old_id_def) (simp add: fill_old_id_def column_names_def)
  have app: "column_of (t\<lparr>tb_columns := tb_columns t @ [k], tb_rows := rs\<rparr>) c =
      (case column_of t c of Some h \<Rightarrow> Some h | None \<Rightarrow> if cn_name k = c then Some k else None)" for t k rs c
    by (simp add: column_of_def find_app split: option.split)
  have old: "column_of (add_old_id t) d = (case column_of t d of Some h \<Rightarrow> Some h
      | None \<Rightarrow> if d = ''old_id'' then Some (col ''old_id'' TUuid False None) else None)"
    using column_of_names [of t d] by (auto simp: add_old_id_def app split: option.split)
  have "column_of (fill_old_id u) d = column_of u d" for u by (simp add: fill_old_id_def column_of_def)
  then have req: "column_of (require_old_id (fill_old_id (add_old_id t))) d = (case column_of t d of
      Some k \<Rightarrow> Some (if d = ''old_id'' then k\<lparr>cn_not_null := True, cn_default := Some GenRandomUuid\<rparr> else k)
    | None \<Rightarrow> if d = ''old_id'' then Some (col ''old_id'' TUuid True (Some GenRandomUuid)) else None)"
    by (simp add: require_old_id_def column_of_set_column old split: option.split)
  show ?thesis
    using names req column_of_names [of t d] by (auto simp: upgrade_table_def add_minted_def app split: option.split)
qed

lemma upgrade_key: "tb_key (upgrade_table now t) = tb_key t"
  by (simp add: upgrade_table_def add_minted_def require_old_id_def set_column_def fill_old_id_def add_old_id_def)

lemma upgrade_older: "older_auth t \<Longrightarrow> older_auth (upgrade_table now t)"
  unfolding older_auth_def upgrade_names upgrade_key column_of_upgrade by (auto split: option.splits)

text \<open>An upgraded table is left as it is.\<close>

lemma upgrade_again:
  assumes "table_ok t" and "older_auth t"
  shows "upgrade_table later (upgrade_table now t) = upgrade_table now t"
proof -
  let ?T = "upgrade_table now t" and ?g = "\<lambda>k. k\<lparr>cn_not_null := True, cn_default := Some GenRandomUuid\<rparr>"
  have "tb_rows ?T = tb_rows (fill_old_id (add_old_id t)) \<or>
      tb_rows ?T = map (\<lambda>r. r(''time_minted'' \<mapsto> VTime now)) (tb_rows (fill_old_id (add_old_id t)))"
    by (simp add: upgrade_table_def add_minted_def require_old_id_def set_column_def)
  then have "\<forall>r \<in> set (tb_rows ?T). r ''old_id'' \<noteq> Some VNull"
    using rows_filled(2) [OF assms(2,1)] by fastforce
  then have rows: "fill_old_id ?T = ?T" by (simp add: fill_old_id_def map_idI)
  have T: "?T = (let u = require_old_id (fill_old_id (add_old_id t)) in
      if ''time_minted'' \<in> set (column_names u) then u
      else u\<lparr>tb_columns := tb_columns u @ [col ''time_minted'' TTimestamp True (Some DefaultNow)],
        tb_rows := map (\<lambda>r. r(''time_minted'' \<mapsto> VTime now)) (tb_rows u)\<rparr>)"
    by (simp add: upgrade_table_def add_minted_def Let_def)
  have "?g k = k" if "k \<in> set (tb_columns ?T)" "cn_name k = ''old_id''" for k
    using that unfolding T by (auto simp: Let_def require_old_id_def set_column_def split: if_splits)
  then have "map (\<lambda>k. if cn_name k = ''old_id'' then ?g k else k) (tb_columns ?T) = tb_columns ?T"
    by (intro map_idI) simp
  then have req: "require_old_id ?T = ?T" by (simp add: require_old_id_def set_column_def)
  show ?thesis
    unfolding upgrade_table_def [of later] using upgrade_names [of now t]
    by (simp add: add_old_id_def rows req add_minted_def)
qed

lemma exists_there: "relation_exists s n \<longleftrightarrow> (\<exists>t. pg_tables s n = Some t) \<or> (\<exists>x. pg_indexes s n = Some x)"
  by (auto simp: relation_exists_def)

lemma owned_stays:
  assumes "pg_ok B" and "relation_exists B n" and "n \<noteq> scheduled_tasks" and "owns B tn n" and "tn \<noteq> scheduled_tasks"
  shows "relation_exists (schedule_migrated B) n"
proof -
  have "pg_ok (add_schema ''saps'' B)" using assms(1) by (simp add: pg_ok_def index_ok_def)
  then have "relation_exists (drop_cascade scheduled_tasks (add_schema ''saps'' B)) n"
    using assms(2-5) by (auto simp: exists_there drop_cascade_indexes owns_def)
  then show ?thesis by (simp add: schedule_migrated_def)
qed

lemma owns_frame [simp]:
  "owns (add_schema m s) tn n = owns s tn n" "owns (put_table m t s) tn n = owns s tn n"
  "owns (add_function m tys g s) tn n = owns s tn n"
  by (simp_all add: owns_def)

lemma owns_add_index:
  "owns (add_index m tm c w s) tn n = (if n = m \<and> \<not> relation_exists s m then tm = tn else owns s tn n)"
  by (auto simp: owns_def add_index_def)

text \<open>What the earlier scripts made survives the drop of the schedules.\<close>

lemma made_stays:
  assumes "migratable s"
  shows "relation_exists (migrated s) ''saps.idx_saps_auth_sessions_last_interacted''"
    and "relation_exists (migrated s) ''saps.idx_saps_auth_sessions_old_id''"
    and "relation_exists (migrated s) ''saps.idx_saps_queued_tasks_status''"
    and "relation_exists (migrated s) ''saps.idx_saps_queued_tasks_function_name''"
    and "relation_exists (migrated s) due_index"
    and "pg_functions (migrated s) (''saps.ping'', [TInteger, TUuid]) = Some (proc [''p_minutes'', ''p_session_id''] False auth_sessions)"
    and "pg_functions (migrated s) (''saps.claim_task'', [TVarchar None]) = Some (proc [''p_function_name''] False queued_tasks)"
    and "pg_functions (migrated s) (''saps.get_next_task'', []) = Some (proc [] False queued_tasks)"
    and "''saps'' \<in> set (pg_schemas (migrated s))"
proof -
  let ?B = "queue_migrated (auth_migrated s)"
  have s: "pg_ok s" "auth_ready s" "queue_ready s" using assms by (simp_all add: migratable_def)
  have ok: "pg_ok ?B"
    using run_script_ok [OF _ scripts_ok(2) queue_script_runs] run_script_ok [OF s(1) scripts_ok(1) auth_script_runs [OF s(1,2)]]
      s(3) by (simp add: later_ready)
  have own: "owns ?B auth_sessions ''saps.idx_saps_auth_sessions_last_interacted''"
    "owns ?B auth_sessions ''saps.idx_saps_auth_sessions_old_id''"
    "owns ?B queued_tasks ''saps.idx_saps_queued_tasks_status''"
    "owns ?B queued_tasks ''saps.idx_saps_queued_tasks_function_name''"
    using s(2,3) by (simp_all add: auth_ready_def queue_ready_def queue_migrated_def auth_migrated_def owns_add_index)
  have ex: "relation_exists ?B ''saps.idx_saps_auth_sessions_last_interacted''"
    "relation_exists ?B ''saps.idx_saps_auth_sessions_old_id''" "relation_exists ?B ''saps.idx_saps_queued_tasks_status''"
    "relation_exists ?B ''saps.idx_saps_queued_tasks_function_name''"
    by (simp_all add: queue_migrated_def auth_migrated_def)
  note stays = owned_stays [OF ok, folded migrated_def]
  show "relation_exists (migrated s) ''saps.idx_saps_auth_sessions_last_interacted''"
    "relation_exists (migrated s) ''saps.idx_saps_auth_sessions_old_id''"
    "relation_exists (migrated s) ''saps.idx_saps_queued_tasks_status''"
    "relation_exists (migrated s) ''saps.idx_saps_queued_tasks_function_name''"
    by (rule stays [OF ex(1) _ own(1)] stays [OF ex(2) _ own(2)] stays [OF ex(3) _ own(3)] stays [OF ex(4) _ own(4)];
        simp add: scheduled_tasks_def auth_sessions_def queued_tasks_def)+
  show "relation_exists (migrated s) due_index" "''saps'' \<in> set (pg_schemas (migrated s))"
    by (simp_all add: migrated_def schedule_migrated_def)
  have "pg_ok (add_schema ''saps'' ?B)" using ok by (simp add: pg_ok_def index_ok_def)
  then show "pg_functions (migrated s) (''saps.ping'', [TInteger, TUuid]) = Some (proc [''p_minutes'', ''p_session_id''] False auth_sessions)"
    "pg_functions (migrated s) (''saps.claim_task'', [TVarchar None]) = Some (proc [''p_function_name''] False queued_tasks)"
    "pg_functions (migrated s) (''saps.get_next_task'', []) = Some (proc [] False queued_tasks)"
    by (simp_all add: migrated_def schedule_migrated_def drop_cascade_functions queue_migrated_def auth_migrated_def)
qed

lemma add_schema_pg: "pg_ok s \<Longrightarrow> pg_ok (add_schema n s)"
  by (simp add: pg_ok_def index_ok_def)

lemma pg_ok_time [simp]: "pg_ok (s\<lparr>pg_now := later\<rparr>) = pg_ok s"
  by (simp add: pg_ok_def index_ok_def)

text \<open>The parts of the database after the last script.\<close>

abbreviation fresh_schedule :: sql_table where
  "fresh_schedule \<equiv> \<lparr>tb_columns = schedule_columns, tb_key = ''id'', tb_rows = [], tb_serial = 1\<rparr>"

lemma due_index_name: "due_index \<noteq> scheduled_tasks" by (simp add: scheduled_tasks_def)

lemma schedule_fields:
  assumes "pg_ok s" and "schedule_ready s"
  shows "pg_tables (schedule_migrated s) n = (if n = scheduled_tasks then Some fresh_schedule else pg_tables s n)"
    and "pg_indexes (schedule_migrated s) i = (if i = due_index
      then Some \<lparr>ix_table = scheduled_tasks, ix_column = ''time_scheduled'', ix_where = Some (''locked'', VBool False)\<rparr>
      else Option.bind (pg_indexes s i) (\<lambda>x. if ix_table x = scheduled_tasks then None else Some x))"
    and "pg_functions (schedule_migrated s) f = (if f = (''saps.claim_due_scheduled_tasks'', [])
      then Some (proc [] True scheduled_tasks)
      else Option.bind (pg_functions s f) (\<lambda>x. if fn_returns x = scheduled_tasks then None else Some x))"
    and "pg_schemas (schedule_migrated s) = pg_schemas (add_schema ''saps'' s)"
proof -
  let ?B = "drop_cascade scheduled_tasks (add_schema ''saps'' s)"
  note ok = add_schema_pg [OF assms(1), of "''saps''"]
  have "\<not> relation_exists ?B due_index"
    using assms(2) by (auto simp: exists_there drop_cascade_indexes [OF ok] schedule_ready_def owns_def bind_eq_Some_conv
        split: option.splits)
  then have free: "\<not> relation_exists (put_table scheduled_tasks fresh_schedule ?B) due_index" using due_index_name by simp
  show "pg_tables (schedule_migrated s) n = (if n = scheduled_tasks then Some fresh_schedule else pg_tables s n)"
    "pg_schemas (schedule_migrated s) = pg_schemas (add_schema ''saps'' s)"
    by (simp_all add: schedule_migrated_def)
  show "pg_functions (schedule_migrated s) f = (if f = (''saps.claim_due_scheduled_tasks'', [])
      then Some (proc [] True scheduled_tasks)
      else Option.bind (pg_functions s f) (\<lambda>x. if fn_returns x = scheduled_tasks then None else Some x))"
    by (simp add: schedule_migrated_def drop_cascade_functions [OF ok])
  show "pg_indexes (schedule_migrated s) i = (if i = due_index
      then Some \<lparr>ix_table = scheduled_tasks, ix_column = ''time_scheduled'', ix_where = Some (''locked'', VBool False)\<rparr>
      else Option.bind (pg_indexes s i) (\<lambda>x. if ix_table x = scheduled_tasks then None else Some x))"
    using free by (simp add: schedule_migrated_def add_index_def drop_cascade_indexes [OF ok])
qed

text \<open>The schedules' table is dropped and made again as it was.\<close>

lemma schedule_migrated_again:
  assumes "pg_ok s" and "pg_ok (schedule_migrated s)" and "schedule_ready s"
  shows "schedule_ready ((schedule_migrated s)\<lparr>pg_now := later\<rparr>)"
    and "schedule_migrated ((schedule_migrated s)\<lparr>pg_now := later\<rparr>) = (schedule_migrated s)\<lparr>pg_now := later\<rparr>"
proof -
  let ?u = "(schedule_migrated s)\<lparr>pg_now := later\<rparr>"
  note M = schedule_fields [OF assms(1,3)]
  show ready: "schedule_ready ?u"
    using assms(3) due_index_name by (auto simp: schedule_ready_def owns_def free_or_def M)
  have ok: "pg_ok ?u" using assms(2) by simp
  note N = schedule_fields [OF ok ready]
  show "schedule_migrated ?u = ?u"
  proof (rule pg.equality)
    show "pg_tables (schedule_migrated ?u) = pg_tables ?u" by (rule ext) (simp add: N M)
    show "pg_indexes (schedule_migrated ?u) = pg_indexes ?u"
    proof
      fix i show "pg_indexes (schedule_migrated ?u) i = pg_indexes ?u i" by (cases "pg_indexes s i") (simp_all add: N M)
    qed
    show "pg_functions (schedule_migrated ?u) = pg_functions ?u"
    proof
      fix f show "pg_functions (schedule_migrated ?u) f = pg_functions ?u f" by (cases "pg_functions s f") (simp_all add: N M)
    qed
    show "pg_schemas (schedule_migrated ?u) = pg_schemas ?u" by (simp add: N M add_schema_def)
  qed (simp_all add: schedule_migrated_def)
qed

text \<open>A second run, at any later time, changes nothing.\<close>

lemma migrated_again:
  assumes "migratable s"
  shows "migratable ((migrated s)\<lparr>pg_now := later\<rparr>)"
    and "migrated ((migrated s)\<lparr>pg_now := later\<rparr>) = (migrated s)\<lparr>pg_now := later\<rparr>"
proof -
  let ?u = "(migrated s)\<lparr>pg_now := later\<rparr>" and ?B = "queue_migrated (auth_migrated s)"
  have s: "pg_ok s" "pg_link s = None" "auth_ready s" "queue_ready s" "schedule_ready s"
    using assms by (simp_all add: migratable_def)
  have ok: "pg_ok (migrated s)" by (rule migrations_run(2) [OF assms])
  have okB: "pg_ok ?B"
    using run_script_ok [OF _ scripts_ok(2) queue_script_runs] run_script_ok [OF s(1) scripts_ok(1) auth_script_runs [OF s(1,3)]]
      s(4) by (simp add: later_ready)
  have readyB: "schedule_ready ?B" using s(5) by (simp add: later_ready)
  note again = schedule_migrated_again [OF okB ok [unfolded migrated_def] readyB, folded migrated_def, of later]
  note fields = schedule_fields [OF okB readyB, folded migrated_def] and made = made_stays [OF assms]
  note older = auth_table_older [OF s(1,3)]
  have tables: "auth_table ?u = upgrade_table (pg_now s) (auth_table s)" "queue_table ?u = queue_table s"
    by (simp_all add: auth_table_def [of ?u] queue_table_def [of ?u] migrated_tables)
  have ex: "relation_exists ?u n = relation_exists (migrated s) n" for n by (simp add: relation_exists_def)
  have A: "auth_migrated ?u = ?u"
    using made upgrade_again [OF older, of later "pg_now s"]
    by (simp add: auth_migrated_def tables add_function_there put_table_same migrated_tables ex)
  have Q: "queue_migrated ?u = ?u"
    using made by (simp add: queue_migrated_def tables add_function_there put_table_same migrated_tables ex)
  show "migrated ?u = ?u" by (simp add: migrated_def [of ?u] A Q again(2))
  have "owns (migrated s) tn n" if "owns ?B tn n" "n \<noteq> due_index" for tn n
    using that by (auto simp: owns_def fields bind_eq_Some_conv split: option.splits if_splits)
  moreover have own: "owns ?B auth_sessions ''saps.idx_saps_auth_sessions_last_interacted''"
    "owns ?B auth_sessions ''saps.idx_saps_auth_sessions_old_id''"
    "owns ?B queued_tasks ''saps.idx_saps_queued_tasks_status''"
    "owns ?B queued_tasks ''saps.idx_saps_queued_tasks_function_name''"
    using s(3,4) by (simp_all add: auth_ready_def queue_ready_def queue_migrated_def auth_migrated_def owns_add_index)
  ultimately have owns: "owns ?u auth_sessions ''saps.idx_saps_auth_sessions_last_interacted''"
    "owns ?u auth_sessions ''saps.idx_saps_auth_sessions_old_id''" "owns ?u queued_tasks ''saps.idx_saps_queued_tasks_status''"
    "owns ?u queued_tasks ''saps.idx_saps_queued_tasks_function_name''"
    by (simp_all add: owns_def)
  have none: "pg_indexes ?B auth_sessions = None" "pg_indexes ?B queued_tasks = None"
    using s(3,4) by (simp_all add: auth_ready_def queue_ready_def queue_migrated_def auth_migrated_def auth_sessions_def
        queued_tasks_def)
  have names: "auth_sessions \<noteq> due_index" "queued_tasks \<noteq> due_index" by (simp_all add: auth_sessions_def queued_tasks_def)
  have "auth_ready ?u"
    using owns(1,2) none(1) names(1) upgrade_older [OF older(2)]
    by (simp add: auth_ready_def migrated_tables fields(2) made free_or_def)
  moreover have "queue_ready ?u"
    using owns(3,4) none(2) names(2) s(4)
    by (simp add: queue_ready_def migrated_tables fields(2) made free_or_def queue_table_def)
      (auto simp: queue_columns_def column_names_def split: option.splits)
  ultimately show "migratable ?u" using ok s(2) again(1) by (simp add: migratable_def migrated_tables)
qed

section \<open>Properties\<close>

text \<open>The columns a session is read from cannot be null after the upgrade.\<close>

lemma upgrade_not_null:
  assumes "older_auth t"
  shows "\<forall>c \<in> {(''id'', TUuid), (''old_id'', TUuid), (''time_minted'', TTimestamp)}.
    \<exists>k. column_of (upgrade_table now t) (fst c) = Some k \<and> cn_type k = snd c \<and> cn_not_null k"
  using assms by (auto simp: older_auth_def column_of_upgrade split: option.splits)

text \<open>C27: On a database that no migration has touched, or that this or an earlier version has migrated, the
  migrations run. In the sessions' table they leave, neither the previous id nor the time of minting can
  be null, and its rows are the old rows in their order, each unchanged but for these two: the
  previous id is the row's own id where the old row had none or null, and the time of minting is the time
  of the migration where the old row had none. The queue is untouched and the schedules are gone; and
  running the migrations again, at any time, changes nothing.\<close>

theorem migrations_upgrade:
  assumes "migratable s"
  shows "\<exists>t a. run_migrations E s = (Some (), t) \<and> pg_tables t auth_sessions = Some a \<and>
    (\<forall>c \<in> {(''id'', TUuid), (''old_id'', TUuid), (''time_minted'', TTimestamp)}.
      \<exists>k. column_of a (fst c) = Some k \<and> cn_type k = snd c \<and> cn_not_null k) \<and>
    tb_rows a = map (upgraded_row (pg_now s)) (table_rows s auth_sessions) \<and>
    task_db_of t = (task_db_of s)\<lparr>schedule := [], t_serial := 1\<rparr> \<and>
    (\<forall>later. run_migrations E (t\<lparr>pg_now := later\<rparr>) = (Some (), t\<lparr>pg_now := later\<rparr>))"
proof -
  let ?a = "upgrade_table (pg_now s) (auth_table s)"
  have older: "older_auth (auth_table s)" using assms by (intro auth_table_older) (simp_all add: migratable_def)
  have "tb_rows ?a = map (upgraded_row (pg_now s)) (table_rows s auth_sessions)"
    using migrated_sessions(1) [OF assms] by (simp add: table_rows_def migrated_tables)
  then show ?thesis
    using migrations_run(1) [OF assms, of E] migrated_tables(1) [of s] upgrade_not_null [OF older] migrated_sessions(2) [OF assms]
      migrations_run(1) [OF migrated_again(1) [OF assms], of E] migrated_again(2) [OF assms]
    by (intro exI [of _ "migrated s"] exI [of _ ?a]) (simp only: simp_thms)
qed

text \<open>A session of a table without previous ids has its own id as its only credential once upgraded.\<close>

lemma first_version_row:
  assumes "table_ok t" and "older_auth t" and "''old_id'' \<notin> set (column_names t)" and "r \<in> set (tb_rows t)"
    and "q = read_session_row (upgraded_row now r)"
  shows "r ''id'' = Some (VUuid (r_id q))" and "creds q = {r_id q}" and "r_role q = the (get_text (r ''role''))"
    and "r_last q = the (get_time (r ''last_interacted''))" and "r_meta q = get_json (r ''meta'')"
  using ids_are_uuids [OF assms(1,2,4)] row_lacks [OF assms(1,4,3)] assms(5)
  by (auto simp: creds_def read_session_row_def upgraded_row_def)

lemma first_version_inv:
  assumes "migratable s" and "pg_tables s auth_sessions = Some t" and "''old_id'' \<notin> set (column_names t)"
    and "inj_on (pg_uuids s) {..<n}" and "pg_drawn s \<le> n"
    and "\<forall>r \<in> set (tb_rows t). \<exists>k < pg_drawn s. r ''id'' = Some (VUuid (pg_uuids s k))"
  shows "auth_inv L n (auth_db_of (migrated s))"
proof -
  have t: "table_ok t" "older_auth t"
    using assms(1,2) by (auto simp: migratable_def pg_ok_def auth_ready_def split: option.splits)
  let ?read = "\<lambda>r. read_session_row (upgraded_row (pg_now s) r)" and ?rs = "rows (auth_db_of (migrated s))"
  have rs: "?rs = map ?read (tb_rows t)"
    using assms(2) migrated_sessions(1) [OF assms(1)] by (simp add: auth_db_of_def) (simp add: table_rows_def)
  have id: "r ''id'' = Some (VUuid (r_id (?read r)))" and one': "creds (?read r) = {r_id (?read r)}"
    if "r \<in> set (tb_rows t)" for r
    using first_version_row(1,2) [OF t assms(3) that refl] by blast+
  have "distinct (map (\<lambda>r. r ''id'') (tb_rows t))" using t by (simp add: table_ok_def older_auth_def)
  then have ids: "distinct (map r_id ?rs)"
    using id unfolding rs distinct_map inj_on_def by simp (metis (no_types, lifting))
  have one: "creds r = {r_id r}" if "r \<in> set ?rs" for r
    using that one' unfolding rs by fastforce
  have known: "r_id r \<in> pg_uuids s ` {..<pg_drawn s}" if "r \<in> set ?rs" for r
  proof -
    obtain r0 where r0: "r0 \<in> set (tb_rows t)" "r = ?read r0" using \<open>r \<in> set ?rs\<close> unfolding rs by auto
    then obtain k where "k < pg_drawn s" "r0 ''id'' = Some (VUuid (pg_uuids s k))" using assms(6) by blast
    then show ?thesis using id [OF r0(1)] r0(2) by simp
  qed
  have "pairwise_apart (\<lambda>r r'. creds r \<inter> creds r' \<noteq> {}) rs"
    if "distinct (map r_id rs)" "set rs \<subseteq> set ?rs" for rs
    using that by (induction rs) (auto simp: list_all_iff one)
  then have apart: "pairwise_apart (\<lambda>r r'. creds r \<inter> creds r' \<noteq> {}) ?rs" using ids by simp
  have db: "uuids (auth_db_of (migrated s)) = pg_uuids s" "drawn (auth_db_of (migrated s)) = pg_drawn s"
    "indexes (auth_db_of (migrated s)) = []"
    by (simp_all add: auth_db_of_def migrated_tables)
  show ?thesis unfolding auth_inv_def unique_ok_def db using ids apart assms(4,5) known by (simp add: one)
qed

text \<open>C28: Sessions of a table from before there were previous ids survive the upgrade: the migrations succeed,
  in the table they leave the ids and previous ids of different sessions are apart, and a session that
  is not idle is still answered, with its metadata, when its id is presented.\<close>

theorem upgraded_sessions_stay_valid:
  assumes "migratable s" and "pg_tables s auth_sessions = Some old" and "''old_id'' \<notin> set (column_names old)"
    and "inj_on (pg_uuids s) {..<n}" and "pg_drawn s < n"
    and "\<forall>r \<in> set (tb_rows old). \<exists>k < pg_drawn s. r ''id'' = Some (VUuid (pg_uuids s k))"
    and "\<forall>r \<in> set (tb_rows old). \<exists>txt role. r ''role'' = Some (VText txt) \<and> role_parse L txt = Inr role"
    and "uuid_parse L i = Inr p" and "r \<in> set (tb_rows old)" and "r ''id'' = Some (VUuid p)"
    and "r ''last_interacted'' = Some (VTime active)" and "later - minutes mins \<le> active"
  shows "\<exists>t. run_migrations E s = (Some (), t) \<and> auth_inv L n (auth_db_of (t\<lparr>pg_now := later\<rparr>)) \<and>
    (\<exists>a u. ping_auth_session L (auth_db_of (t\<lparr>pg_now := later\<rparr>)) mins i = (Inr (Some a), u) \<and>
      s_meta a = get_json (r ''meta''))"
proof -
  let ?s = "auth_db_of ((migrated s)\<lparr>pg_now := later\<rparr>)" and ?q = "read_session_row (upgraded_row (pg_now s) r)"
  have old: "table_ok old" "older_auth old"
    using assms(1,2) by (auto simp: migratable_def pg_ok_def auth_ready_def split: option.splits)
  note first = first_version_row [OF old assms(3) _ refl, of _ "pg_now s"]
  have db: "?s = (auth_db_of (migrated s))\<lparr>clock := later\<rparr>" by (simp add: auth_db_of_def table_rows_def)
  have rs: "rows ?s = map (\<lambda>r. read_session_row (upgraded_row (pg_now s) r)) (tb_rows old)"
    using assms(2) migrated_sessions(1) [OF assms(1)] by (simp add: db) (simp add: auth_db_of_def table_rows_def)
  have "auth_inv L n (auth_db_of (migrated s))"
    using first_version_inv [OF assms(1-4) _ assms(6)] assms(5) by simp
  then have inv: "auth_inv L n ?s" by (simp add: db auth_inv_def)
  have "\<exists>role. role_parse L (r_role q) = Inr role" if "q \<in> set (rows ?s)" for q
    using that assms(7) first(3) unfolding rs by fastforce
  then have "roles_ok L ?s" "link ?s = None" "drawn ?s < n"
    using assms(1,5) by (simp_all add: roles_ok_def list_all_iff) (simp_all add: auth_db_of_def migrated_tables migratable_def)
  note meets = ping_auth_session_meets [OF inv this(3,2) assms(8) this(1), of mins]
  have row: "?q \<in> set (rows ?s)" "p \<in> creds ?q" "r_id ?q = p" "r_last ?q = active" "r_meta ?q = get_json (r ''meta'')"
    using assms(9-11) first [OF assms(9)] unfolding rs by simp_all
  have acc: "accepted ?s mins p" unfolding accepted_def by (rule bexI [of _ ?q]) (use row(1,3,4) assms(12) in \<open>simp_all add: db\<close>)
  obtain out' u where o': "ping_auth_session L ?s mins i = (out', u)" by fastforce
  then obtain a where a: "out' = Inr (Some a)" using meets acc by (auto simp: ping_meets_def split: sum.splits option.splits)
  then obtain q where "q \<in> set (rows ?s)" "p \<in> creds q" "s_meta a = r_meta q" using meets o' by (auto simp: ping_meets_def)
  moreover have "q = ?q" using owner_unique [OF inv row(1)] row(2) calculation by blast
  ultimately show ?thesis using inv o' a row(5) migrations_run(1) [OF assms(1), of E] by metis
qed

text \<open>What a statement leaves alone.\<close>

fun alters :: "statement \<Rightarrow> string \<Rightarrow> bool" where
  "alters (CreateTable _ m _ _) n = (m = n)"
| "alters (DropTableCascade m) n = (m = n)"
| "alters (AddColumn m _) n = (m = n)"
| "alters (FillNulls m _ _) n = (m = n)"
| "alters (SetNotNull m _) n = (m = n)"
| "alters (SetDefault m _ _) n = (m = n)"
| "alters _ n = False"

lemma exec_frame: "exec s q = Inr t \<Longrightarrow> \<not> alters q n \<Longrightarrow> pg_tables t n = pg_tables s n"
  by (cases q) (auto simp: on_table_def add_column_def Let_def split: option.splits if_splits prod.splits)

lemma script_frame: "run_script s qs = Inr t \<Longrightarrow> \<forall>q \<in> set qs. \<not> alters q n \<Longrightarrow> pg_tables t n = pg_tables s n"
  by (induction s qs rule: run_script.induct) (auto simp: res_bind_Inr_iff dest: exec_frame)

lemma execute_frame:
  "pg_execute E s qs = (out, t) \<Longrightarrow> \<forall>q \<in> set qs. \<not> alters q n \<Longrightarrow> pg_tables t n = pg_tables s n"
  by (auto simp: pg_execute_def split: option.splits sum.splits dest: script_frame)

lemma queue_script_keeps:
  assumes "pg_execute E s queue_migration = (out, t)"
  shows "table_rows t queued_tasks = table_rows s queued_tasks"
proof (cases "run_script s queue_migration")
  case (Inr u)
  let ?create = "[CreateSchema ''saps'', CreateTable True queued_tasks ''id'' queue_columns]"
  obtain v where v: "run_script s ?create = Inr v" "run_script v (drop 2 queue_migration) = Inr u"
    using Inr run_script_append [of s ?create "drop 2 queue_migration"]
    by (auto simp: queue_migration_def res_bind_Inr_iff simp del: exec.simps)
  have "pg_tables u queued_tasks = pg_tables v queued_tasks"
    by (rule script_frame [OF v(2)]) (simp add: queue_migration_def)
  moreover have "table_rows v queued_tasks = table_rows s queued_tasks"
    using v(1) by (auto simp: table_rows_def relation_exists_def split: if_splits option.splits)
  ultimately have "table_rows u queued_tasks = table_rows s queued_tasks" by (simp add: table_rows_def)
  then show ?thesis using assms Inr by (auto simp: pg_execute_def split: option.splits)
qed (use assms in \<open>auto simp: pg_execute_def split: option.splits\<close>)

text \<open>C29: On any database whose tables are well-typed, and whether the migrations run to the end or stop at an
  error: every table is well-typed afterwards, with its primary key unique and its indexes and
  procedures on tables that exist, and no queued task is lost or changed.\<close>

theorem migrations_keep_tables_typed:
  assumes "pg_ok s" and "run_migrations E s = (out, t)"
  shows "pg_ok t \<and> table_rows t queued_tasks = table_rows s queued_tasks"
proof -
  obtain o1 s1 where 1: "pg_execute E s auth_migration = (o1, s1)" by fastforce
  obtain o2 s2 where 2: "pg_execute E s1 queue_migration = (o2, s2)" by fastforce
  obtain o3 s3 where 3: "pg_execute E s2 schedule_migration = (o3, s3)" by fastforce
  have ok: "pg_ok s1" "pg_ok s2" "pg_ok s3"
    using pg_execute_ok [OF assms(1) scripts_ok(1) 1] pg_execute_ok [OF _ scripts_ok(2) 2] pg_execute_ok [OF _ scripts_ok(3) 3]
    by blast+
  have "pg_tables s1 queued_tasks = pg_tables s queued_tasks" "pg_tables s3 queued_tasks = pg_tables s2 queued_tasks"
    by (rule execute_frame [OF 1] execute_frame [OF 3]; simp add: auth_migration_def schedule_migration_def)+
  then have same: "table_rows s1 queued_tasks = table_rows s queued_tasks" "table_rows s3 queued_tasks = table_rows s2 queued_tasks"
    by (simp_all add: table_rows_def)
  have "t = s1 \<or> t = s2 \<or> t = s3" using assms(2) by (auto simp: run_migrations_def 1 2 3 split: sum.splits)
  then show ?thesis using ok same queue_script_keeps [OF 2] by auto
qed

end
