(* ===== verification/Row_Decoding.thy ===== *)
theory Row_Decoding
  imports Migrations
begin

text \<open>
  The \<open>from_row\<close> functions of \<open>auth/dal/model.rs\<close>, \<open>background_tasks/dal/model.rs\<close> and
  \<open>scheduled_tasks/dal/model.rs\<close> on rows of typed columns, and that they read what the models of
  the tables hold. The texts of sqlx's decoding errors are a parameter.
\<close>

section \<open>Columns of a row\<close>

text \<open>\<open>row.try_get(name)\<close> with \<open>map_err\<close>: the column may be missing, null, or of another type.\<close>

type_synonym decode_text = "string \<Rightarrow> sql_value option \<Rightarrow> string"

definition try_get :: "decode_text \<Rightarrow> (sql_value \<Rightarrow> 'a option) \<Rightarrow> sql_row \<Rightarrow> string \<Rightarrow> saps_error + 'a" where
  "try_get E dec r c =
     (case Option.bind (r c) dec of
        Some a \<Rightarrow> Inr a
      | None \<Rightarrow> Inl (unknown (E c (r c))))"

fun dec_uuid :: "sql_value \<Rightarrow> uuid option" where
  "dec_uuid (VUuid u) = Some u" | "dec_uuid _ = None"

fun dec_text :: "sql_value \<Rightarrow> string option" where
  "dec_text (VText t) = Some t" | "dec_text _ = None"

fun dec_time :: "sql_value \<Rightarrow> int option" where
  "dec_time (VTime t) = Some t" | "dec_time _ = None"

fun dec_json :: "sql_value \<Rightarrow> json option" where
  "dec_json (VJson j) = Some j" | "dec_json _ = None"

fun dec_bool :: "sql_value \<Rightarrow> bool option" where
  "dec_bool (VBool b) = Some b" | "dec_bool _ = None"

fun dec_int :: "sql_value \<Rightarrow> int option" where
  "dec_int (VInt i) = Some i" | "dec_int _ = None"

text \<open>Decoding an \<open>Option\<close>.\<close>

definition nullable :: "(sql_value \<Rightarrow> 'a option) \<Rightarrow> sql_value \<Rightarrow> 'a option option" where
  "nullable dec v = (if v = VNull then Some None else map_option Some (dec v))"

definition auth_from_row :: "'u auth_lib \<Rightarrow> decode_text \<Rightarrow> sql_row \<Rightarrow> saps_error + 'u auth_session" where
  "auth_from_row L E r =
     res_bind (try_get E dec_text r ''role'') (\<lambda>role_str.
     res_bind (role_parse L role_str) (\<lambda>role.
     res_bind (try_get E dec_uuid r ''id'') (\<lambda>i.
     res_bind (try_get E dec_time r ''date_created'') (\<lambda>created.
     res_bind (try_get E dec_time r ''last_interacted'') (\<lambda>last.
     res_bind (try_get E (nullable dec_json) r ''meta'') (\<lambda>meta.
       Inr \<lparr>s_id = i, s_role = role, s_created = created, s_last = last, s_meta = meta\<rparr>))))))"

definition queued_from_row :: "decode_text \<Rightarrow> sql_row \<Rightarrow> saps_error + task_status queued_task" where
  "queued_from_row E r =
     res_bind (try_get E dec_text r ''status'') (\<lambda>status_str.
     res_bind (task_status_try_from status_str) (\<lambda>status.
     res_bind (try_get E dec_uuid r ''id'') (\<lambda>i.
     res_bind (try_get E dec_text r ''function_name'') (\<lambda>f.
     res_bind (try_get E dec_json r ''params'') (\<lambda>ps.
     res_bind (try_get E dec_time r ''time_posted'') (\<lambda>posted.
     res_bind (try_get E (nullable dec_time) r ''time_started'') (\<lambda>started.
     res_bind (try_get E (nullable dec_time) r ''time_finished'') (\<lambda>finished.
     res_bind (try_get E dec_bool r ''locked'') (\<lambda>locked.
       Inr \<lparr>q_id = i, q_function = f, q_params = ps, q_status = status, q_posted = posted, q_started = started,
            q_finished = finished, q_locked = locked\<rparr>)))))))))"

definition scheduled_from_row :: "decode_text \<Rightarrow> sql_row \<Rightarrow> saps_error + scheduled_task" where
  "scheduled_from_row E r =
     res_bind (try_get E dec_int r ''id'') (\<lambda>i.
     res_bind (try_get E dec_text r ''function_name'') (\<lambda>f.
     res_bind (try_get E dec_json r ''params'') (\<lambda>ps.
     res_bind (try_get E (nullable dec_uuid) r ''task_id'') (\<lambda>task.
     res_bind (try_get E (nullable dec_time) r ''time_scheduled'') (\<lambda>scheduled.
     res_bind (try_get E (nullable dec_time) r ''time_completed'') (\<lambda>completed.
     res_bind (try_get E dec_text r ''cron_string'') (\<lambda>cron.
     res_bind (try_get E dec_bool r ''locked'') (\<lambda>locked.
       Inr \<lparr>c_id = i, c_function = f, c_params = ps, c_task_id = task, c_scheduled = scheduled,
            c_completed = completed, c_cron = cron, c_locked = locked\<rparr>))))))))"

section \<open>Typed rows decode\<close>

text \<open>A table that has these columns, among others.\<close>

definition has_columns :: "column list \<Rightarrow> sql_table \<Rightarrow> bool" where
  "has_columns cs t \<longleftrightarrow> list_all (\<lambda>c. case column_of t (cn_name c) of
     None \<Rightarrow> False | Some k \<Rightarrow> cn_type k = cn_type c \<and> (cn_not_null c \<longrightarrow> cn_not_null k)) cs"

text \<open>The value a column of a well-typed row holds.\<close>

lemma typed_column:
  assumes "table_ok t" and "has_columns cs t" and "r \<in> set (tb_rows t)" and "c \<in> set cs"
  shows "\<exists>v. r (cn_name c) = Some v \<and> of_type (cn_type c) v \<and> (cn_not_null c \<longrightarrow> v \<noteq> VNull)"
proof -
  obtain k where k: "column_of t (cn_name c) = Some k" "cn_type k = cn_type c" "cn_not_null c \<longrightarrow> cn_not_null k"
    using assms(2,4) by (auto simp: has_columns_def list_all_iff split: option.splits)
  then obtain v where "r (cn_name c) = Some v"
    using row_has [OF assms(1,3)] column_of_names [of t "cn_name c"] by fastforce
  then show ?thesis using row_typed [OF assms(1,3) k(1)] k by auto
qed

lemma of_type_cases:
  "of_type TUuid v \<longleftrightarrow> v = VNull \<or> (\<exists>u. v = VUuid u)"
  "of_type TTimestamp v \<longleftrightarrow> v = VNull \<or> (\<exists>t. v = VTime t)"
  "of_type TJsonb v \<longleftrightarrow> v = VNull \<or> (\<exists>j. v = VJson j)"
  "of_type TBoolean v \<longleftrightarrow> v = VNull \<or> (\<exists>b. v = VBool b)"
  "of_type TInteger v \<longleftrightarrow> v = VNull \<or> (\<exists>i. v = VInt i)"
  by (cases v; simp)+

lemma of_type_text: "of_type (TVarchar m) v \<Longrightarrow> v \<noteq> VNull \<Longrightarrow> \<exists>t. v = VText t"
  by (cases v) simp_all

lemma nullable_reads:
  "of_type TTimestamp v \<Longrightarrow> r c = Some v \<Longrightarrow> try_get E (nullable dec_time) r c = Inr (get_time (r c))"
  "of_type TUuid v \<Longrightarrow> r c = Some v \<Longrightarrow> try_get E (nullable dec_uuid) r c = Inr (get_uuid (r c))"
  "of_type TJsonb v \<Longrightarrow> r c = Some v \<Longrightarrow> try_get E (nullable dec_json) r c = Inr (get_json (r c))"
  by (auto simp: of_type_cases try_get_def nullable_def)

text \<open>What a column of each type gives, where it cannot be null and where it can.\<close>

lemma column_reads:
  assumes "table_ok t" and "has_columns cs t" and "r \<in> set (tb_rows t)"
  shows "col c TUuid True d \<in> set cs \<Longrightarrow> try_get E dec_uuid r c = Inr (the (get_uuid (r c)))"
    and "col c (TVarchar m) True d \<in> set cs \<Longrightarrow> try_get E dec_text r c = Inr (the (get_text (r c)))"
    and "col c TTimestamp True d \<in> set cs \<Longrightarrow> try_get E dec_time r c = Inr (the (get_time (r c)))"
    and "col c TJsonb True d \<in> set cs \<Longrightarrow> try_get E dec_json r c = Inr (the (get_json (r c)))"
    and "col c TBoolean True d \<in> set cs \<Longrightarrow> try_get E dec_bool r c = Inr (get_bool (r c))"
    and "col c TInteger True d \<in> set cs \<Longrightarrow> try_get E dec_int r c = Inr (get_int (r c))"
    and "col c TUuid False d \<in> set cs \<Longrightarrow> try_get E (nullable dec_uuid) r c = Inr (get_uuid (r c))"
    and "col c TTimestamp False d \<in> set cs \<Longrightarrow> try_get E (nullable dec_time) r c = Inr (get_time (r c))"
    and "col c TJsonb False d \<in> set cs \<Longrightarrow> try_get E (nullable dec_json) r c = Inr (get_json (r c))"
  by (auto simp: try_get_def of_type_cases nullable_def dest!: of_type_text typed_column [OF assms])

text \<open>A session's row of the migrated table decodes to the session the model reads; only its role can be
  refused.\<close>

lemma auth_row_decodes:
  assumes "table_ok t" and "has_columns auth_columns t" and "r \<in> set (tb_rows t)"
  shows "auth_from_row L E r = session_from_row L (read_session_row r)"
proof -
  note reads = column_reads [OF assms, where E = E]
  have "try_get E dec_text r ''role'' = Inr (the (get_text (r ''role'')))"
    "try_get E dec_uuid r ''id'' = Inr (the (get_uuid (r ''id'')))"
    "try_get E dec_time r ''date_created'' = Inr (the (get_time (r ''date_created'')))"
    "try_get E dec_time r ''last_interacted'' = Inr (the (get_time (r ''last_interacted'')))"
    "try_get E (nullable dec_json) r ''meta'' = Inr (get_json (r ''meta''))"
    by (rule reads(2) [where m = "Some 255" and d = None] reads(1) [where d = "Some GenRandomUuid"]
        reads(3) [where d = "Some DefaultNow"] reads(9) [where d = None]; simp add: auth_columns_def)+
  then show ?thesis by (simp add: auth_from_row_def session_from_row_def read_session_row_def)
qed

lemma queue_row_decodes:
  assumes "table_ok t" and "has_columns queue_columns t" and "r \<in> set (tb_rows t)"
  shows "queued_from_row E r = task_from_row (read_queue_row r)"
proof -
  note reads = column_reads [OF assms, where E = E]
  have "try_get E dec_text r ''status'' = Inr (the (get_text (r ''status'')))"
    by (rule reads(2) [where m = "Some 50" and d = "Some (Constant (VText ''pending''))"]) (simp add: queue_columns_def)
  moreover have "try_get E dec_uuid r ''id'' = Inr (the (get_uuid (r ''id'')))"
    "try_get E dec_text r ''function_name'' = Inr (the (get_text (r ''function_name'')))"
    "try_get E dec_json r ''params'' = Inr (the (get_json (r ''params'')))"
    "try_get E dec_time r ''time_posted'' = Inr (the (get_time (r ''time_posted'')))"
    "try_get E (nullable dec_time) r ''time_started'' = Inr (get_time (r ''time_started''))"
    "try_get E (nullable dec_time) r ''time_finished'' = Inr (get_time (r ''time_finished''))"
    "try_get E dec_bool r ''locked'' = Inr (get_bool (r ''locked''))"
    by (rule reads(1) [where d = "Some GenRandomUuid"] reads(2) [where m = "Some 255" and d = None]
        reads(4) [where d = "Some (Constant (VJson (JObj [])))"] reads(3) [where d = "Some DefaultNow"]
        reads(8) [where d = None] reads(5) [where d = "Some (Constant (VBool False))"]; simp add: queue_columns_def)+
  ultimately show ?thesis by (simp add: queued_from_row_def task_from_row_def read_queue_row_def)
qed

lemma schedule_row_decodes:
  assumes "table_ok t" and "has_columns schedule_columns t" and "r \<in> set (tb_rows t)"
  shows "scheduled_from_row E r = Inr (read_schedule_row r)"
proof -
  note reads = column_reads [OF assms, where E = E]
  have "try_get E dec_int r ''id'' = Inr (get_int (r ''id''))"
    "try_get E dec_text r ''function_name'' = Inr (the (get_text (r ''function_name'')))"
    "try_get E dec_json r ''params'' = Inr (the (get_json (r ''params'')))"
    "try_get E (nullable dec_uuid) r ''task_id'' = Inr (get_uuid (r ''task_id''))"
    "try_get E (nullable dec_time) r ''time_scheduled'' = Inr (get_time (r ''time_scheduled''))"
    "try_get E (nullable dec_time) r ''time_completed'' = Inr (get_time (r ''time_completed''))"
    "try_get E dec_text r ''cron_string'' = Inr (the (get_text (r ''cron_string'')))"
    "try_get E dec_bool r ''locked'' = Inr (get_bool (r ''locked''))"
    by (rule reads(6) [where d = "Some NextVal"] reads(2) [where m = "Some 255" and d = None]
        reads(4) [where d = "Some (Constant (VJson (JObj [])))"] reads(7) [where d = None]
        reads(8) [where d = None] reads(5) [where d = "Some (Constant (VBool False))"]; simp add: schedule_columns_def)+
  then show ?thesis by (simp add: scheduled_from_row_def read_schedule_row_def)
qed

section \<open>After the migrations\<close>

text \<open>The columns that every version of the table has had.\<close>

definition first_columns :: "column list" where
  "first_columns = filter (\<lambda>c. cn_name c \<notin> {''old_id'', ''time_minted''}) auth_columns"

lemma upgrade_has_columns:
  assumes "older_auth t" and "has_columns first_columns t"
  shows "has_columns auth_columns (upgrade_table now t)"
  using assms unfolding has_columns_def older_auth_def column_of_upgrade
  by (auto simp: first_columns_def auth_columns_def split: option.splits)

text \<open>C30: After the migrations the decoding of rows never meets a missing, null or ill-typed column: as long as
  the three tables stay well-typed and keep their columns, every row decodes to exactly what the
  models of sessions, tasks and schedules read there, and nothing but a role or a status the program
  does not know is refused.\<close>

theorem migrated_rows_decode:
  assumes "migratable s" and "run_migrations E s = (out, t)"
    and "case pg_tables s auth_sessions of None \<Rightarrow> True | Some a \<Rightarrow> has_columns first_columns a"
    and "case pg_tables s queued_tasks of None \<Rightarrow> True | Some q \<Rightarrow> has_columns queue_columns q"
  shows "\<exists>a q c. pg_tables t auth_sessions = Some a \<and> pg_tables t queued_tasks = Some q \<and>
    pg_tables t scheduled_tasks = Some c \<and>
    (\<forall>rs. table_ok (a\<lparr>tb_rows := rs\<rparr>) \<longrightarrow> list_all (\<lambda>r. auth_from_row L D r = session_from_row L (read_session_row r)) rs) \<and>
    (\<forall>rs. table_ok (q\<lparr>tb_rows := rs\<rparr>) \<longrightarrow> list_all (\<lambda>r. queued_from_row D r = task_from_row (read_queue_row r)) rs) \<and>
    (\<forall>rs. table_ok (c\<lparr>tb_rows := rs\<rparr>) \<longrightarrow> list_all (\<lambda>r. scheduled_from_row D r = Inr (read_schedule_row r)) rs)"
proof -
  have t: "t = migrated s" using migrations_run(1) [OF assms(1), of E] assms(2) by simp
  have s: "pg_ok s" "auth_ready s" using assms(1) by (simp_all add: migratable_def)
  have "has_columns first_columns \<lparr>tb_columns = auth_columns, tb_key = ''id'', tb_rows = [], tb_serial = 1\<rparr>"
    by (simp add: has_columns_def column_of_def auth_columns_def first_columns_def)
  then have "has_columns first_columns (auth_table s)"
    using assms(3) by (cases "pg_tables s auth_sessions") (simp_all add: auth_table_def)
  then have a: "has_columns auth_columns (upgrade_table (pg_now s) (auth_table s))"
    by (rule upgrade_has_columns [OF auth_table_older(2) [OF s]])
  have q: "has_columns queue_columns (queue_table s)"
    using assms(4)
    by (cases "pg_tables s queued_tasks") (simp_all add: queue_table_def, simp add: has_columns_def column_of_def queue_columns_def)
  have c: "has_columns schedule_columns fresh_schedule" by (simp add: has_columns_def column_of_def schedule_columns_def)
  have same: "has_columns cs (u\<lparr>tb_rows := rs\<rparr>) = has_columns cs u" for cs u rs by (simp add: has_columns_def column_of_def)
  have rows: "auth_from_row L D r = session_from_row L (read_session_row r)"
    if "table_ok ((upgrade_table (pg_now s) (auth_table s))\<lparr>tb_rows := rs\<rparr>)" "r \<in> set rs" for rs r
    using that by (intro auth_row_decodes [OF that(1) same [THEN iffD2, OF a]]) simp
  have queued: "queued_from_row D r = task_from_row (read_queue_row r)"
    if "table_ok ((queue_table s)\<lparr>tb_rows := rs\<rparr>)" "r \<in> set rs" for rs r
    using that by (intro queue_row_decodes [OF that(1) same [THEN iffD2, OF q]]) simp
  have scheduled: "scheduled_from_row D r = Inr (read_schedule_row r)"
    if "table_ok (fresh_schedule\<lparr>tb_rows := rs\<rparr>)" "r \<in> set rs" for rs r
    using that by (intro schedule_row_decodes [OF that(1) same [THEN iffD2, OF c]]) simp
  show ?thesis
    unfolding t migrated_tables list_all_iff by (intro exI conjI allI impI ballI) (rule refl | erule rows queued scheduled, assumption)+
qed

end
