(* ===== verification/Auth_Meta.thy ===== *)
theory Auth_Meta
  imports Auth_Life
begin

text \<open>
  Guarantees of the operations on the \<open>meta\<close> column: compare-and-swap has one winner, an upserted
  key is what later reads see, and a migrated unique key bounds what the lookups, updates and
  deletions by that key can reach.
\<close>

section \<open>Compare and swap\<close>

lemma update_none:
  assumes "link s = None" and "unique_ok L (indexes s) (rows s)" and "\<And>q. q \<in> set (rows s) \<Longrightarrow> \<not> P q"
  shows "sql_update L s P f = (Inr [], s)"
proof -
  have "update_rows P f ts = Inr (ts, [])" if "\<And>q. q \<in> set ts \<Longrightarrow> \<not> P q" for ts
    using that by (induction ts) auto
  with assms show ?thesis by (simp add: sql_update_def)
qed

lemma swap_miss:
  assumes "link s = None" and "unique_ok L (indexes s) (rows s)" and "uuid_parse L i = Inr p"
    and "\<And>q. q \<in> set (rows s) \<Longrightarrow> r_id q = p \<Longrightarrow> \<not> meta_key_is k e q"
  shows "compare_and_swap_auth_session_meta L s i k e w = (Inr None, s)"
  using assms
  by (simp add: compare_and_swap_auth_session_meta_def parse_session_id_def read_optional_def)
    (subst update_none; auto)

lemma by_id:
  assumes "auth_inv L n s" and "r \<in> set (rows s)" and "q \<in> set (rows s)"
  shows "r_id q = r_id r \<longleftrightarrow> q = r"
  using owner_unique [OF assms(1-3), of "r_id r"] by (auto simp: creds_def)

lemma swap_hit:
  assumes inv: "auth_inv L n s" and up: "link s = None" and parse: "uuid_parse L i = Inr (r_id r)"
    and r: "r \<in> set (rows s)" and meta: "r_meta r = Some (JObj es)" and cur: "map_of es k = Some e"
    and uniq: "unique_ok L (indexes s) (with_row s r (r\<lparr>r_meta := Some (JObj (obj_set k w es))\<rparr>))"
    and role: "role_parse L (r_role r) = Inr u"
  shows "compare_and_swap_auth_session_meta L s i k e w =
    (Inr (Some \<lparr>s_id = r_id r, s_role = u, s_created = r_created r, s_last = r_last r,
       s_meta = Some (JObj (obj_set k w es))\<rparr>),
     s\<lparr>rows := with_row s r (r\<lparr>r_meta := Some (JObj (obj_set k w es))\<rparr>)\<rparr>)"
proof -
  have "sql_update L s (\<lambda>q. r_id q = r_id r \<and> meta_key_is k e q) (set_meta_key L k w) =
    (Inr [r\<lparr>r_meta := Some (JObj (obj_set k w es))\<rparr>],
     s\<lparr>rows := with_row s r (r\<lparr>r_meta := Some (JObj (obj_set k w es))\<rparr>)\<rparr>)"
    using by_id [OF inv r] meta cur
    by (intro update_one)
      (auto simp: up r rows_distinct [OF inv] uniq set_meta_key_def meta_key_is_def json_pg_def)
  then show ?thesis
    by (simp add: compare_and_swap_auth_session_meta_def parse_session_id_def parse read_optional_def
        read_session_def session_from_row_def role)
qed

text \<open>Clients that race to replace the same expected value, in the order the database serves them.\<close>

fun swap_race ::
    "'u auth_lib \<Rightarrow> auth_db \<Rightarrow> string \<Rightarrow> string \<Rightarrow> json \<Rightarrow> json list
     \<Rightarrow> (sqlx_error + 'u auth_session option) list \<times> auth_db" where
  "swap_race L s i k e [] = ([], s)"
| "swap_race L s i k e (w # ws) =
     (case compare_and_swap_auth_session_meta L s i k e w of
        (out, s') \<Rightarrow> (case swap_race L s' i k e ws of (outs, s'') \<Rightarrow> (out # outs, s'')))"

lemma swap_race_lost:
  assumes "link s = None" and "unique_ok L (indexes s) (rows s)" and "uuid_parse L i = Inr p"
    and "\<And>q. q \<in> set (rows s) \<Longrightarrow> r_id q = p \<Longrightarrow> \<not> meta_key_is k e q"
  shows "swap_race L s i k e ws = (replicate (length ws) (Inr None), s)"
  using swap_miss [OF assms(1-3)] assms(4) by (induction ws) auto

text \<open>C32: when several clients try to swap the same value of a key for values of their own, the first
  one served wins and every other is told so; the row ends with the winner's value and nothing
  else in the table changes.\<close>

theorem swap_has_one_winner:
  assumes "auth_inv L n s" and "link s = None" and "uuid_parse L i = Inr (r_id r)"
    and "r \<in> set (rows s)" and "r_meta r = Some (JObj es)" and "map_of es k = Some e"
    and "unique_ok L (indexes s) (with_row s r (r\<lparr>r_meta := Some (JObj (obj_set k w es))\<rparr>))"
    and "role_parse L (r_role r) = Inr u" and "w \<noteq> e"
  shows "\<exists>a. swap_race L s i k e (w # ws) =
      (Inr (Some a) # replicate (length ws) (Inr None),
       s\<lparr>rows := with_row s r (r\<lparr>r_meta := Some (JObj (obj_set k w es))\<rparr>)\<rparr>) \<and>
    s_id a = r_id r \<and> meta_get a k = Some w"
proof -
  define r' where "r' = r\<lparr>r_meta := Some (JObj (obj_set k w es))\<rparr>"
  have "\<not> meta_key_is k e q" if "q \<in> set (with_row s r r')" "r_id q = r_id r" for q
  proof -
    from that by_id [OF assms(1,4)] have "q = r'"
      by (auto simp: with_row_def r'_def split: if_splits)
    then show ?thesis using assms(9) by (simp add: r'_def meta_key_is_def)
  qed
  then have "swap_race L (s\<lparr>rows := with_row s r r'\<rparr>) i k e ws =
      (replicate (length ws) (Inr None), s\<lparr>rows := with_row s r r'\<rparr>)"
    by (intro swap_race_lost) (auto simp: assms(2,3,7) r'_def)
  then show ?thesis
    using swap_hit [OF assms(1-8)] by (simp add: r'_def meta_get_def)
qed

section \<open>Reading back a key\<close>

lemma unique_with_row_less:
  assumes uniq: "unique_ok L (indexes s) (rows s)" and r: "r \<in> set (rows s)" and "r_id r' = r_id r"
    and less: "\<And>ks. indexed ks r' \<Longrightarrow> indexed ks r \<and> index_texts L ks r' = index_texts L ks r"
  shows "unique_ok L (indexes s) (with_row s r r')"
proof -
  define f where "f q = (if q = r then r' else q)" for q
  have "map r_id (map f (rows s)) = map r_id (rows s)" using assms(3) by (auto simp: f_def)
  moreover have "pairwise_apart (collide L ks) (map f (rows s))"
    if "pairwise_apart (collide L ks) (rows s)" for ks
    unfolding pairwise_apart_map using that
  proof (rule pairwise_apart_mono)
    fix x y assume "\<not> collide L ks x y"
    then show "\<not> collide L ks (f x) (f y)" using less [of ks] by (auto simp: collide_def f_def)
  qed
  moreover have "with_row s r r' = map f (rows s)" by (simp add: with_row_def f_def)
  ultimately show ?thesis using uniq by (simp only: unique_ok_def list_all_iff) blast
qed

lemma arrow_text_del: "k' \<noteq> k \<Longrightarrow> arrow_text L (JObj (obj_del k es)) k' = arrow_text L (JObj es) k'"
  by (simp add: arrow_text_def)

lemma has_key_del: "has_key (JObj (obj_del k es)) k' \<longleftrightarrow> k' \<noteq> k \<and> has_key (JObj es) k'"
  by (auto simp: obj_del_def)

lemma drop_key_less:
  assumes "r_meta r = Some (JObj es)" and "indexed ks (r\<lparr>r_meta := Some (JObj (obj_del k es))\<rparr>)"
  shows "indexed ks r \<and> index_texts L ks (r\<lparr>r_meta := Some (JObj (obj_del k es))\<rparr>) = index_texts L ks r"
proof -
  have "k \<notin> set ks" and "indexed ks r"
    using assms by (auto simp: indexed_def list_all_iff has_key_del simp del: has_key.simps)
  then have "map (arrow_text L (JObj (obj_del k es))) ks = map (arrow_text L (JObj es)) ks"
    by (auto intro!: arrow_text_del)
  with \<open>indexed ks r\<close> show ?thesis by (simp add: index_texts_def assms(1))
qed

text \<open>The outcome of a successful upsert of a key by session id.\<close>

lemma upsert_key_some:
  assumes inv: "auth_inv L n s" and r: "r \<in> set (rows s)" and parse: "uuid_parse L i = Inr (r_id r)"
    and meta: "r_meta r = None \<and> es = [] \<or> r_meta r = Some (JObj es)"
    and out: "upsert_auth_session_meta_key L s i k v = (Inr (Some a), t)"
  shows "t = s\<lparr>rows := with_row s r (r\<lparr>r_meta := Some (JObj (obj_set k v es))\<rparr>)\<rparr> \<and> link s = None \<and>
    unique_ok L (indexes s) (rows t) \<and>
    read_session L (r\<lparr>r_meta := Some (JObj (obj_set k v es))\<rparr>) = Inr a"
proof -
  define r' where "r' = r\<lparr>r_meta := Some (JObj (obj_set k v es))\<rparr>"
  have "set_meta_key L k v r = Inr r'"
    using meta by (auto simp: set_meta_key_def json_pg_def empty_object_def r'_def)
  then have "update_rows (\<lambda>q. r_id q = r_id r) (set_meta_key L k v) (rows s) = Inr (with_row s r r', [r'])"
    unfolding with_row_def using by_id [OF inv r]
    by (intro update_rows_one) (simp_all add: rows_distinct [OF inv] r)
  with out show ?thesis unfolding r'_def [symmetric]
    by (auto simp: upsert_auth_session_meta_key_def parse_session_id_def parse sql_update_def
        read_optional_def res_bind_Inr_iff split: option.splits if_splits)
qed

lemma by_id_with_row:
  assumes "auth_inv L n s" and "r \<in> set (rows s)" and "r_id r' = r_id r" and "q \<in> set (with_row s r r')"
  shows "r_id q = r_id r \<longleftrightarrow> q = r'"
  using assms(4) by_id [OF assms(1,2)] assms(3) by (auto simp: with_row_def split: if_splits)

lemma with_row_distinct:
  assumes "auth_inv L n s" and "r \<in> set (rows s)" and "r_id r' = r_id r"
  shows "distinct (with_row s r r')"
proof -
  have "map r_id (with_row s r r') = map r_id (rows s)" using assms(3) by (auto simp: with_row_def)
  moreover have "distinct (map r_id (rows s))" using assms(1) by (simp add: auth_inv_def unique_ok_def)
  ultimately show ?thesis by (metis distinct_map)
qed

text \<open>C37: a key that was upserted reads back: the returned session and the one a later lookup by id
  finds are the same, they hold the new value under that key and the old values under the others,
  and deleting the key again leaves just the others.\<close>

theorem upserted_key_reads_back:
  assumes "auth_inv L n s" and "r \<in> set (rows s)" and "uuid_parse L i = Inr (r_id r)"
    and "r_meta r = None \<and> es = [] \<or> r_meta r = Some (JObj es)"
    and "upsert_auth_session_meta_key L s i k v = (Inr (Some a), t)"
  shows "meta_get a k = Some v \<and> (\<forall>l. l \<noteq> k \<longrightarrow> meta_get a l = map_of es l) \<and>
    get_auth_session L t i = Inr (Some a) \<and>
    (\<exists>b u. delete_auth_session_meta_key L t i k = (Inr (Some b), u) \<and>
       meta_get b k = None \<and> (\<forall>l. l \<noteq> k \<longrightarrow> meta_get b l = map_of es l))"
proof -
  define r' where "r' = r\<lparr>r_meta := Some (JObj (obj_set k v es))\<rparr>"
  define r'' where "r'' = r'\<lparr>r_meta := Some (JObj (obj_del k (obj_set k v es)))\<rparr>"
  have t: "t = s\<lparr>rows := with_row s r r'\<rparr>" and up: "link s = None"
    and uniq: "unique_ok L (indexes s) (rows t)" and a: "read_session L r' = Inr a"
    using upsert_key_some [OF assms] by (auto simp: r'_def)
  obtain x where x: "role_parse L (r_role r) = Inr x"
    using a by (cases "role_parse L (r_role r)") (auto simp: read_session_def session_from_row_def r'_def)
  have mem: "r' \<in> set (rows t)" using assms(2) by (simp add: t)
  have one: "r_id q = r_id r \<longleftrightarrow> q = r'" if "q \<in> set (rows t)" for q
    using by_id_with_row [OF assms(1,2), of r' q] that by (simp add: r'_def t)
  have dist: "distinct (rows t)"
    using with_row_distinct [OF assms(1,2), of r'] by (simp add: t r'_def)
  have meta_a: "s_meta a = Some (JObj (obj_set k v es))"
    using a x by (auto simp: read_session_def session_from_row_def r'_def)
  have "filter (\<lambda>q. r_id q = r_id r) (rows t) = [r']" by (rule filter_one [OF dist mem one])
  then have "get_auth_session L t i = Inr (Some a)"
    by (simp add: get_auth_session_def parse_session_id_def assms(3) sql_select_def read_optional_def a)
      (simp add: t up read_optional_def a)
  moreover have up': "link t = None" by (simp add: t up)
  have dk: "drop_meta_key L k r' = Inr r''"
    by (simp add: drop_meta_key_def json_pg_def r''_def r'_def)
  have "unique_ok L (indexes t) (with_row t r' r'')"
  proof (rule unique_with_row_less [OF _ mem])
    show "unique_ok L (indexes t) (rows t)" using uniq by (simp add: t)
    show "indexed ks r' \<and> index_texts L ks r'' = index_texts L ks r'" if "indexed ks r''" for ks
      using that unfolding r''_def by (intro drop_key_less) (simp_all add: r'_def)
  qed (simp add: r''_def)
  then have "sql_update L t (\<lambda>q. r_id q = r_id r) (drop_meta_key L k) = (Inr [r''], t\<lparr>rows := with_row t r' r''\<rparr>)"
    by (intro update_one [OF up' dist mem] one dk)
  then have "\<exists>b u. delete_auth_session_meta_key L t i k = (Inr (Some b), u) \<and>
      s_meta b = Some (JObj (obj_del k (obj_set k v es)))"
    by (simp add: delete_auth_session_meta_key_def parse_session_id_def assms(3) read_optional_def
        read_session_def session_from_row_def r''_def r'_def x)
  ultimately show ?thesis using meta_a by (fastforce simp: meta_get_def)
qed

section \<open>Unique keys\<close>

lemma holds_scalar:
  assumes "scalar v" and "meta_holds [(k, v)] r"
  obtains es where "r_meta r = Some (JObj es)" and "map_of es k = Some v"
proof -
  from assms(2) obtain m where m: "r_meta r = Some m" and "contains m (build_object [(k, v)])"
    by (auto simp: meta_holds_def split: option.splits)
  then obtain w where w: "json_get m k = Some w" "contains w v" using contains_build by blast
  then have "w = v" using contains_scalar [OF assms(1)] by blast
  with w(1) that m show thesis by (cases m) auto
qed

lemma holds_collide:
  assumes "scalar v" and "v \<noteq> JNull" and "meta_holds [(k, v)] r" and "meta_holds [(k, v)] q"
  shows "collide L [k] r q"
proof -
  obtain es where r: "r_meta r = Some (JObj es)" "map_of es k = Some v" by (rule holds_scalar [OF assms(1,3)])
  obtain fs where q: "r_meta q = Some (JObj fs)" "map_of fs k = Some v" by (rule holds_scalar [OF assms(1,4)])
  have "k \<in> fst ` set es" "k \<in> fst ` set fs"
    using r(2) q(2) by (force dest: map_of_SomeD)+
  moreover have "arrow_text L (JObj es) k = Some (json_text L v)" "arrow_text L (JObj fs) k = Some (json_text L v)"
    using r(2) q(2) assms(1,2) by (auto simp: arrow_text_def scalar_def split: json.splits)
  ultimately show ?thesis using r q by (simp add: collide_def indexed_def index_texts_def)
qed

lemma pairwise_filter_le1:
  assumes "pairwise_apart P xs" and "\<And>x y. Q x \<Longrightarrow> Q y \<Longrightarrow> P x y"
  shows "length (filter Q xs) \<le> 1"
  using assms(1)
proof (induction xs)
  case (Cons x xs)
  then show ?case using assms(2) by (auto simp: list_all_iff filter_empty_conv)
qed simp

lemma unique_key_le1:
  assumes "auth_inv L n s" and "(nm, [k]) \<in> set (indexes s)" and "scalar v" and "v \<noteq> JNull"
  shows "length (filter (meta_holds [(k, v)]) (rows s)) \<le> 1"
proof (rule pairwise_filter_le1)
  show "pairwise_apart (collide L [k]) (rows s)"
    using assms(1,2) by (force simp: auth_inv_def unique_ok_def list_all_iff)
qed (rule holds_collide [OF assms(3,4)])

lemma read_all_length: "read_all L rs = Inr as \<Longrightarrow> length as = length rs"
  by (induction rs arbitrary: as) (auto simp: res_bind_Inr_iff)

lemma sql_update_length: "sql_update L s P f = (Inr u, t) \<Longrightarrow> length u = length (filter P (rows s))"
  by (auto simp: sql_update_def split: option.splits sum.splits prod.splits if_splits
      dest!: update_rows_spec list_all2_lengthD [THEN sym])

text \<open>Once the migration has installed the unique index of a key, every state the database can
  reach has at most one session per string, number or boolean under that key: the lookup finds
  at most one session, and an update or a deletion by the key reaches at most one.\<close>

theorem unique_key_bounds:
  assumes "auth_inv L n s" and "(nm, [k]) \<in> set (indexes s)" and "auth_reach L n s t"
    and "scalar v" and "v \<noteq> JNull"
  shows "(\<forall>as. get_auth_sessions_by_meta_key L t k v = Inr as \<longrightarrow> length as \<le> 1) \<and>
    (\<forall>m u. upsert_auth_sessions_meta_key_by_meta L t k v l w = (Inr m, u) \<longrightarrow> m \<le> 1) \<and>
    (\<forall>m u. delete_auth_sessions_by_meta_key t k v = (Inr m, u) \<longrightarrow> m \<le> 1)"
proof -
  have "(nm, [k]) \<in> set (indexes t)" using reach_indexes [OF assms(3)] assms(2) by blast
  then have le: "length (filter (meta_holds [(k, v)]) (rows t)) \<le> 1"
    using unique_key_le1 [OF reach_inv [OF assms(3,1)] _ assms(4,5)] by blast
  then show ?thesis
    by (auto simp: get_auth_sessions_by_meta_key_def sql_select_def res_bind_Inr_iff
        upsert_auth_sessions_meta_key_by_meta_def delete_auth_sessions_by_meta_key_def sql_delete_def
        dest!: read_all_length sql_update_length split: option.splits elim!: st_bind_Inr)
qed

text \<open>The containment operator is weaker than equality: an object value selects every session that
  holds an object under the key.\<close>

lemma containment_is_not_equality:
  "meta_holds [(''owner'', empty_object)]
     \<lparr>r_id = 0, r_old_id = 0, r_role = ''admin'', r_created = 0, r_last = 0, r_minted = 0,
      r_meta = Some (JObj [(''owner'', JObj [(''id'', JNum 7)])])\<rparr>"
  by (simp add: meta_holds_def build_object_def empty_object_def)

text \<open>Two keys that differ in case share an index name, so the migration creates the first index only.\<close>

lemma index_names_fold_case: "index_name (safe_name ''userId'') = index_name (safe_name ''userid'')"
  by code_simp

end
