(* ===== verification/Roles.thy ===== *)
theory Roles
  imports Errors
begin

text \<open>
  Roles and their checks: what the macro \<open>construct_checks!\<close> of \<open>auth/token/checks.rs\<close> generates
  for an enum given by its variants and their names, and its default invocation. Role names are
  ASCII, so \<open>to_lowercase\<close> is the ASCII folding.
\<close>

section \<open>What the macro generates\<close>

definition variant_name :: "('u \<times> string) list \<Rightarrow> 'u \<Rightarrow> string" where
  "variant_name vs u = (case map_of vs u of Some n \<Rightarrow> n | None \<Rightarrow> [])"

definition role_display :: "('u \<times> string) list \<Rightarrow> 'u \<Rightarrow> string" where
  "role_display vs u = to_lower (variant_name vs u)"

definition role_try_from :: "('u \<times> string) list \<Rightarrow> string \<Rightarrow> saps_error + 'u" where
  "role_try_from vs value =
     (case find (\<lambda>v. to_lower value = to_lower (snd v)) vs of
        Some v \<Rightarrow> Inr (fst v)
      | None \<Rightarrow> Inl (bad_request (''Unknown role: '' @ value)))"

text \<open>A check struct allows the variants it names; the role is compared by its text.\<close>

definition check_user_role :: "string list \<Rightarrow> ('u \<Rightarrow> string) \<Rightarrow> 'u \<Rightarrow> saps_error + unit" where
  "check_user_role allowed text role =
     (if list_ex (\<lambda>r. to_lower r = to_lower (text role)) allowed then Inr ()
      else Inl \<lparr>err_message = ''Role does not have sufficient permissions'', err_status = Unauthorized\<rparr>)"

section \<open>The default roles\<close>

datatype default_role = SuperAdmin | Admin | Customer

definition default_variants :: "(default_role \<times> string) list" where
  "default_variants =
     [(SuperAdmin, ''SuperAdmin''), (Admin, ''Admin''), (Customer, ''Customer'')]"

datatype default_check = SuperAdminRoleCheck | AdminRoleCheck | CustomerRoleCheck | NoRoleCheck
  | ExactSuperAdminRoleCheck | ExactAdminRoleCheck | ExactCustomerRoleCheck

fun default_allowed :: "default_check \<Rightarrow> default_role list" where
  "default_allowed SuperAdminRoleCheck = [SuperAdmin]"
| "default_allowed AdminRoleCheck = [SuperAdmin, Admin]"
| "default_allowed CustomerRoleCheck = [SuperAdmin, Admin, Customer]"
| "default_allowed NoRoleCheck = [SuperAdmin, Admin, Customer]"
| "default_allowed ExactSuperAdminRoleCheck = [SuperAdmin]"
| "default_allowed ExactAdminRoleCheck = [Admin]"
| "default_allowed ExactCustomerRoleCheck = [Customer]"

definition default_check_user_role :: "default_check \<Rightarrow> default_role \<Rightarrow> saps_error + unit" where
  "default_check_user_role c role =
     check_user_role (map (variant_name default_variants) (default_allowed c))
       (role_display default_variants) role"

section \<open>Properties\<close>

lemma find_mem: "find P xs = Some x \<Longrightarrow> x \<in> set xs \<and> P x"
  by (auto simp: find_Some_iff)

lemma role_names_inj:
  assumes "distinct (map (\<lambda>v. to_lower (snd v)) vs)" and "v \<in> set vs" and "w \<in> set vs"
    and "to_lower (snd v) = to_lower (snd w)"
  shows "v = w"
  using assms by (auto simp: distinct_map dest: inj_onD)

lemma variant_name_mem:
  assumes "distinct (map fst vs)" and "(u, n) \<in> set vs"
  shows "variant_name vs u = n"
  using assms by (simp add: variant_name_def)

lemma role_try_from_name:
  assumes "distinct (map (\<lambda>v. to_lower (snd v)) vs)" and "(u, n) \<in> set vs" and "to_lower value = to_lower n"
  shows "role_try_from vs value = Inr u"
proof (cases "find (\<lambda>v. to_lower value = to_lower (snd v)) vs")
  case None
  with assms show ?thesis by (auto simp: find_None_iff)
next
  case (Some w)
  then have "w \<in> set vs" and "to_lower (snd w) = to_lower n"
    using assms(3) by (auto simp: find_Some_iff)
  then have "w = (u, n)" using role_names_inj [OF assms(1)] assms(2) by auto
  with Some show ?thesis by (simp add: role_try_from_def)
qed

text \<open>For every enum whose variants have names that differ beyond case, the text of a role reads
  back as that role in any letter case, no other text reads as a role, and a check admits exactly
  the variants it names.\<close>

theorem roles_round_trip_and_checks:
  assumes "distinct (map (\<lambda>v. to_lower (snd v)) vs)" and "distinct (map fst vs)" and "(u, n) \<in> set vs"
    and "set allowed \<subseteq> set vs"
  shows "role_try_from vs (role_display vs u) = Inr u \<and>
    (\<forall>t. role_try_from vs t = Inr u \<longleftrightarrow> to_lower t = role_display vs u) \<and>
    (check_user_role (map snd allowed) (role_display vs) u = Inr () \<longleftrightarrow> u \<in> fst ` set allowed)"
proof -
  have disp: "role_display vs u = to_lower n" by (simp add: role_display_def variant_name_mem [OF assms(2,3)])
  have reads: "role_try_from vs t = Inr u \<longleftrightarrow> to_lower t = role_display vs u" for t
  proof
    assume "role_try_from vs t = Inr u"
    then obtain w where "w \<in> set vs" "to_lower t = to_lower (snd w)" "fst w = u"
      by (auto simp: role_try_from_def split: option.splits dest!: find_mem)
    then have "w = (u, n)" using assms(2,3) by (metis eq_key_imp_eq_value prod.collapse)
    with \<open>to_lower t = to_lower (snd w)\<close> show "to_lower t = role_display vs u" by (simp add: disp)
  qed (simp add: disp role_try_from_name [OF assms(1,3)])
  have "(\<exists>v \<in> set allowed. to_lower (snd v) = to_lower n) \<longleftrightarrow> u \<in> fst ` set allowed"
  proof
    assume "\<exists>v \<in> set allowed. to_lower (snd v) = to_lower n"
    then obtain v where v: "v \<in> set allowed" "to_lower (snd v) = to_lower n" by blast
    then have "v = (u, n)" using assms(4) by (intro role_names_inj [OF assms(1) _ assms(3)]) auto
    with v(1) show "u \<in> fst ` set allowed" by force
  next
    assume "u \<in> fst ` set allowed"
    then obtain m where m: "(u, m) \<in> set allowed" by auto
    then have "m = n" using assms(2-4) by (meson eq_key_imp_eq_value subsetD)
    with m show "\<exists>v \<in> set allowed. to_lower (snd v) = to_lower n" by force
  qed
  then have "check_user_role (map snd allowed) (role_display vs) u = Inr () \<longleftrightarrow> u \<in> fst ` set allowed"
    by (simp add: check_user_role_def disp list_ex_iff)
  moreover have "role_try_from vs (role_display vs u) = Inr u" unfolding reads by (simp add: disp)
  ultimately show ?thesis using reads by blast
qed

lemma default_names: "distinct (map (\<lambda>v. to_lower (snd v)) default_variants)"
  by code_simp

lemma roles_round_trip_and_checks_witness:
  "role_try_from default_variants (role_display default_variants Admin) = Inr Admin \<and>
   check_user_role (map snd [(SuperAdmin, ''SuperAdmin''), (Admin, ''Admin'')])
     (role_display default_variants) Customer \<noteq> Inr ()"
  using roles_round_trip_and_checks [of default_variants Admin "''Admin''" "[]"]
    roles_round_trip_and_checks [of default_variants Customer "''Customer''"
      "[(SuperAdmin, ''SuperAdmin''), (Admin, ''Admin'')]"] default_names
  by (simp add: default_variants_def)

end
