(* ===== verification/Config.thy ===== *)
theory Config
  imports Errors
begin

text \<open>
  \<open>config.rs\<close>: where a server gets its variables from. A configuration is a function from names to
  values or an error (the trait \<open>GetConfigVariable\<close>); the module has one over the environment,
  one over constants (\<open>define_static_config!\<close>) and one that reads the environment once into
  cells (\<open>define_env_config!\<close>). The parser of the type asked for is a parameter, but for \<open>i64\<close>.
\<close>

section \<open>Reading variables\<close>

type_synonym config = "string \<Rightarrow> saps_error + string"

definition parse_error :: "string \<Rightarrow> string \<Rightarrow> saps_error" where
  "parse_error variable e = unknown (variable @ '' could not be parsed: '' @ e)"

definition get_config_parsed :: "config \<Rightarrow> (string \<Rightarrow> string + 'a) \<Rightarrow> string \<Rightarrow> saps_error + 'a" where
  "get_config_parsed X parse variable =
     res_bind (X variable) (\<lambda>raw. map_err (parse_error variable) (parse (trim raw)))"

definition get_config_parsed_or ::
    "config \<Rightarrow> (string \<Rightarrow> string + 'a) \<Rightarrow> string \<Rightarrow> 'a \<Rightarrow> saps_error + 'a" where
  "get_config_parsed_or X parse variable dflt =
     (case X variable of
        Inr raw \<Rightarrow> map_err (parse_error variable) (parse (trim raw))
      | Inl _ \<Rightarrow> Inr dflt)"

definition env_config :: "(string \<Rightarrow> string option) \<Rightarrow> config" where
  "env_config env variable = ok_or (unknown (variable @ '' not found in environment'')) (env variable)"

definition static_config :: "(string \<times> string) list \<Rightarrow> config" where
  "static_config kvs variable =
     ok_or (unknown (''key: '' @ variable @ '' was not found'')) (map_of kvs variable)"

definition default_config :: config where
  "default_config = static_config
     [(''FRONTEND_DOMAIN'', ''test_domain''), (''MAILCHIMP_API_KEY'', ''mock_mailchimp_api''),
      (''PRODUCTION'', ''true''), (''RATE_LIMIT_PERIOD_MINUTES'', ''60''), (''RATE_LIMIT'', ''5''),
      (''SECRET_KEY'', ''secret''), (''SERVER_TAG'', ''test_server'')]"

section \<open>Cells initialised from the environment\<close>

text \<open>The \<open>OnceLock\<close> of each declared key. \<open>set\<close> on a full cell changes nothing.\<close>

type_synonym cells = "string \<Rightarrow> string option"

definition once_set :: "cells \<Rightarrow> string \<Rightarrow> string \<Rightarrow> cells" where
  "once_set c k v = (case c k of None \<Rightarrow> c(k \<mapsto> v) | Some _ \<Rightarrow> c)"

fun env_cells_init ::
    "(string \<Rightarrow> string option) \<Rightarrow> string list \<Rightarrow> cells \<Rightarrow> (saps_error + unit) \<times> cells" where
  "env_cells_init env [] c = (Inr (), c)"
| "env_cells_init env (k # ks) c =
     (case env k of
        None \<Rightarrow> (Inl (unknown (k @ '' not found in environment'')), c)
      | Some v \<Rightarrow> env_cells_init env ks (once_set c k v))"

definition env_cells_get :: "string \<Rightarrow> string list \<Rightarrow> cells \<Rightarrow> config" where
  "env_cells_get handle keys c variable =
     (if variable \<in> set keys then
        ok_or (unknown (variable @ '' not initialised '' @ [CHR 0xE2, CHR 0x80, CHR 0x94] @ '' call '' @ handle @ ''::init() first''))
          (c variable)
      else Inl (unknown (''key: '' @ variable @ '' was not found in '' @ handle)))"

section \<open>\<open>str::parse::<i64>\<close>\<close>

definition i64_ok :: "int \<Rightarrow> bool" where
  "i64_ok n \<longleftrightarrow> - (2 ^ 63) \<le> n \<and> n < 2 ^ 63"

text \<open>Digit by digit: the invalid digit is reported before the overflow it comes with.\<close>

fun i64_digits :: "bool \<Rightarrow> int \<Rightarrow> string \<Rightarrow> string + int" where
  "i64_digits neg acc [] = Inr acc"
| "i64_digits neg acc (c # cs) =
     (case digit_value c of
        None \<Rightarrow> Inl ''invalid digit found in string''
      | Some d \<Rightarrow>
          (let n = (if neg then acc * 10 - d else acc * 10 + d)
           in if i64_ok n then i64_digits neg n cs
              else Inl (if neg then ''number too small to fit in target type''
                        else ''number too large to fit in target type'')))"

definition parse_i64 :: "string \<Rightarrow> string + int" where
  "parse_i64 s =
     (case s of
        [] \<Rightarrow> Inl ''cannot parse integer from empty string''
      | c # r \<Rightarrow>
          if c = CHR ''-'' \<or> c = CHR ''+'' then
            (if r = [] then Inl ''invalid digit found in string'' else i64_digits (c = CHR ''-'') 0 r)
          else i64_digits False 0 s)"

lemma i64_digits_ok: "i64_digits neg acc s = Inr n \<Longrightarrow> i64_ok acc \<Longrightarrow> i64_ok n"
  by (induction neg acc s rule: i64_digits.induct) (auto simp: Let_def split: option.splits if_splits)

lemma parse_i64_range: "parse_i64 s = Inr n \<Longrightarrow> i64_ok n"
  by (auto simp: parse_i64_def simp del: i64_digits.simps dest!: i64_digits_ok split: list.splits if_splits)
    (simp_all add: i64_ok_def)

section \<open>Properties\<close>

lemma env_cells_init_spec:
  assumes "env_cells_init env ks c = (Inr (), c')"
  shows "c' k = (case c k of Some v \<Rightarrow> Some v | None \<Rightarrow> if k \<in> set ks then env k else None) \<and>
    (k \<in> set ks \<longrightarrow> env k \<noteq> None)"
  using assms
  by (induction env ks c rule: env_cells_init.induct)
    (auto simp: once_set_def split: option.splits if_splits)

lemma once_set_keep: "c k = Some v \<Longrightarrow> once_set c l w k = Some v"
  by (auto simp: once_set_def split: option.splits)

lemma env_cells_keep: "env_cells_init env ks c = (out, c') \<Longrightarrow> c k = Some v \<Longrightarrow> c' k = Some v"
  by (induction env ks c rule: env_cells_init.induct)
    (auto simp: once_set_keep split: option.splits)

text \<open>After the first successful \<open>init\<close> every declared key has the value the environment had
  then, and no later \<open>init\<close>, with whatever environment and outcome, changes what is read.\<close>

theorem config_reads_the_first_init:
  assumes "env_cells_init env ks (\<lambda>_. None) = (Inr (), c)" and "env_cells_init env' ks c = (out, c')"
    and "k \<in> set ks"
  shows "env_cells_get h ks c' k = env_config env k \<and> is_ok (env_config env k)"
proof -
  have set: "c k = env k" "env k \<noteq> None" using env_cells_init_spec [OF assms(1), of k] assms(3) by auto
  then have "c' k = c k" using env_cells_keep [OF assms(2)] by auto
  with set assms(3) show ?thesis by (auto simp: env_cells_get_def env_config_def)
qed

lemma config_reads_the_first_init_witness:
  "env_cells_get ''Conf'' [''A''] (snd (env_cells_init (\<lambda>_. Some ''2'') [''A''] ((\<lambda>_. None)(''A'' \<mapsto> ''1'')))) ''A''
   = env_config (\<lambda>_. Some ''1'') ''A''"
  using config_reads_the_first_init [of "\<lambda>_. Some ''1''" "[''A'']" "(\<lambda>_. None)(''A'' \<mapsto> ''1'')"
      "\<lambda>_. Some ''2''" "Inr ()" "(\<lambda>_. None)(''A'' \<mapsto> ''1'')" "''A''" "''Conf''"]
  by (simp add: once_set_def)

end
