(* ===== verification/Token.thy ===== *)
theory Token
  imports Auth_Meta Roles Config
begin

text \<open>
  Tokens: finding the JWT of a request (\<open>auth/token/helper_methods\<close>), the claims, the extraction
  flow with its two refresh modes, the \<open>HeaderToken\<close> with its operations on the session it
  names, login, the auth cookie, the response layer, and Basic credentials. The JWT crate, the
  HTTP crate's header values, base64, and the overflow of the date arithmetic are parameters
  (\<open>token_lib\<close>). Times are microseconds; a panic is the outcome \<open>None\<close>.
\<close>

section \<open>Parameters and requests\<close>

record claims =
  c_unique_id :: string
  c_time_expire :: int

record 'u token_lib =
  dal :: "'u auth_lib"
  sqlx_text :: "sqlx_error \<Rightarrow> string"
  jwt_encode :: "string \<Rightarrow> claims \<Rightarrow> string + string"
  jwt_decode :: "string \<Rightarrow> string \<Rightarrow> string + claims"
  plus_minutes :: "int \<Rightarrow> int \<Rightarrow> int option"
  header_to_str :: "string \<Rightarrow> string option"
  header_from_str :: "string \<Rightarrow> string + string"
  base64_decode :: "string \<Rightarrow> string + string"
  utf8_text :: "string \<Rightarrow> string"

type_synonym headers = "(string \<times> string) list"

text \<open>Header names in lower case; \<open>get\<close> is the first value, \<open>insert\<close> replaces all.\<close>

definition hget :: "headers \<Rightarrow> string \<Rightarrow> string option" where
  "hget hs n = map_of hs n"

definition hinsert :: "string \<Rightarrow> string \<Rightarrow> headers \<Rightarrow> headers" where
  "hinsert n v hs = (n, v) # filter (\<lambda>h. fst h \<noteq> n) hs"

text \<open>The parts of a request the flow reads: its headers, and the \<open>CookieSlot\<close> extension when the
  layer \<open>attach_refreshed_cookie\<close> is installed (no code panics while the slot is locked).\<close>

record request =
  hdrs :: headers
  slot :: "string option option"

definition slot_set :: "string \<Rightarrow> request \<Rightarrow> request" where
  "slot_set c q = (case slot q of None \<Rightarrow> q | Some _ \<Rightarrow> q\<lparr>slot := Some (Some c)\<rparr>)"

definition slot_take :: "request \<Rightarrow> string option \<times> request" where
  "slot_take q = (case slot q of None \<Rightarrow> (None, q) | Some c \<Rightarrow> (c, q\<lparr>slot := Some None\<rparr>))"

section \<open>Finding the token\<close>

abbreviation auth_token_cookie_key :: string where "auth_token_cookie_key \<equiv> ''saps-token''"

fun filter_some :: "('a \<Rightarrow> 'b option) \<Rightarrow> 'a list \<Rightarrow> 'b list" where
  "filter_some f [] = []"
| "filter_some f (x # xs) = (case f x of None \<Rightarrow> filter_some f xs | Some y \<Rightarrow> y # filter_some f xs)"

definition parse_cookie_value :: "string \<Rightarrow> string \<Rightarrow> string option" where
  "parse_cookie_value cookies target =
     map_option (\<lambda>c. trim (snd c))
       (find (\<lambda>c. trim (fst c) = target)
         (filter_some (\<lambda>c. split_once (CHR ''='') (trim c)) (split_on (CHR '';'') cookies)))"

definition extract_token_from_cookies :: "'u token_lib \<Rightarrow> headers \<Rightarrow> saps_error + string option" where
  "extract_token_from_cookies T hs =
     (case hget hs ''cookie'' of
        None \<Rightarrow> Inr None
      | Some raw \<Rightarrow> res_bind (ok_or (unauthorized ''Invalid cookie format'') (header_to_str T raw))
          (\<lambda>s. Inr (parse_cookie_value s auth_token_cookie_key)))"

definition extract_token_from_header :: "'u token_lib \<Rightarrow> headers \<Rightarrow> saps_error + string option" where
  "extract_token_from_header T hs =
     (case hget hs ''token'' of
        None \<Rightarrow> Inr None
      | Some raw \<Rightarrow> res_bind (ok_or (unauthorized ''token not a valid string'') (header_to_str T raw))
          (\<lambda>s. Inr (Some s)))"

fun split_space :: "string \<Rightarrow> string list" where
  "split_space [] = [[]]"
| "split_space (c # cs) =
     (if is_space c then [] # split_space cs
      else (case split_space cs of [] \<Rightarrow> [[c]] | p # ps \<Rightarrow> (c # p) # ps))"

definition split_whitespace :: "string \<Rightarrow> string list" where
  "split_whitespace s = filter (\<lambda>p. p \<noteq> []) (split_space s)"

definition eq_ignore_case :: "string \<Rightarrow> string \<Rightarrow> bool" where
  "eq_ignore_case a b \<longleftrightarrow> to_lower a = to_lower b"

definition subprotocol_token :: "string \<Rightarrow> string option" where
  "subprotocol_token s =
     (case split_once (CHR '','') s of
        None \<Rightarrow> None
      | Some (p1, p2) \<Rightarrow>
          if eq_ignore_case (trim p1) ''bearer'' \<and> trim p2 \<noteq> [] then Some (trim p2) else None)"

definition authorization_token :: "'u token_lib \<Rightarrow> headers \<Rightarrow> saps_error + string" where
  "authorization_token T hs =
     res_bind (ok_or (unauthorized ''Missing Authorization header'') (hget hs ''authorization'')) (\<lambda>raw.
     res_bind (ok_or (unauthorized ''Invalid Authorization header'') (header_to_str T raw)) (\<lambda>s.
       let parts = split_whitespace s;
           scheme = (case parts of p # _ \<Rightarrow> p | [] \<Rightarrow> []);
           token = (case parts of _ # p # _ \<Rightarrow> p | _ \<Rightarrow> [])
       in if \<not> eq_ignore_case scheme ''bearer'' \<or> token = []
          then Inl (unauthorized (''Expected '' @ [quote] @ ''Bearer <token>'' @ [quote]))
          else Inr token))"

definition extract_bearer_token :: "'u token_lib \<Rightarrow> headers \<Rightarrow> saps_error + string" where
  "extract_bearer_token T hs =
     (case hget hs ''sec-websocket-protocol'' of
        None \<Rightarrow> authorization_token T hs
      | Some raw \<Rightarrow>
          res_bind (ok_or (unauthorized ''Invalid Sec-WebSocket-Protocol header'') (header_to_str T raw))
            (\<lambda>s. case subprotocol_token s of Some jwt \<Rightarrow> Inr jwt | None \<Rightarrow> authorization_token T hs))"

text \<open>Cookie first, then the \<open>token\<close> header, then bearer.\<close>

definition locate_token :: "'u token_lib \<Rightarrow> headers \<Rightarrow> saps_error + string" where
  "locate_token T hs =
     res_bind (extract_token_from_cookies T hs) (\<lambda>c. case c of
       Some token \<Rightarrow> Inr token
     | None \<Rightarrow> res_bind (extract_token_from_header T hs) (\<lambda>h. case h of
         Some token \<Rightarrow> Inr token
       | None \<Rightarrow> extract_bearer_token T hs))"

section \<open>Claims\<close>

definition claims_encode :: "'u token_lib \<Rightarrow> config \<Rightarrow> claims \<Rightarrow> saps_error + string" where
  "claims_encode T X c = res_bind (X ''SECRET_KEY'') (\<lambda>k. map_err unauthorized (jwt_encode T k c))"

definition claims_decode :: "'u token_lib \<Rightarrow> config \<Rightarrow> string \<Rightarrow> saps_error + claims" where
  "claims_decode T X t = res_bind (X ''SECRET_KEY'') (\<lambda>k. map_err unauthorized (jwt_decode T k t))"

section \<open>The auth cookie\<close>

definition yield_cookie_string :: "string \<Rightarrow> string" where
  "yield_cookie_string token =
     auth_token_cookie_key @ ''='' @ token @ ''; HttpOnly; Path=/; Max-Age=86400''"

definition add_to_headers :: "'u token_lib \<Rightarrow> string \<Rightarrow> headers \<Rightarrow> saps_error + headers" where
  "add_to_headers T token hs =
     res_bind (map_err unknown (header_from_str T (yield_cookie_string token)))
       (\<lambda>v. Inr (hinsert ''set-cookie'' v hs))"

definition generate_header :: "'u token_lib \<Rightarrow> string \<Rightarrow> saps_error + headers" where
  "generate_header T token = add_to_headers T token []"

definition wipe_from_cookies :: "'u token_lib \<Rightarrow> saps_error + headers" where
  "wipe_from_cookies T =
     res_bind (map_err unknown (header_from_str T
         (auth_token_cookie_key @ ''=; HttpOnly; Path=/; Max-Age=0'')))
       (\<lambda>v. Inr (hinsert ''set-cookie'' v []))"

section \<open>The extraction flow\<close>

datatype refresh_mode = Auto | Never

record 'u raw_extraction =
  x_session :: "'u auth_session"
  x_unique_id :: string
  x_time_expire :: int
  x_old_uuid :: "string option"

type_synonym ('a, 's) outcome = "(saps_error + 'a) option \<times> 's"

definition succeed :: "'a \<Rightarrow> 's \<Rightarrow> ('a, 's) outcome" where
  "succeed a s = (Some (Inr a), s)"

definition fail :: "saps_error \<Rightarrow> 's \<Rightarrow> ('a, 's) outcome" where
  "fail e s = (Some (Inl e), s)"

text \<open>\<open>TOKEN_EXPIRE_MINS\<close> from now: the sum may panic.\<close>

definition expire_minutes :: "config \<Rightarrow> saps_error + int" where
  "expire_minutes X = res_bind (X ''TOKEN_EXPIRE_MINS'') (\<lambda>t. map_err unknown (parse_i64 t))"

definition rotate_token ::
    "'u token_lib \<Rightarrow> config \<Rightarrow> claims \<Rightarrow> 'u auth_session \<Rightarrow> auth_db \<Rightarrow> request
     \<Rightarrow> ('u raw_extraction, auth_db \<times> request) outcome" where
  "rotate_token T X c a s q =
     (case expire_minutes X of
        Inl e \<Rightarrow> fail e (s, q)
      | Inr m \<Rightarrow>
          (case plus_minutes T (clock s) m of
             None \<Rightarrow> (None, s, q)
           | Some te \<Rightarrow>
               let new_id = uuid_text (dal T) (s_id a) in
               (case claims_encode T X \<lparr>c_unique_id = new_id, c_time_expire = te\<rparr> of
                  Inl e \<Rightarrow> fail e (s, q)
                | Inr jwt \<Rightarrow> succeed \<lparr>x_session = a, x_unique_id = new_id, x_time_expire = te,
                                   x_old_uuid = Some (c_unique_id c)\<rparr>
                               (s, slot_set (yield_cookie_string jwt) q))))"

definition run_auth_extraction ::
    "'u token_lib \<Rightarrow> config \<Rightarrow> auth_db \<Rightarrow> request \<Rightarrow> refresh_mode
     \<Rightarrow> ('u raw_extraction, auth_db \<times> request) outcome" where
  "run_auth_extraction T X s q mode =
     (case res_bind (locate_token T (hdrs q)) (claims_decode T X) of
        Inl e \<Rightarrow> fail e (s, q)
      | Inr c \<Rightarrow>
          if mode = Never then
            (if c_time_expire c < clock s then fail (forbidden ''Token has expired'') (s, q)
             else case get_auth_session (dal T) s (c_unique_id c) of
                 Inl e \<Rightarrow> fail (from_sqlx (sqlx_text T) e) (s, q)
               | Inr None \<Rightarrow> fail (unauthorized ''session not present'') (s, q)
               | Inr (Some a) \<Rightarrow> succeed \<lparr>x_session = a, x_unique_id = c_unique_id c,
                     x_time_expire = c_time_expire c, x_old_uuid = None\<rparr> (s, q))
          else
            (case ping_auth_session (dal T) s 10 (c_unique_id c) of
               (Inl e, s) \<Rightarrow> fail (from_sqlx (sqlx_text T) e) (s, q)
             | (Inr None, s) \<Rightarrow> fail (unauthorized ''session not present'') (s, q)
             | (Inr (Some a), s) \<Rightarrow>
                 if uuid_text (dal T) (s_id a) \<noteq> c_unique_id c then rotate_token T X c a s q
                 else succeed \<lparr>x_session = a, x_unique_id = c_unique_id c,
                       x_time_expire = c_time_expire c, x_old_uuid = None\<rparr> (s, q)))"

section \<open>The response layer\<close>

record response =
  resp_status :: nat
  resp_headers :: headers
  resp_body :: json

text \<open>\<open>next\<close> is the rest of the stack: it may set the slot of the request it is given.\<close>

definition attach_refreshed_cookie ::
    "'u token_lib \<Rightarrow> (request \<Rightarrow> 's \<Rightarrow> response \<times> request \<times> 's) \<Rightarrow> request \<Rightarrow> 's \<Rightarrow> response \<times> 's" where
  "attach_refreshed_cookie T next_run req s =
     (case next_run (req\<lparr>slot := Some None\<rparr>) s of
        (resp, req', s') \<Rightarrow>
          (case fst (slot_take req') of
             None \<Rightarrow> (resp, s')
           | Some cookie \<Rightarrow>
               (case header_from_str T cookie of
                  Inr v \<Rightarrow> (resp\<lparr>resp_headers := hinsert ''set-cookie'' v (resp_headers resp)\<rparr>, s')
                | Inl _ \<Rightarrow> (resp, s'))))"

section \<open>Basic credentials\<close>

record credentials =
  email :: string
  password :: string

definition cont_byte :: "nat \<Rightarrow> bool" where
  "cont_byte n \<longleftrightarrow> 128 \<le> n \<and> n < 192"

text \<open>Well-formed UTF-8, as \<open>String::from_utf8\<close> checks it.\<close>

fun utf8_valid :: "nat list \<Rightarrow> bool" where
  "utf8_valid [] = True"
| "utf8_valid (a # bs) =
     (if a < 128 then utf8_valid bs
      else (case bs of
          [] \<Rightarrow> False
        | b # cs \<Rightarrow>
            if 194 \<le> a \<and> a < 224 then cont_byte b \<and> utf8_valid cs
            else (case cs of
                [] \<Rightarrow> False
              | c # ds \<Rightarrow>
                  if 224 \<le> a \<and> a < 240 then
                    cont_byte b \<and> cont_byte c \<and> (a = 224 \<longrightarrow> 160 \<le> b) \<and> (a = 237 \<longrightarrow> b < 160) \<and> utf8_valid ds
                  else (case ds of
                      [] \<Rightarrow> False
                    | d # es \<Rightarrow>
                        240 \<le> a \<and> a < 245 \<and> cont_byte b \<and> cont_byte c \<and> cont_byte d \<and>
                        (a = 240 \<longrightarrow> 144 \<le> b) \<and> (a = 244 \<longrightarrow> b < 144) \<and> utf8_valid es))))"

definition from_utf8 :: "'u token_lib \<Rightarrow> string \<Rightarrow> string + string" where
  "from_utf8 T bytes = (if utf8_valid (map of_char bytes) then Inr bytes else Inl (utf8_text T bytes))"

definition extract_credentials :: "'u token_lib \<Rightarrow> headers \<Rightarrow> saps_error + credentials" where
  "extract_credentials T hs =
     res_bind (ok_or (unauthorized ''No credentials provided'') (hget hs ''authorization'')) (\<lambda>raw.
     res_bind (ok_or (unauthorized ''Invalid credentials'') (header_to_str T raw)) (\<lambda>encoded.
       if take 6 encoded \<noteq> ''Basic '' then Inl (unauthorized ''Invalid credentials'')
       else
         res_bind (map_err unauthorized (base64_decode T (drop 6 encoded))) (\<lambda>decoded.
         res_bind (map_err unauthorized (from_utf8 T decoded)) (\<lambda>text.
           case split_once (CHR '':'') text of
             Some (e, p) \<Rightarrow>
               if e = [] \<or> p = [] then Inl (unauthorized ''Invalid credentials'')
               else Inr \<lparr>email = e, password = p\<rparr>
           | None \<Rightarrow> Inl (unauthorized ''Invalid credentials'')))))"

end
