(* ===== verification/Header_Token.thy ===== *)
theory Header_Token
  imports Token
begin

text \<open>
  \<open>auth/token/header_token.rs\<close> and \<open>auth/token/login.rs\<close>: the token a handler receives, its
  operations on the session it names, the extractor with its role check, and login.
\<close>

section \<open>The token\<close>

record 'u header_token =
  h_unique_id :: string
  h_time_expire :: int
  h_session :: "'u auth_session option"
  h_old_uuid :: "string option"

text \<open>\<open>HeaderToken::new\<close>: the UUID is drawn once the configuration has been read.\<close>

definition token_new :: "'u token_lib \<Rightarrow> config \<Rightarrow> auth_db \<Rightarrow> ('u header_token, auth_db) outcome" where
  "token_new T X s =
     (case expire_minutes X of
        Inl e \<Rightarrow> fail e s
      | Inr m \<Rightarrow>
          (case draw s of (i, s') \<Rightarrow>
             (case plus_minutes T (clock s) m of
                None \<Rightarrow> (None, s')
              | Some te \<Rightarrow> succeed \<lparr>h_unique_id = uuid_text (dal T) i, h_time_expire = te,
                                   h_session = None, h_old_uuid = None\<rparr> s')))"

definition set_uuid :: "'u token_lib \<Rightarrow> uuid \<Rightarrow> 'u header_token \<Rightarrow> 'u header_token" where
  "set_uuid T i h = h\<lparr>h_unique_id := uuid_text (dal T) i\<rparr>"

definition check_if_expired :: "int \<Rightarrow> 'u header_token \<Rightarrow> saps_error + unit" where
  "check_if_expired now h =
     (if h_time_expire h < now then Inl (unauthorized ''Token has expired'') else Inr ())"

definition token_session :: "'u header_token \<Rightarrow> saps_error + 'u auth_session" where
  "token_session h = ok_or (bad_request ''auth session not present on token'') (h_session h)"

definition get_meta :: "'u header_token \<Rightarrow> saps_error + json" where
  "get_meta h = res_bind (token_session h) (\<lambda>a. ok_or (bad_request ''session meta not present'') (s_meta a))"

definition token_encode :: "'u token_lib \<Rightarrow> config \<Rightarrow> 'u header_token \<Rightarrow> saps_error + string" where
  "token_encode T X h = claims_encode T X \<lparr>c_unique_id = h_unique_id h, c_time_expire = h_time_expire h\<rparr>"

definition token_decode :: "'u token_lib \<Rightarrow> config \<Rightarrow> string \<Rightarrow> saps_error + 'u header_token" where
  "token_decode T X t = res_bind (claims_decode T X t) (\<lambda>c.
     Inr \<lparr>h_unique_id = c_unique_id c, h_time_expire = c_time_expire c, h_session = None, h_old_uuid = None\<rparr>)"

section \<open>Operations on the session\<close>

text \<open>\<open>?\<close> on the result of a transaction.\<close>

definition db :: "'u token_lib \<Rightarrow> (sqlx_error + 'a) \<times> auth_db \<Rightarrow> (saps_error + 'a) \<times> auth_db" where
  "db T q = (map_err (from_sqlx (sqlx_text T)) (fst q), snd q)"

definition token_delete_auth_session ::
    "'u token_lib \<Rightarrow> auth_db \<Rightarrow> 'u header_token \<Rightarrow> (saps_error + bool) \<times> auth_db" where
  "token_delete_auth_session T s h =
     (case uuid_parse (dal T) (h_unique_id h) of
        Inl e \<Rightarrow> (Inl (unknown e), s)
      | Inr p \<Rightarrow> db T (delete_auth_session s p))"

definition token_update_auth_session_meta ::
    "'u token_lib \<Rightarrow> auth_db \<Rightarrow> 'u header_token \<Rightarrow> json
     \<Rightarrow> (saps_error + unit) \<times> auth_db \<times> 'u header_token" where
  "token_update_auth_session_meta T s h m =
     (case db T (update_auth_session_meta (dal T) s (h_unique_id h) m) of
        (Inl e, s') \<Rightarrow> (Inl e, s', h)
      | (Inr _, s') \<Rightarrow> (Inr (), s', h\<lparr>h_session := map_option (\<lambda>a. a\<lparr>s_meta := Some m\<rparr>) (h_session h)\<rparr>))"

text \<open>A returned session replaces the cached one; no session leaves it.\<close>

definition cache_session :: "'u auth_session option \<Rightarrow> 'u header_token \<Rightarrow> 'u header_token" where
  "cache_session x h = (case x of Some a \<Rightarrow> h\<lparr>h_session := Some a\<rparr> | None \<Rightarrow> h)"

definition token_upsert_auth_session_meta_key ::
    "'u token_lib \<Rightarrow> auth_db \<Rightarrow> 'u header_token \<Rightarrow> string \<Rightarrow> json
     \<Rightarrow> (saps_error + unit) \<times> auth_db \<times> 'u header_token" where
  "token_upsert_auth_session_meta_key T s h k v =
     (case db T (upsert_auth_session_meta_key (dal T) s (h_unique_id h) k v) of
        (Inl e, s') \<Rightarrow> (Inl e, s', h)
      | (Inr x, s') \<Rightarrow> (Inr (), s', cache_session x h))"

definition token_upsert_by_meta_key_pair ::
    "'u token_lib \<Rightarrow> auth_db \<Rightarrow> string \<Rightarrow> json \<Rightarrow> string \<Rightarrow> json \<Rightarrow> string \<Rightarrow> json
     \<Rightarrow> (saps_error + nat) \<times> auth_db" where
  "token_upsert_by_meta_key_pair T s k1 v1 k2 v2 k v =
     db T (upsert_auth_sessions_meta_key_by_meta_key_pair (dal T) s k1 v1 k2 v2 k v)"

definition token_delete_auth_session_meta_key ::
    "'u token_lib \<Rightarrow> auth_db \<Rightarrow> 'u header_token \<Rightarrow> string
     \<Rightarrow> (saps_error + unit) \<times> auth_db \<times> 'u header_token" where
  "token_delete_auth_session_meta_key T s h k =
     (case db T (delete_auth_session_meta_key (dal T) s (h_unique_id h) k) of
        (Inl e, s') \<Rightarrow> (Inl e, s', h)
      | (Inr x, s') \<Rightarrow> (Inr (), s', cache_session x h))"

definition token_compare_and_swap_auth_session_meta ::
    "'u token_lib \<Rightarrow> auth_db \<Rightarrow> 'u header_token \<Rightarrow> string \<Rightarrow> json \<Rightarrow> json
     \<Rightarrow> (saps_error + bool) \<times> auth_db \<times> 'u header_token" where
  "token_compare_and_swap_auth_session_meta T s h k expected new =
     (case db T (compare_and_swap_auth_session_meta (dal T) s (h_unique_id h) k expected new) of
        (Inl e, s') \<Rightarrow> (Inl e, s', h)
      | (Inr x, s') \<Rightarrow> (Inr (x \<noteq> None), s', cache_session x h))"

definition token_refresh_auth_session ::
    "'u token_lib \<Rightarrow> auth_db \<Rightarrow> 'u header_token \<Rightarrow> (saps_error + 'u auth_session) \<times> 'u header_token" where
  "token_refresh_auth_session T s h =
     (case map_err (from_sqlx (sqlx_text T)) (get_auth_session_strict (dal T) s (h_unique_id h)) of
        Inl e \<Rightarrow> (Inl e, h)
      | Inr a \<Rightarrow> (let h' = h\<lparr>h_session := Some a\<rparr> in (token_session h', h')))"

section \<open>Reading keys of the cached session\<close>

definition meta_get_local :: "'u header_token \<Rightarrow> string \<Rightarrow> saps_error + json option" where
  "meta_get_local h k = res_bind (token_session h) (\<lambda>a. Inr (meta_get a k))"

definition meta_get_owned_local :: "'u header_token \<Rightarrow> string \<Rightarrow> saps_error + json option" where
  "meta_get_owned_local h k = res_bind (token_session h) (\<lambda>a. Inr (meta_get_owned a k))"

definition meta_get_strict_local :: "'u header_token \<Rightarrow> string \<Rightarrow> saps_error + json" where
  "meta_get_strict_local h k = res_bind (token_session h) (\<lambda>a. meta_get_strict a k)"

definition meta_get_strict_owned_local :: "'u header_token \<Rightarrow> string \<Rightarrow> saps_error + json" where
  "meta_get_strict_owned_local h k = res_bind (token_session h) (\<lambda>a. meta_get_strict_owned a k)"

definition meta_get_typed_local ::
    "(json \<Rightarrow> string + 'a) \<Rightarrow> 'u header_token \<Rightarrow> string \<Rightarrow> saps_error + 'a option" where
  "meta_get_typed_local de h k = res_bind (token_session h) (\<lambda>a. meta_get_typed de a k)"

definition meta_get_typed_owned_local ::
    "(json \<Rightarrow> string + 'a) \<Rightarrow> 'u header_token \<Rightarrow> string \<Rightarrow> saps_error + 'a option" where
  "meta_get_typed_owned_local de h k = res_bind (token_session h) (\<lambda>a. meta_get_typed_owned de a k)"

definition meta_get_typed_strict_local ::
    "(json \<Rightarrow> string + 'a) \<Rightarrow> 'u header_token \<Rightarrow> string \<Rightarrow> saps_error + 'a" where
  "meta_get_typed_strict_local de h k = res_bind (token_session h) (\<lambda>a. meta_get_typed_strict de a k)"

definition meta_get_typed_strict_owned_local ::
    "(json \<Rightarrow> string + 'a) \<Rightarrow> 'u header_token \<Rightarrow> string \<Rightarrow> saps_error + 'a" where
  "meta_get_typed_strict_owned_local de h k =
     res_bind (token_session h) (\<lambda>a. meta_get_typed_strict_owned de a k)"

text \<open>The refreshing readers: load the row, cache it, then read locally.\<close>

definition after_refresh ::
    "'u token_lib \<Rightarrow> auth_db \<Rightarrow> 'u header_token \<Rightarrow> ('u header_token \<Rightarrow> saps_error + 'a)
     \<Rightarrow> (saps_error + 'a) \<times> 'u header_token" where
  "after_refresh T s h f =
     (case map_err (from_sqlx (sqlx_text T)) (get_auth_session_strict (dal T) s (h_unique_id h)) of
        Inl e \<Rightarrow> (Inl e, h)
      | Inr a \<Rightarrow> (let h' = h\<lparr>h_session := Some a\<rparr> in (f h', h')))"

definition token_meta_get ::
    "'u token_lib \<Rightarrow> auth_db \<Rightarrow> 'u header_token \<Rightarrow> string \<Rightarrow> (saps_error + json option) \<times> 'u header_token" where
  "token_meta_get T s h k = after_refresh T s h (\<lambda>h. meta_get_local h k)"

definition token_meta_get_owned ::
    "'u token_lib \<Rightarrow> auth_db \<Rightarrow> 'u header_token \<Rightarrow> string \<Rightarrow> (saps_error + json option) \<times> 'u header_token" where
  "token_meta_get_owned T s h k = after_refresh T s h (\<lambda>h. meta_get_owned_local h k)"

definition token_meta_get_strict ::
    "'u token_lib \<Rightarrow> auth_db \<Rightarrow> 'u header_token \<Rightarrow> string \<Rightarrow> (saps_error + json) \<times> 'u header_token" where
  "token_meta_get_strict T s h k = after_refresh T s h (\<lambda>h. meta_get_strict_local h k)"

definition token_meta_get_strict_owned ::
    "'u token_lib \<Rightarrow> auth_db \<Rightarrow> 'u header_token \<Rightarrow> string \<Rightarrow> (saps_error + json) \<times> 'u header_token" where
  "token_meta_get_strict_owned T s h k = after_refresh T s h (\<lambda>h. meta_get_strict_owned_local h k)"

definition token_meta_get_typed ::
    "(json \<Rightarrow> string + 'a) \<Rightarrow> 'u token_lib \<Rightarrow> auth_db \<Rightarrow> 'u header_token \<Rightarrow> string
     \<Rightarrow> (saps_error + 'a option) \<times> 'u header_token" where
  "token_meta_get_typed de T s h k = after_refresh T s h (\<lambda>h. meta_get_typed_local de h k)"

definition token_meta_get_typed_owned ::
    "(json \<Rightarrow> string + 'a) \<Rightarrow> 'u token_lib \<Rightarrow> auth_db \<Rightarrow> 'u header_token \<Rightarrow> string
     \<Rightarrow> (saps_error + 'a option) \<times> 'u header_token" where
  "token_meta_get_typed_owned de T s h k = after_refresh T s h (\<lambda>h. meta_get_typed_owned_local de h k)"

definition token_meta_get_typed_strict ::
    "(json \<Rightarrow> string + 'a) \<Rightarrow> 'u token_lib \<Rightarrow> auth_db \<Rightarrow> 'u header_token \<Rightarrow> string
     \<Rightarrow> (saps_error + 'a) \<times> 'u header_token" where
  "token_meta_get_typed_strict de T s h k = after_refresh T s h (\<lambda>h. meta_get_typed_strict_local de h k)"

definition token_meta_get_typed_strict_owned ::
    "(json \<Rightarrow> string + 'a) \<Rightarrow> 'u token_lib \<Rightarrow> auth_db \<Rightarrow> 'u header_token \<Rightarrow> string
     \<Rightarrow> (saps_error + 'a) \<times> 'u header_token" where
  "token_meta_get_typed_strict_owned de T s h k =
     after_refresh T s h (\<lambda>h. meta_get_typed_strict_owned_local de h k)"

section \<open>The extractor\<close>

text \<open>\<open>from_request_parts\<close>; \<open>check\<close> is the role check \<open>Y\<close>, \<open>mode\<close> the refresh policy \<open>M\<close>.\<close>

definition from_request_parts ::
    "'u token_lib \<Rightarrow> config \<Rightarrow> ('u \<Rightarrow> saps_error + unit) \<Rightarrow> refresh_mode \<Rightarrow> auth_db \<Rightarrow> request
     \<Rightarrow> ('u header_token, auth_db \<times> request) outcome" where
  "from_request_parts T X check mode s q =
     (case run_auth_extraction T X s q mode of
        (None, w) \<Rightarrow> (None, w)
      | (Some (Inl e), w) \<Rightarrow> fail e w
      | (Some (Inr x), w) \<Rightarrow>
          (case check (s_role (x_session x)) of
             Inl e \<Rightarrow> fail e w
           | Inr _ \<Rightarrow> succeed \<lparr>h_unique_id = x_unique_id x, h_time_expire = x_time_expire x,
                 h_session = Some (x_session x), h_old_uuid = x_old_uuid x\<rparr> w))"

section \<open>Login\<close>

record login_response =
  l_token :: string
  l_unique_id :: string

text \<open>\<open>meta\<close> is the outcome of serialising the metadata, when there is any.\<close>

definition login_session ::
    "'u token_lib \<Rightarrow> 'u header_token \<Rightarrow> auth_db \<Rightarrow> 'u \<Rightarrow> (string + json) option
     \<Rightarrow> ('u auth_session, auth_db) outcome" where
  "login_session T h s role meta =
     (case session_new s role of (a, s') \<Rightarrow>
       (case uuid_parse (dal T) (h_unique_id h) of
          Inl e \<Rightarrow> fail (unknown e) s'
        | Inr p \<Rightarrow>
            (case meta of
               None \<Rightarrow> succeed (a\<lparr>s_id := p\<rparr>) s'
             | Some m \<Rightarrow> (case with_meta (a\<lparr>s_id := p\<rparr>) m of
                   None \<Rightarrow> (None, s')
                 | Some b \<Rightarrow> succeed b s'))))"

definition login_finish ::
    "'u token_lib \<Rightarrow> config \<Rightarrow> 'u header_token \<Rightarrow> auth_db \<Rightarrow> (nat \<times> headers \<times> login_response, auth_db) outcome" where
  "login_finish T X h s =
     (case token_encode T X h of
        Inl e \<Rightarrow> fail e s
      | Inr jwt \<Rightarrow>
          (case map_err unknown (header_from_str T (yield_cookie_string jwt)) of
             Inl e \<Rightarrow> fail e s
           | Inr v \<Rightarrow> succeed (200, hinsert ''set-cookie'' v [],
                 \<lparr>l_token = jwt, l_unique_id = h_unique_id h\<rparr>) s))"

definition login ::
    "'u token_lib \<Rightarrow> config \<Rightarrow> auth_db \<Rightarrow> 'u \<Rightarrow> (string + json) option
     \<Rightarrow> (nat \<times> headers \<times> login_response, auth_db) outcome" where
  "login T X s role meta =
     (case token_new T X s of
        (None, s) \<Rightarrow> (None, s)
      | (Some (Inl e), s) \<Rightarrow> fail e s
      | (Some (Inr h), s) \<Rightarrow>
          (case login_session T h s role meta of
             (None, s) \<Rightarrow> (None, s)
           | (Some (Inl e), s) \<Rightarrow> fail e s
           | (Some (Inr a), s) \<Rightarrow>
               (case db T (create_auth_session (dal T) s a) of
                  (Inl e, s) \<Rightarrow> fail e s
                | (Inr _, s) \<Rightarrow> login_finish T X h s)))"

end
