(* ===== verification/Auth_Flow.thy ===== *)
theory Auth_Flow
  imports Header_Token
begin

text \<open>
  The flow from login to an authenticated request: the cookie a login sets is found again among
  other cookies, authenticates its session, is replaced when the session rotates, and nothing
  else authenticates. The behaviour of the crates the flow relies on is \<open>token_laws\<close>;
  \<open>demo_lib\<close> satisfies it.
\<close>

section \<open>What the flow relies on\<close>

definition token_char :: "char \<Rightarrow> bool" where
  "token_char c \<longleftrightarrow> is_alnum c \<or> c = CHR ''-'' \<or> c = CHR ''_'' \<or> c = CHR ''.''"

definition visible :: "char \<Rightarrow> bool" where
  "visible c \<longleftrightarrow> 32 \<le> (of_char c :: nat) \<and> (of_char c :: nat) < 127"

definition token_laws :: "'u token_lib \<Rightarrow> bool" where
  "token_laws T \<longleftrightarrow>
     (\<forall>u. uuid_parse (dal T) (uuid_text (dal T) u) = Inr u) \<and>
     (\<forall>r. role_parse (dal T) (role_text (dal T) r) = Inr r) \<and>
     (\<forall>k c t. jwt_encode T k c = Inr t \<longrightarrow> jwt_decode T k t = Inr c \<and> t \<noteq> [] \<and> list_all token_char t) \<and>
     (\<forall>h. list_all visible h \<longrightarrow> header_to_str T h = Some h \<and> header_from_str T h = Inr h)"

lemma token_char_visible: "token_char c \<Longrightarrow> visible c \<and> \<not> is_space c \<and> c \<noteq> CHR '';'' \<and> c \<noteq> CHR ''=''"
  by (auto simp: token_char_def visible_def is_alnum_def is_space_def Let_def)

section \<open>Cookies\<close>

text \<open>The header a browser sends: \<open>name=value\<close> pairs separated by a semicolon and a space.\<close>

definition cookie_pair :: "string \<times> string \<Rightarrow> string" where
  "cookie_pair c = fst c @ ''='' @ snd c"

fun cookie_header :: "(string \<times> string) list \<Rightarrow> string" where
  "cookie_header [] = []"
| "cookie_header [c] = cookie_pair c"
| "cookie_header (c # d # cs) = cookie_pair c @ ''; '' @ cookie_header (d # cs)"

definition trimmed :: "string \<Rightarrow> bool" where
  "trimmed s \<longleftrightarrow> s = [] \<or> \<not> is_space (hd s) \<and> \<not> is_space (last s)"

definition cookie_ok :: "string \<times> string \<Rightarrow> bool" where
  "cookie_ok c \<longleftrightarrow> fst c \<noteq> [] \<and> trimmed (fst c) \<and> trimmed (snd c) \<and>
     CHR ''='' \<notin> set (fst c) \<and> CHR '';'' \<notin> set (fst c) \<and> CHR '';'' \<notin> set (snd c)"

lemma trimmed_trim: "trimmed s \<Longrightarrow> trim s = s"
  unfolding trimmed_def by (rule trim_no_space)

lemma trim_space_front: "trim (CHR '' '' # s) = trim s"
  by (simp add: trim_def is_space_def)

lemma cookie_pair_trim: "cookie_ok c \<Longrightarrow> trim (cookie_pair c) = cookie_pair c"
  by (intro trimmed_trim) (auto simp: cookie_ok_def trimmed_def cookie_pair_def is_space_def)

lemma cookie_pair_split: "cookie_ok c \<Longrightarrow> split_once (CHR ''='') (trim (cookie_pair c)) = Some c"
  by (simp add: cookie_pair_trim) (simp add: cookie_pair_def cookie_ok_def split_once_appendI)

definition cookie_pieces :: "string \<Rightarrow> (string \<times> string) list" where
  "cookie_pieces h = filter_some (\<lambda>c. split_once (CHR ''='') (trim c)) (split_on (CHR '';'') h)"

lemma cookie_pieces_space: "cookie_pieces (CHR '' '' # h) = cookie_pieces h"
  by (cases "split_on (CHR '';'') h") (simp_all add: cookie_pieces_def trim_space_front)

lemma cookie_pieces_header:
  "list_all cookie_ok cs \<Longrightarrow> cs \<noteq> [] \<Longrightarrow> cookie_pieces (cookie_header cs) = cs"
proof (induction cs rule: cookie_header.induct)
  case (2 c)
  then have "split_on (CHR '';'') (cookie_pair c) = [cookie_pair c]"
    by (intro split_on_free) (auto simp: cookie_ok_def cookie_pair_def)
  with 2 show ?case by (simp add: cookie_pieces_def cookie_pair_split)
next
  case (3 c d cs)
  then have "split_on (CHR '';'') (cookie_pair c) = [cookie_pair c]"
    by (intro split_on_free) (auto simp: cookie_ok_def cookie_pair_def)
  then have "cookie_pieces (cookie_pair c @ CHR '';'' # h) = c # cookie_pieces h" for h
    using 3 by (simp add: cookie_pieces_def split_on_append cookie_pair_split)
  then show ?case using 3 by (simp add: cookie_pieces_space)
qed simp

lemma parse_cookie_header:
  assumes "list_all cookie_ok cs" and "cs \<noteq> []" and "map_of cs k = Some v"
  shows "parse_cookie_value (cookie_header cs) k = Some v"
proof -
  have "find (\<lambda>c. trim (fst c) = k) cs = Some (k, v)"
    using assms(1,3)
    by (induction cs) (auto simp: cookie_ok_def trimmed_trim split: if_splits)
  moreover have "trimmed v" using assms(1,3) by (auto simp: list_all_iff cookie_ok_def dest!: map_of_SomeD)
  ultimately show ?thesis
    using cookie_pieces_header [OF assms(1,2)]
    by (simp add: parse_cookie_value_def cookie_pieces_def trimmed_trim)
qed

text \<open>The cookies a browser holds, the auth cookie with a given token among them.\<close>

definition holds_token :: "(string \<times> string) list \<Rightarrow> string \<Rightarrow> bool" where
  "holds_token cs token \<longleftrightarrow> list_all cookie_ok cs \<and> list_all (\<lambda>c. list_all visible (fst c @ snd c)) cs \<and>
     map_of cs auth_token_cookie_key = Some token"

lemma visible_header:
  "list_all (\<lambda>c. list_all visible (fst c @ snd c)) cs \<Longrightarrow> list_all visible (cookie_header cs)"
  by (induction cs rule: cookie_header.induct) (auto simp: cookie_pair_def visible_def)

lemma locate_cookie:
  assumes "token_laws T" and "holds_token cs token" and "hget (hdrs q) ''cookie'' = Some (cookie_header cs)"
  shows "locate_token T (hdrs q) = Inr token"
proof -
  have "header_to_str T (cookie_header cs) = Some (cookie_header cs)"
    using assms(1,2) visible_header by (auto simp: token_laws_def holds_token_def)
  moreover have "parse_cookie_value (cookie_header cs) auth_token_cookie_key = Some token"
    using assms(2) by (intro parse_cookie_header) (auto simp: holds_token_def)
  ultimately show ?thesis
    using assms(3) by (simp add: locate_token_def extract_token_from_cookies_def)
qed

section \<open>Authenticating with a current token\<close>

lemma laws_uuid: "token_laws T \<Longrightarrow> uuid_parse (dal T) (uuid_text (dal T) u) = Inr u"
  and laws_role: "token_laws T \<Longrightarrow> role_parse (dal T) (role_text (dal T) r) = Inr r"
  and laws_jwt: "token_laws T \<Longrightarrow> jwt_encode T k c = Inr t \<Longrightarrow> jwt_decode T k t = Inr c"
  and laws_chars: "token_laws T \<Longrightarrow> jwt_encode T k c = Inr t \<Longrightarrow> list_all token_char t"
  and laws_header: "token_laws T \<Longrightarrow> list_all visible h \<Longrightarrow> header_from_str T h = Inr h"
  by (auto simp: token_laws_def)

lemma uuid_text_inj: "token_laws T \<Longrightarrow> uuid_text (dal T) u = uuid_text (dal T) v \<longleftrightarrow> u = v"
  using laws_uuid by (metis sum.inject(2))

text \<open>A claim that names the current id of a session that is neither idle nor old.\<close>

lemma authenticate_current:
  assumes laws: "token_laws T" and inv: "auth_inv (dal T) n s" and room: "drawn s < n" and up: "link s = None"
    and roles: "roles_ok (dal T) s"
    and tok: "locate_token T (hdrs q) = Inr raw" and dec: "claims_decode T X raw = Inr c"
    and id: "c_unique_id c = uuid_text (dal T) (r_id r)" and r: "r \<in> set (rows s)"
    and young: "clock s - minutes 5 \<le> r_created r" and awake: "clock s - minutes 10 \<le> r_last r"
    and role: "role_parse (dal T) (r_role r) = Inr u" and allowed: "check u = Inr ()"
  shows "\<exists>a w. from_request_parts T X check Auto s q =
      succeed \<lparr>h_unique_id = c_unique_id c, h_time_expire = c_time_expire c, h_session = Some a, h_old_uuid = None\<rparr> w \<and>
    s_id a = r_id r \<and> s_role a = u \<and> s_meta a = r_meta r"
proof -
  have parse: "uuid_parse (dal T) (c_unique_id c) = Inr (r_id r)" by (simp add: id laws_uuid [OF laws])
  have "accepted s 10 (r_id r)" using r awake by (auto simp: accepted_def)
  then obtain a t where out: "ping_auth_session (dal T) s 10 (c_unique_id c) = (Inr (Some a), t)"
    using ping_auth_session_meets [OF inv room up parse roles, of 10]
    by (auto simp: ping_meets_def split: prod.splits sum.splits option.splits)
  obtain r' where r': "r' \<in> set (rows s)" "r_id r \<in> creds r'" "role_parse (dal T) (r_role r') = Inr (s_role a)"
    "s_meta a = r_meta r'" "s_id a = r_id (pinged s (r_id r) r')"
    by (rule ping_some [OF inv room up parse roles out])
  have "r' = r" by (rule owner_unique [OF inv r r'(1) _ r'(2)]) simp
  moreover have "\<not> rotates s (r_id r) r" using young by (simp add: rotates_def)
  ultimately have "s_id a = r_id r" "s_role a = u" "s_meta a = r_meta r"
    using r' role by (auto simp: pinged_def)
  then show ?thesis
    using allowed by (auto simp: from_request_parts_def run_auth_extraction_def tok dec out [unfolded id] id succeed_def)
qed

section \<open>Login\<close>

lemma succeed_iff [simp]: "succeed a s = (Some (Inr b), t) \<longleftrightarrow> a = b \<and> s = t"
  and fail_not [simp]: "fail e s \<noteq> (Some (Inr b), t)"
  by (auto simp: succeed_def fail_def)

definition login_row :: "'u token_lib \<Rightarrow> auth_db \<Rightarrow> 'u \<Rightarrow> (string + json) option \<Rightarrow> session_row" where
  "login_row T s role meta = \<lparr>r_id = uuids s (drawn s), r_old_id = uuids s (drawn s),
     r_role = role_text (dal T) role, r_created = clock s, r_last = clock s, r_minted = clock s,
     r_meta = (case meta of Some (Inr j) \<Rightarrow> Some j | _ \<Rightarrow> None)\<rparr>"

text \<open>What a successful login has done.\<close>

lemma token_new_some:
  assumes "token_new T X s = (Some (Inr h), s')"
  shows "h_unique_id h = uuid_text (dal T) (uuids s (drawn s)) \<and> s' = s\<lparr>drawn := Suc (drawn s)\<rparr>"
  using assms by (auto simp: token_new_def draw_def split: sum.splits option.splits)

lemma login_session_some:
  assumes "token_laws T" and "login_session T h s role meta = (Some (Inr a), s')"
    and "h_unique_id h = uuid_text (dal T) u"
  shows "a = \<lparr>s_id = u, s_role = role, s_created = clock s, s_last = clock s,
      s_meta = (case meta of Some (Inr j) \<Rightarrow> Some j | _ \<Rightarrow> None)\<rparr> \<and>
    s' = s\<lparr>drawn := Suc (drawn s)\<rparr> \<and> (\<forall>e. meta \<noteq> Some (Inl e))"
  using assms
  by (auto simp: login_session_def session_new_def draw_def with_meta_def laws_uuid Let_def
      split: sum.splits option.splits)

lemma create_some:
  assumes "create_auth_session L s a = (Inr b, t)"
  shows "link s = None \<and> t = s\<lparr>rows := rows s @ [\<lparr>r_id = s_id a, r_old_id = s_id a,
      r_role = role_text L (s_role a), r_created = s_created a, r_last = s_last a,
      r_minted = s_created a, r_meta = s_meta a\<rparr>]\<rparr>"
  using assms by (auto simp: create_auth_session_def sql_insert_def split: option.splits if_splits)

lemma login_some:
  assumes laws: "token_laws T" and out: "login T X s role meta = (Some (Inr (st, hs, resp)), t)"
  shows "link s = None \<and> t = s\<lparr>drawn := drawn s + 2, rows := rows s @ [login_row T s role meta]\<rparr> \<and>
    t = snd (create_auth_session (dal T) (s\<lparr>drawn := drawn s + 2\<rparr>)
      \<lparr>s_id = uuids s (drawn s), s_role = role, s_created = clock s, s_last = clock s,
       s_meta = r_meta (login_row T s role meta)\<rparr>) \<and>
    l_unique_id resp = uuid_text (dal T) (uuids s (drawn s)) \<and> st = 200 \<and>
    (\<exists>te. claims_encode T X \<lparr>c_unique_id = l_unique_id resp, c_time_expire = te\<rparr> = Inr (l_token resp)) \<and>
    (\<exists>v. header_from_str T (yield_cookie_string (l_token resp)) = Inr v \<and> hs = [(''set-cookie'', v)])"
proof -
  obtain h s1 where h: "token_new T X s = (Some (Inr h), s1)"
    using out by (auto simp: login_def split: prod.splits option.splits sum.splits)
  obtain a s2 where a: "login_session T h s1 role meta = (Some (Inr a), s2)"
    using out h by (auto simp: login_def split: prod.splits option.splits sum.splits)
  obtain x s3 where x: "create_auth_session (dal T) s2 a = (x, s3)" by fastforce
  then obtain b where b: "create_auth_session (dal T) s2 a = (Inr b, s3)"
    using out h a by (cases x) (auto simp: login_def db_def)
  have fin: "login_finish T X h s3 = (Some (Inr (st, hs, resp)), t)"
    using out h a b by (simp add: login_def db_def)
  have h': "h_unique_id h = uuid_text (dal T) (uuids s (drawn s))" "s1 = s\<lparr>drawn := Suc (drawn s)\<rparr>"
    using token_new_some [OF h] by auto
  have a': "a = \<lparr>s_id = uuids s (drawn s), s_role = role, s_created = clock s, s_last = clock s,
      s_meta = r_meta (login_row T s role meta)\<rparr>" "s2 = s\<lparr>drawn := drawn s + 2\<rparr>"
    using login_session_some [OF laws a h'(1)] by (auto simp: h'(2) login_row_def)
  have "s3 = t" "l_unique_id resp = h_unique_id h" "st = 200"
    and "\<exists>te. claims_encode T X \<lparr>c_unique_id = l_unique_id resp, c_time_expire = te\<rparr> = Inr (l_token resp)"
    and "\<exists>v. header_from_str T (yield_cookie_string (l_token resp)) = Inr v \<and> hs = [(''set-cookie'', v)]"
    using fin by (auto simp: login_finish_def token_encode_def hinsert_def map_err_Inr_iff split: sum.splits)
  moreover have "link s = None" "s3 = s\<lparr>drawn := drawn s + 2, rows := rows s @ [login_row T s role meta]\<rparr>"
    using create_some [OF b] by (auto simp: a' login_row_def)
  ultimately show ?thesis using h'(1) b by (simp add: a')
qed

lemma cookie_visible: "list_all token_char jwt \<Longrightarrow> list_all visible (yield_cookie_string jwt)"
  using token_char_visible by (auto simp: yield_cookie_string_def list_all_iff visible_def)

lemma claims_round_trip:
  assumes "token_laws T" and "claims_encode T X c = Inr jwt"
  shows "claims_decode T X jwt = Inr c \<and> list_all token_char jwt"
  using assms laws_jwt laws_chars
  by (auto simp: claims_encode_def claims_decode_def res_bind_Inr_iff map_err_Inr_iff)

text \<open>C7: logging in works end to end. The token a login returns and sets as a cookie, sent back among
  other cookies within the next five minutes, gives the handler a token for the new session with
  the role and the meta the login was given, and rotates nothing.\<close>

theorem login_then_authenticate:
  assumes "token_laws T" and "auth_inv (dal T) n s" and "drawn s + 2 < n" and "roles_ok (dal T) s"
    and "login T X s role meta = (Some (Inr (st, hs, resp)), t)"
    and "clock s \<le> now" and "now \<le> clock s + minutes 5"
    and "holds_token cs (l_token resp)" and "hget (hdrs q) ''cookie'' = Some (cookie_header cs)"
    and "check role = Inr ()"
  shows "hget hs ''set-cookie'' = Some (yield_cookie_string (l_token resp)) \<and>
    (\<exists>h a w. from_request_parts T X check Auto (t\<lparr>clock := now\<rparr>) q = (Some (Inr h), w) \<and>
      h_unique_id h = l_unique_id resp \<and> h_old_uuid h = None \<and> h_session h = Some a \<and>
      s_role a = role \<and> s_meta a = (case meta of Some (Inr j) \<Rightarrow> Some j | _ \<Rightarrow> None))"
proof -
  have up: "link s = None" and t: "t = s\<lparr>drawn := drawn s + 2, rows := rows s @ [login_row T s role meta]\<rparr>"
    and step: "t = snd (create_auth_session (dal T) (s\<lparr>drawn := drawn s + 2\<rparr>)
      \<lparr>s_id = uuids s (drawn s), s_role = role, s_created = clock s, s_last = clock s,
       s_meta = r_meta (login_row T s role meta)\<rparr>)"
    and id: "l_unique_id resp = uuid_text (dal T) (uuids s (drawn s))"
    using login_some [OF assms(1,5)] by auto
  obtain te where enc: "claims_encode T X \<lparr>c_unique_id = l_unique_id resp, c_time_expire = te\<rparr> = Inr (l_token resp)"
    using login_some [OF assms(1,5)] by auto
  obtain v where v: "header_from_str T (yield_cookie_string (l_token resp)) = Inr v" "hs = [(''set-cookie'', v)]"
    using login_some [OF assms(1,5)] by auto
  note rt = claims_round_trip [OF assms(1) enc]
  have "step_effect (dal T) s t"
    unfolding step by (rule effect_create [of s "drawn s"]) simp_all
  then have inv: "auth_inv (dal T) n t" using assms(3) by (intro effect_inv [OF assms(2)]) (simp_all add: t)
  have inv': "auth_inv (dal T) n (t\<lparr>clock := now\<rparr>)" using inv by (simp add: auth_inv_def)
  have roles: "roles_ok (dal T) (t\<lparr>clock := now\<rparr>)"
    using assms(4) laws_role [OF assms(1)] by (auto simp: roles_ok_def t login_row_def)
  have "\<exists>a w. from_request_parts T X check Auto (t\<lparr>clock := now\<rparr>) q =
      succeed \<lparr>h_unique_id = c_unique_id \<lparr>c_unique_id = l_unique_id resp, c_time_expire = te\<rparr>,
        h_time_expire = c_time_expire \<lparr>c_unique_id = l_unique_id resp, c_time_expire = te\<rparr>,
        h_session = Some a, h_old_uuid = None\<rparr> w \<and>
      s_id a = r_id (login_row T s role meta) \<and> s_role a = role \<and> s_meta a = r_meta (login_row T s role meta)"
  proof (rule authenticate_current [OF assms(1) inv' _ _ roles locate_cookie [OF assms(1,8,9)]])
    show "claims_decode T X (l_token resp) = Inr \<lparr>c_unique_id = l_unique_id resp, c_time_expire = te\<rparr>"
      using rt by simp
  qed (use assms(3,6,7,10) in \<open>auto simp: t up login_row_def id laws_role [OF assms(1)] minutes_def\<close>)
  moreover have "v = yield_cookie_string (l_token resp)"
    using v(1) laws_header [OF assms(1) cookie_visible] rt by auto
  ultimately show ?thesis by (auto simp: v(2) hget_def succeed_def login_row_def)
qed

section \<open>What a successful extraction has seen\<close>

lemma from_request_some:
  assumes "from_request_parts T X check mode s q = (Some (Inr h), w)"
  obtains x where "run_auth_extraction T X s q mode = (Some (Inr x), w)" and "check (s_role (x_session x)) = Inr ()"
    and "h = \<lparr>h_unique_id = x_unique_id x, h_time_expire = x_time_expire x,
              h_session = Some (x_session x), h_old_uuid = x_old_uuid x\<rparr>"
  using assms by (auto simp: from_request_parts_def split: prod.splits option.splits sum.splits)

lemma rotate_some:
  assumes "rotate_token T X c a s q = (Some (Inr x), w)"
  obtains te jwt where "claims_encode T X \<lparr>c_unique_id = uuid_text (dal T) (s_id a), c_time_expire = te\<rparr> = Inr jwt"
    and "w = (s, slot_set (yield_cookie_string jwt) q)"
    and "x = \<lparr>x_session = a, x_unique_id = uuid_text (dal T) (s_id a), x_time_expire = te,
              x_old_uuid = Some (c_unique_id c)\<rparr>"
  using assms by (auto simp: rotate_token_def Let_def split: sum.splits option.splits)

lemma run_some:
  assumes "run_auth_extraction T X s q mode = (Some (Inr x), w)"
  obtains raw c where "locate_token T (hdrs q) = Inr raw" and "claims_decode T X raw = Inr c"
    and "mode = Never \<Longrightarrow> \<not> c_time_expire c < clock s \<and>
      get_auth_session (dal T) s (c_unique_id c) = Inr (Some (x_session x)) \<and> w = (s, q)"
    and "mode = Auto \<Longrightarrow> \<exists>t. ping_auth_session (dal T) s 10 (c_unique_id c) = (Inr (Some (x_session x)), t) \<and>
      (if uuid_text (dal T) (s_id (x_session x)) = c_unique_id c
       then x = \<lparr>x_session = x_session x, x_unique_id = c_unique_id c,
                 x_time_expire = c_time_expire c, x_old_uuid = None\<rparr> \<and> w = (t, q)
       else rotate_token T X c (x_session x) t q = (Some (Inr x), w))"
proof -
  obtain raw c where tok: "locate_token T (hdrs q) = Inr raw" "claims_decode T X raw = Inr c"
    using assms by (cases "locate_token T (hdrs q)"; cases "claims_decode T X (projr (locate_token T (hdrs q)))")
      (auto simp: run_auth_extraction_def)
  show thesis
  proof (rule that [OF tok])
    show "\<not> c_time_expire c < clock s \<and>
        get_auth_session (dal T) s (c_unique_id c) = Inr (Some (x_session x)) \<and> w = (s, q)" if "mode = Never"
      using assms that
      by (auto simp: run_auth_extraction_def tok split: sum.splits option.splits if_splits)
    show "\<exists>t. ping_auth_session (dal T) s 10 (c_unique_id c) = (Inr (Some (x_session x)), t) \<and>
      (if uuid_text (dal T) (s_id (x_session x)) = c_unique_id c
       then x = \<lparr>x_session = x_session x, x_unique_id = c_unique_id c,
                 x_time_expire = c_time_expire c, x_old_uuid = None\<rparr> \<and> w = (t, q)
       else rotate_token T X c (x_session x) t q = (Some (Inr x), w))" if m: "mode = Auto"
    proof -
      obtain out t where out: "ping_auth_session (dal T) s 10 (c_unique_id c) = (out, t)" by fastforce
      then obtain a where a: "out = Inr (Some a)"
        using assms m by (cases out) (auto simp: run_auth_extraction_def tok split: option.splits)
      show ?thesis
      proof (cases "uuid_text (dal T) (s_id a) = c_unique_id c")
        case True
        then show ?thesis using assms m by (auto simp: run_auth_extraction_def tok out a)
      next
        case False
        then have rot: "rotate_token T X c a t q = (Some (Inr x), w)"
          using assms m by (simp add: run_auth_extraction_def tok out a)
        then have "x_session x = a" by (rule rotate_some) simp
        with False rot show ?thesis by (simp add: out a)
      qed
    qed
  qed
qed

lemma ping_parses: "ping_auth_session L s mins i = (Inr (Some a), t) \<Longrightarrow> \<exists>p. uuid_parse L i = Inr p"
  by (auto simp: ping_auth_session_def parse_session_id_def map_err_def split: sum.splits)

lemma get_some:
  assumes "get_auth_session L s i = Inr (Some a)"
  obtains p r where "uuid_parse L i = Inr p" and "r \<in> set (rows s)" and "r_id r = p"
    and "role_parse L (r_role r) = Inr (s_role a)" and "s_meta a = r_meta r"
proof -
  obtain p where p: "uuid_parse L i = Inr p"
    using assms by (cases "uuid_parse L i") (auto simp: get_auth_session_def parse_session_id_def)
  then obtain rs r where rs: "filter (\<lambda>r. r_id r = p) (rows s) = r # rs" "read_session L r = Inr a"
    using assms by (auto simp: get_auth_session_def parse_session_id_def sql_select_def read_optional_def
        res_bind_Inr_iff split: option.splits list.splits)
  then have "r \<in> set (rows s)" "r_id r = p" by (auto dest: filter_eq_ConsD)
  with p rs(2) that show thesis
    by (auto simp: read_session_def session_from_row_def map_err_Inr_iff res_bind_Inr_iff)
qed

text \<open>C3: nobody gets in without a live session. When the extractor yields a token, the request carried
  a JWT that decodes under the server's secret, its claim names a row of the session table, that
  row's credential is accepted (a refreshing policy) or is its current id and the JWT has not
  expired (the other), and the row's role passed the handler's check.\<close>

theorem only_live_sessions_authenticate:
  assumes "auth_inv (dal T) n s" and "drawn s < n" and "link s = None" and "roles_ok (dal T) s"
    and "from_request_parts T X check mode s q = (Some (Inr h), w)"
  shows "\<exists>raw key c p r a. locate_token T (hdrs q) = Inr raw \<and> X ''SECRET_KEY'' = Inr key \<and>
    jwt_decode T key raw = Inr c \<and> uuid_parse (dal T) (c_unique_id c) = Inr p \<and>
    r \<in> set (rows s) \<and> p \<in> creds r \<and>
    (mode = Auto \<longrightarrow> accepted s 10 p) \<and> (mode = Never \<longrightarrow> r_id r = p \<and> clock s \<le> c_time_expire c) \<and>
    h_session h = Some a \<and> s_meta a = r_meta r \<and>
    role_parse (dal T) (r_role r) = Inr (s_role a) \<and> check (s_role a) = Inr ()"
proof -
  obtain x where x: "run_auth_extraction T X s q mode = (Some (Inr x), w)"
    and ok: "check (s_role (x_session x)) = Inr ()" and h: "h_session h = Some (x_session x)"
    by (rule from_request_some [OF assms(5)]) auto
  obtain raw c where tok: "locate_token T (hdrs q) = Inr raw" "claims_decode T X raw = Inr c"
    and never: "mode = Never \<Longrightarrow> \<not> c_time_expire c < clock s \<and>
      get_auth_session (dal T) s (c_unique_id c) = Inr (Some (x_session x)) \<and> w = (s, q)"
    and auto: "mode = Auto \<Longrightarrow> \<exists>t. ping_auth_session (dal T) s 10 (c_unique_id c) = (Inr (Some (x_session x)), t)"
    by (rule run_some [OF x]) blast
  obtain key where key: "X ''SECRET_KEY'' = Inr key" "jwt_decode T key raw = Inr c"
    using tok(2) by (auto simp: claims_decode_def res_bind_Inr_iff map_err_Inr_iff)
  have "\<exists>p r. uuid_parse (dal T) (c_unique_id c) = Inr p \<and> r \<in> set (rows s) \<and> p \<in> creds r \<and>
    (mode = Auto \<longrightarrow> accepted s 10 p) \<and> (mode = Never \<longrightarrow> r_id r = p \<and> clock s \<le> c_time_expire c) \<and>
    s_meta (x_session x) = r_meta r \<and> role_parse (dal T) (r_role r) = Inr (s_role (x_session x))"
  proof (cases mode)
    case Auto
    obtain t where ping: "ping_auth_session (dal T) s 10 (c_unique_id c) = (Inr (Some (x_session x)), t)"
      using auto [OF Auto] by blast
    obtain p where p: "uuid_parse (dal T) (c_unique_id c) = Inr p" using ping_parses [OF ping] by blast
    show ?thesis by (rule ping_some [OF assms(1-3) p assms(4) ping]) (use p Auto in auto)
  next
    case Never
    then have get: "get_auth_session (dal T) s (c_unique_id c) = Inr (Some (x_session x))" using never by blast
    show ?thesis by (rule get_some [OF get]) (use never Never in \<open>auto simp: creds_def\<close>)
  qed
  then show ?thesis using tok(1) key h ok by blast
qed

text \<open>Without refresh the extractor writes nothing: database and request are as they were whatever the
  outcome. An expired JWT is refused with 403 before the table is read, and an unexpired one of
  the current id of a session with an allowed role is let in without any rotation.\<close>

theorem no_refresh_is_read_only:
  assumes "locate_token T (hdrs q) = Inr raw" and "claims_decode T X raw = Inr c"
  shows "snd (from_request_parts T X check Never s q) = (s, q) \<and>
    (c_time_expire c < clock s \<longrightarrow>
       fst (from_request_parts T X check Never s q) = Some (Inl (forbidden ''Token has expired''))) \<and>
    (clock s \<le> c_time_expire c \<and> get_auth_session (dal T) s (c_unique_id c) = Inr (Some a) \<and>
       check (s_role a) = Inr () \<longrightarrow>
       (\<exists>h. fst (from_request_parts T X check Never s q) = Some (Inr h) \<and> h_session h = Some a \<and>
            h_unique_id h = c_unique_id c \<and> h_old_uuid h = None)) \<and>
    (clock s \<le> c_time_expire c \<and> get_auth_session (dal T) s (c_unique_id c) = Inr None \<longrightarrow>
       fst (from_request_parts T X check Never s q) = Some (Inl (unauthorized ''session not present'')))"
  using assms
  by (auto simp: from_request_parts_def run_auth_extraction_def succeed_def fail_def
      split: sum.split option.split)

lemma slot_set_some: "slot q = Some c \<Longrightarrow> slot (slot_set v q) = Some (Some v)"
  by (simp add: slot_set_def)

text \<open>C26: a rotation hands the client a working replacement. When a request makes the session rotate and the
  response layer is installed, the cookie left in the slot carries a JWT that, sent back within
  five minutes, authenticates the same session under its new id without a further rotation.\<close>

theorem rotated_cookie_authenticates:
  assumes "token_laws T" and "auth_inv (dal T) n s" and "drawn s < n" and "link s = None" and "roles_ok (dal T) s"
    and "from_request_parts T X check Auto s q = (Some (Inr h), (t, q'))"
    and "h_session h = Some a" and "slot q = Some c0" and "drawn s < drawn t" and "drawn t < n"
  shows "\<exists>jwt. slot q' = Some (Some (yield_cookie_string jwt)) \<and> h_unique_id h = uuid_text (dal T) (s_id a) \<and>
    (\<forall>now cs q2. clock s \<le> now \<and> now \<le> clock s + minutes 5 \<and> holds_token cs jwt \<and>
       hget (hdrs q2) ''cookie'' = Some (cookie_header cs) \<longrightarrow>
       (\<exists>h2 b w. from_request_parts T X check Auto (t\<lparr>clock := now\<rparr>) q2 = (Some (Inr h2), w) \<and>
          h_unique_id h2 = h_unique_id h \<and> h_old_uuid h2 = None \<and>
          h_session h2 = Some b \<and> s_id b = s_id a \<and> s_role b = s_role a \<and> s_meta b = s_meta a))"
proof -
  obtain x where x: "run_auth_extraction T X s q Auto = (Some (Inr x), (t, q'))"
    and ok: "check (s_role (x_session x)) = Inr ()"
    and h: "h = \<lparr>h_unique_id = x_unique_id x, h_time_expire = x_time_expire x,
              h_session = Some (x_session x), h_old_uuid = x_old_uuid x\<rparr>"
    by (rule from_request_some [OF assms(6)])
  then have a: "x_session x = a" using assms(7) by simp
  obtain raw c t0 where c: "claims_decode T X raw = Inr c"
    and ping: "ping_auth_session (dal T) s 10 (c_unique_id c) = (Inr (Some a), t0)"
    and x': "if uuid_text (dal T) (s_id a) = c_unique_id c
       then x = \<lparr>x_session = a, x_unique_id = c_unique_id c,
                 x_time_expire = c_time_expire c, x_old_uuid = None\<rparr> \<and> (t, q') = (t0, q)
       else rotate_token T X c a t0 q = (Some (Inr x), (t, q'))"
    by (rule run_some [OF x]) (use a in auto)
  obtain p where p: "uuid_parse (dal T) (c_unique_id c) = Inr p" using ping_parses [OF ping] by blast
  have t0: "t = t0" using x' by (auto split: if_splits elim!: rotate_some)
  obtain r where r: "r \<in> set (rows s)" "p \<in> creds r" "role_parse (dal T) (r_role r) = Inr (s_role a)"
    "s_meta a = r_meta r" "s_id a = r_id (pinged s p r)"
    and t: "t = s\<lparr>rows := with_row s r (pinged s p r), drawn := (if rotates s p r then Suc (drawn s) else drawn s)\<rparr>"
    by (rule ping_some [OF assms(2-4) p assms(5) ping]) (use t0 in blast)
  have rot: "rotates s p r" using t assms(9) by (auto split: if_splits)
  have inj: "inj_on (uuids s) {..<n}" using assms(2) by (simp add: auth_inv_def)
  have "s_id a \<noteq> p"
    using drawn_later [OF inj order_refl assms(3)] drawn_creds [OF assms(2) r(1,2)] rot by (auto simp: r(5) pinged_def)
  then have "uuid_text (dal T) (s_id a) \<noteq> c_unique_id c" using p laws_uuid [OF assms(1), of "s_id a"] by auto
  then have "rotate_token T X c a t0 q = (Some (Inr x), (t, q'))" using x' by simp
  then obtain te jwt where enc: "claims_encode T X \<lparr>c_unique_id = uuid_text (dal T) (s_id a), c_time_expire = te\<rparr> = Inr jwt"
    and q': "q' = slot_set (yield_cookie_string jwt) q" and xid: "x_unique_id x = uuid_text (dal T) (s_id a)"
    by (rule rotate_some) auto
  have inv: "auth_inv (dal T) n t"
    using effect_inv [OF assms(2) effect_ping [of "dal T" s 10 "c_unique_id c"]] assms(10) ping t0 by simp
  have again: "\<exists>b w. from_request_parts T X check Auto (t\<lparr>clock := now\<rparr>) q2 =
      succeed \<lparr>h_unique_id = c_unique_id \<lparr>c_unique_id = uuid_text (dal T) (s_id a), c_time_expire = te\<rparr>,
        h_time_expire = c_time_expire \<lparr>c_unique_id = uuid_text (dal T) (s_id a), c_time_expire = te\<rparr>,
        h_session = Some b, h_old_uuid = None\<rparr> w \<and>
      s_id b = r_id (pinged s p r) \<and> s_role b = s_role a \<and> s_meta b = r_meta (pinged s p r)"
    if "clock s \<le> now" "now \<le> clock s + minutes 5" "holds_token cs jwt"
      "hget (hdrs q2) ''cookie'' = Some (cookie_header cs)" for now cs q2
  proof (rule authenticate_current [OF assms(1) _ _ _ _ locate_cookie [OF assms(1) that(3,4)]])
    show "auth_inv (dal T) n (t\<lparr>clock := now\<rparr>)" using inv by (simp add: auth_inv_def)
    show "roles_ok (dal T) (t\<lparr>clock := now\<rparr>)"
      using assms(5) r(1) by (auto simp: roles_ok_def t with_row_def)
    show "claims_decode T X jwt = Inr \<lparr>c_unique_id = uuid_text (dal T) (s_id a), c_time_expire = te\<rparr>"
      using claims_round_trip [OF assms(1) enc] by simp
    show "pinged s p r \<in> set (rows (t\<lparr>clock := now\<rparr>))" using r(1) by (simp add: t)
    show "check (s_role a) = Inr ()" using ok a by simp
  qed (use assms(4,10) that(1,2) r rot in \<open>auto simp: t pinged_def minutes_def\<close>)
  show ?thesis
  proof (rule exI [of _ jwt], intro conjI allI impI; (elim conjE)?)
    show "slot q' = Some (Some (yield_cookie_string jwt))" by (simp add: q' slot_set_some [OF assms(8)])
    show "h_unique_id h = uuid_text (dal T) (s_id a)" by (simp add: h xid)
  next
    fix now cs and q2 :: request
    assume "clock s \<le> now" "now \<le> clock s + minutes 5" "holds_token cs jwt"
      "hget (hdrs q2) ''cookie'' = Some (cookie_header cs)"
    from again [OF this] show "\<exists>h2 b w. from_request_parts T X check Auto (t\<lparr>clock := now\<rparr>) q2 = (Some (Inr h2), w) \<and>
          h_unique_id h2 = h_unique_id h \<and> h_old_uuid h2 = None \<and>
          h_session h2 = Some b \<and> s_id b = s_id a \<and> s_role b = s_role a \<and> s_meta b = s_meta a"
      by (auto simp: h xid r(4,5) succeed_def)
  qed
qed

end
