(* ===== verification/Auth_Demo.thy ===== *)
theory Auth_Demo
  imports Auth_Flow
begin

text \<open>
  Concrete instances: a UUID text, a JWT codec and header values that satisfy \<open>token_laws\<close>, and
  small databases on which the properties of sessions and tokens are applied.
\<close>

section \<open>A library that satisfies the laws\<close>

fun bin :: "nat \<Rightarrow> string" where
  "bin n = (if n = 0 then [] else (if odd n then CHR ''1'' else CHR ''0'') # bin (n div 2))"

declare bin.simps [simp del]

definition unbin :: "string \<Rightarrow> nat" where
  "unbin s = foldr (\<lambda>c a. 2 * a + (if c = CHR ''1'' then 1 else 0)) s 0"

lemma unbin_bin [simp]: "unbin (bin n) = n"
proof (induction n rule: bin.induct)
  case (1 n)
  then show ?case by (subst bin.simps) (auto simp: unbin_def)
qed

lemma bin_chars: "c \<in> set (bin n) \<Longrightarrow> c = CHR ''0'' \<or> c = CHR ''1''"
proof (induction n rule: bin.induct)
  case (1 n)
  then show ?case by (subst (asm) (2) bin.simps) (auto split: if_splits)
qed

definition enc_str :: "string \<Rightarrow> string" where
  "enc_str s = join_on (CHR ''-'') (map (\<lambda>c. bin (of_char c)) s @ [[]])"

definition dec_str :: "string \<Rightarrow> string" where
  "dec_str t = map (\<lambda>p. char_of (unbin p)) (butlast (split_on (CHR ''-'') t))"

lemma dec_enc [simp]: "dec_str (enc_str s) = s"
proof -
  have "split_on (CHR ''-'') (enc_str s) = map (\<lambda>c. bin (of_char c)) s @ [[]]"
    unfolding enc_str_def by (rule split_join) (auto dest: bin_chars)
  then show ?thesis by (simp add: dec_str_def o_def)
qed

lemma set_join_on: "set (join_on c ps) \<subseteq> insert c (\<Union> (set ` set ps))"
  by (induction c ps rule: join_on.induct) auto

lemma enc_chars: "c \<in> set (enc_str s) \<Longrightarrow> c = CHR ''0'' \<or> c = CHR ''1'' \<or> c = CHR ''-''"
  using set_join_on [of "CHR ''-''" "map (\<lambda>c. bin (of_char c)) s @ [[]]"]
  by (auto simp: enc_str_def dest: bin_chars)

definition enc_int :: "int \<Rightarrow> string" where
  "enc_int i = (if i < 0 then CHR ''-'' # bin (nat (- i)) else bin (nat i))"

definition dec_int :: "string \<Rightarrow> int" where
  "dec_int s = (case s of c # r \<Rightarrow> if c = CHR ''-'' then - int (unbin r) else int (unbin s) | [] \<Rightarrow> 0)"

lemma dec_int_bin: "dec_int (bin n) = int n"
proof (cases "bin n")
  case Nil
  then have "n = 0" using unbin_bin [of n] by (simp add: unbin_def)
  with Nil show ?thesis by (simp add: dec_int_def)
next
  case (Cons c r)
  then have "c \<noteq> CHR ''-''" using bin_chars [of c n] by auto
  with Cons show ?thesis using unbin_bin [of n] by (simp add: dec_int_def)
qed

lemma dec_enc_int [simp]: "dec_int (enc_int i) = i"
  by (simp add: enc_int_def dec_int_bin) (simp add: dec_int_def)

definition demo_jwt :: "string \<Rightarrow> claims \<Rightarrow> string" where
  "demo_jwt k c = join_on (CHR ''.'') [enc_str k, enc_str (c_unique_id c), enc_int (c_time_expire c)]"

definition demo_unjwt :: "string \<Rightarrow> string \<Rightarrow> string + claims" where
  "demo_unjwt k t =
     (case split_on (CHR ''.'') t of
        [a, b, d] \<Rightarrow> if a = enc_str k then Inr \<lparr>c_unique_id = dec_str b, c_time_expire = dec_int d\<rparr>
                     else Inl ''InvalidSignature''
      | _ \<Rightarrow> Inl ''InvalidToken'')"

lemma enc_int_chars: "c \<in> set (enc_int i) \<Longrightarrow> c = CHR ''0'' \<or> c = CHR ''1'' \<or> c = CHR ''-''"
  by (auto simp: enc_int_def dest: bin_chars split: if_splits)

lemma demo_unjwt_jwt: "demo_unjwt k (demo_jwt k c) = Inr c"
proof -
  have "split_on (CHR ''.'') (demo_jwt k c) = [enc_str k, enc_str (c_unique_id c), enc_int (c_time_expire c)]"
    unfolding demo_jwt_def by (rule split_join) (auto dest: enc_chars enc_int_chars)
  then show ?thesis by (simp add: demo_unjwt_def)
qed

lemma demo_jwt_chars: "list_all token_char (demo_jwt k c)"
  unfolding list_all_iff token_char_def demo_jwt_def
  using set_join_on [of "CHR ''.''" "[enc_str k, enc_str (c_unique_id c), enc_int (c_time_expire c)]"]
  by (auto simp: is_alnum_def dest!: subsetD dest: enc_chars enc_int_chars)

definition demo_dal :: "default_role auth_lib" where
  "demo_dal = \<lparr>uuid_text = (\<lambda>u. bin (unat u)),
     uuid_parse = (\<lambda>t. if t = bin (unbin t) \<and> unbin t < 2 ^ 128 then Inr (of_nat (unbin t)) else Inl ''invalid UUID''),
     role_text = role_display default_variants, role_parse = role_try_from default_variants,
     json_text = (\<lambda>_. ''value''), pg_text = (\<lambda>_. ''error'')\<rparr>"

definition demo_lib :: "default_role token_lib" where
  "demo_lib = \<lparr>dal = demo_dal, sqlx_text = (\<lambda>_. ''error''), jwt_encode = (\<lambda>k c. Inr (demo_jwt k c)),
     jwt_decode = demo_unjwt, plus_minutes = (\<lambda>now m. Some (now + minutes m)),
     header_to_str = (\<lambda>h. if list_all visible h then Some h else None),
     header_from_str = (\<lambda>h. if list_all visible h then Inr h else Inl ''invalid header value''),
     base64_decode = Inr, utf8_text = (\<lambda>_. ''invalid utf-8'')\<rparr>"

lemma demo_uuid [simp]: "uuid_parse demo_dal (uuid_text demo_dal u) = Inr u"
  using unsigned_less [of u, where ?'a = nat] by (simp add: demo_dal_def)

lemma demo_role [simp]: "role_parse demo_dal (role_text demo_dal u) = Inr u"
proof -
  have "(u, variant_name default_variants u) \<in> set default_variants"
    by (cases u) (simp_all add: default_variants_def variant_name_def)
  then have "role_try_from default_variants (role_display default_variants u) = Inr u"
    by (rule role_try_from_name [OF default_names]) (simp add: role_display_def)
  then show ?thesis by (simp add: demo_dal_def)
qed

lemma demo_jwt_not_Nil: "demo_jwt k c \<noteq> []"
  by (simp add: demo_jwt_def)

lemma demo_laws: "token_laws demo_lib"
  using demo_uuid demo_role
  by (auto simp: token_laws_def demo_lib_def demo_unjwt_jwt demo_jwt_chars demo_jwt_not_Nil)

section \<open>Databases with one session\<close>

definition demo_row :: session_row where
  "demo_row = \<lparr>r_id = 0, r_old_id = 0, r_role = role_text demo_dal Admin, r_created = 0, r_last = 0,
     r_minted = 0, r_meta = Some (JObj [(''user'', JNum 1)])\<rparr>"

definition demo_db :: "int \<Rightarrow> auth_db" where
  "demo_db now = \<lparr>rows = [demo_row], clock = now, uuids = of_nat, drawn = 1,
     indexes = [(''by_user'', [''user''])], link = None\<rparr>"

lemma demo_uuids: "inj_on (of_nat :: nat \<Rightarrow> uuid) {..<10}"
proof (rule inj_onI)
  have small: "unat (of_nat z :: uuid) = z" if "z \<in> {..<10}" for z
    using that by (simp add: unsigned_of_nat take_bit_nat_eq_self_iff)
  fix x y :: nat assume "x \<in> {..<10}" "y \<in> {..<10}" and "(of_nat x :: uuid) = of_nat y"
  then show "x = y" using small by metis
qed

lemma demo_inv: "auth_inv demo_dal 10 (demo_db now)"
  using demo_uuids by (auto simp: auth_inv_def demo_db_def demo_row_def creds_def unique_ok_def)

lemma demo_roles: "roles_ok demo_dal (demo_db now)"
  using demo_role by (auto simp: roles_ok_def demo_db_def demo_row_def)

lemma demo_fields [simp]: "drawn (demo_db now) = 1" "link (demo_db now) = None" "clock (demo_db now) = now"
  "rows (demo_db now) = [demo_row]" "indexes (demo_db now) = [(''by_user'', [''user''])]"
  "uuids (demo_db now) = of_nat"
  by (simp_all add: demo_db_def)

lemma demo_row_fields [simp]: "r_id demo_row = 0" "r_old_id demo_row = 0" "r_created demo_row = 0"
  "r_last demo_row = 0" "r_minted demo_row = 0" "r_role demo_row = role_text demo_dal Admin"
  "r_meta demo_row = Some (JObj [(''user'', JNum 1)])"
  by (simp_all add: demo_row_def)

lemma demo_ping_ok:
  assumes "now \<le> minutes 10"
  shows "\<exists>a t. ping_auth_session demo_dal (demo_db now) 10 (uuid_text demo_dal 0) = (Inr (Some a), t)"
proof -
  have "accepted (demo_db now) 10 0" using assms by (simp add: accepted_def)
  then show ?thesis
    using ping_auth_session_meets [OF demo_inv _ _ demo_uuid demo_roles, of now 10 0]
    by (auto simp: ping_meets_def split: prod.splits sum.splits option.splits)
qed

section \<open>Witnesses: pings, rotation and logout\<close>

lemma ping_accepts_witness:
  "ping_meets demo_dal (demo_db 0) 10 0 (ping_auth_session demo_dal (demo_db 0) 10 (uuid_text demo_dal 0))"
  by (rule ping_accepts [of demo_dal 10]) (simp_all add: demo_inv demo_roles)


lemma demo_rotation:
  "\<exists>a t. ping_auth_session demo_dal (demo_db (minutes 6)) 10 (uuid_text demo_dal 0) = (Inr (Some a), t) \<and>
     s_id a = 1 \<and> drawn t = 2 \<and> s_role a = Admin"
proof -
  obtain a t where out: "ping_auth_session demo_dal (demo_db (minutes 6)) 10 (uuid_text demo_dal 0) = (Inr (Some a), t)"
    using demo_ping_ok [of "minutes 6"] by (auto simp: minutes_def)
  have "rotates (demo_db (minutes 6)) 0 demo_row" by (simp add: rotates_def minutes_def)
  then show ?thesis
    using ping_auth_session_meets [OF demo_inv _ _ demo_uuid demo_roles, of "minutes 6" 10 0] demo_role [of Admin] out
    by (auto simp: ping_meets_def)
qed

lemma rotated_credential_dies_witness:
  "\<exists>a t. ping_auth_session demo_dal (demo_db (minutes 6)) 10 (uuid_text demo_dal 0) = (Inr (Some a), t) \<and>
     get_auth_session demo_dal t (uuid_text demo_dal 0) \<noteq> Inr (Some a)"
proof -
  obtain a t where "ping_auth_session demo_dal (demo_db (minutes 6)) 10 (uuid_text demo_dal 0) = (Inr (Some a), t)"
    and "s_id a = 1"
    using demo_rotation by blast
  with rotated_credential_dies [OF demo_inv _ _ demo_uuid demo_roles this(1) _ _ auth_reach.here] show ?thesis
    by auto
qed

lemma logout_is_final_witness:
  "\<forall>a. fst (ping_auth_session demo_dal ((demo_db 0)\<lparr>rows := []\<rparr>) 10 (uuid_text demo_dal 0)) \<noteq> Inr (Some a)"
proof -
  have "delete_auth_session (demo_db 0) (r_id demo_row) = (Inr True, (demo_db 0)\<lparr>rows := []\<rparr>)"
    by (simp add: delete_auth_session_def sql_delete_def)
  from logout_is_final [OF demo_inv _ this auth_reach.here _ demo_uuid, of 0 10] show ?thesis by simp
qed

section \<open>Witnesses: the meta column\<close>

lemma swap_has_one_winner_witness:
  "\<exists>a. fst (swap_race demo_dal (demo_db 0) (uuid_text demo_dal 0) ''user'' (JNum 1) [JNum 2, JNum 3, JNum 4]) =
     [Inr (Some a), Inr None, Inr None] \<and> meta_get a ''user'' = Some (JNum 2)"
proof -
  have "uuid_parse demo_dal (uuid_text demo_dal 0) = Inr (r_id demo_row)" by simp
  moreover have "unique_ok demo_dal (indexes (demo_db 0)) (with_row (demo_db 0) demo_row
      (demo_row\<lparr>r_meta := Some (JObj (obj_set ''user'' (JNum 2) [(''user'', JNum 1)]))\<rparr>))"
    by (simp add: unique_ok_def with_row_def)
  ultimately show ?thesis
    using swap_has_one_winner [OF demo_inv, of 0 "uuid_text demo_dal 0" demo_row "[(''user'', JNum 1)]" "''user''"
        "JNum 1" "JNum 2" Admin "[JNum 3, JNum 4]"]
    by (auto simp: numeral_2_eq_2)
qed

lemma upserted_key_reads_back_witness:
  "\<exists>a t. upsert_auth_session_meta_key demo_dal (demo_db 0) (uuid_text demo_dal 0) ''user'' (JNum 5) = (Inr (Some a), t) \<and>
     meta_get a ''user'' = Some (JNum 5)"
proof -
  have "\<exists>a t. upsert_auth_session_meta_key demo_dal (demo_db 0) (uuid_text demo_dal 0) ''user'' (JNum 5) = (Inr (Some a), t)"
    by (simp add: upsert_auth_session_meta_key_def parse_session_id_def sql_update_def set_meta_key_def
        json_pg_def unique_ok_def read_optional_def read_session_def session_from_row_def)
  then obtain a t where out: "upsert_auth_session_meta_key demo_dal (demo_db 0) (uuid_text demo_dal 0) ''user'' (JNum 5) = (Inr (Some a), t)"
    by blast
  have "uuid_parse demo_dal (uuid_text demo_dal 0) = Inr (r_id demo_row)" by simp
  from upserted_key_reads_back [OF demo_inv _ this _ out] out show ?thesis by auto
qed

lemma unique_key_bounds_witness:
  "\<exists>as. get_auth_sessions_by_meta_key demo_dal (demo_db 0) ''user'' (JNum 1) = Inr as \<and> length as \<le> 1"
proof -
  have "read_session demo_dal demo_row =
      Inr \<lparr>s_id = 0, s_role = Admin, s_created = 0, s_last = 0, s_meta = r_meta demo_row\<rparr>"
    by (simp add: read_session_def session_from_row_def demo_row_def)
  then have "\<exists>as. read_all demo_dal (filter P [demo_row]) = Inr as" for P by simp
  then have "\<exists>as. get_auth_sessions_by_meta_key demo_dal (demo_db 0) ''user'' (JNum 1) = Inr as"
    by (simp add: get_auth_sessions_by_meta_key_def sql_select_def demo_db_def)
  then show ?thesis
    using unique_key_bounds [OF demo_inv _ auth_reach.here, of "''by_user''" "''user''" 0 "JNum 1"]
    by (auto simp: scalar_def demo_db_def)
qed

section \<open>Witnesses: tokens\<close>

definition demo_config :: config where
  "demo_config = static_config [(''SECRET_KEY'', ''k''), (''TOKEN_EXPIRE_MINS'', ''5'')]"

lemma demo_config_simps [simp]:
  "demo_config ''SECRET_KEY'' = Inr ''k''" "demo_config ''TOKEN_EXPIRE_MINS'' = Inr ''5''"
  by (simp_all add: demo_config_def static_config_def)

lemma demo_expire [simp]: "expire_minutes demo_config = Inr 5"
proof -
  have "parse_i64 ''5'' = Inr 5" by code_simp
  then show ?thesis by (simp add: expire_minutes_def)
qed

lemma demo_customer: "\<not> 255 < length (utf8_chars (role_text demo_dal Customer))"
proof -
  have "\<not> 255 < length (utf8_chars (role_display default_variants Customer))" by code_simp
  then show ?thesis by (simp add: demo_dal_def)
qed

lemma demo_lib_fields [simp]: "dal demo_lib = demo_dal" "jwt_encode demo_lib k c = Inr (demo_jwt k c)"
  "plus_minutes demo_lib now m = Some (now + minutes m)"
  by (simp_all add: demo_lib_def)

lemma demo_cookie [simp]: "header_from_str demo_lib (yield_cookie_string (demo_jwt k c)) = Inr (yield_cookie_string (demo_jwt k c))"
  by (rule laws_header [OF demo_laws cookie_visible [OF demo_jwt_chars]])

lemma demo_login: "\<exists>st hs resp t. login demo_lib demo_config (demo_db 0) Customer None = (Some (Inr (st, hs, resp)), t)"
  by (simp add: login_def token_new_def draw_def login_session_def session_new_def db_def Let_def
      create_auth_session_def sql_insert_def demo_customer unique_ok_def collide_def indexed_def
      read_session_def session_from_row_def login_finish_def token_encode_def claims_encode_def succeed_def)

lemma token_visible: "list_all token_char t \<Longrightarrow> list_all visible t"
  using token_char_visible by (auto simp: list_all_iff)

lemma token_cookie_ok: "list_all token_char t \<Longrightarrow> cookie_ok (auth_token_cookie_key, t)"
  using token_char_visible
  by (cases t) (auto simp: cookie_ok_def trimmed_def list_all_iff is_space_def)

lemma holds_token_single: "list_all token_char t \<Longrightarrow> holds_token [(auth_token_cookie_key, t)] t"
  using token_visible [of t] token_cookie_ok [of t] by (simp add: holds_token_def visible_def)

definition demo_request :: "(string \<times> string) list \<Rightarrow> request" where
  "demo_request cs = \<lparr>hdrs = [(''cookie'', cookie_header cs)], slot = Some None\<rparr>"

lemma demo_request_cookie [simp]: "hget (hdrs (demo_request cs)) ''cookie'' = Some (cookie_header cs)"
  and demo_request_slot [simp]: "slot (demo_request cs) = Some None"
  by (simp_all add: demo_request_def hget_def)

lemma login_then_authenticate_witness:
  "\<exists>st hs resp t h a w. login demo_lib demo_config (demo_db 0) Customer None = (Some (Inr (st, hs, resp)), t) \<and>
     from_request_parts demo_lib demo_config (default_check_user_role ExactCustomerRoleCheck) Auto
       (t\<lparr>clock := seconds 9\<rparr>) (demo_request [(auth_token_cookie_key, l_token resp)]) = (Some (Inr h), w) \<and>
     h_session h = Some a \<and> s_role a = Customer"
proof -
  obtain st hs resp t where out: "login demo_lib demo_config (demo_db 0) Customer None = (Some (Inr (st, hs, resp)), t)"
    using demo_login by blast
  obtain te where "claims_encode demo_lib demo_config \<lparr>c_unique_id = l_unique_id resp, c_time_expire = te\<rparr> = Inr (l_token resp)"
    using login_some [OF demo_laws out] by blast
  then have tok: "holds_token [(auth_token_cookie_key, l_token resp)] (l_token resp)"
    using claims_round_trip [OF demo_laws] holds_token_single by blast
  have "default_check_user_role ExactCustomerRoleCheck Customer = Inr ()" by code_simp
  then show ?thesis
    using login_then_authenticate [OF demo_laws _ _ _ out _ _ tok demo_request_cookie, of 10 "seconds 9"
        "default_check_user_role ExactCustomerRoleCheck"] demo_inv demo_roles out
    by (fastforce simp: seconds_def minutes_def)
qed

text \<open>A request that presents the id of the demo session.\<close>

definition demo_token :: "int \<Rightarrow> string" where
  "demo_token te = demo_jwt ''k'' \<lparr>c_unique_id = uuid_text demo_dal 0, c_time_expire = te\<rparr>"

lemma demo_locate: "locate_token demo_lib (hdrs (demo_request [(auth_token_cookie_key, demo_token te)])) = Inr (demo_token te)"
  by (rule locate_cookie [OF demo_laws holds_token_single demo_request_cookie])
    (simp add: demo_token_def demo_jwt_chars)

lemma demo_decode: "claims_decode demo_lib demo_config (demo_token te) =
    Inr \<lparr>c_unique_id = uuid_text demo_dal 0, c_time_expire = te\<rparr>"
  by (simp add: claims_decode_def demo_token_def demo_lib_def demo_unjwt_jwt)

lemma demo_get: "get_auth_session demo_dal (demo_db now) (uuid_text demo_dal 0) =
    Inr (Some \<lparr>s_id = 0, s_role = Admin, s_created = 0, s_last = 0, s_meta = Some (JObj [(''user'', JNum 1)])\<rparr>)"
  by (simp add: get_auth_session_def parse_session_id_def sql_select_def read_optional_def read_session_def
      session_from_row_def)

lemma no_refresh_is_read_only_witness:
  "\<exists>h. from_request_parts demo_lib demo_config (\<lambda>_. Inr ()) Never (demo_db 0)
      (demo_request [(auth_token_cookie_key, demo_token 7)]) =
    (Some (Inr h), demo_db 0, demo_request [(auth_token_cookie_key, demo_token 7)])"
  using no_refresh_is_read_only [OF demo_locate demo_decode, of "\<lambda>_. Inr ()" "demo_db 0" 7] demo_get [of 0]
  by (auto simp: prod_eq_iff)

lemma only_live_sessions_authenticate_witness:
  "\<exists>h w a. from_request_parts demo_lib demo_config (\<lambda>_. Inr ()) Never (demo_db 0)
      (demo_request [(auth_token_cookie_key, demo_token 7)]) = (Some (Inr h), w) \<and>
    h_session h = Some a \<and> s_meta a = Some (JObj [(''user'', JNum 1)])"
proof -
  have "\<exists>h w. from_request_parts demo_lib demo_config (\<lambda>_. Inr ()) Never (demo_db 0)
      (demo_request [(auth_token_cookie_key, demo_token 7)]) = (Some (Inr h), w)"
    by (simp add: from_request_parts_def run_auth_extraction_def demo_locate demo_decode demo_get succeed_def)
  then obtain h w where out: "from_request_parts demo_lib demo_config (\<lambda>_. Inr ()) Never (demo_db 0)
      (demo_request [(auth_token_cookie_key, demo_token 7)]) = (Some (Inr h), w)" by blast
  have "auth_inv (dal demo_lib) 10 (demo_db 0)" "roles_ok (dal demo_lib) (demo_db 0)"
    by (simp_all add: demo_inv demo_roles)
  from only_live_sessions_authenticate [OF this(1) _ _ this(2) out] out show ?thesis by auto
qed

lemma rotated_cookie_authenticates_witness:
  "\<exists>h t q'. from_request_parts demo_lib demo_config (\<lambda>_. Inr ()) Auto (demo_db (minutes 6))
      (demo_request [(auth_token_cookie_key, demo_token 7)]) = (Some (Inr h), (t, q')) \<and>
    (\<exists>jwt. slot q' = Some (Some (yield_cookie_string jwt)))"
proof -
  obtain a t where ping: "ping_auth_session demo_dal (demo_db (minutes 6)) 10 (uuid_text demo_dal 0) = (Inr (Some a), t)"
    and a: "s_id a = 1" "drawn t = 2" using demo_rotation by blast
  have "uuid_text demo_dal 1 \<noteq> uuid_text demo_dal 0"
    using demo_uuid [of 0] demo_uuid [of 1] by (metis sum.inject(2) zero_neq_one)
  then have "\<exists>h q'. from_request_parts demo_lib demo_config (\<lambda>_. Inr ()) Auto (demo_db (minutes 6))
      (demo_request [(auth_token_cookie_key, demo_token 7)]) = (Some (Inr h), (t, q')) \<and> h_session h = Some a"
    by (simp add: from_request_parts_def run_auth_extraction_def demo_locate demo_decode ping a(1)
        rotate_token_def claims_encode_def succeed_def Let_def)
  then obtain h q' where out: "from_request_parts demo_lib demo_config (\<lambda>_. Inr ()) Auto (demo_db (minutes 6))
      (demo_request [(auth_token_cookie_key, demo_token 7)]) = (Some (Inr h), (t, q'))" "h_session h = Some a" by blast
  have "auth_inv (dal demo_lib) 10 (demo_db (minutes 6))" "roles_ok (dal demo_lib) (demo_db (minutes 6))"
    by (simp_all add: demo_inv demo_roles)
  from rotated_cookie_authenticates [OF demo_laws this(1) _ _ this(2) out demo_request_slot] a(2) out(1)
  show ?thesis by auto
qed

end
