(* ===== verification/Migration_Demo.thy ===== *)
theory Migration_Demo
  imports Row_Decoding Auth_Demo
begin

text \<open>
  A database of the first version of the library: sessions without previous ids, one task in the queue, and
  a schedule; the properties of \<open>Migrations\<close> and \<open>Row_Decoding\<close> at it.
\<close>

definition first_auth :: sql_table where
  "first_auth = \<lparr>tb_columns =
      [col ''id'' TUuid True (Some GenRandomUuid), col ''role'' (varchar 255) True None,
       col ''date_created'' TTimestamp True (Some DefaultNow), col ''last_interacted'' TTimestamp True (Some DefaultNow),
       col ''meta'' TJsonb False None],
     tb_key = ''id'',
     tb_rows = [[''id'' \<mapsto> VUuid 0, ''role'' \<mapsto> VText (role_text demo_dal Customer), ''date_created'' \<mapsto> VTime 0,
       ''last_interacted'' \<mapsto> VTime 0, ''meta'' \<mapsto> VNull]],
     tb_serial = 1\<rparr>"

definition first_queue :: sql_table where
  "first_queue = \<lparr>tb_columns = queue_columns, tb_key = ''id'',
     tb_rows = [[''id'' \<mapsto> VUuid 7, ''function_name'' \<mapsto> VText ''f'', ''params'' \<mapsto> VJson (JObj []),
       ''status'' \<mapsto> VText ''pending'', ''time_posted'' \<mapsto> VTime 0, ''time_started'' \<mapsto> VNull,
       ''time_finished'' \<mapsto> VNull, ''locked'' \<mapsto> VBool False]],
     tb_serial = 1\<rparr>"

definition first_db :: pg where
  "first_db = \<lparr>pg_schemas = [''saps''], pg_tables = [auth_sessions \<mapsto> first_auth, queued_tasks \<mapsto> first_queue],
     pg_indexes = Map.empty, pg_functions = Map.empty, pg_now = seconds 60, pg_uuids = of_nat, pg_drawn = 1, pg_link = None\<rparr>"

lemma first_tables: "table_ok first_auth" "table_ok first_queue"
  using demo_customer
  by (auto simp: table_ok_def row_ok_def first_auth_def column_names_def not_less)
    (auto simp: table_ok_def row_ok_def first_queue_def column_names_def queue_columns_def utf8_chars_def split: if_splits)

lemma first_migratable: "migratable first_db"
  using first_tables
  by (auto simp: migratable_def pg_ok_def first_db_def auth_ready_def queue_ready_def schedule_ready_def owns_def
      free_or_def older_auth_def first_auth_def first_queue_def column_of_def column_names_def queue_columns_def
      auth_sessions_def queued_tasks_def scheduled_tasks_def split: if_splits)

lemma migrations_upgrade_witness:
  "\<exists>t a. run_migrations (\<lambda>c. c) first_db = (Some (), t) \<and> pg_tables t auth_sessions = Some a \<and>
    map (\<lambda>r. (r ''id'', r ''old_id'', r ''time_minted'')) (tb_rows a) =
      [(Some (VUuid 0), Some (VUuid 0), Some (VTime (seconds 60)))] \<and>
    queue (task_db_of t) = [read_queue_row (hd (tb_rows first_queue))] \<and> schedule (task_db_of t) = [] \<and>
    run_migrations (\<lambda>c. c) (t\<lparr>pg_now := 0\<rparr>) = (Some (), t\<lparr>pg_now := 0\<rparr>)"
proof -
  obtain t a where t: "run_migrations (\<lambda>c. c) first_db = (Some (), t)" "pg_tables t auth_sessions = Some a"
    "tb_rows a = map (upgraded_row (pg_now first_db)) (table_rows first_db auth_sessions)"
    "task_db_of t = (task_db_of first_db)\<lparr>schedule := [], t_serial := 1\<rparr>"
    "\<forall>later. run_migrations (\<lambda>c. c) (t\<lparr>pg_now := later\<rparr>) = (Some (), t\<lparr>pg_now := later\<rparr>)"
    using migrations_upgrade [OF first_migratable, of "\<lambda>c. c"] by blast
  have first: "table_rows first_db auth_sessions = tb_rows first_auth" "table_rows first_db queued_tasks = tb_rows first_queue"
    "pg_now first_db = seconds 60"
    by (simp_all add: table_rows_def first_db_def)
  have "queue (task_db_of first_db) = map read_queue_row (tb_rows first_queue)" by (simp add: task_db_of_def first)
  then have "queue (task_db_of t) = [read_queue_row (hd (tb_rows first_queue))]" "schedule (task_db_of t) = []"
    unfolding t(4) by (simp_all add: first_queue_def)
  moreover have "map (\<lambda>r. (r ''id'', r ''old_id'', r ''time_minted'')) (tb_rows a) =
      [(Some (VUuid 0), Some (VUuid 0), Some (VTime (seconds 60)))]"
    unfolding t(3) first by (simp add: first_auth_def upgraded_row_def)
  ultimately show ?thesis using t(1,2) t(5) [rule_format, of 0] by (intro exI [of _ t] exI [of _ a] conjI) assumption+
qed

lemma upgraded_sessions_stay_valid_witness:
  "\<exists>t a u. run_migrations (\<lambda>c. c) first_db = (Some (), t) \<and>
    ping_auth_session demo_dal (auth_db_of (t\<lparr>pg_now := minutes 8\<rparr>)) 10 (uuid_text demo_dal 0) = (Inr (Some a), u) \<and>
    s_meta a = None"
proof -
  let ?r = "hd (tb_rows first_auth)"
  have r: "?r ''id'' = Some (VUuid 0)" "?r ''role'' = Some (VText (role_text demo_dal Customer))"
    "?r ''last_interacted'' = Some (VTime 0)" "?r ''meta'' = Some VNull"
    by (simp_all add: first_auth_def)
  have db: "pg_tables first_db auth_sessions = Some first_auth" "pg_uuids first_db = of_nat" "pg_drawn first_db = 1"
    by (simp_all add: first_db_def)
  have names: "''old_id'' \<notin> set (column_names first_auth)" by (simp add: first_auth_def column_names_def)
  have ids: "\<forall>r \<in> set (tb_rows first_auth). \<exists>k < pg_drawn first_db. r ''id'' = Some (VUuid (pg_uuids first_db k))"
    by (simp add: first_auth_def db)
  have roles: "\<forall>r \<in> set (tb_rows first_auth). \<exists>txt role. r ''role'' = Some (VText txt) \<and> role_parse demo_dal txt = Inr role"
    using demo_role [of Customer] by (auto simp: first_auth_def)
  have mem: "?r \<in> set (tb_rows first_auth)" by (simp add: first_auth_def)
  have "\<exists>t. run_migrations (\<lambda>c. c) first_db = (Some (), t) \<and> auth_inv demo_dal 10 (auth_db_of (t\<lparr>pg_now := minutes 8\<rparr>)) \<and>
    (\<exists>a u. ping_auth_session demo_dal (auth_db_of (t\<lparr>pg_now := minutes 8\<rparr>)) 10 (uuid_text demo_dal 0) = (Inr (Some a), u) \<and>
      s_meta a = get_json (?r ''meta''))"
    by (rule upgraded_sessions_stay_valid [OF first_migratable db(1) names _ _ ids roles _ mem r(1,3)])
      (use demo_uuids in \<open>simp_all add: db minutes_def\<close>)
  then show ?thesis using r(4) by fastforce
qed

lemma migrations_keep_tables_typed_witness:
  "pg_ok (snd (run_migrations (\<lambda>c. c) (first_db\<lparr>pg_indexes := [scheduled_tasks \<mapsto> \<lparr>ix_table = queued_tasks,
    ix_column = ''status'', ix_where = None\<rparr>]\<rparr>)))"
proof -
  let ?s = "first_db\<lparr>pg_indexes := [scheduled_tasks \<mapsto> \<lparr>ix_table = queued_tasks, ix_column = ''status'', ix_where = None\<rparr>]\<rparr>"
  have "pg_ok ?s"
    using first_tables by (auto simp: pg_ok_def index_ok_def first_db_def first_queue_def queue_columns_def column_names_def
        auth_sessions_def queued_tasks_def split: if_splits)
  then show ?thesis using migrations_keep_tables_typed [of ?s "\<lambda>c. c"] by (metis prod.collapse)
qed

lemma migrated_rows_decode_witness:
  "\<exists>q. pg_tables (snd (run_migrations (\<lambda>c. c) first_db)) queued_tasks = Some q \<and>
    queued_from_row (\<lambda>c v. c) (hd (tb_rows first_queue)) = task_from_row (read_queue_row (hd (tb_rows first_queue)))"
proof -
  have auth: "case pg_tables first_db auth_sessions of None \<Rightarrow> True | Some a \<Rightarrow> has_columns first_columns a"
    by (simp add: first_db_def first_auth_def has_columns_def first_columns_def auth_columns_def column_of_def)
  have queue: "case pg_tables first_db queued_tasks of None \<Rightarrow> True | Some q \<Rightarrow> has_columns queue_columns q"
    by (simp add: first_db_def first_queue_def has_columns_def queue_columns_def column_of_def)
  obtain out t where run: "run_migrations (\<lambda>c. c) first_db = (out, t)" by fastforce
  obtain q where q: "pg_tables t queued_tasks = Some q"
    "\<forall>rs. table_ok (q\<lparr>tb_rows := rs\<rparr>) \<longrightarrow> list_all (\<lambda>r. queued_from_row (\<lambda>c v. c) r = task_from_row (read_queue_row r)) rs"
    using migrated_rows_decode [OF first_migratable run auth queue, of demo_dal "\<lambda>c v. c"] by blast
  have "q = first_queue"
    using migrations_run(1) [OF first_migratable, of "\<lambda>c. c"] run q(1) migrated_tables(2) [of first_db]
    by (simp add: queue_table_def first_db_def)
  then have "list_all (\<lambda>r. queued_from_row (\<lambda>c v. c) r = task_from_row (read_queue_row r)) (tb_rows first_queue)"
    using q(2) [rule_format, of "tb_rows first_queue"] first_tables by simp
  then show ?thesis using q(1) run by (simp add: first_queue_def)
qed

end
