(* ===== verification/Pools.thy ===== *)
theory Pools
  imports Config Disk_Fs
begin

text \<open>
  Where the connections come from: \<open>dal/connections.rs\<close> with the macro \<open>src/macros/db-pool-macro\<close>, the
  embedded server of \<open>dal/embedded_connections.rs\<close> with \<open>src/macros/db-embedded-pool-macro\<close>, scripts from
  disk (\<open>auth/dal/run_script.rs\<close>) and the database of a test (\<open>src/macros/test-macro\<close>). The environment may
  differ at every call. Parsing a connection string, connecting, and the embedded server's own calls
  are parameters; \<open>None\<close> is a panic.
\<close>

section \<open>The size of a pool\<close>

text \<open>\<open>str::parse::<u32>\<close>: a plus sign is allowed, a minus sign is an invalid digit.\<close>

fun u32_digits :: "int \<Rightarrow> string \<Rightarrow> string + int" where
  "u32_digits acc [] = Inr acc"
| "u32_digits acc (c # cs) =
     (case digit_value c of
        None \<Rightarrow> Inl ''invalid digit found in string''
      | Some d \<Rightarrow>
          (let n = acc * 10 + d
           in if n < 2 ^ 32 then u32_digits n cs else Inl ''number too large to fit in target type''))"

definition parse_u32 :: "string \<Rightarrow> string + int" where
  "parse_u32 s =
     (case s of
        [] \<Rightarrow> Inl ''cannot parse integer from empty string''
      | c # r \<Rightarrow>
          if (c = CHR ''+'' \<or> c = CHR ''-'') \<and> r = [] then Inl ''invalid digit found in string''
          else if c = CHR ''+'' then u32_digits 0 r
          else u32_digits 0 s)"

definition max_connections :: "(string \<Rightarrow> string option) \<Rightarrow> string \<Rightarrow> int option" where
  "max_connections env max_conn_env =
     (case parse_u32 (trim (case env max_conn_env of Some val \<Rightarrow> val | None \<Rightarrow> ''5'')) of
        Inl _ \<Rightarrow> None
      | Inr n \<Rightarrow> Some n)"

section \<open>Lazy pools\<close>

record 'o pool =
  pl_options :: 'o
  pl_max :: int

definition define_pg_pool ::
    "(string \<Rightarrow> string + 'o) \<Rightarrow> string \<Rightarrow> string \<Rightarrow> (string \<Rightarrow> string option) \<Rightarrow> 'o pool option" where
  "define_pg_pool parse_url url_env max_conn_env env =
     (case env url_env of
        None \<Rightarrow> None
      | Some connection_string \<Rightarrow>
          (case max_connections env max_conn_env of
             None \<Rightarrow> None
           | Some n \<Rightarrow>
               (case parse_url connection_string of
                  Inl _ \<Rightarrow> None
                | Inr opts \<Rightarrow> Some \<lparr>pl_options = opts, pl_max = n\<rparr>)))"

text \<open>\<open>LazyLock\<close>: forced once; a panic of the initialiser poisons it.\<close>

datatype 'a lazy_lock = Unforced | Forced 'a | Poisoned

definition lazy_force :: "'a option \<Rightarrow> 'a lazy_lock \<Rightarrow> 'a option \<times> 'a lazy_lock" where
  "lazy_force made l =
     (case l of
        Unforced \<Rightarrow> (case made of Some a \<Rightarrow> (Some a, Forced a) | None \<Rightarrow> (None, Poisoned))
      | Forced a \<Rightarrow> (Some a, Forced a)
      | Poisoned \<Rightarrow> (None, Poisoned))"

definition yield_live_pool ::
    "(string \<Rightarrow> string + 'o) \<Rightarrow> (string \<Rightarrow> string option) \<Rightarrow> 'o pool lazy_lock \<Rightarrow> 'o pool option \<times> 'o pool lazy_lock" where
  "yield_live_pool parse_url env l =
     lazy_force (define_pg_pool parse_url ''DATABASE_URL'' ''DB_MAX_CONNECTIONS'' env) l"

text \<open>\<open>Pool::connect_lazy\<close> without options takes the crate's default size.\<close>

definition yield_dead_pool ::
    "(string \<Rightarrow> string + 'o) \<Rightarrow> int \<Rightarrow> 'o pool lazy_lock \<Rightarrow> 'o pool option \<times> 'o pool lazy_lock" where
  "yield_dead_pool parse_url default_max l =
     lazy_force (case parse_url ''postgres://invalid'' of
       Inl _ \<Rightarrow> None | Inr opts \<Rightarrow> Some \<lparr>pl_options = opts, pl_max = default_max\<rparr>) l"

fun yields ::
    "(string \<Rightarrow> string + 'o) \<Rightarrow> (string \<Rightarrow> string option) list \<Rightarrow> 'o pool lazy_lock \<Rightarrow> 'o pool option list" where
  "yields parse_url [] l = []"
| "yields parse_url (env # envs) l =
     (case yield_live_pool parse_url env l of (p, l') \<Rightarrow> p # yields parse_url envs l')"

lemma yields_settled:
  "l \<noteq> Unforced \<Longrightarrow> yields parse_url envs l = replicate (length envs) (case l of Forced a \<Rightarrow> Some a | _ \<Rightarrow> None)"
  by (induction envs) (auto simp: yield_live_pool_def lazy_force_def split: lazy_lock.splits)

text \<open>The environment at the first use decides for the whole run: every access gives that pool, or panics.\<close>

lemma live_pool_is_settled:
  "yields parse_url (env # envs) Unforced =
    replicate (Suc (length envs)) (define_pg_pool parse_url ''DATABASE_URL'' ''DB_MAX_CONNECTIONS'' env)"
  by (simp add: yield_live_pool_def lazy_force_def yields_settled split: option.split)

section \<open>The embedded server\<close>

record ('w, 'p) embedded_ops =
  emb_setup :: "'w \<Rightarrow> (string + unit) \<times> 'w"
  emb_start :: "'w \<Rightarrow> (string + unit) \<times> 'w"
  emb_exists :: "string \<Rightarrow> 'w \<Rightarrow> (string + bool) \<times> 'w"
  emb_create :: "string \<Rightarrow> 'w \<Rightarrow> (string + unit) \<times> 'w"
  emb_dropped :: "'w \<Rightarrow> 'w"
  emb_url :: "string \<Rightarrow> string"
  emb_connect :: "int \<Rightarrow> string \<Rightarrow> 'w \<Rightarrow> (string + 'p) \<times> 'w"

text \<open>The two cells and the world outside.\<close>

record ('w, 'p) embedded =
  em_world :: 'w
  em_instance :: bool
  em_pool :: "'p option"

text \<open>Starting the server; a panic on the way drops it.\<close>

definition boot :: "('w, 'p) embedded_ops \<Rightarrow> string \<Rightarrow> 'w \<Rightarrow> bool \<times> 'w" where
  "boot O' database_name w =
     (case st_bind (emb_setup O' w) (\<lambda>_ w.
        st_bind (emb_start O' w) (\<lambda>_ w.
        st_bind (emb_exists O' database_name w) (\<lambda>there w.
          if there then (Inr (), w) else emb_create O' database_name w))) of
        (Inl _, w) \<Rightarrow> (False, emb_dropped O' w)
      | (Inr _, w) \<Rightarrow> (True, w))"

text \<open>\<open>OnceCell::get_or_init\<close>: a cell whose initialiser panicked is still empty.\<close>

definition get_instance :: "('w, 'p) embedded_ops \<Rightarrow> string \<Rightarrow> ('w, 'p) embedded \<Rightarrow> bool \<times> ('w, 'p) embedded" where
  "get_instance O' database_name st =
     (if em_instance st then (True, st)
      else (case boot O' database_name (em_world st) of (b, w) \<Rightarrow> (b, st\<lparr>em_world := w, em_instance := b\<rparr>)))"

definition define_embedded_pg_pool ::
    "('w, 'p) embedded_ops \<Rightarrow> string \<Rightarrow> string \<Rightarrow> (string \<Rightarrow> string option) \<Rightarrow> ('w, 'p) embedded
     \<Rightarrow> 'p option \<times> ('w, 'p) embedded" where
  "define_embedded_pg_pool O' db_name_env max_conn_env env st =
     (case env db_name_env of
        None \<Rightarrow> (None, st)
      | Some database_name \<Rightarrow>
          (case max_connections env max_conn_env of
             None \<Rightarrow> (None, st)
           | Some n \<Rightarrow>
               (case get_instance O' database_name st of
                  (False, st) \<Rightarrow> (None, st)
                | (True, st) \<Rightarrow>
                    (case em_pool st of
                       Some p \<Rightarrow> (Some p, st)
                     | None \<Rightarrow>
                         (case emb_connect O' n (emb_url O' database_name) (em_world st) of
                            (Inl _, w) \<Rightarrow> (None, st\<lparr>em_world := w\<rparr>)
                          | (Inr p, w) \<Rightarrow> (Some p, st\<lparr>em_world := w, em_pool := Some p\<rparr>))))))"

definition init_live_embedded_postgres_pool ::
    "('w, 'p) embedded_ops \<Rightarrow> (string \<Rightarrow> string option) \<Rightarrow> ('w, 'p) embedded \<Rightarrow> 'p option \<times> ('w, 'p) embedded" where
  "init_live_embedded_postgres_pool O' env st =
     define_embedded_pg_pool O' ''EMBEDDED_DATABASE_NAME'' ''DB_MAX_CONNECTIONS'' env st"

definition yield_embedded_pool :: "('w, 'p) embedded \<Rightarrow> 'p option" where
  "yield_embedded_pool st = em_pool st"

fun inits :: "('w, 'p) embedded_ops \<Rightarrow> (string \<Rightarrow> string option) list \<Rightarrow> ('w, 'p) embedded \<Rightarrow> 'p option list \<times> ('w, 'p) embedded" where
  "inits O' [] st = ([], st)"
| "inits O' (env # envs) st =
     (case init_live_embedded_postgres_pool O' env st of (p, st') \<Rightarrow>
       (case inits O' envs st' of (ps, st'') \<Rightarrow> (p # ps, st'')))"

definition names_pool :: "(string \<Rightarrow> string option) \<Rightarrow> bool" where
  "names_pool env \<longleftrightarrow> env ''EMBEDDED_DATABASE_NAME'' \<noteq> None \<and> max_connections env ''DB_MAX_CONNECTIONS'' \<noteq> None"

text \<open>Once there is a pool there is a server, and a call only looks at the environment.\<close>

lemma init_there:
  "em_pool st = Some p \<Longrightarrow> em_instance st \<Longrightarrow>
    init_live_embedded_postgres_pool O' env st = (if names_pool env then Some p else None, st)"
  by (auto simp: init_live_embedded_postgres_pool_def define_embedded_pg_pool_def get_instance_def names_pool_def
      split: option.splits)

lemma inits_there:
  "em_pool st = Some p \<Longrightarrow> em_instance st \<Longrightarrow>
    inits O' envs st = (map (\<lambda>env. if names_pool env then Some p else None) envs, st)"
  by (induction envs) (simp_all add: init_there)

lemma init_makes:
  assumes "init_live_embedded_postgres_pool O' env st = (Some p, st')"
  shows "em_instance st' \<and> em_pool st' = Some p"
  using assms
  by (auto simp: init_live_embedded_postgres_pool_def define_embedded_pg_pool_def get_instance_def
      split: option.splits prod.splits sum.splits bool.splits if_splits)

text \<open>C31: Once \<open>init_live_embedded_postgres_pool\<close> has returned a pool, \<open>yield_pool\<close> gives that pool, and any number
  of further calls, in environments that name a database and a size as the first did, possibly others,
  return the same pool, start no server, create no database, connect to nothing and change nothing.\<close>

theorem embedded_pool_is_kept:
  assumes "init_live_embedded_postgres_pool O' env st = (Some p, st')" and "\<forall>env \<in> set envs. names_pool env"
  shows "yield_embedded_pool st' = Some p \<and> inits O' envs st' = (replicate (length envs) (Some p), st')"
proof -
  have "map (\<lambda>env. if names_pool env then Some p else None) envs = replicate (length envs) (Some p)"
    using assms(2) by (simp add: map_replicate_const [symmetric] cong: map_cong)
  then show ?thesis using init_makes [OF assms(1)] by (simp add: yield_embedded_pool_def inits_there)
qed

text \<open>In an environment without the name of a database a further call panics, although the pool is there.\<close>

lemma init_panics_without_a_name:
  assumes "init_live_embedded_postgres_pool O' env st = (Some p, st')"
  shows "init_live_embedded_postgres_pool O' Map.empty st' = (None, st')"
  using init_makes [OF assms] by (simp add: init_there names_pool_def)

text \<open>A server that keeps its databases in a list; the pool is the name and the size.\<close>

definition list_server :: "(string list, string \<times> int) embedded_ops" where
  "list_server = \<lparr>emb_setup = \<lambda>w. (Inr (), w), emb_start = \<lambda>w. (Inr (), w),
     emb_exists = \<lambda>n w. (Inr (n \<in> set w), w), emb_create = \<lambda>n w. (Inr (), n # w), emb_dropped = id, emb_url = id,
     emb_connect = \<lambda>k n w. (if n \<in> set w then Inr (n, k) else Inl ''no database'', w)\<rparr>"

abbreviation demo_env :: "string \<Rightarrow> string option" where
  "demo_env \<equiv> [''EMBEDDED_DATABASE_NAME'' \<mapsto> ''app'']"

abbreviation no_server :: "(string list, string \<times> int) embedded" where
  "no_server \<equiv> \<lparr>em_world = [], em_instance = False, em_pool = None\<rparr>"

lemma default_size: "max_connections demo_env ''DB_MAX_CONNECTIONS'' = Some 5"
  by (simp add: max_connections_def parse_u32_def trim_def is_space_def digit_value_def Let_def)

lemma demo_boot: "init_live_embedded_postgres_pool list_server demo_env no_server =
    (Some (''app'', 5), \<lparr>em_world = [''app''], em_instance = True, em_pool = Some (''app'', 5)\<rparr>)"
  by (simp add: init_live_embedded_postgres_pool_def define_embedded_pg_pool_def default_size get_instance_def boot_def
      list_server_def)

lemma embedded_pool_is_kept_witness:
  "inits list_server [demo_env, [''EMBEDDED_DATABASE_NAME'' \<mapsto> ''other'']]
      (snd (init_live_embedded_postgres_pool list_server demo_env no_server)) =
    ([Some (''app'', 5), Some (''app'', 5)], \<lparr>em_world = [''app''], em_instance = True, em_pool = Some (''app'', 5)\<rparr>)"
proof -
  have "max_connections [''EMBEDDED_DATABASE_NAME'' \<mapsto> ''other''] ''DB_MAX_CONNECTIONS'' = Some 5"
    by (simp add: max_connections_def parse_u32_def trim_def is_space_def digit_value_def Let_def)
  then have "\<forall>env \<in> set [demo_env, [''EMBEDDED_DATABASE_NAME'' \<mapsto> ''other'']]. names_pool env"
    using default_size by (simp add: names_pool_def)
  from embedded_pool_is_kept [OF demo_boot this] show ?thesis by (simp add: demo_boot)
qed

text \<open>A start that fails leaves the cells empty, so that a later call tries again.\<close>

lemma failed_boot_can_be_retried:
  assumes "init_live_embedded_postgres_pool O' env st = (None, st')" and "\<not> em_instance st" and "em_pool st = None"
    and "\<And>n w. emb_start O' w = (Inl e, w)"
  shows "\<not> em_instance st' \<and> em_pool st' = None"
  using assms
  by (auto simp: init_live_embedded_postgres_pool_def define_embedded_pg_pool_def get_instance_def boot_def st_bind_def
      split: option.splits sum.splits prod.splits bool.splits if_splits)

section \<open>Scripts from disk\<close>

definition run_sql_script ::
    "(os_error \<Rightarrow> string) \<Rightarrow> ('e \<Rightarrow> string) \<Rightarrow> (ustring \<Rightarrow> 's \<Rightarrow> ('e + unit) \<times> 's) \<Rightarrow> (string \<Rightarrow> string option)
     \<Rightarrow> string option \<Rightarrow> disk \<Rightarrow> string \<Rightarrow> 's \<Rightarrow> (saps_error + unit) option \<times> 's" where
  "run_sql_script io_text db_text execute env current_dir d relative_path s =
     (case (case env ''CARGO_MANIFEST_DIR'' of Some dir \<Rightarrow> Some dir | None \<Rightarrow> current_dir) of
        None \<Rightarrow> (None, s)
      | Some workspace_root \<Rightarrow>
          let full_path = push workspace_root relative_path in
          (case fs_read_to_string d full_path of
             Inl e \<Rightarrow> (Some (Inl (unknown (''failed to read SQL file '' @ full_path @ '': '' @ io_text e))), s)
           | Inr sql \<Rightarrow>
               (case execute sql s of
                  (Inl e, s) \<Rightarrow> (Some (Inl (unknown (''failed to execute SQL script '' @ full_path @ '': '' @ db_text e))), s)
                | (Inr _, s) \<Rightarrow> (Some (Inr ()), s))))"

text \<open>A script that cannot be read runs nothing.\<close>

lemma unread_script_runs_nothing:
  assumes "run_sql_script io_text db_text execute env cwd d p s = (out, s')"
    and "\<And>dir. fs_read_to_string d (push dir p) = Inl e"
  shows "s' = s \<and> out \<noteq> Some (Inr ())"
  using assms by (auto simp: run_sql_script_def Let_def split: option.splits)

text \<open>A path with a root is not looked up under the workspace.\<close>

lemma rooted_script: "has_root p \<Longrightarrow> env ''CARGO_MANIFEST_DIR'' = Some dir \<Longrightarrow>
    run_sql_script io_text db_text execute env cwd d p s =
    run_sql_script io_text db_text execute [''CARGO_MANIFEST_DIR'' \<mapsto> []] None d p s"
  by (simp add: run_sql_script_def push_def)

section \<open>The database of a test\<close>

text \<open>\<open>db_test\<close>: the server is a map from database names to their contents; \<open>admin k\<close> is whether the
  connection for the \<open>k\<close>-th administrative statement can be had; \<open>body\<close> is the migrations and the test,
  with whether it panicked. \<open>True\<close>: the test passes.\<close>

definition db_test ::
    "string \<Rightarrow> (nat \<Rightarrow> bool) \<Rightarrow> 'd \<Rightarrow> ('d \<Rightarrow> bool \<times> 'd) \<Rightarrow> (string \<rightharpoonup> 'd) \<Rightarrow> bool \<times> (string \<rightharpoonup> 'd)" where
  "db_test db_name admin fresh body server =
     (if \<not> admin 0 then (False, server)
      else if server db_name \<noteq> None then (False, server)
      else (case body fresh of (panicked, d) \<Rightarrow>
        if \<not> admin 1 then (False, server(db_name \<mapsto> d))
        else (\<not> panicked, server(db_name := None))))"

text \<open>While the server answers, a test leaves no database behind, even when it panics.\<close>

lemma db_test_cleans_up:
  assumes "admin 0" and "admin 1" and "server db_name = None"
  shows "db_test db_name admin fresh body server = (\<not> fst (body fresh), server)"
  using assms by (auto simp: db_test_def fun_upd_idem split: prod.split)

text \<open>The name is fixed when the test is compiled: a database left behind makes every later run fail.\<close>

lemma db_test_left_over: "server db_name \<noteq> None \<Longrightarrow> db_test db_name admin fresh body server = (False, server)"
  by (simp add: db_test_def)

end
