(* ===== verification/Async_Cancel.thy ===== *)
theory Async_Cancel
  imports Guard
begin

text \<open>
  The async twins of the buffer operations (\<open>full_mem_file.rs\<close>, \<open>tx_async.rs\<close>, \<open>async_guard.rs\<close>) with their
  await points. A future is driven until \<open>k\<close> of its calls to the store have come back and is then
  dropped while the next one is in flight; \<open>late\<close> is whether a write in flight still takes effect.
  A step returns \<open>Ready\<close> with the number of calls left, or \<open>Dropped\<close> with what it leaves behind; the
  part of a body after a dropped await does not run. A future that is never polled does nothing and is
  left out. Awaited to the end these are the steps of
  \<open>Mem_File\<close> and \<open>Guard\<close>.
\<close>

section \<open>Awaiting the store\<close>

datatype 'a poll = Ready 'a | Dropped

type_synonym ('doc, 's) await_result = "((file_error + unit) poll \<times> nat \<times> 'doc mem_file \<times> 's) option"

definition write_await :: "'s file_io \<Rightarrow> bool \<Rightarrow> nat \<Rightarrow> 's \<Rightarrow> file_path \<Rightarrow> ustring \<Rightarrow>
    (file_error + unit) poll \<times> nat \<times> 's" where
  "write_await io late k s path contents =
     (case k of
        0 \<Rightarrow> (Dropped, 0, if late then snd (fio_write io s path contents) else s)
      | Suc k \<Rightarrow> (case fio_write io s path contents of (r, s) \<Rightarrow> (Ready r, k, s)))"

section \<open>A buffer\<close>

definition save_await :: "('doc, 'u, 'v) yrs \<Rightarrow> 's file_io \<Rightarrow> bool \<Rightarrow> nat \<Rightarrow> 'doc mem_file \<Rightarrow> 's \<Rightarrow>
    (file_error + unit) poll \<times> nat \<times> 'doc mem_file \<times> 's" where
  "save_await Y io late k f s =
     (case write_await io late k s (mf_path f) (mf_contents Y f) of
        (Dropped, k, s) \<Rightarrow> (Dropped, k, f, s)
      | (Ready (Inl e), k, s) \<Rightarrow> (Ready (Inl e), k, f, s)
      | (Ready (Inr _), k, s) \<Rightarrow> (Ready (Inr ()), k, f\<lparr>ops_since_save := 0\<rparr>, s))"

definition record_await :: "('doc, 'u, 'v) yrs \<Rightarrow> 's file_io \<Rightarrow> bool \<Rightarrow> nat \<Rightarrow> 'doc mem_file \<Rightarrow> 's \<Rightarrow>
    (file_error + unit) poll \<times> nat \<times> 'doc mem_file \<times> 's" where
  "record_await Y io late k f s =
     (let f = f\<lparr>ops_since_save := ops_since_save f + 1\<rparr> in
      if ops_since_save f \<ge> save_threshold then save_await Y io late k f s else (Ready (Inr ()), k, f, s))"

definition insert_char_await :: "('doc, 'u, 'v) yrs \<Rightarrow> 's file_io \<Rightarrow> bool \<Rightarrow> nat \<Rightarrow> 'doc mem_file \<Rightarrow> 's \<Rightarrow>
    cursor_index \<Rightarrow> nat \<Rightarrow> ('doc, 's) await_result" where
  "insert_char_await Y io late k f s position character =
     map_option (\<lambda>doc. record_await Y io late k (f\<lparr>mf_doc := doc\<rparr>) s)
       (tx_insert_char Y (mf_contents Y f) (mf_doc f) position character)"

definition delete_char_await :: "('doc, 'u, 'v) yrs \<Rightarrow> 's file_io \<Rightarrow> bool \<Rightarrow> nat \<Rightarrow> 'doc mem_file \<Rightarrow> 's \<Rightarrow>
    cursor_index \<Rightarrow> ('doc, 's) await_result" where
  "delete_char_await Y io late k f s position =
     map_option (\<lambda>doc. record_await Y io late k (f\<lparr>mf_doc := doc\<rparr>) s)
       (tx_delete_char Y (mf_contents Y f) (mf_doc f) position)"

definition delete_range_await :: "('doc, 'u, 'v) yrs \<Rightarrow> 's file_io \<Rightarrow> bool \<Rightarrow> nat \<Rightarrow> 'doc mem_file \<Rightarrow> 's \<Rightarrow>
    cursor_index \<Rightarrow> nat \<Rightarrow> ('doc, 's) await_result" where
  "delete_range_await Y io late k f s position delta =
     map_option (\<lambda>doc. save_await Y io late k (f\<lparr>mf_doc := doc\<rparr>) s)
       (tx_delete_range Y (mf_contents Y f) (mf_doc f) position delta)"

definition insert_text_await :: "('doc, 'u, 'v) yrs \<Rightarrow> 's file_io \<Rightarrow> bool \<Rightarrow> nat \<Rightarrow> 'doc mem_file \<Rightarrow> 's \<Rightarrow>
    cursor_index \<Rightarrow> ustring \<Rightarrow> ('doc, 's) await_result" where
  "insert_text_await Y io late k f s position data =
     map_option (\<lambda>doc. save_await Y io late k (f\<lparr>mf_doc := doc\<rparr>) s)
       (tx_insert_text Y (mf_contents Y f) (mf_doc f) position data)"

section \<open>A transaction\<close>

definition await_then :: "('doc, 's) await_result \<Rightarrow> (nat \<Rightarrow> 'doc mem_file \<Rightarrow> 's \<Rightarrow> ('doc, 's) await_result) \<Rightarrow>
    ('doc, 's) await_result" where
  "await_then r h =
     (case r of
        None \<Rightarrow> None
      | Some (Dropped, k, file, s) \<Rightarrow> Some (Dropped, k, file, s)
      | Some (Ready (Inl e), k, file, s) \<Rightarrow> Some (Ready (Inl e), k, file, s)
      | Some (Ready (Inr _), k, file, s) \<Rightarrow> h k file s)"

definition apply_insert_await :: "('doc, 'u, 'v) yrs \<Rightarrow> 's file_io \<Rightarrow> bool \<Rightarrow> nat \<Rightarrow> 'doc mem_file \<Rightarrow> 's \<Rightarrow>
    cursor_index \<Rightarrow> ustring \<Rightarrow> ('doc, 's) await_result" where
  "apply_insert_await Y io late k file s position content =
     (case content of
        [] \<Rightarrow> Some (Ready (Inr ()), k, file, s)
      | [character] \<Rightarrow> insert_char_await Y io late k file s position character
      | _ \<Rightarrow> insert_text_await Y io late k file s position content)"

definition apply_delete_await :: "('doc, 'u, 'v) yrs \<Rightarrow> 's file_io \<Rightarrow> bool \<Rightarrow> nat \<Rightarrow> 'doc mem_file \<Rightarrow> 's \<Rightarrow>
    cursor_index \<Rightarrow> nat \<Rightarrow> ('doc, 's) await_result" where
  "apply_delete_await Y io late k file s position len =
     (if len = 0 then Some (Ready (Inr ()), k, file, s)
      else if len = 1 then delete_char_await Y io late k file s position
      else delete_range_await Y io late k file s position len)"

fun apply_operation_await :: "('doc, 'u, 'v) yrs \<Rightarrow> 's file_io \<Rightarrow> bool \<Rightarrow> nat \<Rightarrow> 'doc mem_file \<Rightarrow> 's \<Rightarrow> operation \<Rightarrow>
    ('doc, 's) await_result" where
  "apply_operation_await Y io late k file s (Insert i) =
     apply_insert_await Y io late k file s (ins_position i) (ins_content i)"
| "apply_operation_await Y io late k file s (Delete d) =
     apply_delete_await Y io late k file s (del_position d) (del_length d)"
| "apply_operation_await Y io late k file s (Swap w) =
     await_then (apply_delete_await Y io late k file s (swap_position w) (swap_length w)) (\<lambda>k file s.
       apply_insert_await Y io late k file s (swap_position w) (swap_content w))"

fun apply_ops_await :: "('doc, 'u, 'v) yrs \<Rightarrow> 's file_io \<Rightarrow> bool \<Rightarrow> nat \<Rightarrow> 'doc mem_file \<Rightarrow> 's \<Rightarrow> operation list \<Rightarrow>
    ('doc, 's) await_result" where
  "apply_ops_await Y io late k file s [] = Some (Ready (Inr ()), k, file, s)"
| "apply_ops_await Y io late k file s (operation # ops) =
     await_then (apply_operation_await Y io late k file s operation) (\<lambda>k file s.
       apply_ops_await Y io late k file s ops)"

text \<open>Only a buffer that is not resident awaits the store; a dropped read leaves nothing.\<close>

definition get_file_await :: "('doc, 'u, 'v) yrs \<Rightarrow> 's file_io \<Rightarrow> nat \<Rightarrow> 'doc file_map \<Rightarrow> 's \<Rightarrow> file_path \<Rightarrow>
    ((file_error + 'doc mem_file) poll \<times> nat \<times> 'doc file_map \<times> 's) option" where
  "get_file_await Y io k g s path =
     (if is_resident g path then map_option (\<lambda>(r, g, s). (Ready r, k, g, s)) (async_get_file Y io g s path)
      else (case k of
         0 \<Rightarrow> Some (Dropped, 0, g, s)
       | Suc k \<Rightarrow> map_option (\<lambda>(r, g, s). (Ready r, k, g, s)) (async_get_file Y io g s path)))"

definition transaction_await :: "('doc, 'u, 'v) yrs \<Rightarrow> 's file_io \<Rightarrow> bool \<Rightarrow> nat \<Rightarrow> 'doc file_map \<Rightarrow> 's \<Rightarrow>
    file_path \<Rightarrow> transaction \<Rightarrow> ((file_error + nat list) poll \<times> nat \<times> 'doc file_map \<times> 's) option" where
  "transaction_await Y io late k g s path transaction =
     (case get_file_await Y io k g s path of
        None \<Rightarrow> None
      | Some (Dropped, k, g, s) \<Rightarrow> Some (Dropped, k, g, s)
      | Some (Ready (Inl e), k, g, s) \<Rightarrow> Some (Ready (Inl e), k, g, s)
      | Some (Ready (Inr file), k, g, s) \<Rightarrow>
          (let before = mf_state_vector Y file in
           (case apply_ops_await Y io late k file s (operations transaction) of
              None \<Rightarrow> None
            | Some (Dropped, k, file, s) \<Rightarrow> Some (Dropped, k, put_back path file g, s)
            | Some (Ready (Inl e), k, file, s) \<Rightarrow> Some (Ready (Inl e), k, put_back path file g, s)
            | Some (Ready (Inr _), k, file, s) \<Rightarrow>
                Some (Ready (mf_encode_diff Y file before), k, put_back path file g, s))))"

section \<open>Letting buffers go\<close>

text \<open>The buffer is taken out of the table first; the future owns it, so it goes with the future.\<close>

definition drop_file_await :: "('doc, 'u, 'v) yrs \<Rightarrow> 's file_io \<Rightarrow> bool \<Rightarrow> nat \<Rightarrow> 'doc file_map \<Rightarrow> 's \<Rightarrow>
    file_path \<Rightarrow> unit poll \<times> nat \<times> 'doc file_map \<times> 's" where
  "drop_file_await Y io late k g s path =
     (let g' = hm_remove components (map_key path) g in
      (case hm_get components g (map_key path) of
         None \<Rightarrow> (Ready (), k, g', s)
       | Some file \<Rightarrow>
           (case save_await Y io late k file s of
              (Dropped, k, file, s) \<Rightarrow> (Dropped, k, g', mf_drop Y io file s)
            | (Ready _, k, file, s) \<Rightarrow> (Ready (), k, g', mf_drop Y io file s))))"

fun drop_keys_await :: "('doc, 'u, 'v) yrs \<Rightarrow> 's file_io \<Rightarrow> bool \<Rightarrow> nat \<Rightarrow> string list \<Rightarrow> 'doc file_map \<Rightarrow> 's \<Rightarrow>
    unit poll \<times> nat \<times> 'doc file_map \<times> 's" where
  "drop_keys_await Y io late k [] g s = (Ready (), k, g, s)"
| "drop_keys_await Y io late k (key # keys) g s =
     (case hm_get components g key of
        None \<Rightarrow> drop_keys_await Y io late k keys g s
      | Some file \<Rightarrow>
          (let g' = hm_remove components key g in
           (case save_await Y io late k file s of
              (Dropped, k, file, s) \<Rightarrow> (Dropped, k, g', mf_drop Y io file s)
            | (Ready _, k, file, s) \<Rightarrow> drop_keys_await Y io late k keys g' (mf_drop Y io file s))))"

definition drop_dir_await :: "('doc, 'u, 'v) yrs \<Rightarrow> 's file_io \<Rightarrow> bool \<Rightarrow> nat \<Rightarrow> 'doc file_map \<Rightarrow> 's \<Rightarrow>
    folder_path \<Rightarrow> unit poll \<times> nat \<times> 'doc file_map \<times> 's" where
  "drop_dir_await Y io late k g s dir =
     drop_keys_await Y io late k (filter (\<lambda>key. starts_with key (full_path dir)) (hm_keys g)) g s"

fun snapshot_await :: "('doc, 'u, 'v) yrs \<Rightarrow> 's file_io \<Rightarrow> bool \<Rightarrow> nat \<Rightarrow> 'doc file_map \<Rightarrow> 's \<Rightarrow>
    (file_error + unit) poll \<times> nat \<times> 'doc file_map \<times> 's" where
  "snapshot_await Y io late k [] s = (Ready (Inr ()), k, [], s)"
| "snapshot_await Y io late k ((key, file) # g) s =
     (case save_await Y io late k file s of
        (Dropped, k, file', s') \<Rightarrow> (Dropped, k, (key, file') # g, s')
      | (Ready (Inl e), k, file', s') \<Rightarrow> (Ready (Inl e), k, (key, file') # g, s')
      | (Ready (Inr _), k, file', s') \<Rightarrow>
          (case snapshot_await Y io late k g s' of (r, k, g', s'') \<Rightarrow> (r, k, (key, file') # g', s'')))"

section \<open>Awaited to the end\<close>

text \<open>A future of \<open>n\<close> awaits: dropped before, it is \<open>Dropped\<close>; else it has the result of the step.\<close>

definition awaits :: "nat \<Rightarrow> (nat \<Rightarrow> ('r poll \<times> nat \<times> 'x) option) \<Rightarrow> ('r \<times> 'x) option \<Rightarrow> bool" where
  "awaits n x a \<longleftrightarrow>
     (\<forall>k. if n \<le> k then x k = map_option (\<lambda>(r, y). (Ready r, k - n, y)) a else \<exists>y. x k = Some (Dropped, 0, y))"

lemma awaits_now: "(\<And>k. x k = map_option (\<lambda>(r, y). (Ready r, k, y)) a) \<Longrightarrow> awaits 0 x a"
  by (simp add: awaits_def)

lemma awaits_save: "awaits 1 (\<lambda>k. Some (save_await Y io late k f s)) (Some (mf_save Y io f s))"
  unfolding awaits_def
proof
  fix k show "if 1 \<le> k then Some (save_await Y io late k f s) =
      map_option (\<lambda>(r, y). (Ready r, k - 1, y)) (Some (mf_save Y io f s))
    else \<exists>y. Some (save_await Y io late k f s) = Some (Dropped, 0, y)"
    by (cases k) (auto simp: save_await_def write_await_def mf_save_def split: prod.split sum.split)
qed

lemma awaits_record:
  "\<exists>n \<le> 1. awaits n (\<lambda>k. Some (record_await Y io late k f s)) (Some (record_single_edit Y io f s))"
proof (cases "ops_since_save f + 1 \<ge> save_threshold")
  case True
  then show ?thesis using awaits_save [of Y io late "f\<lparr>ops_since_save := ops_since_save f + 1\<rparr>" s]
    by (intro exI [of _ 1]) (simp add: record_await_def record_single_edit_def Let_def)
next
  case False
  then show ?thesis by (intro exI [of _ 0]) (simp add: record_await_def record_single_edit_def Let_def awaits_def)
qed

lemma awaits_None: "\<exists>n \<le> b. awaits n (\<lambda>k. None) None"
  by (intro exI [of _ 0]) (simp add: awaits_def)

lemma awaits_recorded:
  "\<exists>n \<le> 1. awaits n (\<lambda>k. map_option (\<lambda>doc. record_await Y io late k (f\<lparr>mf_doc := doc\<rparr>) s) d)
    (map_option (\<lambda>doc. record_single_edit Y io (f\<lparr>mf_doc := doc\<rparr>) s) d)"
  using awaits_record [of Y io late _ s] awaits_None [of 1] by (cases d) simp_all

lemma awaits_saved:
  "\<exists>n \<le> 1. awaits n (\<lambda>k. map_option (\<lambda>doc. save_await Y io late k (f\<lparr>mf_doc := doc\<rparr>) s) d)
    (map_option (\<lambda>doc. mf_save Y io (f\<lparr>mf_doc := doc\<rparr>) s) d)"
proof (cases d)
  case (Some doc)
  then show ?thesis using awaits_save [of Y io late "f\<lparr>mf_doc := doc\<rparr>" s] by (intro exI [of _ 1]) simp
qed (use awaits_None [of 1] in simp)

lemmas edit_defs = insert_char_await_def mf_insert_char_def insert_text_await_def mf_insert_text_def
  delete_char_await_def mf_delete_char_def delete_range_await_def mf_delete_range_def

lemma awaits_single:
  "\<exists>n \<le> 1. awaits n (\<lambda>k. insert_char_await Y io late k f s p c) (mf_insert_char Y io f s p c)"
  "\<exists>n \<le> 1. awaits n (\<lambda>k. insert_text_await Y io late k f s p t) (mf_insert_text Y io f s p t)"
  "\<exists>n \<le> 1. awaits n (\<lambda>k. delete_char_await Y io late k f s p) (mf_delete_char Y io f s p)"
  "\<exists>n \<le> 1. awaits n (\<lambda>k. delete_range_await Y io late k f s p m) (mf_delete_range Y io f s p m)"
  unfolding edit_defs by (rule awaits_recorded awaits_saved)+

lemma awaits_nothing: "\<exists>n \<le> b. awaits n (\<lambda>k. Some (Ready r, k, y)) (Some (r, y))"
  by (intro exI [of _ 0]) (simp add: awaits_def)

lemma awaits_more: "m \<le> b \<Longrightarrow> \<exists>n \<le> m. awaits n x a \<Longrightarrow> \<exists>n \<le> b. awaits n x a"
  using order_trans by blast

lemma awaits_edit:
  "\<exists>n \<le> 1. awaits n (\<lambda>k. apply_insert_await Y io late k f s p t) (apply_insert Y io f s p t)"
  "\<exists>n \<le> 1. awaits n (\<lambda>k. apply_delete_await Y io late k f s p m) (apply_delete Y io f s p m)"
proof -
  consider "t = []" | c where "t = [c]" | a b u where "t = a # b # u" by (metis neq_Nil_conv)
  then show "\<exists>n \<le> 1. awaits n (\<lambda>k. apply_insert_await Y io late k f s p t) (apply_insert Y io f s p t)"
    by cases (simp_all only: apply_insert_await_def apply_insert_def list.case awaits_nothing awaits_single)
  show "\<exists>n \<le> 1. awaits n (\<lambda>k. apply_delete_await Y io late k f s p m) (apply_delete Y io f s p m)"
    using awaits_nothing [of 1 "Inr ()" "(f, s)"] awaits_single(3,4) [of Y io late f s p]
    by (cases "m = 0"; cases "m = 1") (simp_all add: apply_delete_await_def apply_delete_def)
qed

text \<open>Sequencing: the second part is awaited when the first has succeeded.\<close>

lemma awaits_then:
  assumes "\<exists>n \<le> b. awaits n x a"
    and "\<And>u f s. a = Some (Inr u, f, s) \<Longrightarrow> \<exists>n \<le> c. awaits n (\<lambda>k. h k f s) (h' f s)"
  shows "\<exists>n \<le> b + c. awaits n (\<lambda>k. await_then (x k) h) (and_then a h')"
proof -
  obtain n where n: "n \<le> b" "awaits n x a" using assms(1) by blast
  have dropped: "\<exists>y. x k = Some (Dropped, 0, y)" if "k < n" for k
    using n(2) that by (auto simp: awaits_def dest!: spec [of _ k])
  have ready: "x k = map_option (\<lambda>(r, y). (Ready r, k - n, y)) a" if "n \<le> k" for k
    using n(2) that by (auto simp: awaits_def dest!: spec [of _ k])
  show ?thesis
  proof (cases "\<exists>u f s. a = Some (Inr u, f, s)")
    case True
    then obtain u f s where a: "a = Some (Inr u, f, s)" by blast
    then obtain m where m: "m \<le> c" "awaits m (\<lambda>k. h k f s) (h' f s)" using assms(2) by blast
    have "if n + m \<le> k then await_then (x k) h = map_option (\<lambda>(r, y). (Ready r, k - (n + m), y)) (and_then a h')
        else \<exists>y. await_then (x k) h = Some (Dropped, 0, y)" for k
    proof (cases "n \<le> k")
      case True
      then have "await_then (x k) h = h (k - n) f s" by (simp add: ready a await_then_def)
      moreover have "if m \<le> k - n then h (k - n) f s = map_option (\<lambda>(r, y). (Ready r, k - n - m, y)) (h' f s)
          else \<exists>y. h (k - n) f s = Some (Dropped, 0, y)" using m(2) unfolding awaits_def by blast
      ultimately show ?thesis using True by (auto simp: a and_then_def split: if_splits)
    next
      case False
      then show ?thesis using dropped [of k] by (auto simp: await_then_def)
    qed
    then have "awaits (n + m) (\<lambda>k. await_then (x k) h) (and_then a h')" unfolding awaits_def by blast
    moreover have "n + m \<le> b + c" using n(1) m(1) by simp
    ultimately show ?thesis by blast
  next
    case False
    then have a: "and_then a h' = a" "await_then (map_option (\<lambda>(r, y). (Ready r, k, y)) a) h =
        map_option (\<lambda>(r, y). (Ready r, k, y)) a" for k
      by (cases a; auto simp: and_then_def await_then_def split: sum.splits)+
    have "if n \<le> k then await_then (x k) h = map_option (\<lambda>(r, y). (Ready r, k - n, y)) (and_then a h')
        else \<exists>y. await_then (x k) h = Some (Dropped, 0, y)" for k
      using dropped [of k] ready [of k] a by (cases "n \<le> k") (auto simp: await_then_def)
    then have "awaits n (\<lambda>k. await_then (x k) h) (and_then a h')" unfolding awaits_def by blast
    moreover have "n \<le> b + c" using n(1) by simp
    ultimately show ?thesis by blast
  qed
qed

lemma awaits_operation:
  "\<exists>n \<le> 2. awaits n (\<lambda>k. apply_operation_await Y io late k f s op) (apply_operation Y io f s op)"
proof (cases op)
  case (Swap w)
  have "\<exists>n \<le> 1 + 1. awaits n (\<lambda>k. await_then (apply_delete_await Y io late k f s (swap_position w) (swap_length w))
      (\<lambda>k f s. apply_insert_await Y io late k f s (swap_position w) (swap_content w)))
    (and_then (apply_delete Y io f s (swap_position w) (swap_length w))
      (\<lambda>f s. apply_insert Y io f s (swap_position w) (swap_content w)))"
    by (intro awaits_then awaits_edit)
  then show ?thesis by (simp add: Swap numeral_2_eq_2)
next
  case (Insert i)
  then show ?thesis using awaits_edit(1) [of Y io late f s "ins_position i" "ins_content i"] by (simp add: awaits_more [of 1 2])
next
  case (Delete d)
  then show ?thesis using awaits_edit(2) [of Y io late f s "del_position d" "del_length d"] by (simp add: awaits_more [of 1 2])
qed

lemma awaits_ops:
  "\<exists>n \<le> 2 * length ops. awaits n (\<lambda>k. apply_ops_await Y io late k f s ops) (apply_ops Y io f s ops)"
proof (induction ops arbitrary: f s)
  case Nil
  show ?case by (simp add: awaits_def)
next
  case (Cons op ops)
  have "\<exists>n \<le> 2 + 2 * length ops. awaits n (\<lambda>k. await_then (apply_operation_await Y io late k f s op)
      (\<lambda>k f s. apply_ops_await Y io late k f s ops)) (and_then (apply_operation Y io f s op) (\<lambda>f s. apply_ops Y io f s ops))"
    by (intro awaits_then awaits_operation Cons.IH)
  then show ?case by simp
qed

lemma awaitsD:
  assumes "awaits n x a"
  shows "n \<le> k \<Longrightarrow> x k = map_option (\<lambda>(r, y). (Ready r, k - n, y)) a"
    and "k < n \<Longrightarrow> \<exists>y. x k = Some (Dropped, 0, y)"
  using assms by (auto simp: awaits_def dest!: spec [of _ k])

lemma awaitsI:
  assumes "\<And>k. n \<le> k \<Longrightarrow> x k = map_option (\<lambda>(r, y). (Ready r, k - n, y)) a"
    and "\<And>k. k < n \<Longrightarrow> \<exists>y. x k = Some (Dropped, 0, y)"
  shows "awaits n x a"
  using assms unfolding awaits_def by (metis not_le)

lemma ready_pair: "(\<lambda>(r, g, s). (Ready r, k, g, s)) = (\<lambda>(r, y). (Ready r, k, y))"
  by (auto simp: fun_eq_iff)

lemma awaits_get_file:
  "\<exists>n \<le> 1. awaits n (\<lambda>k. get_file_await Y io k g s p) (async_get_file Y io g s p)"
proof (cases "is_resident g p")
  case True
  then show ?thesis by (intro exI [of _ 0]) (simp add: get_file_await_def awaits_def ready_pair)
next
  case False
  have "awaits 1 (\<lambda>k. get_file_await Y io k g s p) (async_get_file Y io g s p)"
    using False by (intro awaitsI) (auto simp: get_file_await_def ready_pair split: nat.split)
  then show ?thesis by blast
qed

lemma outcome_cases:
  obtains (stuck) "a = None" | (failed) e g s where "a = Some (Inl e, g, s)" | (ok) r g s where "a = Some (Inr r, g, s)"
proof (cases a)
  case (Some x)
  obtain r g s where x: "x = (r, g, s)" by (cases x)
  show ?thesis
  proof (cases r)
    case (Inl e)
    then show ?thesis using failed Some x by simp
  next
    case (Inr r)
    then show ?thesis using ok Some x by simp
  qed
qed (rule stuck)

lemma awaits_transaction:
  "\<exists>n \<le> 1 + 2 * length (operations tx). awaits n (\<lambda>k. transaction_await Y io late k g s p tx)
    (async_apply_transaction Y io g s p tx)"
proof -
  obtain n where n: "n \<le> 1" "awaits n (\<lambda>k. get_file_await Y io k g s p) (async_get_file Y io g s p)"
    using awaits_get_file [of Y io g s p] by blast
  note get = awaitsD [OF n(2)]
  have atomic: "async_apply_transaction Y io g s p tx = apply_transaction Async Y io g s p tx"
    "async_get_file Y io g s p = get_file Async Y io g s p"
    by (simp_all add: async_apply_transaction_def async_get_file_def)
  have dropped: "\<exists>y. transaction_await Y io late k g s p tx = Some (Dropped, 0, y)" if "k < n" for k
    using get(2) [OF that] by (auto simp: transaction_await_def)
  show ?thesis
  proof (cases rule: outcome_cases [of "async_get_file Y io g s p"])
    case stuck
    then have "awaits n (\<lambda>k. transaction_await Y io late k g s p tx) (async_apply_transaction Y io g s p tx)"
      using get(1) dropped
      by (intro awaitsI) (simp_all add: transaction_await_def apply_transaction_def atomic(1) atomic(2) [symmetric])
    moreover have "n \<le> 1 + 2 * length (operations tx)" using n(1) by simp
    ultimately show ?thesis by blast
  next
    case failed
    then have "awaits n (\<lambda>k. transaction_await Y io late k g s p tx) (async_apply_transaction Y io g s p tx)"
      using get(1) dropped
      by (intro awaitsI) (simp_all add: transaction_await_def apply_transaction_def atomic(1) atomic(2) [symmetric])
    moreover have "n \<le> 1 + 2 * length (operations tx)" using n(1) by simp
    ultimately show ?thesis by blast
  next
    case f: (ok f0 g1 s1)
    obtain m where m: "m \<le> 2 * length (operations tx)"
      "awaits m (\<lambda>k. apply_ops_await Y io late k f0 s1 (operations tx)) (apply_ops Y io f0 s1 (operations tx))"
      using awaits_ops [of "operations tx" Y io late f0 s1] by blast
    note ops = awaitsD [OF m(2)]
    let ?rest = "\<lambda>k. case apply_ops_await Y io late k f0 s1 (operations tx) of
              None \<Rightarrow> None
            | Some (Dropped, k, f, s) \<Rightarrow> Some (Dropped, k, put_back p f g1, s)
            | Some (Ready (Inl e), k, f, s) \<Rightarrow> Some (Ready (Inl e), k, put_back p f g1, s)
            | Some (Ready (Inr _), k, f, s) \<Rightarrow>
                Some (Ready (mf_encode_diff Y f (mf_state_vector Y f0)), k, put_back p f g1, s)"
    have run: "transaction_await Y io late k g s p tx = ?rest (k - n)" if "n \<le> k" for k
      using get(1) [OF that] f by (simp add: transaction_await_def)
    have tx: "async_apply_transaction Y io g s p tx = (case apply_ops Y io f0 s1 (operations tx) of
        None \<Rightarrow> None
      | Some (Inl e, f, s) \<Rightarrow> Some (Inl e, put_back p f g1, s)
      | Some (Inr _, f, s) \<Rightarrow> Some (mf_encode_diff Y f (mf_state_vector Y f0), put_back p f g1, s))"
      using f by (simp add: atomic(1) atomic(2) [symmetric] apply_transaction_def apply_transaction_ops_def)
    have "awaits (n + m) (\<lambda>k. transaction_await Y io late k g s p tx) (async_apply_transaction Y io g s p tx)"
    proof (rule awaitsI)
      fix k assume "n + m \<le> k"
      then have "n \<le> k" "m \<le> k - n" by simp_all
      then show "transaction_await Y io late k g s p tx =
          map_option (\<lambda>(r, y). (Ready r, k - (n + m), y)) (async_apply_transaction Y io g s p tx)"
        unfolding run [OF \<open>n \<le> k\<close>] tx ops(1) [OF \<open>m \<le> k - n\<close>] by (auto split: option.splits sum.splits)
    next
      fix k assume k: "k < n + m"
      show "\<exists>y. transaction_await Y io late k g s p tx = Some (Dropped, 0, y)"
      proof (cases "k < n")
        case False
        then have "k - n < m" "n \<le> k" using k by simp_all
        from ops(2) [OF this(1)] show ?thesis by (auto simp: run [OF \<open>n \<le> k\<close>])
      qed (rule dropped)
    qed
    moreover have "n + m \<le> 1 + 2 * length (operations tx)" using n(1) m(1) by simp
    ultimately show ?thesis by blast
  qed
qed

lemma awaits_drop_keys:
  "\<exists>n \<le> length keys. awaits n (\<lambda>k. Some (drop_keys_await Y io late k keys g s)) (Some ((), async_drop_keys Y io keys g s))"
proof (induction keys arbitrary: g s)
  case Nil
  show ?case by (simp add: awaits_def)
next
  case (Cons key keys)
  show ?case
  proof (cases "hm_get components g key")
    case None
    then show ?thesis using Cons [of g s] by (auto intro: le_SucI)
  next
    case (Some f)
    let ?g = "hm_remove components key g"
    obtain n where n: "n \<le> length keys" "awaits n (\<lambda>k. Some (drop_keys_await Y io late k keys ?g (save_and_drop Y io f s)))
        (Some ((), async_drop_keys Y io keys ?g (save_and_drop Y io f s)))" using Cons [of ?g "save_and_drop Y io f s"] by blast
    note rest = awaitsD [OF n(2)] and save = awaitsD [OF awaits_save [of Y io late f s]]
    have step: "drop_keys_await Y io late k (key # keys) g s =
        drop_keys_await Y io late (k - 1) keys ?g (save_and_drop Y io f s)" if "1 \<le> k" for k
      using save(1) [OF that] Some by (auto simp: save_and_drop_def Let_def split: prod.splits)
    have "awaits (Suc n) (\<lambda>k. Some (drop_keys_await Y io late k (key # keys) g s))
        (Some ((), async_drop_keys Y io (key # keys) g s))"
    proof (rule awaitsI)
      fix k assume "Suc n \<le> k"
      then have "1 \<le> k" "n \<le> k - 1" by simp_all
      then show "Some (drop_keys_await Y io late k (key # keys) g s) =
          map_option (\<lambda>(r, y). (Ready r, k - Suc n, y)) (Some ((), async_drop_keys Y io (key # keys) g s))"
        using rest(1) [of "k - 1"] Some by (simp add: step del: drop_keys_await.simps)
    next
      fix k assume k: "k < Suc n"
      show "\<exists>y. Some (drop_keys_await Y io late k (key # keys) g s) = Some (Dropped, 0, y)"
      proof (cases k)
        case 0
        then show ?thesis using save(2) [of 0] Some by (auto simp: Let_def)
      next
        case (Suc j)
        then show ?thesis using rest(2) [of j] k step [of k] by (simp del: drop_keys_await.simps)
      qed
    qed
    then show ?thesis using n(1) by (intro exI [of _ "Suc n"]) simp
  qed
qed

lemma awaits_drop_file:
  "\<exists>n \<le> 1. awaits n (\<lambda>k. Some (drop_file_await Y io late k g s p)) (Some ((), async_drop_file Y io g s p))"
proof (cases "hm_get components g (map_key p)")
  case None
  then show ?thesis by (intro exI [of _ 0]) (simp add: awaits_def drop_file_await_def async_drop_file_def)
next
  case (Some f)
  have "drop_file_await Y io late k g s p = drop_keys_await Y io late k [map_key p] g s"
    "async_drop_file Y io g s p = async_drop_keys Y io [map_key p] g s" for k
    using Some by (auto simp: drop_file_await_def async_drop_file_def Let_def split: prod.split poll.split)
  then show ?thesis using awaits_drop_keys [of "[map_key p]" Y io late g s] by simp
qed

lemma awaits_snapshot:
  "\<exists>n \<le> length g. awaits n (\<lambda>k. Some (snapshot_await Y io late k g s)) (Some (snapshot Y io g s))"
proof (induction g arbitrary: s)
  case Nil
  show ?case by (simp add: awaits_def)
next
  case (Cons e g)
  obtain key f where e: "e = (key, f)" by (cases e)
  note save = awaitsD [OF awaits_save [of Y io late f s]]
  obtain r f1 s1 where sv: "mf_save Y io f s = (r, f1, s1)" by (metis prod_cases3)
  obtain m where m: "m \<le> length g" "awaits m (\<lambda>k. Some (snapshot_await Y io late k g s1)) (Some (snapshot Y io g s1))"
    using Cons [of s1] by blast
  note rest = awaitsD [OF m(2)]
  have cut: "\<exists>y. snapshot_await Y io late 0 (e # g) s = (Dropped, 0, y)"
    using save(2) [of 0] by (auto simp: e)
  have ready: "save_await Y io late k f s = (Ready r, k - 1, f1, s1)" if "1 \<le> k" for k
    using save(1) [OF that] sv by simp
  show ?case
  proof (cases r)
    case (Inl err)
    have "awaits 1 (\<lambda>k. Some (snapshot_await Y io late k (e # g) s)) (Some (snapshot Y io (e # g) s))"
      using cut by (intro awaitsI) (simp_all add: e sv ready Inl)
    then show ?thesis by (intro exI [of _ 1]) simp
  next
    case (Inr u)
    have step: "snapshot_await Y io late k (e # g) s =
        (case snapshot_await Y io late (k - 1) g s1 of (r, k, g', s'') \<Rightarrow> (r, k, (key, f1) # g', s''))" if "1 \<le> k" for k
      by (simp add: e ready [OF that] Inr)
    have "awaits (Suc m) (\<lambda>k. Some (snapshot_await Y io late k (e # g) s)) (Some (snapshot Y io (e # g) s))"
    proof (rule awaitsI)
      fix k assume "Suc m \<le> k"
      then have "1 \<le> k" "m \<le> k - 1" by simp_all
      obtain r2 g2 s2 where sn: "snapshot Y io g s1 = (r2, g2, s2)" by (metis prod_cases3)
      then have "snapshot_await Y io late (k - 1) g s1 = (Ready r2, k - 1 - m, g2, s2)"
        using rest(1) [OF \<open>m \<le> k - 1\<close>] by simp
      then show "Some (snapshot_await Y io late k (e # g) s) =
          map_option (\<lambda>(r, y). (Ready r, k - Suc m, y)) (Some (snapshot Y io (e # g) s))"
        unfolding step [OF \<open>1 \<le> k\<close>] by (simp add: e sv Inr sn)
    next
      fix k assume k: "k < Suc m"
      show "\<exists>y. Some (snapshot_await Y io late k (e # g) s) = Some (Dropped, 0, y)"
      proof (cases k)
        case (Suc j)
        then have "j < m" using k by simp
        from rest(2) [OF this] obtain g2 s2 where "snapshot_await Y io late j g s1 = (Dropped, 0, g2, s2)" by auto
        then show ?thesis using step [of k] Suc by (simp del: snapshot_await.simps)
      qed (use cut in simp)
    qed
    then show ?thesis using m(1) by (intro exI [of _ "Suc m"]) simp
  qed
qed

section \<open>Dropped half way\<close>

lemma text_spec_append: "text_spec (xs @ ys) t = text_spec ys (text_spec xs t)"
  by (simp add: text_spec_def)

definition stops :: "('doc, 'u, 'v) yrs \<Rightarrow> ('s \<Rightarrow> path_component list \<Rightarrow> ustring option) \<Rightarrow> ('s \<Rightarrow> bool) \<Rightarrow>
    ('doc \<Rightarrow> 'doc \<Rightarrow> bool) \<Rightarrow> 'doc mem_file \<Rightarrow> 's \<Rightarrow> operation list \<Rightarrow> ('doc, 's) await_result \<Rightarrow> bool" where
  "stops Y content ok ext f s ops r \<longleftrightarrow>
     (\<exists>p k f' s' n. r = Some (p, k, f', s') \<and> own_path content ok ext f s f' s' \<and> n \<le> length ops \<and>
        mf_contents Y f' = text_spec (take n ops) (mf_contents Y f) \<and>
        (p = Dropped \<or> p = Ready (Inr ()) \<and> n = length ops))"

lemma stopsI:
  "r = Some (p, k, f', s') \<Longrightarrow> own_path content ok ext f s f' s' \<Longrightarrow> n \<le> length ops \<Longrightarrow>
     mf_contents Y f' = text_spec (take n ops) (mf_contents Y f) \<Longrightarrow>
     p = Dropped \<or> p = Ready (Inr ()) \<and> n = length ops \<Longrightarrow> stops Y content ok ext f s ops r"
  unfolding stops_def by blast

lemma stops_nothing:
  "yrs_laws Y ext \<Longrightarrow> ok s \<Longrightarrow> text_spec ops (mf_contents Y f) = mf_contents Y f \<Longrightarrow>
     stops Y content ok ext f s ops (Some (Ready (Inr ()), k, f, s))"
  by (rule stopsI [where n = "length ops", OF refl own_path_refl]) simp_all

lemma stops_then:
  assumes laws: "yrs_laws Y ext" and one: "stops Y content ok ext f s xs r"
    and two: "\<And>k f1 s1. ok s1 \<Longrightarrow> mf_contents Y f1 = text_spec xs (mf_contents Y f) \<Longrightarrow>
      stops Y content ok ext f1 s1 ys (h k f1 s1)"
  shows "stops Y content ok ext f s (xs @ ys) (await_then r h)"
proof -
  obtain p k f1 s1 n where r: "r = Some (p, k, f1, s1)" and t1: "own_path content ok ext f s f1 s1"
    and n: "n \<le> length xs" "mf_contents Y f1 = text_spec (take n xs) (mf_contents Y f)"
    and p: "p = Dropped \<or> p = Ready (Inr ()) \<and> n = length xs"
    using one unfolding stops_def by blast
  from p show ?thesis
  proof (elim disjE conjE)
    assume "p = Dropped"
    then show ?thesis using r t1 n by (intro stopsI [of _ p k f1 s1 _ _ _ _ _ n]) (simp_all add: await_then_def)
  next
    assume q: "p = Ready (Inr ())" "n = length xs"
    then have "stops Y content ok ext f1 s1 ys (h k f1 s1)"
      using t1 n(2) by (intro two) (simp_all add: own_path_def)
    then obtain p2 k2 f2 s2 m where h: "h k f1 s1 = Some (p2, k2, f2, s2)"
      and t2: "own_path content ok ext f1 s1 f2 s2" and m: "m \<le> length ys"
        "mf_contents Y f2 = text_spec (take m ys) (mf_contents Y f1)"
      and p2: "p2 = Dropped \<or> p2 = Ready (Inr ()) \<and> m = length ys"
      unfolding stops_def by blast
    have "await_then r h = Some (p2, k2, f2, s2)" using r q h by (simp add: await_then_def)
    moreover have "mf_contents Y f2 = text_spec (take (length xs + m) (xs @ ys)) (mf_contents Y f)"
      using m(2) n(2) q(2) by (simp add: text_spec_append)
    ultimately show ?thesis using own_path_trans [OF laws t1 t2] m(1) p2
      by (intro stopsI [of _ p2 k2 f2 s2 _ _ _ _ _ "length xs + m"]) auto
  qed
qed

context path_store
begin

lemma write_await_cases:
  assumes "ok s"
  obtains (ready) k' s' where "write_await io late k s p c = (Ready (Inr ()), k', s')" and "ok s'"
    and "content s' = (content s)(components (full_path p) \<mapsto> c)"
  | (late) k' s' where "write_await io late k s p c = (Dropped, k', s')" and "ok s'"
    and "content s' = (content s)(components (full_path p) \<mapsto> c)"
  | (lost) k' where "write_await io late k s p c = (Dropped, k', s)" and "\<not> late"
proof -
  obtain s1 where w: "fio_write io s p c = (Inr (), s1)" and c: "ok s1"
    "content s1 = (content s)(components (full_path p) \<mapsto> c)"
    using write_total_pair [OF assms] by metis
  show ?thesis
  proof (cases k)
    case k: 0
    show ?thesis
    proof (cases "late")
      case True
      show ?thesis by (rule late [OF _ c]) (simp add: write_await_def k w True)
    next
      case False
      show ?thesis by (rule lost [OF _ False]) (simp add: write_await_def k False)
    qed
  next
    case (Suc j)
    show ?thesis by (rule ready [OF _ c]) (simp add: write_await_def Suc w)
  qed
qed

lemma save_await_cases:
  assumes "ok s"
  obtains (ready) k' s' where "save_await Y io late k f s = (Ready (Inr ()), k', f\<lparr>ops_since_save := 0\<rparr>, s')"
    and "ok s'" and "content s' = (content s)(components (full_path (mf_path f)) \<mapsto> mf_contents Y f)"
  | (late) k' s' where "save_await Y io late k f s = (Dropped, k', f, s')"
    and "ok s'" and "content s' = (content s)(components (full_path (mf_path f)) \<mapsto> mf_contents Y f)"
  | (lost) k' where "save_await Y io late k f s = (Dropped, k', f, s)" and "\<not> late"
proof (cases rule: write_await_cases [OF assms, of late k "mf_path f" "mf_contents Y f"])
  case (1 k' s')
  show ?thesis by (rule ready [OF _ 1(2,3)]) (simp add: save_await_def 1(1))
next
  case (2 k' s')
  show ?thesis by (rule late [OF _ 2(2,3)]) (simp add: save_await_def 2(1))
next
  case (3 k')
  show ?thesis by (rule lost [OF _ 3(2)]) (simp add: save_await_def 3(1))
qed

lemma save_await_facts:
  assumes "ok s" and "save_await Y io late k f s = (q, k', f', s')"
  shows "q = Dropped \<or> q = Ready (Inr ())" and "mf_doc f' = mf_doc f" and "mf_path f' = mf_path f"
    and "mf_backend f' = mf_backend f" and "flush_on_drop f' = flush_on_drop f" and "ok s'"
    and "content s' = content s \<or> content s' = (content s)(components (full_path (mf_path f)) \<mapsto> mf_contents Y f)"
    and "q = Ready (Inr ()) \<Longrightarrow> content s' = (content s)(components (full_path (mf_path f)) \<mapsto> mf_contents Y f)"
  by (cases rule: save_await_cases [OF assms(1), of Y late k f]; use assms in simp)+

lemma save_await_stops:
  assumes ok: "ok s" and doc: "ext (mf_doc f) d" "y_string Y d = text_spec [op] (mf_contents Y f)"
  shows "stops Y content ok ext f s [op] (Some (save_await Y io late k (f\<lparr>mf_doc := d\<rparr>) s))"
proof -
  obtain q k' f' s' where sv: "save_await Y io late k (f\<lparr>mf_doc := d\<rparr>) s = (q, k', f', s')" by (metis prod_cases4)
  note facts = save_await_facts [OF ok sv]
  have "own_path content ok ext f s f' s'" using facts(2-7) doc(1) by (auto simp: own_path_def)
  moreover have "mf_contents Y f' = text_spec (take 1 [op]) (mf_contents Y f)"
    using facts(2) doc(2) by (simp add: mf_contents_def)
  ultimately show ?thesis using facts(1) sv by (intro stopsI [where n = 1]) simp_all
qed

lemma record_await_stops:
  assumes ok: "ok s" and doc: "ext (mf_doc f) d" "y_string Y d = text_spec [op] (mf_contents Y f)"
  shows "stops Y content ok ext f s [op] (Some (record_await Y io late k (f\<lparr>mf_doc := d\<rparr>) s))"
proof (cases "ops_since_save f + 1 \<ge> save_threshold")
  case True
  let ?f = "f\<lparr>ops_since_save := ops_since_save f + 1\<rparr>"
  have "stops Y content ok ext ?f s [op] (Some (save_await Y io late k (?f\<lparr>mf_doc := d\<rparr>) s))"
    using assms by (intro save_await_stops) simp_all
  moreover have "?f\<lparr>mf_doc := d\<rparr> = f\<lparr>mf_doc := d, ops_since_save := ops_since_save f + 1\<rparr>" by simp
  ultimately have "stops Y content ok ext ?f s [op]
      (Some (save_await Y io late k (f\<lparr>mf_doc := d, ops_since_save := ops_since_save f + 1\<rparr>) s))" by (simp only:)
  then show ?thesis using True by (simp add: record_await_def stops_def own_path_def Let_def)
next
  case False
  then show ?thesis using assms
    by (intro stopsI [where n = 1]) (auto simp: record_await_def own_path_def Let_def)
qed

lemma insert_text_stops:
  assumes laws: "yrs_laws Y ext" and fits: "fits (mf_contents Y f)" and ok: "ok s"
    and op: "text_spec [op] (mf_contents Y f) = insert_at p t (mf_contents Y f)"
  shows "stops Y content ok ext f s [op] (insert_text_await Y io late k f s p t)"
proof -
  from tx_insert_text_spec [OF laws fits [unfolded mf_contents_def], of p t] obtain d where
    "tx_insert_text Y (mf_contents Y f) (mf_doc f) p t = Some d" and "ext (mf_doc f) d"
    and "y_string Y d = text_spec [op] (mf_contents Y f)" by (auto simp: op [unfolded mf_contents_def] mf_contents_def)
  then show ?thesis by (simp add: insert_text_await_def save_await_stops ok)
qed

lemma insert_char_stops:
  assumes laws: "yrs_laws Y ext" and fits: "fits (mf_contents Y f)" and ok: "ok s"
    and op: "text_spec [op] (mf_contents Y f) = insert_at p [c] (mf_contents Y f)"
  shows "stops Y content ok ext f s [op] (insert_char_await Y io late k f s p c)"
proof -
  from tx_insert_text_spec [OF laws fits [unfolded mf_contents_def], of p "[c]"] obtain d where
    "tx_insert_char Y (mf_contents Y f) (mf_doc f) p c = Some d" and "ext (mf_doc f) d"
    and "y_string Y d = text_spec [op] (mf_contents Y f)" by (auto simp: op [unfolded mf_contents_def] mf_contents_def tx_insert_char_text)
  then show ?thesis by (simp add: insert_char_await_def record_await_stops ok)
qed

lemma delete_range_stops:
  assumes laws: "yrs_laws Y ext" and fits: "fits (mf_contents Y f)" and ok: "ok s"
    and op: "text_spec [op] (mf_contents Y f) = delete_at p m (mf_contents Y f)"
  shows "stops Y content ok ext f s [op] (delete_range_await Y io late k f s p m)"
    and "m = 1 \<Longrightarrow> stops Y content ok ext f s [op] (delete_char_await Y io late k f s p)"
proof -
  from tx_delete_range_spec [OF laws fits [unfolded mf_contents_def], of p m] obtain d where
    d: "tx_delete_range Y (mf_contents Y f) (mf_doc f) p m = Some d" and "ext (mf_doc f) d"
    and "y_string Y d = text_spec [op] (mf_contents Y f)" by (auto simp: op [unfolded mf_contents_def] mf_contents_def)
  then show "stops Y content ok ext f s [op] (delete_range_await Y io late k f s p m)"
    and "m = 1 \<Longrightarrow> stops Y content ok ext f s [op] (delete_char_await Y io late k f s p)"
    by (simp_all add: delete_range_await_def delete_char_await_def tx_delete_char_range save_await_stops
        record_await_stops ok)
qed

lemma apply_insert_stops:
  assumes laws: "yrs_laws Y ext" and fits: "fits (mf_contents Y f)" and ok: "ok s"
  shows "stops Y content ok ext f s [Insert \<lparr>ins_position = p, ins_content = t\<rparr>]
    (apply_insert_await Y io late k f s p t)" (is "stops _ _ _ _ _ _ [?op] _")
proof -
  have op: "text_spec [?op] (mf_contents Y f) = insert_at p t (mf_contents Y f)"
    by (simp add: text_spec_def op_spec_def)
  consider "t = []" | c where "t = [c]" | a b u where "t = a # b # u" by (metis neq_Nil_conv)
  then show ?thesis
  proof cases
    case 1
    then show ?thesis using stops_nothing [of Y ext ok s "[?op]" f content k] laws ok op by (simp add: apply_insert_await_def)
  next
    case 2
    then show ?thesis using insert_char_stops [OF laws fits ok, of ?op p _ late k] op by (simp add: apply_insert_await_def)
  next
    case 3
    then show ?thesis using insert_text_stops [OF laws fits ok op, of late k] by (simp add: apply_insert_await_def)
  qed
qed

lemma apply_delete_stops:
  assumes laws: "yrs_laws Y ext" and fits: "fits (mf_contents Y f)" and ok: "ok s"
  shows "stops Y content ok ext f s [Delete \<lparr>del_position = p, del_length = m\<rparr>]
    (apply_delete_await Y io late k f s p m)" (is "stops _ _ _ _ _ _ [?op] _")
proof -
  have op: "text_spec [?op] (mf_contents Y f) = delete_at p m (mf_contents Y f)"
    by (simp add: text_spec_def op_spec_def)
  show ?thesis
  proof (cases "m = 0")
    case True
    then show ?thesis using stops_nothing [of Y ext ok s "[?op]" f content k] laws ok op by (simp add: apply_delete_await_def)
  next
    case False
    then show ?thesis using delete_range_stops [OF laws fits ok op, of late k] by (simp add: apply_delete_await_def)
  qed
qed

lemma apply_operation_stops:
  assumes laws: "yrs_laws Y ext" and fits: "fits (mf_contents Y f)" and ok: "ok s"
  shows "stops Y content ok ext f s (elementary op) (apply_operation_await Y io late k f s op)"
proof (cases op)
  case (Insert i)
  then show ?thesis
    using apply_insert_stops [OF laws fits ok, of "ins_position i" "ins_content i" late k] by (cases i) simp
next
  case (Delete d)
  then show ?thesis
    using apply_delete_stops [OF laws fits ok, of "del_position d" "del_length d" late k] by (cases d) simp
next
  case (Swap w)
  let ?del = "Delete \<lparr>del_position = swap_position w, del_length = swap_length w\<rparr>"
  let ?ins = "Insert \<lparr>ins_position = swap_position w, ins_content = swap_content w\<rparr>"
  have "stops Y content ok ext f s ([?del] @ [?ins]) (await_then
      (apply_delete_await Y io late k f s (swap_position w) (swap_length w))
      (\<lambda>k f s. apply_insert_await Y io late k f s (swap_position w) (swap_content w)))"
  proof (rule stops_then [OF laws apply_delete_stops [OF laws fits ok]])
    fix k f1 s1 assume ok1: "ok s1" and c: "mf_contents Y f1 = text_spec [?del] (mf_contents Y f)"
    have "fits (mf_contents Y f1)"
      using fits byte_len_delete_at [of "swap_position w" "swap_length w" "mf_contents Y f"]
      by (simp add: c fits_def text_spec_def op_spec_def)
    then show "stops Y content ok ext f1 s1 [?ins]
        (apply_insert_await Y io late k f1 s1 (swap_position w) (swap_content w))"
      by (rule apply_insert_stops [OF laws _ ok1])
  qed
  then show ?thesis by (simp add: Swap)
qed

lemma apply_ops_stops:
  assumes laws: "yrs_laws Y ext"
  shows "tx_fits ops (mf_contents Y f) \<Longrightarrow> ok s \<Longrightarrow>
    stops Y content ok ext f s (edit_steps ops) (apply_ops_await Y io late k f s ops)"
proof (induction ops arbitrary: f s k)
  case Nil
  then show ?case using stops_nothing [of Y ext ok s "[]" f content k] laws by (simp add: edit_steps_def text_spec_def)
next
  case (Cons op ops)
  have fits: "fits (mf_contents Y f)" using Cons.prems(1) by (simp add: tx_fits_def fits_def)
  have "stops Y content ok ext f s (elementary op @ edit_steps ops) (await_then
      (apply_operation_await Y io late k f s op) (\<lambda>k f s. apply_ops_await Y io late k f s ops))"
  proof (rule stops_then [OF laws apply_operation_stops [OF laws fits Cons.prems(2)]])
    fix k f1 s1 assume ok1: "ok s1" and c: "mf_contents Y f1 = text_spec (elementary op) (mf_contents Y f)"
    have "tx_fits ops (mf_contents Y f1)"
      using Cons.prems(1) op_spec_bytes [of op "mf_contents Y f"] text_spec_steps [of "[op]" "mf_contents Y f"]
      by (simp add: tx_fits_def c edit_steps_def text_spec_def)
    then show "stops Y content ok ext f1 s1 (edit_steps ops) (apply_ops_await Y io late k f1 s1 ops)"
      using ok1 by (rule Cons.IH)
  qed
  then show ?case by (simp add: edit_steps_def)
qed

lemma transaction_await_overlay:
  assumes laws: "yrs_laws Y ext" and inv: "guard_inv Async g" and ok: "ok s"
    and t: "overlay Y content g s (components (full_path p)) = Some t"
    and fits: "tx_fits (operations tx) t"
  shows "\<exists>r k' g' s' n. transaction_await Y io late k g s p tx = Some (r, k', g', s') \<and>
    guard_inv Async g' \<and> ok s' \<and> n \<le> length (edit_steps (operations tx)) \<and>
    (r = Dropped \<or> n = length (edit_steps (operations tx))) \<and>
    overlay Y content g' s' = (overlay Y content g s)
      (components (full_path p) \<mapsto> text_spec (take n (edit_steps (operations tx))) t)"
proof (cases "k = 0 \<and> \<not> is_resident g p")
  case True
  then have "transaction_await Y io late k g s p tx = Some (Dropped, 0, g, s)"
    by (simp add: transaction_await_def get_file_await_def)
  moreover have "overlay Y content g s =
      (overlay Y content g s)(components (full_path p) \<mapsto> text_spec (take 0 (edit_steps (operations tx))) t)"
    using t by (auto simp: text_spec_def)
  ultimately show ?thesis using inv ok by blast
next
  case False
  from get_file_overlay [OF laws inv ok, of p] t obtain f g1 where
    get: "get_file Async Y io g s p = Some (Inr f, g1, s)" and ft: "mf_contents Y f = t"
    and res: "hm_get components g1 (full_path p) = Some f" and inv1: "guard_inv Async g1"
    and o1: "overlay Y content g1 s = overlay Y content g s" by auto
  have "\<exists>k1. get_file_await Y io k g s p = Some (Ready (Inr f), k1, g1, s)"
    using False get by (cases k) (auto simp: get_file_await_def async_get_file_def)
  then obtain k1 where gf: "get_file_await Y io k g s p = Some (Ready (Inr f), k1, g1, s)" ..
  have "stops Y content ok ext f s (edit_steps (operations tx)) (apply_ops_await Y io late k1 f s (operations tx))"
    using fits ft by (intro apply_ops_stops [OF laws _ ok]) simp
  then obtain q k2 f2 s2 n where
    run: "apply_ops_await Y io late k1 f s (operations tx) = Some (q, k2, f2, s2)"
    and own_path: "own_path content ok ext f s f2 s2" and n: "n \<le> length (edit_steps (operations tx))"
    and f2: "mf_contents Y f2 = text_spec (take n (edit_steps (operations tx))) t"
    and q: "q = Dropped \<or> q = Ready (Inr ()) \<and> n = length (edit_steps (operations tx))"
    unfolding stops_def ft by blast
  have "\<exists>r. transaction_await Y io late k g s p tx = Some (r, k2, put_back p f2 g1, s2) \<and>
      (r = Dropped \<or> n = length (edit_steps (operations tx)))"
    using q by (auto simp: transaction_await_def gf run Let_def)
  then show ?thesis
    using put_back_overlay(1) [OF inv1 res own_path, of Y] put_back_overlay(2,3) [OF inv1 res own_path] o1 f2 n
    by metis
qed

lemma drop_keys_await_overlay:
  "guard_inv Async g \<Longrightarrow> ok s \<Longrightarrow> drop_keys_await Y io late k keys g s = (r, k', g', s') \<Longrightarrow>
     guard_inv Async g' \<and> ok s' \<and>
     (\<forall>n. hm_abs components g' n = hm_abs components g n \<or>
        n \<in> components ` set keys \<and> hm_abs components g' n = None) \<and>
     (overlay Y content g' s' = overlay Y content g s \<or>
      r = Dropped \<and> \<not> late \<and> (\<exists>n \<in> components ` set keys. hm_abs components g n \<noteq> None \<and>
        overlay Y content g' s' = (overlay Y content g s)(n := content s n)))"
proof (induction keys arbitrary: g s k)
  case (Cons key keys)
  show ?case
  proof (cases "hm_get components g key")
    case None
    then have "drop_keys_await Y io late k keys g s = (r, k', g', s')" using Cons.prems(3) by simp
    from Cons.IH [OF Cons.prems(1,2) this] show ?thesis by auto
  next
    case (Some f)
    let ?g = "hm_remove components key g"
    have f: "hm_abs components g (components key) = Some f" "mf_backend f = Async"
      "components (full_path (mf_path f)) = components key"
      using Some Cons.prems(1) by (auto simp: guard_inv_def hm_get_def)
    have no_flush: "mf_drop Y io (f\<lparr>ops_since_save := m\<rparr>) x = x" "mf_drop Y io f x = x" for m x
      using f(2) by (simp_all add: mf_drop_def drop_flush_def)
    note g1 = guard_inv_remove [OF Cons.prems(1), of key]
    show ?thesis
    proof (cases rule: save_await_cases [OF Cons.prems(2), of Y late k f])
      case (1 k1 s1)
      then have "drop_keys_await Y io late k1 keys ?g s1 = (r, k', g', s')"
        using Cons.prems(3) Some by (simp add: no_flush Let_def)
      note ih = Cons.IH [OF g1 1(2) this]
      have same: "overlay Y content ?g s1 = overlay Y content g s"
        by (rule overlay_flushed(1) [OF Cons.prems(1) Some 1(3)])
      have kept: "content s1 n = content s n \<and> hm_abs components g n \<noteq> None" if "hm_abs components ?g n \<noteq> None" for n
        using that 1(3) f(3) by (auto split: if_splits)
      have "overlay Y content g' s' = overlay Y content g s \<or>
          r = Dropped \<and> \<not> late \<and> (\<exists>n \<in> components ` set (key # keys). hm_abs components g n \<noteq> None \<and>
            overlay Y content g' s' = (overlay Y content g s)(n := content s n))"
        using ih kept unfolding same by (metis (no_types, lifting) image_iff list.set_intros(2))
      moreover have "\<forall>n. hm_abs components g' n = hm_abs components g n \<or>
          n \<in> components ` set (key # keys) \<and> hm_abs components g' n = None"
        using ih by (auto split: if_splits)
      ultimately show ?thesis using ih by blast
    next
      case (2 k1 s1)
      then have "g' = ?g" "s' = s1" using Cons.prems(3) Some by (simp_all add: no_flush Let_def)
      then show ?thesis using overlay_flushed(1) [OF Cons.prems(1) Some 2(3)] 2(2) g1 by auto
    next
      case (3 k1)
      then have "g' = ?g" "s' = s" "r = Dropped" using Cons.prems(3) Some by (simp_all add: no_flush Let_def)
      moreover have "overlay Y content ?g s = (overlay Y content g s)(components key := content s (components key))"
        by (auto simp: overlay_def fun_eq_iff)
      ultimately show ?thesis using Cons.prems(2) g1 f(1) 3 by auto
    qed
  qed
qed simp

lemma drop_dir_await_overlay:
  assumes "guard_inv Async g" and "ok s" and "drop_dir_await Y io late k g s dir = (r, k', g', s')"
  shows "guard_inv Async g' \<and> ok s' \<and>
     (\<forall>n. hm_abs components g' n = hm_abs components g n \<or>
        prefix (components (full_path dir)) n \<and> hm_abs components g' n = None) \<and>
     (overlay Y content g' s' = overlay Y content g s \<or>
      r = Dropped \<and> \<not> late \<and> (\<exists>n. prefix (components (full_path dir)) n \<and> hm_abs components g n \<noteq> None \<and>
        overlay Y content g' s' = (overlay Y content g s)(n := content s n)))"
proof -
  let ?keys = "filter (\<lambda>key. starts_with key (full_path dir)) (hm_keys g)"
  have "prefix (components (full_path dir)) n" if "n \<in> components ` set ?keys" for n
    using that by (auto simp: starts_with_def)
  then show ?thesis
    using drop_keys_await_overlay [OF assms(1,2) assms(3) [unfolded drop_dir_await_def]] by metis
qed

lemma drop_file_await_overlay:
  assumes "guard_inv Async g" and "ok s" and "drop_file_await Y io late k g s p = (r, k', g', s')"
  shows "guard_inv Async g' \<and> ok s' \<and>
     hm_abs components g' = (hm_abs components g)(components (full_path p) := None) \<and>
     (overlay Y content g' s' = overlay Y content g s \<or>
      r = Dropped \<and> \<not> late \<and> overlay Y content g' s' =
        (overlay Y content g s)(components (full_path p) := content s (components (full_path p))))"
proof -
  have table: "hm_abs components g' = (hm_abs components g)(components (full_path p) := None)"
    using assms(3) by (auto simp: drop_file_await_def Let_def map_key_def split: option.splits prod.splits poll.splits)
  show ?thesis
  proof (cases "hm_get components g (map_key p)")
    case None
    then have "g' = hm_remove components (map_key p) g" "s' = s" using assms(3) by (simp_all add: drop_file_await_def)
    then show ?thesis using table overlay_absent [OF None, of Y s] guard_inv_remove [OF assms(1)] assms(2) by simp
  next
    case (Some f)
    then have "drop_keys_await Y io late k [map_key p] g s = (r, k', g', s')"
      using assms(3) by (auto simp: drop_file_await_def Let_def split: prod.splits poll.splits)
    from drop_keys_await_overlay [OF assms(1,2) this] show ?thesis using table by (auto simp: map_key_def)
  qed
qed

lemma snapshot_await_overlay:
  "guard_inv b g \<Longrightarrow> ok s \<Longrightarrow> snapshot_await Y io late k g s = (r, k', g', s') \<Longrightarrow>
     (r = Dropped \<or> r = Ready (Inr ())) \<and> guard_inv b g' \<and> ok s' \<and>
     overlay Y content g' s' = overlay Y content g s \<and>
     (\<forall>n. map_option (mf_contents Y) (hm_abs components g' n) =
        map_option (mf_contents Y) (hm_abs components g n)) \<and>
     (\<forall>n. content s' n = content s n \<or> content s' n = overlay Y content g s n)"
proof (induction g arbitrary: s k r k' g' s')
  case Nil
  then show ?case by (simp add: overlay_def)
next
  case (Cons e g)
  obtain key f where e: "e = (key, f)" by (cases e)
  note inv = Cons.prems(1) [unfolded guard_inv_Cons e, simplified]
  have flushed: "overlay Y content (e # g) x = overlay Y content (e # g) s"
    if "content x = (content s)(components key \<mapsto> mf_contents Y f)" for x
    using that by (auto simp: overlay_def fun_eq_iff hm_abs_Cons e split: option.split)
  show ?case
  proof (cases rule: save_await_cases [OF Cons.prems(2), of Y late k f])
    case (1 k1 s1)
    have c1: "content s1 = (content s)(components key \<mapsto> mf_contents Y f)" using 1(3) inv by simp
    obtain g2 where rest: "snapshot_await Y io late k1 g s1 = (r, k', g2, s')"
      and g': "g' = (key, f\<lparr>ops_since_save := 0\<rparr>) # g2"
      using Cons.prems(3) 1(1) by (auto simp: e split: prod.splits)
    have "guard_inv b g" using inv by simp
    note ih = Cons.IH [OF this 1(2) rest]
    then have "map_option (mf_contents Y) (hm_abs components g2 (components key)) = None" using inv by simp
    then have none: "hm_abs components g2 (components key) = None" by simp
    have o: "overlay Y content g s1 = overlay Y content (e # g) s"
      using inv overlay_store_upd [of g "components key" content, OF _ c1] by (simp add: overlay_Cons e)
    have "overlay Y content g' s' = overlay Y content (e # g) s"
      using ih none unfolding g' overlay_Cons by (auto simp: o) (auto simp: overlay_Cons e fun_eq_iff)
    moreover have "content s' n = content s n \<or> content s' n = overlay Y content (e # g) s n" for n
    proof -
      have "content s1 n = content s n \<or> content s1 n = overlay Y content (e # g) s n"
        by (simp add: c1 overlay_Cons e)
      moreover have "content s' n = content s1 n \<or> content s' n = overlay Y content (e # g) s n"
        using ih unfolding o by blast
      ultimately show ?thesis by metis
    qed
    ultimately show ?thesis using ih inv none by (auto simp: g' e guard_inv_Cons hm_abs_Cons)
  next
    case (2 k1 s1)
    have c1: "content s1 = (content s)(components key \<mapsto> mf_contents Y f)" using 2(3) inv by simp
    have "r = Dropped" "g' = e # g" "s' = s1" using Cons.prems(3) 2(1) by (simp_all add: e)
    then show ?thesis using flushed [OF c1] 2(2) c1 Cons.prems(1) by (auto simp: overlay_Cons e)
  next
    case (3 k1)
    have "r = Dropped" "g' = e # g" "s' = s" using Cons.prems(3) 3(1) by (simp_all add: e)
    then show ?thesis using Cons.prems by simp
  qed
qed

end

section \<open>Properties\<close>

text \<open>A future of the async guard that is awaited to the end does what the same call does in
  one step, in as many awaits at most as the operation has loads and saves: one for the load of a
  transaction and two for each of its operations, one for letting a file go, one for each buffer
  when a folder is let go or a snapshot is taken. Dropped before its last await it has no result.\<close>

theorem awaited_to_the_end:
  "(\<exists>n \<le> 1 + 2 * length (operations tx).
      awaits n (\<lambda>k. transaction_await Y io late k g s p tx) (async_apply_transaction Y io g s p tx)) \<and>
   (\<exists>n \<le> 1. awaits n (\<lambda>k. Some (drop_file_await Y io late k g s p)) (Some ((), async_drop_file Y io g s p))) \<and>
   (\<exists>n \<le> length g. awaits n (\<lambda>k. Some (drop_dir_await Y io late k g s dir)) (Some ((), async_drop_dir Y io g s dir))) \<and>
   (\<exists>n \<le> length g. awaits n (\<lambda>k. Some (snapshot_await Y io late k g s)) (Some (snapshot Y io g s)))"
proof (intro conjI)
  let ?keys = "filter (\<lambda>key. starts_with key (full_path dir)) (hm_keys g)"
  have "length ?keys \<le> length g" using length_filter_le [of _ "hm_keys g"] by (simp add: hm_keys_def)
  then show "\<exists>n \<le> length g. awaits n (\<lambda>k. Some (drop_dir_await Y io late k g s dir))
      (Some ((), async_drop_dir Y io g s dir))"
    unfolding drop_dir_await_def async_drop_dir_def by (rule awaits_more [OF _ awaits_drop_keys])
qed (rule awaits_transaction awaits_drop_file awaits_snapshot)+

text \<open>C16: A transaction whose future is dropped, at any await and with the write in flight done or
  lost, leaves the file at the text after some number of the transaction's single edits, in order
  (a swap is a deletion and an insertion); it never leaves another text, and it leaves every other
  path as it was. If it was not dropped all the edits were made.\<close>

theorem dropped_transaction_keeps_a_prefix:
  assumes "path_store io content ok" and "yrs_laws Y ext" and "guard_inv Async g" and "ok s"
    and "overlay Y content g s (components (full_path p)) = Some t"
    and "tx_fits (operations tx) t"
  shows "\<exists>r k' g' s' n. transaction_await Y io late k g s p tx = Some (r, k', g', s') \<and>
    guard_inv Async g' \<and> ok s' \<and> n \<le> length (edit_steps (operations tx)) \<and>
    (r = Dropped \<or> n = length (edit_steps (operations tx))) \<and>
    overlay Y content g' s' = (overlay Y content g s)
      (components (full_path p) \<mapsto> text_spec (take n (edit_steps (operations tx))) t)"
  using assms(2-) by (rule path_store.transaction_await_overlay [OF assms(1)])

text \<open>C17: Dropping the future of a flush. A snapshot can be dropped at any await: every file still
  reads as before, through the buffers. The futures that let a file or a folder go take the buffer
  out of the table before they save it: dropped with a save in flight that is lost, one buffer's
  unsaved edits are lost and its file reads as the store had it; nothing else changes, and with no
  lost save every file still reads as before.\<close>

theorem dropped_flush_loses_one_buffer:
  assumes "path_store io content ok" and "guard_inv Async g" and "ok s"
  shows "(case snapshot_await Y io late k g s of (r, k', g', s') \<Rightarrow>
      guard_inv Async g' \<and> ok s' \<and> overlay Y content g' s' = overlay Y content g s)
    \<and> (case drop_file_await Y io late k g s p of (r, k', g', s') \<Rightarrow>
      guard_inv Async g' \<and> ok s' \<and> (overlay Y content g' s' = overlay Y content g s \<or>
        r = Dropped \<and> \<not> late \<and> overlay Y content g' s' =
          (overlay Y content g s)(components (full_path p) := content s (components (full_path p)))))
    \<and> (case drop_dir_await Y io late k g s dir of (r, k', g', s') \<Rightarrow>
      guard_inv Async g' \<and> ok s' \<and> (overlay Y content g' s' = overlay Y content g s \<or>
        r = Dropped \<and> \<not> late \<and> (\<exists>n. prefix (components (full_path dir)) n \<and> hm_abs components g n \<noteq> None \<and>
          overlay Y content g' s' = (overlay Y content g s)(n := content s n))))"
  using path_store.snapshot_await_overlay [OF assms, of Y late k] path_store.drop_file_await_overlay [OF assms, of Y late k p]
    path_store.drop_dir_await_overlay [OF assms, of Y late k dir]
  by (auto split: prod.split)

section \<open>Concrete futures\<close>

definition cut_store :: amem_io where
  "cut_store = \<lparr>amem_files = [(''a'', [1])]\<rparr>"

definition cut_guard :: "ustring file_map" where
  "cut_guard = [(''a'', (mf_new [5] (plain_file ''a'') Async)\<lparr>ops_since_save := 1\<rparr>)]"

lemma cut_facts: "amem_ok cut_store" "guard_inv Async cut_guard"
  "overlay list_yrs amem_content cut_guard cut_store (components ''a'') = Some [5]"
  by (simp_all add: cut_store_def amem_ok_def hm_inv_def hm_keys_def cut_guard_def guard_inv_Cons mf_new_def
      overlay_def hm_abs_Cons mf_contents_def list_yrs_def)

text \<open>A transaction dropped at the save between the deletion and the insertion of a swap.\<close>

definition cut_tx :: transaction where
  "cut_tx = Transaction [Swap \<lparr>swap_position = \<lparr>col = 0, line = 0\<rparr>, swap_length = 1, swap_content = [7, 8]\<rparr>]"

lemma dropped_transaction_keeps_a_prefix_witness:
  "\<exists>r k' g' s' n. transaction_await list_yrs amem_file_io False 0 cut_guard cut_store (plain_file ''a'') cut_tx =
      Some (r, k', g', s') \<and>
    overlay list_yrs amem_content g' s' = (overlay list_yrs amem_content cut_guard cut_store)
      (components ''a'' \<mapsto> text_spec (take n (edit_steps (operations cut_tx))) [5])"
proof -
  have "tx_fits (operations cut_tx) [5]" by (simp add: tx_fits_def cut_tx_def len_utf8_def)
  then show ?thesis
    using dropped_transaction_keeps_a_prefix [OF amem_paths.path_store_axioms list_yrs_laws cut_facts(2,1),
        of "plain_file ''a''" "[5]" cut_tx False 0] cut_facts(3) by (simp only: full_path_plain) blast
qed

lemma cut_drop_loses_edits:
  "drop_file_await list_yrs amem_file_io False 0 cut_guard cut_store (plain_file ''a'') = (Dropped, 0, [], cut_store)"
  "overlay list_yrs amem_content [] cut_store (components ''a'') = Some [1]"
  by (simp_all add: drop_file_await_def cut_guard_def map_key_def hm_get_def hm_abs_Cons hm_remove_def save_await_def
      write_await_def mf_drop_def mf_new_def drop_flush_def overlay_def amem_content_def cut_store_def)

definition cut_dir :: folder_path where
  "cut_dir = \<lparr>rel_path = ''b'', root_path = [], full_path = ''b'', path_type = PhantomData\<rparr>"

lemma dropped_flush_loses_one_buffer_witness:
  "(case drop_file_await list_yrs amem_file_io False 0 cut_guard cut_store (plain_file ''a'') of (r, k', g', s') \<Rightarrow>
      r = Dropped \<and> overlay list_yrs amem_content g' s' =
        (overlay list_yrs amem_content cut_guard cut_store)(components ''a'' := Some [1]))"
  using dropped_flush_loses_one_buffer [OF amem_paths.path_store_axioms cut_facts(2,1),
      of list_yrs False 0 "plain_file ''a''" cut_dir] cut_drop_loses_edits cut_facts(3)
  by (auto simp: amem_content_def cut_store_def hm_abs_Cons fun_eq_iff dest: fun_cong [of _ _ "components ''a''"])

end
