(* ===== verification/Spec2Isabelle.thy ===== *)
theory Spec2Isabelle
  imports Files_Api Disk Browser_Calls Streamer Task_Demo Frontend Migration_Demo Pools Async_Cancel
begin

text \<open>
  A verification development for the \<open>saps\<close> server library.

  The program is a Rust library that servers are built from. It has two halves, which meet in
  \<open>errors/\<close> only. The \<open>files\<close> half gives typed paths, storage engines with one interface (memory,
  redb, disk, IndexedDB), collaborative text buffers held in front of an engine by a guard, and a
  file API of free functions over engine and guard. The server half keeps sessions in a PostgreSQL
  table (\<open>auth/dal\<close>), hands out and checks JWTs that name them (\<open>auth/token\<close>), runs background tasks
  from a table (\<open>background_tasks\<close>) and fills that table from cron schedules (\<open>scheduled_tasks\<close>).

  \<^bold>\<open>Theories and sources\<close> (all under \<open>src/saps/src\<close> unless said otherwise)

  \<^item> \<open>Prelude\<close>: results as sums (\<open>res_bind\<close>, \<open>map_err\<close>, \<open>st_bind\<close>), trimming and splitting of strings,
    lemmas on lists and on functional updates.
  \<^item> \<open>Paths\<close>: \<open>files/paths.rs\<close>, \<open>files/adapters\<close>. A typestate path is the record \<open>typed_path\<close>; file and
    folder paths are its two instances. \<open>std::path\<close> on Unix is modelled by \<open>components\<close>, \<open>push\<close> and
    their relatives.
  \<^item> \<open>Stores\<close>: the traits \<open>FileIo\<close> and \<open>FolderIo\<close> as records of operations, and the locales that say
    what a store promises; \<open>Mem_Engine\<close>: \<open>engines/\<close>, \<open>files/\<close> and \<open>folders/\<close> for memory, blocking and
    async, with the hash map in any order; \<open>Kv_Engine\<close>: the same for redb, over the database crate as
    a parameter with failing calls; \<open>Idb_Engine\<close>: the same for IndexedDB, with the transactions of the
    browser's database as a parameter. These engines interpret the locales.
  \<^item> \<open>Disk_Fs\<close>: the calls of \<open>std::fs\<close> on a tree of nodes, the record \<open>disk\<close>, where each system call may
    be refused; \<open>Disk_Facts\<close> and \<open>Disk_Trees\<close>: what they do to the tree; \<open>Disk_Engine\<close>: \<open>engines/\<close>, \<open>files/\<close>
    and \<open>folders/blocking_io/disk.rs\<close>; \<open>Disk_Copy\<close> and \<open>Disk_Listing\<close>: the two recursions over a folder;
    \<open>Disk\<close>: what the operations promise.
  \<^item> \<open>Text_Edit\<close>: \<open>kernel/transaction.rs\<close> and \<open>tx_utils.rs\<close>, cursors to UTF-8 byte offsets in 32 bits,
    edits over the CRDT crate as a parameter; \<open>Mem_File\<close>: one buffer with its unsaved edits;
    \<open>Guard\<close>: the buffers in front of a store, blocking and async; \<open>Files_Api\<close>: \<open>files/api\<close>.
    \<open>Async_Cancel\<close>: the async operations of buffer and guard once more, await by await, with futures that
    are dropped before they end.
  \<^item> \<open>Streamer\<close>: \<open>mem_files/streamer.rs\<close>, the states sent to a joining replica; \<open>Browser\<close>:
    \<open>mem_files/browser_state.rs\<close>, the thread-local session as the record \<open>browser\<close>, each call run without
    interruption; \<open>Browser_Calls\<close>: the same calls cut at their awaits, any number of them in flight, as the
    step relation \<open>call_step\<close>, which refines a session of texts, \<open>text_step\<close>.
  \<^item> \<open>Errors\<close>: \<open>errors/saps.rs\<close>. \<open>Json\<close>: the \<open>jsonb\<close> values and operators that the SQL uses
    (containment, \<open>jsonb_set\<close>, \<open>-\<close>, \<open>->\<close>).
  \<^item> \<open>Auth_Session\<close>: \<open>auth/dal/model.rs\<close>. The table \<open>saps.auth_sessions\<close> is a list of \<open>session_row\<close> in the
    record \<open>auth_db\<close>, with the clock, the UUIDs still to be drawn, the unique indexes and the state of
    the connection; a SQL statement is \<open>sql_select\<close>, \<open>sql_insert\<close>, \<open>sql_update\<close> or \<open>sql_delete\<close>.
    \<open>Auth_Txs\<close>: the transactions of \<open>auth/dal/postgres_txs.rs\<close>, one definition each, the stored
    procedure \<open>saps.ping\<close> (\<open>saps_ping\<close>), the step relation \<open>auth_step\<close> and its invariant \<open>auth_inv\<close>.
    \<open>Auth_Life\<close>: the life of a credential. \<open>Auth_Meta\<close>: the metadata of sessions.
  \<^item> \<open>Roles\<close>: \<open>auth/token/checks.rs\<close>. \<open>Config\<close>: \<open>config.rs\<close>. \<open>Token\<close>: \<open>auth/token/helper_methods\<close>,
    \<open>cookies.rs\<close>, \<open>refresh_policy.rs\<close>, \<open>auth/middleware\<close>, \<open>auth/utils\<close>. \<open>Header_Token\<close>:
    \<open>auth/token/header_token.rs\<close> and \<open>login.rs\<close>. \<open>Auth_Flow\<close>: the flow from login to an authenticated
    request. \<open>Auth_Demo\<close>: concrete libraries and tables.
  \<^item> \<open>Tasks\<close>: \<open>background_tasks\<close>, \<open>scheduled_tasks\<close> and the macro \<open>src/macros/background-task\<close>; the two
    tables are the record \<open>task_db\<close>, one turn of a worker or of the scheduler is one function.
    \<open>Task_Queue\<close>: the pool of workers as the step relation \<open>pool_step\<close>, scheduling.
    \<open>Cycles\<close>: the loops that repeat those turns, with the time a turn of the scheduler takes and with
    their sleeps, what spawns them, and draining. \<open>Task_Demo\<close>: concrete tables.
  \<^item> \<open>Sql_Schema\<close>: the statements of PostgreSQL the migrations use, on a database of typed tables, the record
    \<open>pg\<close>. \<open>Migrations\<close>: the scripts of the three \<open>dal/model.rs\<close> and \<open>dal/migrations.rs\<close>; what they do to a row
    of an older version is \<open>upgraded_row\<close>; \<open>auth_db_of\<close> and \<open>task_db_of\<close> read a migrated database, and fill in
    nothing, as the tables of \<open>Auth_Session\<close> and \<open>Tasks\<close>. \<open>Row_Decoding\<close>: \<open>from_row\<close> on typed columns. \<open>Migration_Demo\<close>: a database of the first version.
  \<^item> \<open>Pools\<close>: \<open>dal/connections.rs\<close>, \<open>dal/embedded_connections.rs\<close>, \<open>auth/dal/run_script.rs\<close> and what the macros of
    \<open>src/macros\<close> for pools and for tests generate.
  \<^item> \<open>Frontend\<close>: what the routes answer that \<open>mount_frontend!\<close> of \<open>src/macros/frontend\<close> generates.

  \<^bold>\<open>What the lemmas show\<close>

  The abstract specification of the file half is a map from paths to texts: every operation of an
  engine, of a guard over any engine that satisfies the locale, and of the API refines one update of
  that map, unsaved edits included, and on an error the store is unchanged. Byte offsets are the
  lengths they stand for and no slice panics. Path navigation keeps full, root and relative path
  consistent and walking up is confined to the root. The browser's session is such a map too, also
  while calls overlap, and a flush that runs alone and succeeds writes it to the databases, if their
  commits do not abort; the stream of a guard rebuilds it elsewhere. An async call that is dropped
  half way has made some of its edits in order, if it is a transaction, and has lost one buffer at
  most, if it is a flush; the pieces of each such call make up the whole call. On disk,
  where folders exist of their own and the system may refuse any call, the specification is the map
  from places to nodes: every operation leaves a tree, what returns \<open>Ok\<close> has done what the other
  engines promise, and what fails has touched nothing but the place it names.

  The abstract specification of a session is the set of credentials it accepts at a time
  (\<open>accepted\<close>). \<open>saps.ping\<close> implements it; rotation and logout end a credential for good in every state
  the database can reach, by an invariant of all transactions (ids and previous ids of different rows
  are apart); a request is authenticated exactly through such a credential; login and rotation hand
  out cookies that work. Metadata reads back, swaps have one winner, unique keys stay unique.

  A task is started at most once under any interleaving, a worker drains its queue oldest first, marking
  what returned \<open>Ok\<close> as completed and what panicked as exited, and the scheduler posts each due schedule
  once. Its loop, while nobody else changes the table, leaves a free schedule alone until it is due and
  posts it less than one interval and two turns later. The migrations bring any version of the tables
  to the one the models are about: the sessions keep their values and get a previous id and a time of
  minting where they had none, the queue is untouched, and every row decodes to what the models
  hold; a pool, once made, is kept. A mounted
  front end answers a request with the application's route, an embedded file, its \<open>index.html\<close>, or 404.

  \<^bold>\<open>Bounds and assumptions\<close>

  The two walks over a folder on disk take a depth they may recurse to; the length of the longest path
  on the disk is enough. Text offsets are exact below 4 GiB (\<open>fits\<close>); a buffer saves at five edits (\<open>SAVE_THRESHOLD\<close>). Idle
  sessions end after ten minutes, ids rotate after five, and the previous id is accepted for ten
  seconds. UUIDs are the stream \<open>uuids\<close>, and a statement over a run assumes that the first \<open>n\<close> of them
  are distinct and that fewer are drawn. Times are integers of microseconds; the clock of the server
  and the one of the database are the same. A SQL statement, a stored procedure or a transaction is
  one atomic step; rows another transaction holds are a parameter of the statements that skip them.
  A query without an order takes the first row of the table, and rows an update returns come in the
  order of the table, where SQL leaves both open. A \<open>jsonb\<close> column takes every JSON value; PostgreSQL
  refuses strings with a NUL. No parameter of a background task is named \<open>input_val\<close>, which the
  generated handler binds itself. A commit of redb that fails has published nothing (\<open>redb_laws\<close>): this
  is what atomic transactions mean, not a sentence of that crate's documentation. A transaction of
  IndexedDB whose requests have succeeded may still abort; where a theorem needs that it does not,
  \<open>idb_commits\<close> says so. On disk, a rename of a folder path that ends in \<open>.\<close> or \<open>..\<close> is taken as any other,
  and a copy that cannot set the permissions is one of the refusals. Role names and header values are
  ASCII where case is folded. The CRDT, redb, JWT, base64, cron and serialisation crates are
  parameters; what a theorem needs of them is a hypothesis (\<open>token_laws\<close>, the locales), and a concrete
  instance satisfies it.

  \<^bold>\<open>Not modelled\<close>

  Futures dropped half way of the file API, of the browser session (its calls overlap, but each goes on
  or waits for ever) and of the database calls (each is one step); a panic of \<open>yield_pool\<close> in a worker's
  turn; links, permissions and other processes on the disk; the traits and the macro that only name a
  transaction (\<open>dal/define_transactions.rs\<close>, \<open>src/macros/db-tx\<close>); tracing; the example servers and the
  command line, which only call the library; and what lies behind the crates that are parameters.
\<close>

end
